(* ===== verification/Prelude.thy ===== *)
theory Prelude
  imports Main
begin

text \<open>
  Shared vocabulary of the development: the lemma collections, and the string operations of
  Python's standard library that the modelled modules call (\<open>str.strip\<close>, \<open>str.split\<close>,
  \<open>str.startswith\<close>, \<open>in\<close>, \<open>str.partition\<close>, \<open>str.lower\<close>, \<open>str.rsplit("/", 1)[-1]\<close>).

  A Python \<open>str\<close> is a \<open>string\<close> (a list of \<open>char\<close>): a character is one code point in the
  Latin-1 range 0 to 255. Code points above 255 are outside the model. White space and
  case folding follow Python's tables on this range.
\<close>

named_theorems pystr "facts about the Python string operations"
named_theorems nonblank_simps "facts about the non-blank characters of a string"

section \<open>White space\<close>

definition space_codes :: "nat list" where
  "space_codes = [9, 10, 11, 12, 13, 28, 29, 30, 31, 32, 133, 160]"

definition py_space :: "char \<Rightarrow> bool" where
  "py_space c \<longleftrightarrow> List.member space_codes (of_char c)"

definition lstrip :: "string \<Rightarrow> string" where
  "lstrip s = dropWhile py_space s"

definition rstrip :: "string \<Rightarrow> string" where
  "rstrip s = rev (dropWhile py_space (rev s))"

definition strip :: "string \<Rightarrow> string" where
  "strip s = rstrip (lstrip s)"

definition nonblank :: "string \<Rightarrow> string" where
  "nonblank s = filter (\<lambda>c. \<not> py_space c) s"

lemma nonblank_Nil [nonblank_simps]: "nonblank [] = []"
  by (simp add: nonblank_def)

lemma nonblank_Cons [nonblank_simps]:
  "nonblank (c # s) = (if py_space c then nonblank s else c # nonblank s)"
  by (simp add: nonblank_def)

lemma nonblank_append [nonblank_simps]: "nonblank (s @ t) = nonblank s @ nonblank t"
  by (simp add: nonblank_def)

lemma filter_dropWhile_not: "filter (\<lambda>x. \<not> P x) (dropWhile P xs) = filter (\<lambda>x. \<not> P x) xs"
  by (induction xs) auto

lemma nonblank_lstrip [nonblank_simps]: "nonblank (lstrip s) = nonblank s"
  by (simp add: nonblank_def lstrip_def filter_dropWhile_not)

lemma nonblank_rstrip [nonblank_simps]: "nonblank (rstrip s) = nonblank s"
proof -
  have "filter (\<lambda>c. \<not> py_space c) (rev (dropWhile py_space (rev s)))
      = rev (filter (\<lambda>c. \<not> py_space c) (rev s))"
    by (simp only: rev_filter [symmetric] filter_dropWhile_not)
  then show ?thesis by (simp add: nonblank_def rstrip_def rev_filter)
qed

lemma nonblank_strip [nonblank_simps]: "nonblank (strip s) = nonblank s"
  by (simp add: strip_def nonblank_simps)

lemma strip_Nil [simp, pystr]: "strip [] = []"
  by (simp add: strip_def lstrip_def rstrip_def)

lemma dropWhile_idem: "dropWhile P (dropWhile P xs) = dropWhile P xs"
  by (induction xs) auto

lemma dropWhile_id: "xs = [] \<or> \<not> P (hd xs) \<Longrightarrow> dropWhile P xs = xs"
  by (cases xs) auto

lemma rstrip_head: "\<not> py_space c \<Longrightarrow> rstrip (c # s) \<noteq> [] \<and> hd (rstrip (c # s)) = c"
proof -
  assume c: "\<not> py_space c"
  show ?thesis
  proof (cases "\<forall>x \<in> set s. py_space x")
    case True
    then have "dropWhile py_space (rev s @ [c]) = dropWhile py_space [c]"
      by (intro dropWhile_append2) auto
    then have "dropWhile py_space (rev s @ [c]) = [c]"
      using c by simp
    then show ?thesis by (simp add: rstrip_def)
  next
    case False
    then obtain y where "y \<in> set (rev s)" "\<not> py_space y" by auto
    then have "dropWhile py_space (rev s @ [c]) = dropWhile py_space (rev s) @ [c]"
      by (rule dropWhile_append1)
    then show ?thesis by (simp add: rstrip_def)
  qed
qed

lemma lstrip_cases: "lstrip s = [] \<or> (\<exists>c t. lstrip s = c # t \<and> \<not> py_space c)"
  by (metis hd_dropWhile list.collapse lstrip_def)

lemma strip_idem [simp, pystr]: "strip (strip s) = strip s"
proof -
  have r: "rstrip (rstrip t) = rstrip t" for t
    by (simp add: rstrip_def dropWhile_idem)
  have "lstrip (rstrip (lstrip s)) = rstrip (lstrip s)"
    using lstrip_cases [of s]
  proof
    assume e: "lstrip s = []"
    show ?thesis unfolding e by (simp add: rstrip_def lstrip_def)
  next
    assume "\<exists>c t. lstrip s = c # t \<and> \<not> py_space c"
    then obtain c t where ct: "lstrip s = c # t" "\<not> py_space c" by blast
    show ?thesis unfolding ct(1)
      using rstrip_head [OF ct(2), of t] ct(2) by (simp add: lstrip_def dropWhile_id)
  qed
  then show ?thesis by (simp add: strip_def r)
qed

lemma strip_eq_Nil_iff [pystr]: "strip s = [] \<longleftrightarrow> nonblank s = []"
proof
  assume "strip s = []"
  then show "nonblank s = []" using nonblank_strip [of s] by (simp add: nonblank_simps)
next
  assume "nonblank s = []"
  then have "\<forall>c \<in> set s. py_space c" by (simp add: nonblank_def filter_empty_conv)
  then have "lstrip s = []" by (auto simp: lstrip_def dropWhile_eq_Nil_conv)
  then show "strip s = []" by (simp add: strip_def rstrip_def)
qed

lemma strip_not_Nil_first: "strip s \<noteq> [] \<Longrightarrow> \<not> py_space (hd (strip s))"
  by (metis list.sel(1) lstrip_cases rstrip_def rstrip_head strip_def dropWhile.simps(1) rev.simps(1))

lemma dropWhile_subset: "set (dropWhile P xs) \<subseteq> set xs"
  by (auto dest: set_dropWhileD)

lemma set_strip: "set (strip s) \<subseteq> set s"
  unfolding strip_def lstrip_def rstrip_def
  using dropWhile_subset [of py_space s] dropWhile_subset [of py_space "rev (dropWhile py_space s)"]
  by auto

lemma lstrip_id: "s \<noteq> [] \<Longrightarrow> \<not> py_space (hd s) \<Longrightarrow> lstrip s = s"
  by (cases s) (simp_all add: lstrip_def)

lemma strip_fixed_iff: "strip s = s \<longleftrightarrow> s = [] \<or> \<not> py_space (hd s) \<and> \<not> py_space (last s)"
proof (cases "s = []")
  case False
  have "\<not> py_space (last s)" if "strip s = s"
  proof 
    assume p: "py_space (last s)"
    have "s = rstrip (lstrip s)" using that by (simp add: strip_def)
    then have "rev s = dropWhile py_space (rev (lstrip s))" by (metis rstrip_def rev_rev_ident)
    then have "\<not> py_space (hd (rev s))" using False by (metis hd_dropWhile rev_is_Nil_conv)
    then show False using p False by (simp add: hd_rev)
  qed
  moreover have "\<not> py_space (hd s)" if "strip s = s"
    using strip_not_Nil_first [of s] that False by simp
  moreover have "strip s = s" if "\<not> py_space (hd s)" "\<not> py_space (last s)"
  proof -
    have "dropWhile py_space (rev s) = rev s" using that(2) False by (intro dropWhile_id) (simp add: hd_rev)
    then show ?thesis using that(1) False by (simp add: strip_def lstrip_id rstrip_def)
  qed
  ultimately show ?thesis using False by blast
qed simp

section \<open>Prefixes, containment, splitting\<close>

definition startswith :: "string \<Rightarrow> string \<Rightarrow> bool" where
  "startswith s p \<longleftrightarrow> take (length p) s = p"

definition endswith :: "string \<Rightarrow> string \<Rightarrow> bool" where
  "endswith s p \<longleftrightarrow> take (length p) (rev s) = rev p"

fun contains :: "string \<Rightarrow> string \<Rightarrow> bool" where
  "contains [] t \<longleftrightarrow> t = []"
| "contains (c # s) t \<longleftrightarrow> startswith (c # s) t \<or> contains s t"

fun split_char :: "char \<Rightarrow> string \<Rightarrow> string list" where
  "split_char d [] = [[]]"
| "split_char d (c # s) =
     (if c = d then [] # split_char d s
      else (case split_char d s of [] \<Rightarrow> [[c]] | x # xs \<Rightarrow> (c # x) # xs))"

text \<open>\<open>s.rsplit("/", 1)[-1]\<close>: what follows the last slash, the whole string if there is none.\<close>

definition basename :: "string \<Rightarrow> string" where
  "basename s = rev (takeWhile (\<lambda>c. c \<noteq> CHR ''/'') (rev s))"

definition before_char :: "char \<Rightarrow> string \<Rightarrow> string" where
  "before_char d s = takeWhile (\<lambda>c. c \<noteq> d) s"

definition after_char :: "char \<Rightarrow> string \<Rightarrow> string" where
  "after_char d s = drop 1 (dropWhile (\<lambda>c. c \<noteq> d) s)"

definition rstrip_slash :: "string \<Rightarrow> string" where
  "rstrip_slash s = rev (dropWhile (\<lambda>c. c = CHR ''/'') (rev s))"

definition replace_char :: "char \<Rightarrow> char \<Rightarrow> string \<Rightarrow> string" where
  "replace_char a b s = map (\<lambda>c. if c = a then b else c) s"

lemma startswith_iff [pystr]: "startswith s p \<longleftrightarrow> (\<exists>t. s = p @ t)"
proof
  assume "startswith s p"
  then have "s = p @ drop (length p) s" by (metis append_take_drop_id startswith_def)
  then show "\<exists>t. s = p @ t" by blast
qed (auto simp: startswith_def)

lemma startswith_append [simp]: "startswith (p @ t) p"
  by (simp add: startswith_def)

lemma startswith_Nil [simp]: "startswith s []"
  by (simp add: startswith_def)

lemma startswith_Cons [simp]:
  "startswith (c # s) (d # p) \<longleftrightarrow> c = d \<and> startswith s p"
  by (auto simp: startswith_def)

lemma not_startswith_Nil [simp]: "\<not> startswith [] (d # p)"
  by (simp add: startswith_def)

lemma startswith_contains: "startswith s t \<Longrightarrow> contains s t"
  by (cases s) (auto simp: startswith_def)

lemma contains_iff [pystr]: "contains s t \<longleftrightarrow> (\<exists>u v. s = u @ t @ v)"
proof (induction s)
  case Nil
  then show ?case by auto
next
  case (Cons c s)
  show ?case
  proof
    assume "contains (c # s) t"
    then consider "startswith (c # s) t" | "contains s t" by auto
    then show "\<exists>u v. c # s = u @ t @ v"
    proof cases
      case 1
      then show ?thesis by (metis startswith_iff append_Nil)
    next
      case 2
      then show ?thesis using Cons by (metis append_Cons)
    qed
  next
    assume "\<exists>u v. c # s = u @ t @ v"
    then obtain u v where uv: "c # s = u @ t @ v" by blast
    show "contains (c # s) t"
    proof (cases u)
      case Nil
      then show ?thesis using uv startswith_contains [of "c # s" t] by simp
    next
      case (Cons a u')
      then show ?thesis using uv Cons.IH by auto
    qed
  qed
qed

section \<open>Case folding\<close>

text \<open>\<open>str.lower\<close> on Latin-1: A to Z, and the accented capitals 192 to 222 except 215.\<close>

definition lower_char :: "char \<Rightarrow> char" where
  "lower_char c =
     (let n = (of_char c :: nat)
      in if 65 \<le> n \<and> n \<le> 90 \<or> 192 \<le> n \<and> n \<le> 222 \<and> n \<noteq> 215 then char_of (n + 32) else c)"

definition lower :: "string \<Rightarrow> string" where
  "lower s = map lower_char s"

section \<open>Joining\<close>

fun join :: "string \<Rightarrow> string list \<Rightarrow> string" where
  "join sep [] = []"
| "join sep [x] = x"
| "join sep (x # y # ys) = x @ sep @ join sep (y # ys)"

lemma split_char_no: "d \<notin> set x \<Longrightarrow> split_char d x = [x]"
  by (induction x) auto

lemma split_char_head: "d \<notin> set x \<Longrightarrow> split_char d (x @ d # s) = x # split_char d s"
  by (induction x) auto

lemma split_char_join: "xs \<noteq> [] \<Longrightarrow> \<forall>x \<in> set xs. d \<notin> set x \<Longrightarrow> split_char d (join [d] xs) = xs"
  by (induction "[d]" xs rule: join.induct) (simp_all add: split_char_no split_char_head)

section \<open>Lists and options\<close>

lemma find_Some_D: "List.find P xs = Some x \<Longrightarrow> x \<in> set xs \<and> P x"
  by (auto simp: find_Some_iff in_set_conv_nth)

lemma find_None_D: "List.find P xs = None \<Longrightarrow> x \<in> set xs \<Longrightarrow> \<not> P x"
  by (auto simp: find_None_iff)

lemma find_append: "List.find P (xs @ ys) = (case List.find P xs of None \<Rightarrow> List.find P ys | Some x \<Rightarrow> Some x)"
  by (induction xs) auto

text \<open>A value that is present and not empty (Python's truth test of an optional string).\<close>

definition given :: "string option \<Rightarrow> string option" where
  "given x = (case x of None \<Rightarrow> None | Some s \<Rightarrow> if s = [] then None else Some s)"

section \<open>Decimal numbers\<close>

fun decimal :: "nat \<Rightarrow> string" where
  "decimal n = (if n < 10 then [char_of (48 + n)] else decimal (n div 10) @ [char_of (48 + n mod 10)])"

declare decimal.simps [simp del]

definition decimal_int :: "int \<Rightarrow> string" where
  "decimal_int i = (if i < 0 then CHR ''-'' # decimal (nat (- i)) else decimal (nat i))"

section \<open>Dictionaries\<close>

text \<open>A Python dict: a new key goes to the end, an existing one keeps its place.\<close>

fun dict_put :: "'k \<Rightarrow> 'v \<Rightarrow> ('k \<times> 'v) list \<Rightarrow> ('k \<times> 'v) list" where
  "dict_put k v [] = [(k, v)]"
| "dict_put k v (p # ps) = (if fst p = k then (k, v) # ps else p # dict_put k v ps)"

definition dict_pop :: "'k \<Rightarrow> ('k \<times> 'v) list \<Rightarrow> ('k \<times> 'v) list" where
  "dict_pop k ps = filter (\<lambda>p. fst p \<noteq> k) ps"

lemma map_of_dict_put [simp]: "map_of (dict_put k v ps) = (map_of ps)(k \<mapsto> v)"
  by (induction ps) auto

lemma map_of_dict_pop [simp]: "map_of (dict_pop k ps) = (map_of ps)(k := None)"
  by (induction ps) (auto simp: dict_pop_def)

lemma keys_dict_put [simp]: "fst ` set (dict_put k v ps) = insert k (fst ` set ps)"
  by (induction ps) auto

lemma keys_dict_pop [simp]: "fst ` set (dict_pop k ps) = fst ` set ps - {k}"
  by (auto simp: dict_pop_def image_iff)

lemma distinct_dict_put: "distinct (map fst ps) \<Longrightarrow> distinct (map fst (dict_put k v ps))"
proof (induction ps)
  case (Cons p ps)
  then show ?case using keys_dict_put [of k v ps] by auto
qed simp

lemma distinct_dict_pop: "distinct (map fst ps) \<Longrightarrow> distinct (map fst (dict_pop k ps))"
  by (simp add: dict_pop_def distinct_map_filter)

lemma set_dict_put: "set (dict_put k v ps) \<subseteq> insert (k, v) (set ps)"
  by (induction ps) auto

lemma set_dict_pop: "set (dict_pop k ps) \<subseteq> set ps"
  by (auto simp: dict_pop_def)

end
