(* ===== verification/PyText.thy ===== *)
theory PyText
  imports Prelude
begin

text \<open>
  The text routines of Python's standard library that the permission layer rests on:
  \<open>fnmatch.fnmatch\<close> and \<open>glob.escape\<close> (rule patterns), \<open>shlex.split\<close> and \<open>shlex.quote\<close> in
  POSIX mode (command tokens), \<open>posixpath.join\<close>, \<open>posixpath.normpath\<close> and the lexical part of
  \<open>pathlib.PurePosixPath\<close> (paths). They are definitions, not parameters: the modules call them
  on every decision, and the theorems about rules and commands are theorems about them.
\<close>

section \<open>fnmatch\<close>

datatype pat_item = Chr char | Rng char char

datatype pat_tok = PStar | PAny | PLit char | PSet bool "pat_item list" | PNever

fun item_matches :: "char \<Rightarrow> pat_item \<Rightarrow> bool" where
  "item_matches c (Chr d) \<longleftrightarrow> c = d"
| "item_matches c (Rng a b) \<longleftrightarrow> (of_char a :: nat) \<le> of_char c \<and> (of_char c :: nat) \<le> of_char b"

text \<open>
  The text between \<open>[\<close> and its closing bracket, and what follows. A \<open>!\<close> and then a \<open>]\<close> right
  after the bracket belong to the set. \<open>None\<close>: no closing bracket, the \<open>[\<close> is literal.
\<close>

definition take_opt :: "char \<Rightarrow> string \<Rightarrow> string \<times> string" where
  "take_opt d s = (case s of [] \<Rightarrow> ([], []) | c # t \<Rightarrow> if c = d then ([c], t) else ([], s))"

definition bracket :: "string \<Rightarrow> (string \<times> string) option" where
  "bracket s =
     (let (p0, s1) = take_opt (CHR ''!'') s;
          (p1, s2) = take_opt (CHR '']'') s1
      in if List.member s2 (CHR '']'')
         then Some (p0 @ p1 @ takeWhile (\<lambda>c. c \<noteq> CHR '']'') s2,
                    drop 1 (dropWhile (\<lambda>c. c \<noteq> CHR '']'') s2))
         else None)"

fun set_items :: "string \<Rightarrow> pat_item list" where
  "set_items (x # y # z # r) =
     (if y = CHR ''-'' then Rng x z # set_items r else Chr x # set_items (y # z # r))"
| "set_items [x, y] = [Chr x, Chr y]"
| "set_items [x] = [Chr x]"
| "set_items [] = []"

fun nonempty_item :: "pat_item \<Rightarrow> bool" where
  "nonempty_item (Chr c) \<longleftrightarrow> True"
| "nonempty_item (Rng a b) \<longleftrightarrow> (of_char a :: nat) \<le> of_char b"

definition set_stuff :: "string \<Rightarrow> pat_item list" where
  "set_stuff body =
     filter nonempty_item
       (case body of
          [] \<Rightarrow> []
        | c # r \<Rightarrow> if c = CHR ''!'' then Chr c # set_items r else set_items body)"

definition set_tok :: "pat_item list \<Rightarrow> pat_tok" where
  "set_tok items =
     (case items of
        [] \<Rightarrow> PNever
      | Chr c # r \<Rightarrow> if c = CHR ''!'' then (if r = [] then PAny else PSet True r) else PSet False items
      | Rng a b # r \<Rightarrow> if a = CHR ''!'' then PSet True (Chr (CHR ''-'') # Chr b # r) else PSet False items)"

lemma take_opt_length: "take_opt d s = (p, t) \<Longrightarrow> length t \<le> length s"
  by (auto simp: take_opt_def split: list.splits if_splits)

lemma bracket_shorter [termination_simp]:
  "bracket s = Some (body, rest) \<Longrightarrow> length rest < Suc (length s)"
proof -
  assume b: "bracket s = Some (body, rest)"
  obtain p0 s1 where 1: "take_opt (CHR ''!'') s = (p0, s1)" by fastforce
  obtain p1 s2 where 2: "take_opt (CHR '']'') s1 = (p1, s2)" by fastforce
  have "length rest \<le> length s2"
    using b 1 2 length_dropWhile_le [of "\<lambda>c. c \<noteq> CHR '']''" s2]
    by (auto simp: bracket_def split: if_splits)
  then show ?thesis
    using take_opt_length [OF 1] take_opt_length [OF 2] by simp
qed

fun translate :: "string \<Rightarrow> pat_tok list" where
  "translate [] = []"
| "translate (c # p) =
     (if c = CHR ''*'' then PStar # translate p
      else if c = CHR ''?'' then PAny # translate p
      else if c = CHR ''['' then
        (case bracket p of
           None \<Rightarrow> PLit c # translate p
         | Some (body, rest) \<Rightarrow> set_tok (set_stuff body) # translate rest)
      else PLit c # translate p)"

fun tok_match :: "pat_tok list \<Rightarrow> string \<Rightarrow> bool" where
  "tok_match [] s \<longleftrightarrow> s = []"
| "tok_match (PStar # ts) [] \<longleftrightarrow> tok_match ts []"
| "tok_match (PStar # ts) (c # s) \<longleftrightarrow> tok_match ts (c # s) \<or> tok_match (PStar # ts) s"
| "tok_match (t # ts) [] \<longleftrightarrow> False"
| "tok_match (PAny # ts) (c # s) \<longleftrightarrow> tok_match ts s"
| "tok_match (PLit d # ts) (c # s) \<longleftrightarrow> c = d \<and> tok_match ts s"
| "tok_match (PSet neg items # ts) (c # s) \<longleftrightarrow>
     (list_ex (item_matches c) items \<noteq> neg) \<and> tok_match ts s"
| "tok_match (PNever # ts) (c # s) \<longleftrightarrow> False"

definition fnmatch :: "string \<Rightarrow> string \<Rightarrow> bool" where
  "fnmatch s pat \<longleftrightarrow> tok_match (translate pat) s"

lemma tok_match_star: "tok_match (PStar # ts) s \<longleftrightarrow> (\<exists>u v. s = u @ v \<and> tok_match ts v)"
proof (induction s)
  case Nil
  then show ?case by simp
next
  case (Cons c s)
  show ?case
  proof
    assume "tok_match (PStar # ts) (c # s)"
    then consider "tok_match ts (c # s)" | "tok_match (PStar # ts) s" by auto
    then show "\<exists>u v. c # s = u @ v \<and> tok_match ts v"
      using Cons by cases (metis append_Nil, metis append_Cons)
  next
    assume "\<exists>u v. c # s = u @ v \<and> tok_match ts v"
    then obtain u v where uv: "c # s = u @ v" "tok_match ts v" by blast
    then show "tok_match (PStar # ts) (c # s)"
      using Cons by (cases u) auto
  qed
qed

lemma tok_match_star_only [simp]: "tok_match [PStar] s"
  by (simp add: tok_match_star)

lemma fnmatch_star [simp, pystr]: "fnmatch s ''*''"
  by (simp add: fnmatch_def)

definition literal_char :: "char \<Rightarrow> bool" where
  "literal_char c \<longleftrightarrow> c \<noteq> CHR ''*'' \<and> c \<noteq> CHR ''?'' \<and> c \<noteq> CHR ''[''"

text \<open>Plain text in front of a pattern matches exactly itself.\<close>

lemma translate_literal: "\<forall>c \<in> set s. literal_char c \<Longrightarrow> translate (s @ p) = map PLit s @ translate p"
  by (induction s) (auto simp: literal_char_def)

lemma tok_match_lits: "tok_match (map PLit l @ ts) s \<longleftrightarrow> (\<exists>v. s = l @ v \<and> tok_match ts v)"
proof (induction l arbitrary: s)
  case Nil
  then show ?case by simp
next
  case (Cons d l)
  then show ?case by (cases s) auto
qed

lemma fnmatch_literal_prefix:
  "\<forall>c \<in> set l. literal_char c \<Longrightarrow> fnmatch s (l @ p) \<longleftrightarrow> (\<exists>v. s = l @ v \<and> fnmatch v p)"
  by (simp add: fnmatch_def translate_literal tok_match_lits)

lemma fnmatch_literal: "\<forall>c \<in> set l. literal_char c \<Longrightarrow> fnmatch s l \<longleftrightarrow> s = l"
  using fnmatch_literal_prefix [of l s "[]"] by (simp add: fnmatch_def)

section \<open>glob.escape\<close>

fun glob_escape :: "string \<Rightarrow> string" where
  "glob_escape [] = []"
| "glob_escape (c # s) = (if literal_char c then [c] else [CHR ''['', c, CHR '']'']) @ glob_escape s"

lemma bracket_single:
  "\<not> literal_char c \<Longrightarrow> bracket (c # CHR '']'' # r) = Some ([c], r)"
  by (auto simp: bracket_def take_opt_def literal_char_def)

lemma set_tok_single:
  "\<not> literal_char c \<Longrightarrow> set_tok (set_stuff [c]) = PSet False [Chr c]"
  by (auto simp: set_tok_def set_stuff_def literal_char_def)

definition escaped_tok :: "char \<Rightarrow> pat_tok" where
  "escaped_tok c = (if literal_char c then PLit c else PSet False [Chr c])"

lemma translate_glob_escape: "translate (glob_escape r @ p) = map escaped_tok r @ translate p"
proof (induction r)
  case Nil
  then show ?case by simp
next
  case (Cons c r)
  show ?case
  proof (cases "literal_char c")
    case True
    then show ?thesis using Cons by (auto simp: escaped_tok_def literal_char_def)
  next
    case False
    then show ?thesis using Cons by (simp add: escaped_tok_def bracket_single set_tok_single)
  qed
qed

lemma tok_match_escaped:
  "tok_match (map escaped_tok l @ ts) s \<longleftrightarrow> (\<exists>v. s = l @ v \<and> tok_match ts v)"
proof (induction l arbitrary: s)
  case Nil
  then show ?case by simp
next
  case (Cons d l)
  show ?case
  proof (cases s)
    case Nil
    then show ?thesis by (simp add: escaped_tok_def)
  next
    case (Cons c s')
    then show ?thesis using Cons.IH [of s'] by (auto simp: escaped_tok_def)
  qed
qed

text \<open>
  An escaped directory followed by \<open>/*\<close> matches exactly the paths below that directory,
  whatever characters its name has.
\<close>

lemma fnmatch_glob_escape_tree:
  "fnmatch s (glob_escape r @ ''/*'') \<longleftrightarrow> startswith s (r @ ''/'')"
proof -
  have "fnmatch s (glob_escape r @ ''/*'')
      \<longleftrightarrow> (\<exists>v. s = r @ v \<and> tok_match (map PLit ''/'' @ [PStar]) v)"
    by (simp add: fnmatch_def translate_glob_escape tok_match_escaped)
  also have "\<dots> \<longleftrightarrow> (\<exists>v. s = r @ ''/'' @ v)"
    by (subst tok_match_lits) auto
  finally show ?thesis by (simp add: startswith_iff)
qed

section \<open>shlex.split in POSIX mode\<close>

datatype lex_state = LSpace | LWord | LSingle | LDouble | LEscape | LDEscape

definition shlex_space :: "char \<Rightarrow> bool" where
  "shlex_space c \<longleftrightarrow> List.member [CHR '' '', CHR 0x09, CHR 0x0D, CHR 0x0A] c"

text \<open>
  \<open>lex st quoted tok s\<close> reads \<open>s\<close> from state \<open>st\<close> with the token \<open>tok\<close> begun. \<open>LEscape\<close> and
  \<open>LDEscape\<close> follow a backslash outside and inside double quotes. \<open>None\<close> is the
  \<open>ValueError\<close> of an unclosed quote or a trailing backslash.
\<close>

fun lex :: "lex_state \<Rightarrow> bool \<Rightarrow> string \<Rightarrow> string \<Rightarrow> string list option" where
  "lex LSpace q tok [] = Some []"
| "lex LSpace q tok (c # s) =
     (if shlex_space c then lex LSpace False [] s
      else if c = CHR 0x5C then lex LEscape False [] s
      else if c = CHR 0x27 then lex LSingle False [] s
      else if c = CHR 0x22 then lex LDouble False [] s
      else lex LWord False [c] s)"
| "lex LWord q tok [] = Some (if tok \<noteq> [] \<or> q then [tok] else [])"
| "lex LWord q tok (c # s) =
     (if shlex_space c
      then (if tok \<noteq> [] \<or> q then map_option ((#) tok) (lex LSpace False [] s)
            else lex LSpace False [] s)
      else if c = CHR 0x27 then lex LSingle q tok s
      else if c = CHR 0x22 then lex LDouble q tok s
      else if c = CHR 0x5C then lex LEscape q tok s
      else lex LWord q (tok @ [c]) s)"
| "lex LSingle q tok [] = None"
| "lex LSingle q tok (c # s) =
     (if c = CHR 0x27 then lex LWord True tok s else lex LSingle True (tok @ [c]) s)"
| "lex LDouble q tok [] = None"
| "lex LDouble q tok (c # s) =
     (if c = CHR 0x22 then lex LWord True tok s
      else if c = CHR 0x5C then lex LDEscape True tok s
      else lex LDouble True (tok @ [c]) s)"
| "lex LEscape q tok [] = None"
| "lex LEscape q tok (c # s) = lex LWord q (tok @ [c]) s"
| "lex LDEscape q tok [] = None"
| "lex LDEscape q tok (c # s) =
     (if c \<noteq> CHR 0x5C \<and> c \<noteq> CHR 0x22 then lex LDouble q (tok @ [CHR 0x5C, c]) s
      else lex LDouble q (tok @ [c]) s)"

definition shlex_split :: "string \<Rightarrow> string list option" where
  "shlex_split s = lex LSpace False [] s"

text \<open>Every token is made of characters of the input, in particular no metacharacter appears from nowhere.\<close>

lemma lex_chars:
  "lex st q tok s = Some ts \<Longrightarrow> t \<in> set ts \<Longrightarrow> set t \<subseteq> set tok \<union> set s \<union> {CHR 0x5C}"
proof (induction st q tok s arbitrary: ts rule: lex.induct)
  case (4 q tok c s)
  then show ?case
    by (fastforce split: if_splits)
qed (fastforce split: if_splits)+

lemma lex_DEscape_chars: "CHR 0x5C \<in> set tok \<union> set s \<or> st \<noteq> LDEscape \<Longrightarrow>
  lex st q tok s = Some ts \<Longrightarrow> t \<in> set ts \<Longrightarrow> CHR 0x5C \<in> set t \<Longrightarrow> CHR 0x5C \<in> set tok \<union> set s"
proof (induction st q tok s arbitrary: ts rule: lex.induct)
  case (4 q tok c s)
  then show ?case
    by (fastforce split: if_splits)
qed (fastforce split: if_splits)+

lemma shlex_split_chars:
  assumes "shlex_split s = Some ts" "t \<in> set ts" "c \<in> set t"
  shows "c \<in> set s"
proof (cases "c = CHR 0x5C")
  case True
  then show ?thesis
    using lex_DEscape_chars [of "[]" s LSpace False ts t] assms by (simp add: shlex_split_def)
next
  case False
  then show ?thesis
    using lex_chars [of LSpace False "[]" s ts t] assms by (auto simp: shlex_split_def)
qed

text \<open>A first word without blanks, quotes and backslashes is a token of its own.\<close>

lemma lex_plain_word:
  "\<forall>c \<in> set w. \<not> shlex_space c \<and> c \<noteq> CHR 0x5C \<and> c \<noteq> CHR 0x27 \<and> c \<noteq> CHR 0x22 \<Longrightarrow> tok \<noteq> [] \<Longrightarrow>
     lex LWord q tok (w @ CHR '' '' # s) = map_option ((#) (tok @ w)) (lex LSpace False [] s)"
  by (induction w arbitrary: tok) (auto simp: shlex_space_def)

lemma shlex_split_plain_word:
  assumes "\<forall>c \<in> set w. \<not> shlex_space c \<and> c \<noteq> CHR 0x5C \<and> c \<noteq> CHR 0x27 \<and> c \<noteq> CHR 0x22" "w \<noteq> []"
  shows "shlex_split (w @ CHR '' '' # s) = map_option ((#) w) (shlex_split s)"
  using assms by (cases w) (simp_all add: shlex_split_def lex_plain_word)

section \<open>shlex.quote\<close>

text \<open>\<open>[^\w@%+=:,./-]\<close> under \<open>re.ASCII\<close> is the set of unsafe characters.\<close>

definition in_range :: "nat \<Rightarrow> nat \<Rightarrow> char \<Rightarrow> bool" where
  "in_range lo hi c \<longleftrightarrow> lo \<le> (of_char c :: nat) \<and> (of_char c :: nat) \<le> hi"

text \<open>\<open>str.isalnum\<close>, and the word characters of a pattern.\<close>

definition py_alnum :: "char \<Rightarrow> bool" where
  "py_alnum c \<longleftrightarrow>
     in_range 48 57 c \<or> in_range 65 90 c \<or> in_range 97 122 c \<or> of_char c \<in> {170, 178, 179, 181, 185, 186 :: nat}
     \<or> in_range 188 190 c \<or> in_range 192 214 c \<or> in_range 216 246 c \<or> in_range 248 255 c"

definition py_word :: "char \<Rightarrow> bool" where
  "py_word c \<longleftrightarrow> py_alnum c \<or> c = CHR ''_''"

definition ascii_word :: "char \<Rightarrow> bool" where
  "ascii_word c \<longleftrightarrow> in_range 48 57 c \<or> in_range 65 90 c \<or> in_range 97 122 c \<or> c = CHR ''_''"

definition ascii_digit :: "char \<Rightarrow> bool" where
  "ascii_digit c \<longleftrightarrow> in_range 48 57 c"

definition ascii_name_start :: "char \<Rightarrow> bool" where
  "ascii_name_start c \<longleftrightarrow> in_range 65 90 c \<or> in_range 97 122 c \<or> c = CHR ''_''"

definition quote_safe :: "char \<Rightarrow> bool" where
  "quote_safe c \<longleftrightarrow> ascii_word c \<or> List.member ''@%+=:,./-'' c"

definition shlex_quote :: "string \<Rightarrow> string" where
  "shlex_quote s =
     (if s = [] then [CHR 0x27, CHR 0x27]
      else if list_all quote_safe s then s
      else [CHR 0x27]
        @ concat (map (\<lambda>c. if c = CHR 0x27
             then [CHR 0x27, CHR 0x22, CHR 0x27, CHR 0x22, CHR 0x27] else [c]) s)
        @ [CHR 0x27])"

section \<open>Paths\<close>

definition is_abs :: "string \<Rightarrow> bool" where
  "is_abs p \<longleftrightarrow> startswith p ''/''"

definition posix_join :: "string \<Rightarrow> string \<Rightarrow> string" where
  "posix_join a b =
     (if is_abs b then b
      else if a = [] \<or> endswith a ''/'' then a @ b
      else a @ ''/'' @ b)"

definition initial_slashes :: "string \<Rightarrow> nat" where
  "initial_slashes p =
     (if startswith p ''/'' then (if startswith p ''//'' \<and> \<not> startswith p ''///'' then 2 else 1) else 0)"

fun norm_comps :: "nat \<Rightarrow> string list \<Rightarrow> string list \<Rightarrow> string list" where
  "norm_comps k acc [] = rev acc"
| "norm_comps k acc (c # cs) =
     (if c = [] \<or> c = ''.'' then norm_comps k acc cs
      else if c \<noteq> ''..'' \<or> (k = 0 \<and> acc = []) \<or> (acc \<noteq> [] \<and> hd acc = ''..'')
        then norm_comps k (c # acc) cs
      else norm_comps k (tl acc) cs)"

definition normpath :: "string \<Rightarrow> string" where
  "normpath p =
     (if p = [] then ''.''
      else let k = initial_slashes p;
               r = replicate k (CHR ''/'') @ join ''/'' (norm_comps k [] (split_char (CHR ''/'') p))
           in if r = [] then ''.'' else r)"

text \<open>\<open>norm_comps\<close> on an absolute path never leaves a parent reference behind.\<close>

lemma norm_comps_no_dotdot:
  "0 < k \<Longrightarrow> ''..'' \<notin> set acc \<Longrightarrow> ''..'' \<notin> set (norm_comps k acc cs)"
proof (induction k acc cs rule: norm_comps.induct)
  case (2 k acc c cs)
  then show ?case
    by (cases acc) (auto split: if_splits)
qed simp

text \<open>
  \<open>pathlib\<close>: the parts of a path (empty and \<open>.\<close> components dropped, \<open>..\<close> kept) and
  its printed form; \<open>Path(a) / b\<close> restarts at an absolute \<open>b\<close>.
\<close>

definition path_parts :: "string \<Rightarrow> string list" where
  "path_parts p = filter (\<lambda>c. c \<noteq> [] \<and> c \<noteq> ''.'') (split_char (CHR ''/'') p)"

definition path_str :: "string \<Rightarrow> string" where
  "path_str p =
     (let r = replicate (initial_slashes p) (CHR ''/'') @ join ''/'' (path_parts p)
      in if r = [] then ''.'' else r)"

definition path_div :: "string \<Rightarrow> string \<Rightarrow> string" where
  "path_div a b = path_str (posix_join a b)"

end
