(* ===== verification/Splitter.thy ===== *)
theory Splitter
  imports Prelude
begin

text \<open>
  The contract of a statement splitter, stated once for the two splitters of the code:
  \<open>tools/bash/parse.py::split_statements\<close>, which the command classifiers use, and
  \<open>permissions/broadening.py::_split_compound\<close>, which the allow matcher and the broadener use.
  \<open>source\<close> is the text that is split (the command itself, or the command without its heredoc
  bodies).
\<close>

definition pair_text :: "string \<times> string \<Rightarrow> string" where
  "pair_text p = nonblank (fst p) @ nonblank (snd p)"

locale statement_splitter =
  fixes split :: "string \<Rightarrow> (string \<times> string) list option"
    and source :: "string \<Rightarrow> string"
  assumes segment_trimmed: "split c = Some ps \<Longrightarrow> p \<in> set ps \<Longrightarrow> fst p \<noteq> [] \<and> strip (fst p) = fst p"
    and last_delimiter: "split c = Some ps \<Longrightarrow> ps \<noteq> [] \<and> snd (last ps) = []"
    and lossless: "split c = Some ps \<Longrightarrow> concat (map pair_text ps) = nonblank (source c)"
begin

lemma segment_not_blank: "split c = Some ps \<Longrightarrow> p \<in> set ps \<Longrightarrow> nonblank (fst p) \<noteq> []"
  using segment_trimmed [of c ps p] strip_eq_Nil_iff [of "fst p"] by auto

lemma character_covered:
  assumes "split c = Some ps" "x \<in> set (source c)" "\<not> py_space x"
  shows "\<exists>p \<in> set ps. x \<in> set (fst p) \<or> x \<in> set (snd p)"
proof -
  have "x \<in> set (nonblank (source c))" using assms by (simp add: nonblank_def)
  then have "x \<in> set (concat (map pair_text ps))" using lossless [OF assms(1)] by simp
  then show ?thesis by (auto simp: pair_text_def nonblank_def)
qed

lemma character_genuine:
  assumes "split c = Some ps" "p \<in> set ps" "x \<in> set (fst p)" "\<not> py_space x"
  shows "x \<in> set (source c)"
proof -
  have "x \<in> set (pair_text p)" using assms(3,4) by (simp add: pair_text_def nonblank_def)
  then have "x \<in> set (concat (map pair_text ps))" using assms(2) by auto
  then show ?thesis using lossless [OF assms(1)] by (auto simp: nonblank_def)
qed

lemma single_statement_text:
  "split c = Some [p] \<Longrightarrow> nonblank (fst p) = nonblank (source c)"
  using lossless [of c "[p]"] last_delimiter [of c "[p]"]
  by (simp add: pair_text_def nonblank_simps)

end

end
