(* ===== verification/ShellParse.thy ===== *)
theory ShellParse
  imports PyText Splitter
begin

text \<open>
  \<open>tools/bash/parse.py\<close>: the shell parser the permission gates share. Heredoc bodies are dropped
  (\<open>strip_heredocs\<close>), the command is cut into statements by a quote-aware scanner
  (\<open>split_statements\<close>), and each statement is tokenised and stripped of assignments and prefix
  runners down to the binary it really runs (\<open>parse_segment\<close>).

  The loops over an index are recursions over the remaining characters; the list of finished
  pairs that Python appends to is built on the way back, since a \<open>return None\<close> discards it.
\<close>

section \<open>Heredocs\<close>

definition wrappers :: "string list" where
  "wrappers = [''env'', ''nohup'', ''time'', ''timeout'', ''xargs'', ''watch'', ''nice'', ''ionice'',
     ''stdbuf'', ''setsid'', ''command'', ''builtin'', ''exec'', ''then'', ''do'']"

definition privilege :: "string list" where
  "privilege = [''sudo'', ''doas'', ''su'']"

definition value_flags :: "string list" where
  "value_flags = [''-n'', ''-o'', ''-u'', ''-g'', ''-C'', ''-P'', ''-S'', ''-p'', ''-D'', ''-R'', ''-U'',
     ''-s'', ''-k'', ''-I'', ''-d'', ''-E'', ''-i'']"

definition danger_unquoted :: "char list" where
  "danger_unquoted = ''()$`<>{}''"

definition danger_double_quoted :: "char list" where
  "danger_double_quoted = ''$`''"

datatype qstate = Unquoted | Single | Double

fun unsafe_go :: "qstate \<Rightarrow> string \<Rightarrow> bool" where
  "unsafe_go st [] \<longleftrightarrow> st \<noteq> Unquoted"
| "unsafe_go Unquoted (c # s) \<longleftrightarrow>
     (if c = CHR 0x27 then unsafe_go Single s
      else if c = CHR 0x22 then unsafe_go Double s
      else if c = CHR 0x5C \<and> s \<noteq> [] then (case s of [] \<Rightarrow> True | d # s' \<Rightarrow> unsafe_go Unquoted s')
      else if List.member danger_unquoted c then True
      else unsafe_go Unquoted s)"
| "unsafe_go Single (c # s) \<longleftrightarrow>
     (if c = CHR 0x27 then unsafe_go Unquoted s else unsafe_go Single s)"
| "unsafe_go Double (c # s) \<longleftrightarrow>
     (if c = CHR 0x22 then unsafe_go Unquoted s
      else if c = CHR 0x5C \<and> s \<noteq> [] then (case s of [] \<Rightarrow> True | d # s' \<Rightarrow> unsafe_go Double s')
      else if List.member danger_double_quoted c then True
      else unsafe_go Double s)"

definition has_unsafe_shell_metachars :: "string \<Rightarrow> bool" where
  "has_unsafe_shell_metachars segment \<longleftrightarrow> unsafe_go Unquoted segment"

text \<open>
  \<open>_HEREDOC_START\<close>: \<open>(?<!<)<<-?\s*(?P<q>['"]?)(?P<tag>[A-Za-z0-9_+.-]+)(?P=q)(?!<)\<close>, with the
  backtracking of Python's \<open>re\<close>: the dash and the quote are tried first as present and then
  as absent, the tag from its longest candidate down to one character.
\<close>

definition tag_char :: "char \<Rightarrow> bool" where
  "tag_char c \<longleftrightarrow> ascii_word c \<or> List.member ''+.-'' c"

fun try_tag :: "string \<Rightarrow> string \<Rightarrow> nat \<Rightarrow> (string \<times> string) option" where
  "try_tag q s 0 = None"
| "try_tag q s (Suc n) =
     (let tag = take (Suc n) s; rest = drop (Suc n) s
      in if startswith rest q \<and> \<not> startswith (drop (length q) rest) ''<''
         then Some (tag, drop (length q) rest)
         else try_tag q s n)"

definition first_some :: "'a option list \<Rightarrow> 'a option" where
  "first_some xs = (case dropWhile Option.is_none xs of [] \<Rightarrow> None | x # _ \<Rightarrow> x)"

definition tag_after :: "string \<Rightarrow> (string \<times> string) option" where
  "tag_after s =
     first_some (map (\<lambda>q. let r = drop (length q) s in try_tag q r (length (takeWhile tag_char r)))
       (case s of [] \<Rightarrow> [[]] | c # _ \<Rightarrow> if c = CHR 0x27 \<or> c = CHR 0x22 then [[c], []] else [[]]))"

definition heredoc_here :: "char option \<Rightarrow> string \<Rightarrow> (string \<times> string) option" where
  "heredoc_here prev s =
     (if prev = Some (CHR ''<'') \<or> \<not> startswith s ''<<'' then None
      else let r = drop 2 s
           in first_some
                (map (\<lambda>k. tag_after (dropWhile py_space (drop k r)))
                  (if startswith r ''-'' then [1, 0] else [0])))"

lemma first_some_mem: "first_some xs = Some y \<Longrightarrow> Some y \<in> set xs"
  by (induction xs) (auto simp: first_some_def split: if_splits option.splits)

lemma try_tag_length: "try_tag q s n = Some (t, r) \<Longrightarrow> length r \<le> length s"
  by (induction n) (auto simp: Let_def split: if_splits)

lemma tag_after_length: "tag_after s = Some (t, r) \<Longrightarrow> length r \<le> length s"
  unfolding tag_after_def
  by (drule first_some_mem, auto simp: Let_def split: list.splits if_splits dest!: sym [THEN try_tag_length])

lemma heredoc_here_length [termination_simp]:
  "heredoc_here p (c # s) = Some (t, r) \<Longrightarrow> length r < Suc (length s)"
proof -
  assume h: "heredoc_here p (c # s) = Some (t, r)"
  have st: "startswith (c # s) ''<<''"
    using h by (auto simp: heredoc_here_def split: if_splits)
  then have len: "2 \<le> length (c # s)" by (cases s) auto
  obtain k where k: "tag_after (dropWhile py_space (drop k (drop 2 (c # s)))) = Some (t, r)"
    using h by (auto simp: heredoc_here_def Let_def split: if_splits dest!: first_some_mem dest: sym)
  have "length r \<le> length (dropWhile py_space (drop k (drop 2 (c # s))))"
    by (rule tag_after_length [OF k])
  also have "\<dots> \<le> length (drop k (drop 2 (c # s)))" by (rule length_dropWhile_le)
  also have "\<dots> < length (c # s)" using len by simp
  finally show ?thesis by simp
qed

text \<open>\<open>finditer\<close>: all tags of a line; the character before the next search position is the last one matched.\<close>

fun heredoc_tags :: "char option \<Rightarrow> string \<Rightarrow> string list" where
  "heredoc_tags prev [] = []"
| "heredoc_tags prev (c # s) =
     (case heredoc_here prev (c # s) of
        None \<Rightarrow> heredoc_tags (Some c) s
      | Some (tag, rest) \<Rightarrow>
          tag # heredoc_tags (Some (last (take (length (c # s) - length rest) (c # s)))) rest)"

definition closes_heredoc :: "string \<Rightarrow> string \<Rightarrow> bool" where
  "closes_heredoc line tag \<longleftrightarrow>
     rstrip line = tag \<or> rstrip (dropWhile (\<lambda>c. c = CHR 0x09) line) = tag"

fun keep_lines :: "string list \<Rightarrow> string list \<Rightarrow> string list" where
  "keep_lines pending [] = []"
| "keep_lines [] (line # lines) = line # keep_lines (heredoc_tags None line) lines"
| "keep_lines (tag # pending) (line # lines) =
     (if closes_heredoc line tag then keep_lines pending lines else keep_lines (tag # pending) lines)"

definition strip_heredocs :: "string \<Rightarrow> string" where
  "strip_heredocs command =
     (if \<not> contains command ''<<'' then command
      else join [CHR 0x0A] (keep_lines [] (split_char (CHR 0x0A) command)))"

section \<open>The statement splitter\<close>

text \<open>\<open>flush(sep)\<close> ends a statement: nothing but blanks before a separator is degenerate input.\<close>

definition flush :: "string \<Rightarrow> string \<Rightarrow> (string \<times> string) list option \<Rightarrow> (string \<times> string) list option" where
  "flush buf sep later =
     (if strip buf = [] then None else map_option ((#) (strip buf, sep)) later)"

text \<open>
  One pass of the scanning loop at character \<open>c\<close> with \<open>s\<close> still to come: the characters it adds to
  the current statement with the quote state it leaves (\<open>Take\<close>), or the delimiter it flushes
  with (\<open>Cut\<close>); and what is left to read.
\<close>

datatype move = Take string qstate string | Cut string string

fun quoted_move :: "qstate \<Rightarrow> char \<Rightarrow> string \<Rightarrow> move" where
  "quoted_move Single c s = Take [c] (if c = CHR 0x27 then Unquoted else Single) s"
| "quoted_move Double c s =
     (if c = CHR 0x22 then Take [c] Unquoted s
      else if c = CHR 0x5C \<and> s \<noteq> [] then Take [c, hd s] Double (tl s)
      else Take [c] Double s)"
| "quoted_move Unquoted c s = Take [c] Unquoted s"

definition statement_move :: "qstate \<Rightarrow> char \<Rightarrow> string \<Rightarrow> move" where
  "statement_move st c s =
     (if st \<noteq> Unquoted then quoted_move st c s
      else if c = CHR 0x27 then Take [c] Single s
      else if c = CHR 0x22 then Take [c] Double s
      else if c = CHR 0x5C \<and> s \<noteq> [] then Take [c, hd s] Unquoted (tl s)
      else if c = CHR ''&'' then
        (if startswith s ''&'' then Cut ''&&'' (tl s)
         else if startswith s ''>'' then Take [c] Unquoted s
         else Cut ''&'' s)
      else if c = CHR ''|'' then
        (if startswith s ''|'' then Cut ''||'' (tl s) else Cut ''|'' s)
      else if c = CHR '';'' then Cut '';'' s
      else if c = CHR 0x0A \<or> c = CHR 0x0D then Cut [CHR 0x0A] s
      else Take [c] Unquoted s)"

lemma quoted_move_take: "quoted_move st c s = Take t st' r \<Longrightarrow> c # s = t @ r \<and> t \<noteq> []"
  by (cases st) (auto split: if_splits)

lemma quoted_move_no_cut [simp]: "quoted_move st c s \<noteq> Cut d r"
  by (cases st) auto

lemma statement_move_take: "statement_move st c s = Take t st' r \<Longrightarrow> c # s = t @ r \<and> t \<noteq> []"
  by (auto simp: statement_move_def quoted_move_take split: if_splits)

lemma nonblank_separators [nonblank_simps]:
  "nonblank ''&'' = ''&''" "nonblank ''&&'' = ''&&''" "nonblank ''|'' = ''|''"
  "nonblank ''||'' = ''||''" "nonblank '';'' = '';''" "nonblank [CHR 0x0A] = []"
  "nonblank [CHR 0x0D] = []"
  by (simp_all add: nonblank_def py_space_def space_codes_def)

lemma separator_spaces:
  "py_space (CHR 0x0A)" "py_space (CHR 0x0D)" "\<not> py_space (CHR ''&'')" "\<not> py_space (CHR ''|'')"
  "\<not> py_space (CHR '';'')"
  by (simp_all add: py_space_def space_codes_def)

lemma statement_move_cut_cases:
  assumes "statement_move st c s = Cut d r"
  shows "r = s \<and> nonblank [c] = nonblank d \<or> s = c # r \<and> nonblank [c, c] = nonblank d"
  using assms
  by (cases s; simp add: statement_move_def split: if_split_asm;
      (elim conjE disjE)?; hypsubst; simp add: nonblank_Cons nonblank_Nil separator_spaces)

lemma statement_move_cut:
  assumes "statement_move st c s = Cut d r"
  shows "nonblank (c # s) = nonblank d @ nonblank r" and "length r < Suc (length s)"
  using statement_move_cut_cases [OF assms]
  by (auto simp: nonblank_Cons nonblank_Nil split: if_splits)

lemma statement_move_take_length [termination_simp]:
  "statement_move st c s = Take t st' r \<Longrightarrow> length r < Suc (length s)"
  using statement_move_take [of st c s t st' r]
  by (metis length_Cons length_append length_greater_0_conv less_add_same_cancel2)

lemmas statement_move_cut_length [termination_simp] = statement_move_cut(2)

fun split_go :: "qstate \<Rightarrow> string \<Rightarrow> string \<Rightarrow> (string \<times> string) list option" where
  "split_go st buf [] =
     (if st \<noteq> Unquoted then None
      else if strip buf = [] then None
      else Some [(strip buf, [])])"
| "split_go st buf (c # s) =
     (case statement_move st c s of
        Take t st' r \<Rightarrow> split_go st' (buf @ t) r
      | Cut sep r \<Rightarrow> flush buf sep (split_go Unquoted [] r))"

definition split_statements :: "string \<Rightarrow> (string \<times> string) list option" where
  "split_statements command =
     (if strip command = [] then None else split_go Unquoted [] (strip_heredocs command))"

section \<open>One statement\<close>

record parsed_segment =
  p_binary :: "string option"
  p_args :: "string list"
  p_redirects :: "string list"
  p_privileged :: bool
  p_wrapped :: bool
  p_ok :: bool
  p_assignments :: "(string \<times> string) list"

text \<open>
  \<open>(.*)$\<close> without \<open>DOTALL\<close>: the group stops at a newline, and \<open>$\<close> accepts the end of the token or
  one final newline.
\<close>

definition dot_star :: "string \<Rightarrow> string option" where
  "dot_star r =
     (let g = takeWhile (\<lambda>c. c \<noteq> CHR 0x0A) r
      in if r = g \<or> r = g @ [CHR 0x0A] then Some g else None)"

definition redir_head :: "string \<Rightarrow> string option" where
  "redir_head t =
     (let r = (case t of
                 [] \<Rightarrow> []
               | c # s \<Rightarrow> if ascii_digit c then dropWhile ascii_digit t else if c = CHR ''&'' then s else t)
      in case r of [] \<Rightarrow> None | c # s \<Rightarrow> if c = CHR ''>'' then Some s else None)"

definition redir_match :: "string \<Rightarrow> string option" where
  "redir_match t =
     (case redir_head t of
        None \<Rightarrow> None
      | Some r \<Rightarrow> dot_star (if startswith r ''>'' then drop 1 r else r))"

fun extract_redirects :: "string list \<Rightarrow> string list" where
  "extract_redirects [] = []"
| "extract_redirects (t # ts) =
     (case redir_match t of
        None \<Rightarrow> extract_redirects ts
      | Some rest \<Rightarrow>
          if \<not> List.member (take 3 t) (CHR ''>'') then extract_redirects ts
          else if rest \<noteq> [] then rest # extract_redirects ts
          else (case ts of [] \<Rightarrow> [] | u # us \<Rightarrow> u # extract_redirects us))"

text \<open>\<open>^[A-Za-z_][A-Za-z0-9_]*=\<close>\<close>

definition is_assignment :: "string \<Rightarrow> bool" where
  "is_assignment t \<longleftrightarrow>
     (case t of
        [] \<Rightarrow> False
      | c # s \<Rightarrow> ascii_name_start c \<and> startswith (dropWhile ascii_word s) ''='')"

definition setdefault :: "string \<Rightarrow> string \<Rightarrow> (string \<times> string) list \<Rightarrow> (string \<times> string) list" where
  "setdefault k v al = (if map_of al k = None then al @ [(k, v)] else al)"

fun strip_assignments ::
  "string list \<Rightarrow> (string \<times> string) list \<Rightarrow> string list \<times> (string \<times> string) list" where
  "strip_assignments [] al = ([], al)"
| "strip_assignments (t # ts) al =
     (if is_assignment t
      then strip_assignments ts (setdefault (before_char (CHR ''='') t) (after_char (CHR ''='') t) al)
      else (t # ts, al))"

fun skip_flags :: "string list \<Rightarrow> string list" where
  "skip_flags [] = []"
| "skip_flags (x # xs) =
     (if startswith x ''-''
      then (if List.member value_flags x then skip_flags (drop 1 xs) else skip_flags xs)
      else x # xs)"

definition after_runner :: "string \<Rightarrow> string list \<Rightarrow> string list" where
  "after_runner b rest =
     (let r = skip_flags rest
      in if b = ''timeout'' \<and> r \<noteq> [] \<and> \<not> startswith (hd r) ''-'' then tl r else r)"

lemma strip_assignments_length:
  "strip_assignments ts al = (us, al') \<Longrightarrow> length us \<le> length ts"
  by (induction ts al rule: strip_assignments.induct) (auto split: if_splits)

lemma skip_flags_length: "length (skip_flags xs) \<le> length xs"
  by (induction xs rule: skip_flags.induct) auto

lemma after_runner_length: "length (after_runner b rest) \<le> length rest"
  using skip_flags_length [of rest] by (auto simp: after_runner_def Let_def)

text \<open>
  \<open>_peel\<close>. The loop's last pass, in which nothing changes, is the \<open>else\<close> branch. The result is the
  payload's tokens, whether a privilege escalator and whether any runner was seen, and the
  assignments in the order of the dict.
\<close>

function (sequential) peel ::
  "string list \<Rightarrow> bool \<Rightarrow> bool \<Rightarrow> (string \<times> string) list
    \<Rightarrow> string list \<times> bool \<times> bool \<times> (string \<times> string) list" where
  "peel tokens privileged wrapped assignments =
     (case strip_assignments tokens assignments of
        ([], al) \<Rightarrow> ([], privileged, wrapped, al)
      | (t # rest, al) \<Rightarrow>
          (let b = basename t
           in if List.member privilege b \<or> List.member wrappers b
              then peel (after_runner b rest) (privileged \<or> List.member privilege b) True al
              else (t # rest, privileged, wrapped, al)))"
  by pat_completeness auto
termination
proof (relation "measure (\<lambda>(ts, _, _, _). length ts)", goal_cases)
  case 1
  show ?case by simp
next
  case (2 tokens privileged wrapped assignments x y t rest b)
  then have "length (t # rest) \<le> length tokens"
    using strip_assignments_length [of tokens assignments] by (metis prod.collapse)
  then show ?case using after_runner_length [of b rest] by simp
qed

declare peel.simps [simp del]

definition parse_segment :: "string \<Rightarrow> parsed_segment" where
  "parse_segment seg0 =
     (let seg = strip seg0
      in if seg = [] then \<lparr>p_binary = None, p_args = [], p_redirects = [], p_privileged = False,
            p_wrapped = False, p_ok = True, p_assignments = []\<rparr>
         else (case shlex_split seg of
            None \<Rightarrow> \<lparr>p_binary = None, p_args = [], p_redirects = [], p_privileged = False,
              p_wrapped = False, p_ok = False, p_assignments = []\<rparr>
          | Some toks \<Rightarrow>
              (case peel toks False False [] of
                 ([], privileged, wrapped, al) \<Rightarrow>
                   \<lparr>p_binary = None, p_args = [], p_redirects = extract_redirects toks,
                     p_privileged = privileged, p_wrapped = wrapped, p_ok = True, p_assignments = al\<rparr>
               | (t # ts, privileged, wrapped, al) \<Rightarrow>
                   \<lparr>p_binary = Some (basename t), p_args = ts, p_redirects = extract_redirects toks,
                     p_privileged = privileged, p_wrapped = wrapped, p_ok = True, p_assignments = al\<rparr>)))"

section \<open>What the splitter guarantees\<close>

lemma flush_Some_iff:
  "flush buf sep later = Some ps \<longleftrightarrow>
     strip buf \<noteq> [] \<and> (\<exists>qs. later = Some qs \<and> ps = (strip buf, sep) # qs)"
  by (auto simp: flush_def)

text \<open>
  Both splitters are scanning loops of one shape: a move per character, a statement flushed at each
  delimiter. What such a loop guarantees depends on its moves only through their text.
\<close>

locale scanner =
  fixes step :: "qstate \<Rightarrow> char \<Rightarrow> string \<Rightarrow> move"
    and go :: "qstate \<Rightarrow> string \<Rightarrow> string \<Rightarrow> (string \<times> string) list option"
  assumes step_take: "step st c s = Take t st' r \<Longrightarrow> c # s = t @ r \<and> t \<noteq> []"
    and step_cut: "step st c s = Cut d r \<Longrightarrow>
      nonblank (c # s) = nonblank d @ nonblank r \<and> length r < Suc (length s)"
    and go_end: "go st buf [] = (if st \<noteq> Unquoted \<or> strip buf = [] then None else Some [(strip buf, [])])"
    and go_step: "go st buf (c # s) =
      (case step st c s of Take t st' r \<Rightarrow> go st' (buf @ t) r | Cut d r \<Rightarrow> flush buf d (go Unquoted [] r))"
begin

lemma step_take_length: "step st c s = Take t st' r \<Longrightarrow> length r < length (c # s)"
  using step_take [of st c s t st' r]
  by (metis length_append length_greater_0_conv less_add_same_cancel2)

lemma go_induct [consumes 1, case_names finish take cut]:
  assumes "go st buf s = Some ps"
    and "\<And>buf. strip buf \<noteq> [] \<Longrightarrow> P buf [] [(strip buf, [])]"
    and "\<And>st buf c s t st' r ps. step st c s = Take t st' r \<Longrightarrow> P (buf @ t) r ps \<Longrightarrow> P buf (c # s) ps"
    and "\<And>st buf c s d r ps. step st c s = Cut d r \<Longrightarrow> strip buf \<noteq> [] \<Longrightarrow> P [] r ps \<Longrightarrow>
      P buf (c # s) ((strip buf, d) # ps)"
  shows "P buf s ps"
  using assms(1)
proof (induction s arbitrary: st buf ps rule: measure_induct_rule [where f = length])
  case (less s)
  show ?case
  proof (cases s)
    case Nil
    then show ?thesis using less(2) assms(2) by (auto simp: go_end split: if_splits)
  next
    case (Cons c s')
    show ?thesis
    proof (cases "step st c s'")
      case (Take t st' r)
      then have "P (buf @ t) r ps" using less step_take_length [OF Take] Cons by (auto simp: go_step)
      then show ?thesis using assms(3) [OF Take] Cons by simp
    next
      case (Cut d r)
      then obtain qs where q: "go Unquoted [] r = Some qs" "ps = (strip buf, d) # qs" "strip buf \<noteq> []"
        using less(2) Cons by (auto simp: go_step flush_Some_iff)
      then have "P [] r qs" using less(1) step_cut [OF Cut] Cons by simp
      then show ?thesis using assms(4) [OF Cut q(3)] q Cons by simp
    qed
  qed
qed

lemma go_segments: "go st buf s = Some ps \<Longrightarrow> \<forall>p \<in> set ps. fst p \<noteq> [] \<and> strip (fst p) = fst p"
  by (induction rule: go_induct) auto

lemma go_last: "go st buf s = Some ps \<Longrightarrow> ps \<noteq> [] \<and> snd (last ps) = []"
  by (induction rule: go_induct) auto

lemma go_lossless: "go st buf s = Some ps \<Longrightarrow> concat (map pair_text ps) = nonblank buf @ nonblank s"
proof (induction rule: go_induct)
  case (finish buf)
  then show ?case by (simp add: pair_text_def nonblank_strip nonblank_Nil)
next
  case (take st buf c s t st' r ps)
  then show ?case using step_take [OF take(1)] by (simp only: nonblank_append append_assoc)
next
  case (cut st buf c s d r ps)
  then show ?case using step_cut [OF cut(1)] by (simp add: pair_text_def nonblank_strip nonblank_Nil)
qed

end

interpretation statement_scanner: scanner statement_move split_go
  by unfold_locales (auto dest: statement_move_take statement_move_cut)

interpretation statements: statement_splitter split_statements strip_heredocs
proof (unfold_locales, goal_cases)
  case (1 c ps p)
  then show ?case by (auto simp: split_statements_def split: if_splits dest: statement_scanner.go_segments)
next
  case (2 c ps)
  then show ?case by (auto simp: split_statements_def split: if_splits dest: statement_scanner.go_last)
next
  case (3 c ps)
  then show ?case
    by (auto simp: split_statements_def nonblank_simps split: if_splits dest: statement_scanner.go_lossless)
qed

section \<open>Heredoc bodies\<close>

lemma keep_lines_body:
  "\<forall>l \<in> set body. \<not> closes_heredoc l tag \<Longrightarrow> keep_lines (tag # pending) (body @ rest) = keep_lines (tag # pending) rest"
  by (induction body) auto

section \<open>Prefix runners\<close>

text \<open>The runners that take no positional argument of their own (\<open>timeout\<close> takes a duration).\<close>

definition runners :: "string list" where
  "runners = filter (\<lambda>w. w \<noteq> ''timeout'') (wrappers @ privilege)"

definition plain_runner :: "string \<Rightarrow> bool" where
  "plain_runner r \<longleftrightarrow> r \<noteq> [] \<and> basename r = r \<and> r \<noteq> ''timeout'' \<and> \<not> is_assignment r \<and> redir_match r = None
     \<and> list_all (\<lambda>c. \<not> py_space c \<and> \<not> shlex_space c \<and> c \<noteq> CHR 0x5C \<and> c \<noteq> CHR 0x27 \<and> c \<noteq> CHR 0x22) r
     \<and> (List.member privilege r \<or> List.member wrappers r)"

lemma runners_plain: "r \<in> set runners \<Longrightarrow> plain_runner r"
proof -
  have "list_all plain_runner runners" by code_simp
  then show "r \<in> set runners \<Longrightarrow> plain_runner r" by (simp add: list_all_iff)
qed

lemma skip_flags_none: "\<not> startswith t ''-'' \<Longrightarrow> skip_flags (t # ts) = t # ts"
  by simp

lemma peel_runner:
  assumes "plain_runner r" "\<not> startswith t ''-''"
  shows "peel (r # t # ts) p w al = peel (t # ts) (p \<or> List.member privilege r) True al"
proof -
  have "strip_assignments (r # t # ts) al = (r # t # ts, al)"
    using assms(1) by (simp add: plain_runner_def)
  moreover have "after_runner r (t # ts) = t # ts"
    using assms by (simp add: plain_runner_def after_runner_def Let_def)
  ultimately show ?thesis
    using assms(1) by (simp add: peel.simps [of "r # t # ts"] plain_runner_def Let_def)
qed

lemma extract_redirects_runner: "plain_runner r \<Longrightarrow> extract_redirects (r # ts) = extract_redirects ts"
  by (simp add: plain_runner_def)

lemma strip_runner:
  assumes "plain_runner r" "strip c = c" "c \<noteq> []"
  shows "strip (r @ CHR '' '' # c) = r @ CHR '' '' # c"
proof -
  have "r \<noteq> []" "\<not> py_space (hd r)" using assms(1) by (cases r; auto simp: plain_runner_def)+
  then show ?thesis using assms(2,3) by (simp add: strip_fixed_iff)
qed

lemma peel_flags:
  "peel ts p w al = (case peel ts False False al of (us, p', w', al') \<Rightarrow> (us, p \<or> p', w \<or> w', al'))"
proof (induction ts arbitrary: p w al rule: measure_induct_rule [where f = length])
  case (less ts)
  show ?case
  proof (cases "strip_assignments ts al")
    case (Pair us al')
    show ?thesis
    proof (cases us)
      case Nil
      then show ?thesis using Pair by (simp add: peel.simps [of ts])
    next
      case (Cons t rest)
      show ?thesis
      proof (cases "List.member privilege (basename t) \<or> List.member wrappers (basename t)")
        case True
        let ?q = "List.member privilege (basename t)"
        have a: "peel ts p w al = peel (after_runner (basename t) rest) (p \<or> ?q) True al'"
          and b: "peel ts False False al = peel (after_runner (basename t) rest) ?q True al'"
          using Pair Cons True by (simp_all add: peel.simps [of ts] Let_def)
        have "length (after_runner (basename t) rest) < length ts"
          using strip_assignments_length [OF Pair] after_runner_length [of "basename t" rest] Cons by simp
        note IH = less [OF this]
        show ?thesis unfolding a b using IH [of "p \<or> ?q" True al'] IH [of ?q True al']
          by (auto split: prod.splits)
      next
        case False
        then show ?thesis using Pair Cons by (simp add: peel.simps [of ts] Let_def)
      qed
    qed
  qed
qed

lemma runner_parse:
  assumes r: "plain_runner r" and c: "strip c = c" "shlex_split c = Some (t # ts)" "\<not> startswith t ''-''"
  shows "parse_segment (r @ CHR '' '' # c)
     = (parse_segment c)\<lparr>p_privileged := p_privileged (parse_segment c) \<or> List.member privilege r, p_wrapped := True\<rparr>"
proof -
  have ne: "c \<noteq> []" using c(2) by (auto simp: shlex_split_def)
  have sp: "shlex_split (r @ CHR '' '' # c) = Some (r # t # ts)"
    using shlex_split_plain_word [of r c] r c(2) by (auto simp: plain_runner_def list_all_iff)
  have pe: "peel (r # t # ts) False False [] = peel (t # ts) (List.member privilege r) True []"
    using peel_runner [OF r c(3)] by simp
  obtain us p w al where u: "peel (t # ts) False False [] = (us, p, w, al)" by (metis prod_cases4)
  then have v: "peel (t # ts) (List.member privilege r) True [] = (us, List.member privilege r \<or> p, True, al)"
    using peel_flags [of "t # ts" "List.member privilege r" True "[]"] by simp
  show ?thesis
    using strip_runner [OF r c(1) ne] sp pe u v ne c extract_redirects_runner [OF r, of "t # ts"]
    by (cases us) (simp_all add: parse_segment_def Let_def disj_commute del: extract_redirects.simps)
qed

section \<open>Properties\<close>

text \<open>A successful split loses nothing and invents nothing: the statements with their delimiters,
  in order, are the command's text without its heredoc bodies, up to blanks; every statement is
  trimmed and not empty, and the last one has no delimiter.\<close>

lemma split_statements_lossless:
  assumes "split_statements c = Some ps"
  shows "concat (map pair_text ps) = nonblank (strip_heredocs c)
    \<and> (\<forall>p \<in> set ps. fst p \<noteq> [] \<and> strip (fst p) = fst p) \<and> snd (last ps) = []"
  using statements.lossless [OF assms] statements.segment_trimmed [OF assms]
    statements.last_delimiter [OF assms] by blast

lemma split_statements_lossless_witness:
  "split_statements ''ls -l && rm x; pwd'' = Some [(''ls -l'', ''&&''), (''rm x'', '';''), (''pwd'', [])]
   \<and> concat (map pair_text [(''ls -l'', ''&&''), (''rm x'', '';''), (''pwd'', [])])
       = nonblank (strip_heredocs ''ls -l && rm x; pwd'')"
proof -
  have "split_statements ''ls -l && rm x; pwd'' = Some [(''ls -l'', ''&&''), (''rm x'', '';''), (''pwd'', [])]"
    by code_simp
  with split_statements_lossless [OF this] show ?thesis by simp
qed

text \<open>The body of a heredoc is never read as commands: the lines between the line that opens it and
  the first line that closes it are dropped, together with the closing line.\<close>

lemma heredoc_body_dropped:
  assumes "command = join [CHR 0x0A] (first # body @ last_line # rest)"
    and "\<forall>l \<in> set (first # body @ last_line # rest). CHR 0x0A \<notin> set l"
    and "contains first ''<<''" "heredoc_tags None first = [tag]"
    and "\<forall>l \<in> set body. \<not> closes_heredoc l tag" "closes_heredoc last_line tag"
  shows "strip_heredocs command = join [CHR 0x0A] (first # keep_lines [] rest)"
proof -
  have "contains command ''<<''"
    using assms(3) unfolding assms(1) contains_iff
    by (cases "body @ last_line # rest") (auto, metis append.assoc)
  moreover have "split_char (CHR 0x0A) command = first # body @ last_line # rest"
    unfolding assms(1) by (rule split_char_join [OF _ assms(2)]) simp
  ultimately show ?thesis
    using assms(4-6) by (simp add: strip_heredocs_def keep_lines_body)
qed

lemma heredoc_body_dropped_witness:
  "strip_heredocs (join [CHR 0x0A] [''cat <<EOF'', ''rm -rf /'', ''EOF'', ''ls'']) = join [CHR 0x0A] [''cat <<EOF'', ''ls'']"
proof -
  have "strip_heredocs (join [CHR 0x0A] (''cat <<EOF'' # [''rm -rf /''] @ ''EOF'' # [''ls'']))
      = join [CHR 0x0A] (''cat <<EOF'' # keep_lines [] [''ls''])"
    by (rule heredoc_body_dropped [where tag = "''EOF''", OF refl]; code_simp)
  moreover have "keep_lines [] [''ls''] = [''ls'']" by code_simp
  ultimately show ?thesis by simp
qed

text \<open>A prefix runner (\<open>sudo\<close>, \<open>env\<close>, \<open>nohup\<close>, \<open>xargs\<close>, ...) does not hide the program it runs: the
  parse of the prefixed statement is the parse of the statement itself, binary, arguments and
  redirects included, with the privilege and wrapper flags set.\<close>

lemma prefix_runner_transparent:
  assumes "r \<in> set runners" "strip c = c" "shlex_split c = Some (t # ts)" "\<not> startswith t ''-''"
  shows "parse_segment (r @ '' '' @ c)
     = (parse_segment c)\<lparr>p_privileged := p_privileged (parse_segment c) \<or> List.member privilege r,
          p_wrapped := True\<rparr>"
  using runner_parse [OF runners_plain [OF assms(1)] assms(2-4)] by simp

lemma prefix_runner_transparent_witness:
  "parse_segment ''sudo rm -rf /'' = \<lparr>p_binary = Some ''rm'', p_args = [''-rf'', ''/''], p_redirects = [],
     p_privileged = True, p_wrapped = True, p_ok = True, p_assignments = []\<rparr>"
proof -
  have "parse_segment (''sudo'' @ '' '' @ ''rm -rf /'')
     = (parse_segment ''rm -rf /'')\<lparr>p_privileged := p_privileged (parse_segment ''rm -rf /'') \<or> List.member privilege ''sudo'',
          p_wrapped := True\<rparr>"
    by (rule prefix_runner_transparent [where t = "''rm''" and ts = "[''-rf'', ''/'']"]; code_simp)
  moreover have "parse_segment ''rm -rf /'' = \<lparr>p_binary = Some ''rm'', p_args = [''-rf'', ''/''], p_redirects = [],
     p_privileged = False, p_wrapped = False, p_ok = True, p_assignments = []\<rparr>" by code_simp
  moreover have "List.member privilege ''sudo''" by code_simp
  ultimately show ?thesis by simp
qed

end
