(* ===== verification/ReadOnly.thy ===== *)
theory ReadOnly
  imports ShellParse
begin

text \<open>
  \<open>tools/bash/readonly.py\<close>: the allowlist that decides which commands run without a prompt, in
  every mode and in plan mode. The lemmas relate this gate to the parser of \<open>ShellParse\<close>: a
  command it accepts is one statement for the splitter and writes through no redirect.
\<close>

definition safe_programs :: "string list" where
  "safe_programs = [''ls'', ''cat'', ''head'', ''tail'', ''wc'', ''grep'', ''egrep'', ''fgrep'', ''rg'', ''pwd'',
     ''stat'', ''file'', ''du'', ''df'', ''echo'', ''which'', ''type'', ''printenv'',
     ''basename'', ''dirname'', ''realpath'', ''readlink'', ''cut'', ''nl'', ''date'', ''whoami'',
     ''id'', ''uname'', ''hostname'', ''diff'', ''cmp'', ''column'', ''tr'', ''man'', ''help'']"

definition find_write_flags :: "string list" where
  "find_write_flags = [''-exec'', ''-execdir'', ''-delete'', ''-ok'', ''-okdir'', ''-fprint'', ''-fprintf'', ''-fls'']"

definition git_read_only :: "string list" where
  "git_read_only = [''status'', ''log'', ''diff'', ''show'', ''branch'', ''ls-files'', ''ls-tree'', ''cat-file'',
     ''rev-parse'', ''describe'', ''blame'', ''shortlog'', ''tag'', ''reflog'', ''grep'',
     ''for-each-ref'', ''whatchanged'', ''name-rev'', ''rev-list'']"

definition git_config_reads :: "string list" where
  "git_config_reads = [''--get'', ''--get-all'', ''--get-regexp'', ''--list'', ''-l'']"

text \<open>\<open>_SHELL_META = re.compile(r"[;&|`<>\n\r]|\$\(")\<close>\<close>

definition meta_chars :: "char list" where
  "meta_chars = [CHR '';'', CHR ''&'', CHR ''|'', CHR 0x60, CHR ''<'', CHR ''>'', CHR 0x0A, CHR 0x0D]"

definition shell_meta :: "string \<Rightarrow> bool" where
  "shell_meta s \<longleftrightarrow> list_ex (List.member meta_chars) s \<or> contains s ''$(''"

definition program_reads :: "string \<Rightarrow> string list \<Rightarrow> bool" where
  "program_reads prog as \<longleftrightarrow>
     (if prog = ''find'' then \<not> list_ex (List.member find_write_flags) as
      else if prog = ''sort'' \<or> prog = ''tree'' then
        \<not> list_ex (\<lambda>a. startswith a ''-o'' \<or> startswith a ''--output'') as
      else if prog = ''git'' then
        (case List.find (\<lambda>a. \<not> startswith a ''-'') as of
           None \<Rightarrow> False
         | Some sub \<Rightarrow>
             if sub = ''config'' then list_ex (List.member git_config_reads) as
             else List.member git_read_only sub)
      else List.member safe_programs prog)"

definition is_read_only_command :: "string \<Rightarrow> bool" where
  "is_read_only_command command \<longleftrightarrow>
     (let cmd = strip command
      in if command = [] \<or> cmd = [] \<or> shell_meta cmd then False
         else (case shlex_split cmd of
                 None \<Rightarrow> False
               | Some [] \<Rightarrow> False
               | Some (t # as) \<Rightarrow> program_reads (basename t) as))"

section \<open>Agreement with the parser\<close>

lemma is_read_only_D:
  assumes "is_read_only_command c"
  shows "strip c \<noteq> []" "\<not> shell_meta (strip c)"
    "\<exists>t as. shlex_split (strip c) = Some (t # as) \<and> program_reads (basename t) as"
  using assms
  by (auto simp: is_read_only_command_def Let_def split: if_splits option.splits list.splits)

lemma is_read_only_strip: "is_read_only_command (strip c) = is_read_only_command c"
  by (cases "c = []") (simp_all add: is_read_only_command_def Let_def)

definition separator :: "char \<Rightarrow> bool" where
  "separator c \<longleftrightarrow> List.member [CHR ''&'', CHR ''|'', CHR '';'', CHR 0x0A, CHR 0x0D] c"

lemma not_meta_clean: "\<not> shell_meta s \<Longrightarrow> c \<in> set s \<Longrightarrow> \<not> separator c \<and> c \<noteq> CHR ''<'' \<and> c \<noteq> CHR ''>''"
  by (auto simp: shell_meta_def list_ex_iff meta_chars_def separator_def)

fun lex_states :: "qstate \<Rightarrow> lex_state list" where
  "lex_states Unquoted = [LSpace, LWord]"
| "lex_states Single = [LSingle]"
| "lex_states Double = [LDouble]"

definition lexes :: "qstate \<Rightarrow> string \<Rightarrow> bool" where
  "lexes st s \<longleftrightarrow> (\<exists>l \<in> set (lex_states st). \<exists>q tok. lex l q tok s \<noteq> None)"

lemma lexesI: "lex l q tok s \<noteq> None \<Longrightarrow> l \<in> set (lex_states st) \<Longrightarrow> lexes st s"
  by (auto simp: lexes_def)

lemma lexes_D:
  "lex LSpace q tok s = Some y \<Longrightarrow> lexes Unquoted s"
  "lex LWord q tok s = Some y \<Longrightarrow> lexes Unquoted s"
  "lex LSingle q tok s = Some y \<Longrightarrow> lexes Single s"
  "lex LDouble q tok s = Some y \<Longrightarrow> lexes Double s"
  by (auto simp: lexes_def)

text \<open>The tokeniser and the splitter follow the same quote automaton.\<close>

lemma lexes_unquoted_step:
  assumes "lexes Unquoted (c # s)" "\<not> separator c"
  shows "\<exists>t st' r. statement_move Unquoted c s = Take t st' r \<and> lexes st' r"
proof -
  from assms(1) obtain l q tok where l: "l = LSpace \<or> l = LWord" "lex l q tok (c # s) \<noteq> None"
    by (auto simp: lexes_def simp del: lex.simps)
  consider (sq) "c = CHR 0x27" | (dq) "c = CHR 0x22" | (bs) "c = CHR 0x5C"
    | (other) "c \<noteq> CHR 0x27" "c \<noteq> CHR 0x22" "c \<noteq> CHR 0x5C" by blast
  then show ?thesis
  proof cases
    case sq
    then have "lex LSingle False [] s \<noteq> None \<or> lex LSingle q tok s \<noteq> None" using l by (auto simp: shlex_space_def)
    then show ?thesis using sq by (auto simp: statement_move_def dest: lexes_D simp del: lex.simps)
  next
    case dq
    then have "lex LDouble False [] s \<noteq> None \<or> lex LDouble q tok s \<noteq> None" using l by (auto simp: shlex_space_def)
    then show ?thesis using dq by (auto simp: statement_move_def dest: lexes_D simp del: lex.simps)
  next
    case bs
    then have e: "lex LEscape False [] s \<noteq> None \<or> lex LEscape q tok s \<noteq> None" using l by (auto simp: shlex_space_def)
    then obtain d s' where s: "s = d # s'" by (cases s) auto
    with e have "lexes Unquoted s'" by (auto dest: lexes_D)
    then show ?thesis using bs s by (simp add: statement_move_def)
  next
    case other
    then have "lexes Unquoted s"
      using l by (auto split: if_splits dest: lexes_D)
    moreover have "statement_move Unquoted c s = Take [c] Unquoted s"
      using other assms(2) by (auto simp: statement_move_def separator_def)
    ultimately show ?thesis by blast
  qed
qed

lemma lexes_quoted_step:
  assumes "lexes st (c # s)" "st \<noteq> Unquoted"
  shows "\<exists>t st' r. statement_move st c s = Take t st' r \<and> lexes st' r"
proof (cases st)
  case Unquoted
  then show ?thesis using assms(2) by simp
next
  case Single
  then show ?thesis using assms(1)
    by (auto simp: statement_move_def lexes_def split: if_splits)
next
  case Double
  then obtain q tok where l: "lex LDouble q tok (c # s) \<noteq> None"
    using assms(1) by (auto simp: lexes_def)
  show ?thesis
  proof (cases "c = CHR 0x5C")
    case True
    with l obtain d s' where s: "s = d # s'" by (cases s) auto
    with l True have "lexes Double s'" by (auto split: if_splits dest: lexes_D)
    then show ?thesis using Double True s by (simp add: statement_move_def)
  next
    case False
    with l have "if c = CHR 0x22 then lexes Unquoted s else lexes Double s"
      by (auto split: if_splits dest: lexes_D)
    then show ?thesis using Double False by (auto simp: statement_move_def)
  qed
qed

lemma split_go_single:
  "lexes st s \<Longrightarrow> \<forall>c \<in> set s. \<not> separator c \<Longrightarrow> strip (buf @ s) \<noteq> [] \<Longrightarrow>
     split_go st buf s = Some [(strip (buf @ s), [])]"
proof (induction st buf s rule: split_go.induct)
  case (1 st buf)
  then have "st = Unquoted" by (cases st) (auto simp: lexes_def)
  then show ?case using 1 by simp
next
  case (2 st buf c s)
  have "\<not> separator c" using 2 by simp
  then obtain t st' r where m: "statement_move st c s = Take t st' r" "lexes st' r"
    using lexes_unquoted_step lexes_quoted_step 2(3) by metis
  have eq: "c # s = t @ r" using statement_move_take m by blast
  then have "\<forall>c \<in> set r. \<not> separator c" using 2(4) by (metis UnCI set_append)
  moreover have "strip ((buf @ t) @ r) = strip (buf @ c # s)" by (simp add: eq)
  ultimately have "split_go st' (buf @ t) r = Some [(strip (buf @ c # s), [])]"
    using 2(1) [OF m(1) m(2)] 2(5) by simp
  then show ?case by (simp add: m(1))
qed

lemma clean_no_heredoc: "\<forall>c \<in> set s. c \<noteq> CHR ''<'' \<Longrightarrow> strip_heredocs s = s"
  by (force simp: strip_heredocs_def contains_iff)

lemma read_only_one_statement_aux:
  assumes "is_read_only_command c"
  shows "split_statements (strip c) = Some [(strip c, [])]"
proof -
  note d = is_read_only_D [OF assms]
  have "lexes Unquoted (strip c)"
    using d(3) by (auto simp: shlex_split_def dest: lexes_D)
  moreover have cl: "\<forall>x \<in> set (strip c). \<not> separator x \<and> x \<noteq> CHR ''<''"
    using d(2) not_meta_clean by blast
  ultimately have "split_go Unquoted [] (strip c) = Some [(strip c, [])]"
    using split_go_single [of Unquoted "strip c" "[]"] d(1) by simp
  then show ?thesis using d(1) cl by (simp add: split_statements_def clean_no_heredoc)
qed

lemma no_redirect_char: "CHR ''>'' \<notin> set t \<Longrightarrow> redir_match t = None"
proof -
  assume a: "CHR ''>'' \<notin> set t"
  define r where "r = (case t of [] \<Rightarrow> [] | c # s \<Rightarrow>
      if ascii_digit c then dropWhile ascii_digit t else if c = CHR ''&'' then s else t)"
  have "set r \<subseteq> set t"
    using dropWhile_subset [of ascii_digit t] by (auto simp: r_def split: list.splits)
  then have "CHR ''>'' \<notin> set r" using a by blast
  then have "redir_head t = None"
    by (cases r) (auto simp add: redir_head_def r_def [symmetric])
  then show ?thesis by (simp add: redir_match_def)
qed

lemma no_redirects: "\<forall>t \<in> set ts. CHR ''>'' \<notin> set t \<Longrightarrow> extract_redirects ts = []"
  by (induction ts) (simp_all add: no_redirect_char)

lemma read_only_no_redirects:
  assumes "is_read_only_command c"
  shows "p_ok (parse_segment c)" "p_redirects (parse_segment c) = []"
proof -
  note d = is_read_only_D [OF assms]
  obtain ts where ts: "shlex_split (strip c) = Some ts" using d(3) by blast
  have "\<forall>t \<in> set ts. CHR ''>'' \<notin> set t"
    using ts shlex_split_chars not_meta_clean [OF d(2)] by blast
  then have "extract_redirects ts = []" by (rule no_redirects)
  then show "p_ok (parse_segment c)" "p_redirects (parse_segment c) = []"
    using ts d(1) by (auto simp: parse_segment_def Let_def split: prod.splits list.splits)
qed

lemma parse_first_token:
  assumes "shlex_split (strip c) = Some (t # as)" "\<not> is_assignment t"
    and "\<not> List.member privilege (basename t)" "\<not> List.member wrappers (basename t)"
  shows "p_binary (parse_segment c) = Some (basename t)" "p_args (parse_segment c) = as"
proof -
  have "strip c \<noteq> []" using assms(1) by (auto simp: shlex_split_def)
  moreover have "peel (t # as) False False [] = (t # as, False, False, [])"
    using assms by (simp add: peel.simps [of "t # as"] Let_def)
  ultimately show "p_binary (parse_segment c) = Some (basename t)" "p_args (parse_segment c) = as"
    using assms(1) by (simp_all add: parse_segment_def Let_def)
qed

lemma reading_program_not_runner:
  assumes "program_reads b as"
  shows "\<not> List.member (privilege @ wrappers) b"
proof
  assume m: "List.member (privilege @ wrappers) b"
  have "list_all (\<lambda>b. b \<noteq> ''find'' \<and> b \<noteq> ''sort'' \<and> b \<noteq> ''tree'' \<and> b \<noteq> ''git'' \<and> \<not> List.member safe_programs b)
     (privilege @ wrappers)" by code_simp
  then have "b \<noteq> ''find'' \<and> b \<noteq> ''sort'' \<and> b \<noteq> ''tree'' \<and> b \<noteq> ''git'' \<and> \<not> List.member safe_programs b"
    using m unfolding list_all_iff List.member_iff by blast
  then show False using assms by (simp only: program_reads_def if_False simp_thms)
qed

section \<open>Properties\<close>

text \<open>A command the allowlist accepts is a single statement for the parser the other gates use: it
  tokenises, writes through no redirect, and its first token names a program the allowlist admits with
  these arguments, which is the program the parser runs unless that token is an assignment.\<close>

lemma read_only_is_one_reading_statement:
  assumes "is_read_only_command c"
  shows "split_statements (strip c) = Some [(strip c, [])]
    \<and> p_ok (parse_segment c) \<and> p_redirects (parse_segment c) = []
    \<and> (\<exists>t as. shlex_split (strip c) = Some (t # as) \<and> program_reads (basename t) as
        \<and> (is_assignment t
           \<or> p_binary (parse_segment c) = Some (basename t) \<and> p_args (parse_segment c) = as))"
proof -
  obtain t as where t: "shlex_split (strip c) = Some (t # as)" "program_reads (basename t) as"
    using is_read_only_D(3) [OF assms] by blast
  have "\<not> List.member privilege (basename t)" "\<not> List.member wrappers (basename t)"
    using reading_program_not_runner [OF t(2)] by simp_all
  then have "is_assignment t \<or> p_binary (parse_segment c) = Some (basename t) \<and> p_args (parse_segment c) = as"
    using parse_first_token [OF t(1)] by blast
  then show ?thesis
    using t read_only_one_statement_aux [OF assms] read_only_no_redirects [OF assms] by blast
qed

lemma read_only_is_one_reading_statement_witness:
  "split_statements (strip '' git log -3 '') = Some [(strip '' git log -3 '', [])]"
proof -
  have "is_read_only_command '' git log -3 ''" by code_simp
  then show ?thesis using read_only_is_one_reading_statement [of "'' git log -3 ''"] by blast
qed

text \<open>
  What the allowlist admits beyond reading: it names the program by the first token, which an
  assignment may be, and it does not look at the flags of \<open>git branch\<close> and \<open>git tag\<close>, nor at
  combined flags of \<open>sort\<close>.
\<close>

lemma assignment_prefix_admitted:
  "is_read_only_command ''A=/ls rm -rf /'' \<and> p_binary (parse_segment ''A=/ls rm -rf /'') = Some ''rm''"
  by code_simp

lemma git_ref_deletion_admitted:
  "is_read_only_command ''git branch -D main'' \<and> is_read_only_command ''git tag -d v1''
   \<and> is_read_only_command ''find . -fprint0 out'' \<and> is_read_only_command ''sort -uo out in''"
  by code_simp

end
