(* ===== verification/Host.thy ===== *)
theory Host
  imports PyText
begin

text \<open>
  What the permission layer reads from the machine, and the settings it derives from it
  (\<open>config/schema.py\<close>: \<open>as_bool\<close>, \<open>env_bool\<close>; \<open>deployment.py\<close>: \<open>is_desktop\<close>, \<open>desktop_data_dir\<close>,
  \<open>data_dir\<close>). The file system and the password database are not part of the program: they
  enter as the functions \<open>os_realpath\<close>, \<open>os_expanduser\<close> and \<open>os_abspath\<close> of the record \<open>host\<close>,
  on which no law is assumed. Creating the desktop data directory (\<open>mkdir\<close>) is outside the model.
\<close>

record host =
  environ :: "string \<Rightarrow> string option"
  os_realpath :: "string \<Rightarrow> string"
  os_expanduser :: "string \<Rightarrow> string"
  os_abspath :: "string \<Rightarrow> string"
  path_home :: string
  os_tempdir :: string

definition falsy_tokens :: "string list" where
  "falsy_tokens = [''0'', ''false'', ''no'', ''off'']"

definition as_bool :: "string \<Rightarrow> bool" where
  "as_bool raw \<longleftrightarrow> \<not> List.member falsy_tokens (lower (strip raw))"

definition env_bool :: "host \<Rightarrow> string \<Rightarrow> bool \<Rightarrow> bool" where
  "env_bool h name dflt =
     (case environ h name of
        None \<Rightarrow> dflt
      | Some raw \<Rightarrow> if strip raw = [] then dflt else as_bool raw)"

text \<open>\<open>os.environ.get(var) or ""\<close>, and the comma- or colon-separated lists read from it.\<close>

definition env_str :: "host \<Rightarrow> string \<Rightarrow> string" where
  "env_str h var = (case environ h var of None \<Rightarrow> [] | Some v \<Rightarrow> v)"

definition env_list :: "host \<Rightarrow> string \<Rightarrow> string list" where
  "env_list h var =
     filter (\<lambda>p. p \<noteq> [])
       (map strip (split_char (CHR '','') (replace_char (CHR '':'') (CHR '','') (env_str h var))))"

definition is_desktop :: "host \<Rightarrow> bool" where
  "is_desktop h = env_bool h ''ADK_CC_DESKTOP'' False"

definition desktop_data_dir :: "host \<Rightarrow> string" where
  "desktop_data_dir h =
     (let v = env_str h ''ADK_CC_DESKTOP_DATA'';
          raw = (if v \<noteq> [] then v else os_expanduser h ''~/.adk-cc-desktop'')
      in path_str (os_abspath h (os_expanduser h raw)))"

definition data_dir :: "host \<Rightarrow> string" where
  "data_dir h =
     (let raw = env_str h ''ADK_CC_DATA_DIR''
      in if raw \<noteq> [] then path_str (os_abspath h (os_expanduser h raw))
         else if is_desktop h then desktop_data_dir h
         else path_div (path_home h) ''.adk-cc'')"

text \<open>A host with an empty environment and a lexical file system, for concrete runs.\<close>

definition plain_host :: host where
  "plain_host = \<lparr>environ = (\<lambda>_. None), os_realpath = normpath,
     os_expanduser = (\<lambda>p. if p = ''~'' \<or> startswith p ''~/'' then ''/home/u'' @ drop 1 p else p),
     os_abspath = (\<lambda>p. normpath (posix_join ''/home/u/prj'' p)), path_home = ''/home/u'', os_tempdir = ''/tmp''\<rparr>"

definition desktop_host :: host where
  "desktop_host = plain_host\<lparr>environ := [''ADK_CC_DESKTOP'' \<mapsto> ''1'']\<rparr>"

end
