(* ===== verification/CommandSafety.thy ===== *)
theory CommandSafety
  imports ReadOnly Host
begin

text \<open>
  \<open>permissions/command_safety.py\<close>: the four danger tiers of a shell command, the deletion test the
  broadener consults, and the path-like tokens a command mentions. The extra binaries an
  operator may configure are read from the host's environment.
\<close>

section \<open>Tiers\<close>

datatype tier = ReadOnlyTier | Mutating | Dangerous | Catastrophic

fun severity :: "tier \<Rightarrow> nat" where
  "severity ReadOnlyTier = 0"
| "severity Mutating = 1"
| "severity Dangerous = 2"
| "severity Catastrophic = 3"

definition worse :: "tier \<Rightarrow> tier \<Rightarrow> tier" where
  "worse a b = (if severity a \<ge> severity b then a else b)"

lemma severity_inj: "severity a = severity b \<longleftrightarrow> a = b"
  by (cases a; cases b) simp_all

instantiation tier :: linorder
begin

definition less_eq_tier :: "tier \<Rightarrow> tier \<Rightarrow> bool" where
  "less_eq_tier a b \<longleftrightarrow> severity a \<le> severity b"

definition less_tier :: "tier \<Rightarrow> tier \<Rightarrow> bool" where
  "less_tier a b \<longleftrightarrow> severity a < severity b"

instance
  by intro_classes (auto simp: less_eq_tier_def less_tier_def severity_inj)

end

lemma worse_max: "worse a b = max a b"
  by (auto simp: worse_def max_def less_eq_tier_def severity_inj)

lemma tier_bounds [simp]: "ReadOnlyTier \<le> t" "t \<le> Catastrophic"
  by (cases t; simp add: less_eq_tier_def)+

lemma Mutating_le [simp]: "Mutating \<le> Dangerous"
  by (simp add: less_eq_tier_def)

lemma Catastrophic_le [simp]: "Catastrophic \<le> t \<longleftrightarrow> t = Catastrophic"
  by (cases t) (simp_all add: less_eq_tier_def)

section \<open>Configuration and word lists\<close>

definition cmd_safety_enabled :: "host \<Rightarrow> bool" where
  "cmd_safety_enabled h = env_bool h ''ADK_CC_CMD_SAFETY'' True"

definition deletion_bins :: "string list" where
  "deletion_bins = [''rm'', ''rmdir'', ''unlink'', ''shred'']"

definition dangerous_bins :: "string list" where
  "dangerous_bins = [''dd'', ''shred'', ''eval'', ''crontab'', ''launchctl'', ''systemctl'',
     ''kill'', ''pkill'', ''killall'', ''fdisk'', ''parted'', ''chattr'']"

definition catastrophic_bins :: "string list" where
  "catastrophic_bins = [''wipefs'', ''shutdown'', ''reboot'', ''halt'', ''poweroff'']"

definition shells :: "string list" where
  "shells = [''sh'', ''bash'', ''zsh'', ''dash'', ''ksh'', ''fish'']"

definition root_targets :: "string list" where
  "root_targets = [''/'', ''/*'', ''~'', ''~/'', ''~/*'', ''$HOME'', ''$HOME/'', ''$HOME/*'', ''/.'']"

definition device_prefixes :: "string list" where
  "device_prefixes = [''/dev/sd'', ''/dev/disk'', ''/dev/nvme'', ''/dev/hd'', ''/dev/mapper'', ''/dev/vd'',
     ''/dev/sr'', ''/dev/md'']"

definition benign_sinks :: "string list" where
  "benign_sinks = [''/dev/null'', ''/dev/stdout'', ''/dev/stderr'', ''/dev/tty'',
     ''/dev/zero'', ''/dev/random'', ''/dev/urandom'']"

definition write_dirs :: "string list" where
  "write_dirs = [''/dev'', ''/etc'', ''/usr'', ''/bin'', ''/sbin'', ''/boot'', ''/sys'', ''/proc'', ''/System'']"

definition catastrophic_device :: "string \<Rightarrow> bool" where
  "catastrophic_device t \<longleftrightarrow> list_ex (startswith t) device_prefixes"

definition dangerous_write_dir :: "string \<Rightarrow> bool" where
  "dangerous_write_dir t \<longleftrightarrow>
     list_ex (\<lambda>d. startswith t d
       \<and> (let r = drop (length d) t in r = [] \<or> r = [CHR 0x0A] \<or> startswith r ''/'')) write_dirs"

section \<open>One statement\<close>

definition fork_bomb :: "string \<Rightarrow> bool" where
  "fork_bomb command \<longleftrightarrow>
     (let c = nonblank command
      in contains c '':(){'' \<and> (contains c '':|:'' \<or> contains c ''|:&'' \<or> contains c '':|:&''))"

definition flag_letters :: "string list \<Rightarrow> string" where
  "flag_letters as =
     concat (map (drop 1) (filter (\<lambda>a. startswith a ''-'' \<and> \<not> startswith a ''--'' \<and> 1 < length a) as))"

definition positionals :: "string list \<Rightarrow> string list" where
  "positionals as = filter (\<lambda>a. \<not> startswith a ''-'') as"

fun redirect_go :: "tier option \<Rightarrow> string list \<Rightarrow> tier option" where
  "redirect_go acc [] = acc"
| "redirect_go acc (t # ts) =
     (if catastrophic_device t then Some Catastrophic
      else if List.member benign_sinks t \<or> startswith t ''/dev/fd/'' then redirect_go acc ts
      else redirect_go (if dangerous_write_dir t then Some Dangerous else acc) ts)"

definition redirect_tier :: "string list \<Rightarrow> tier option" where
  "redirect_tier targets = redirect_go None targets"

text \<open>The two lists of tests of \<open>_classify_parsed\<close>, for binary \<open>b\<close> with arguments \<open>as\<close>.\<close>

definition recursive_flag :: "string list \<Rightarrow> bool" where
  "recursive_flag as \<longleftrightarrow> List.member (lower (flag_letters as)) (CHR ''r'') \<or> List.member as ''--recursive''"

definition force_flag :: "string list \<Rightarrow> bool" where
  "force_flag as \<longleftrightarrow> List.member (lower (flag_letters as)) (CHR ''f'') \<or> List.member as ''--force''"

definition upper_r_flag :: "string list \<Rightarrow> bool" where
  "upper_r_flag as \<longleftrightarrow> List.member (flag_letters as) (CHR ''R'') \<or> List.member as ''--recursive''"

definition catastrophic_call :: "host \<Rightarrow> string \<Rightarrow> string list \<Rightarrow> bool" where
  "catastrophic_call h b as \<longleftrightarrow>
     startswith b ''mkfs'' \<or> List.member catastrophic_bins b
       \<or> List.member (env_list h ''ADK_CC_CATASTROPHIC_CMDS'') b
     \<or> b = ''rm'' \<and> List.member as ''--no-preserve-root''
     \<or> b = ''rm'' \<and> recursive_flag as \<and> force_flag as \<and> list_ex (List.member root_targets) (positionals as)
     \<or> b = ''dd'' \<and> list_ex (\<lambda>a. startswith a ''of=/dev/'') as
     \<or> (b = ''chmod'' \<or> b = ''chown'') \<and> upper_r_flag as \<and> List.member (positionals as) ''/''"

definition dangerous_call :: "host \<Rightarrow> string \<Rightarrow> string list \<Rightarrow> bool" where
  "dangerous_call h b as \<longleftrightarrow>
     List.member dangerous_bins b \<or> List.member (env_list h ''ADK_CC_DANGEROUS_CMDS'') b
     \<or> b = ''rm'' \<and> recursive_flag as
     \<or> List.member shells b \<and> positionals as = []
     \<or> b = ''chmod'' \<and> (upper_r_flag as \<or> list_ex (\<lambda>x. contains x ''777'') (positionals as))
     \<or> b = ''chown'' \<and> upper_r_flag as
     \<or> b = ''git'' \<and> (List.member as ''push'' \<and> (List.member (flag_letters as) (CHR ''f'') \<or> List.member as ''--force'')
         \<or> List.member as ''reset'' \<and> List.member as ''--hard'')"

definition classify_parsed :: "host \<Rightarrow> parsed_segment \<Rightarrow> tier" where
  "classify_parsed h p =
     (if \<not> p_ok p then Mutating
      else
        (let tier0 = (if p_privileged p then Dangerous else Mutating);
             tier = (case redirect_tier (p_redirects p) of None \<Rightarrow> tier0 | Some rt \<Rightarrow> worse tier0 rt)
         in case p_binary p of
              None \<Rightarrow> tier
            | Some b \<Rightarrow>
                if catastrophic_call h b (p_args p) then Catastrophic
                else if dangerous_call h b (p_args p) then worse tier Dangerous
                else tier))"

section \<open>A whole command\<close>

fun worst_of :: "host \<Rightarrow> tier \<Rightarrow> string list \<Rightarrow> tier" where
  "worst_of h worst [] = worst"
| "worst_of h worst (seg # segs) =
     (let w = worse worst (classify_parsed h (parse_segment seg))
      in if w = Catastrophic then Catastrophic else worst_of h w segs)"

definition segments_of :: "string \<Rightarrow> string list" where
  "segments_of command =
     (case split_statements command of None \<Rightarrow> [command] | Some ps \<Rightarrow> map fst ps)"

definition classify_command :: "host \<Rightarrow> string \<Rightarrow> tier" where
  "classify_command h command0 =
     (if \<not> cmd_safety_enabled h then Mutating
      else let command = strip command0
           in if command = [] then Mutating
              else if is_read_only_command command then ReadOnlyTier
              else if fork_bomb command then Catastrophic
              else (let worst = worst_of h Mutating (segments_of command)
                    in if worst = Catastrophic then Catastrophic
                       else if worst = Dangerous then Dangerous
                       else (case split_statements command of
                               None \<Rightarrow> Mutating
                             | Some ps \<Rightarrow>
                                 if list_all (\<lambda>p. is_read_only_command (fst p)) ps then ReadOnlyTier
                                 else Mutating)))"

definition command_deletes :: "string \<Rightarrow> bool" where
  "command_deletes command \<longleftrightarrow>
     list_ex (\<lambda>seg. let p = parse_segment seg
                    in p_ok p \<and> (case p_binary p of None \<Rightarrow> False | Some b \<Rightarrow> List.member deletion_bins b))
       (segments_of command)"

section \<open>Paths a command mentions\<close>

definition safe_devices :: "string list" where
  "safe_devices = [''/dev/null'', ''/dev/zero'', ''/dev/tty'', ''/dev/stdin'', ''/dev/stdout'',
     ''/dev/stderr'', ''/dev/random'', ''/dev/urandom'', ''/dev/full'']"

definition is_safe_device :: "string \<Rightarrow> bool" where
  "is_safe_device tok \<longleftrightarrow> List.member safe_devices tok \<or> startswith tok ''/dev/fd/''"

text \<open>\<open>_REDIR_PREFIX\<close>: as \<open>_REDIR\<close>, but the target must not be empty; a second \<open>>\<close> is given back if it must.\<close>

definition nonempty_opt :: "string option \<Rightarrow> string option" where
  "nonempty_opt x = (case x of None \<Rightarrow> None | Some g \<Rightarrow> if g = [] then None else Some g)"

definition redir_prefix :: "string \<Rightarrow> string option" where
  "redir_prefix t =
     (case redir_head t of
        None \<Rightarrow> None
      | Some r \<Rightarrow>
          (case (if startswith r ''>'' then nonempty_opt (dot_star (drop 1 r)) else None) of
             Some g \<Rightarrow> Some g
           | None \<Rightarrow> nonempty_opt (dot_star r)))"

text \<open>\<open>_VAR_REF = ^\$\{?([A-Za-z_][A-Za-z0-9_]*)\}?(/.*)?$\<close>: the variable and the path after it.\<close>

definition var_ref :: "string \<Rightarrow> (string \<times> string) option" where
  "var_ref tok =
     (if \<not> startswith tok ''$'' then None
      else
        (let s = snd (take_opt (CHR ''{'') (drop 1 tok));
             name = takeWhile ascii_word s;
             rest = snd (take_opt (CHR ''}'') (dropWhile ascii_word s))
         in if name = [] \<or> \<not> ascii_name_start (hd name) then None
            else if rest = [] \<or> rest = [CHR 0x0A] then Some (name, [])
            else if startswith rest ''/'' then map_option (\<lambda>g. (name, CHR ''/'' # g)) (dot_star (drop 1 rest))
            else None))"

definition path_like :: "string \<Rightarrow> bool" where
  "path_like tok \<longleftrightarrow> List.member tok (CHR ''/'') \<or> startswith tok ''~'' \<or> tok = ''.'' \<or> tok = ''..''"

definition mine :: "(string \<times> string) list \<Rightarrow> string \<Rightarrow> string list" where
  "mine bindings tok0 =
     (if tok0 = [] \<or> startswith tok0 ''-'' then []
      else
        (let tok1 = (case redir_prefix tok0 of None \<Rightarrow> tok0 | Some g \<Rightarrow> g);
             tok2 = (if startswith tok1 ''$(pwd)/'' then drop 7 tok1 else tok1);
             tok3 = (case var_ref tok2 of
                       None \<Rightarrow> Some tok2
                     | Some (name, suffix) \<Rightarrow> map_option (\<lambda>v. v @ suffix) (map_of bindings name))
         in case tok3 of
              None \<Rightarrow> []
            | Some tok \<Rightarrow> if \<not> is_safe_device tok \<and> path_like tok then [tok] else []))"

fun mine_assignments ::
  "(string \<times> string) list \<Rightarrow> (string \<times> string) list \<Rightarrow> (string \<times> string) list \<times> string list" where
  "mine_assignments bindings [] = (bindings, [])"
| "mine_assignments bindings ((name, val) # al) =
     (let b = setdefault name val bindings; (b', out) = mine_assignments b al
      in (b', mine b val @ out))"

fun mine_tokens ::
  "(string \<times> string) list \<Rightarrow> string list \<Rightarrow> (string \<times> string) list \<times> string list" where
  "mine_tokens bindings [] = (bindings, [])"
| "mine_tokens bindings (tok # toks) =
     (if is_assignment tok
      then (let val = after_char (CHR ''='') tok;
                b = setdefault (before_char (CHR ''='') tok) val bindings;
                (b', out) = mine_tokens b toks
            in (b', mine b val @ out))
      else (let (b', out) = mine_tokens bindings toks in (b', mine bindings tok @ out)))"

fun mine_segments :: "(string \<times> string) list \<Rightarrow> string list \<Rightarrow> string list" where
  "mine_segments bindings [] = []"
| "mine_segments bindings (seg # segs) =
     (let p = parse_segment seg;
          (b1, out1) = mine_assignments bindings (p_assignments p);
          (b2, out2) = mine_tokens b1 (p_args p @ p_redirects p)
      in out1 @ out2 @ mine_segments b2 segs)"

definition command_paths :: "string \<Rightarrow> string list" where
  "command_paths command =
     mine_segments [(''HOME'', ''~'')]
       (case split_statements command of
          None \<Rightarrow> [strip_heredocs command]
        | Some ps \<Rightarrow> map fst ps)"

section \<open>The tier of a command is the worst tier of its statements\<close>

abbreviation segment_tier :: "host \<Rightarrow> string \<Rightarrow> tier" where
  "segment_tier h seg \<equiv> classify_parsed h (parse_segment seg)"

lemma redirect_go_range: "redirect_go acc ts \<in> {acc, Some Dangerous, Some Catastrophic}"
  by (induction ts arbitrary: acc) auto

lemma classify_parsed_ge_Mutating: "Mutating \<le> classify_parsed h p"
proof -
  have "Mutating \<le> (case redirect_tier ts of None \<Rightarrow> t | Some rt \<Rightarrow> worse t rt)"
    if "Mutating \<le> t" for t ts
    using that redirect_go_range [of None ts]
    by (auto simp: redirect_tier_def worse_max le_max_iff_disj split: option.split)
  moreover have "Mutating \<le> (if b then Dangerous else Mutating)" for b
    by simp
  ultimately show ?thesis
    unfolding classify_parsed_def Let_def
    by (auto simp: worse_max le_max_iff_disj split: option.split)
qed

lemma worst_of_eq: "worst_of h w segs = foldl max w (map (segment_tier h) segs)"
proof (induction segs arbitrary: w)
  case Nil
  then show ?case by simp
next
  case (Cons seg segs)
  have top: "foldl max Catastrophic ts = Catastrophic" for ts
    by (induction ts) (simp_all add: max_absorb1)
  show ?case
    using Cons [of "max w (segment_tier h seg)"] top by (auto simp: worse_max Let_def)
qed

lemma foldl_max_upper: "w \<le> foldl max w ts \<and> (\<forall>t \<in> set ts. t \<le> foldl max w (ts :: tier list))"
proof (induction ts arbitrary: w)
  case Nil
  then show ?case by simp
next
  case (Cons t ts)
  then show ?case by (metis foldl_Cons max.bounded_iff set_ConsD)
qed

lemma foldl_max_attained: "foldl max w ts \<in> insert w (set (ts :: tier list))"
proof (induction ts arbitrary: w)
  case Nil
  then show ?case by simp
next
  case (Cons t ts)
  have "foldl max (max w t) ts \<in> insert (max w t) (set ts)" by (rule Cons)
  moreover have "max w t = w \<or> max w t = t" by (simp add: max_def)
  ultimately show ?case by auto
qed

lemma worst_of_upper: "seg \<in> set segs \<Longrightarrow> segment_tier h seg \<le> worst_of h w segs"
  using foldl_max_upper [of w "map (segment_tier h) segs"] by (auto simp: worst_of_eq)

lemma worst_of_attained:
  "worst_of h w segs = w \<or> (\<exists>seg \<in> set segs. worst_of h w segs = segment_tier h seg)"
  using foldl_max_attained [of w "map (segment_tier h) segs"] by (auto simp: worst_of_eq)

lemma worst_of_ge: "w \<le> worst_of h w segs"
  using foldl_max_upper [of w "map (segment_tier h) segs"] by (simp add: worst_of_eq)

lemma classify_blank: "strip c = [] \<Longrightarrow> classify_command h c = Mutating"
  by (simp add: classify_command_def)

lemma classify_read_only_command:
  "cmd_safety_enabled h \<Longrightarrow> is_read_only_command c \<Longrightarrow> classify_command h c = ReadOnlyTier"
  using is_read_only_D(1) [of c] by (simp add: classify_command_def is_read_only_strip)

lemma classify_strip: "classify_command h (strip c) = classify_command h c"
  by (simp add: classify_command_def)

lemma classify_worst:
  assumes "cmd_safety_enabled h" "strip c \<noteq> []" "\<not> is_read_only_command c" "\<not> fork_bomb (strip c)"
    and "Dangerous \<le> worst_of h Mutating (segments_of (strip c))"
  shows "classify_command h c = worst_of h Mutating (segments_of (strip c))"
  using assms
  by (cases "worst_of h Mutating (segments_of (strip c))")
    (simp_all add: classify_command_def Let_def is_read_only_strip less_eq_tier_def)

lemma classify_upper:
  assumes "cmd_safety_enabled h" "\<not> is_read_only_command c" "seg \<in> set (segments_of (strip c))"
    and "strip c \<noteq> []" "Dangerous \<le> segment_tier h seg"
  shows "segment_tier h seg \<le> classify_command h c"
proof (cases "fork_bomb (strip c)")
  case True
  then show ?thesis using assms by (simp add: classify_command_def is_read_only_strip)
next
  case False
  have "segment_tier h seg \<le> worst_of h Mutating (segments_of (strip c))"
    by (rule worst_of_upper [OF assms(3)])
  then show ?thesis using classify_worst [of h c] assms False by (metis order_trans)
qed

lemma classify_ReadOnly_D:
  assumes "classify_command h c = ReadOnlyTier"
  shows "is_read_only_command c
    \<or> (\<exists>ps. split_statements (strip c) = Some ps \<and> (\<forall>p \<in> set ps. is_read_only_command (fst p)))"
  using assms
  by (auto simp: classify_command_def Let_def is_read_only_strip list_all_iff
      split: if_splits option.splits)

lemma classify_dangerous_attained:
  assumes "classify_command h c = Dangerous"
  shows "\<exists>seg \<in> set (segments_of (strip c)). segment_tier h seg = Dangerous"
proof -
  have "worst_of h Mutating (segments_of (strip c)) = Dangerous"
    using assms by (auto simp: classify_command_def Let_def split: if_splits option.splits)
  then show ?thesis
    using worst_of_attained [of h Mutating "segments_of (strip c)"] by (metis tier.distinct(7))
qed

section \<open>The tier as a maximum\<close>

lemma foldl_max_Max: "foldl max w ts = Max (insert w (set (ts :: tier list)))"
proof (induction ts arbitrary: w)
  case Nil
  then show ?case by simp
next
  case (Cons t ts)
  have "insert w (set (t # ts)) = insert w (insert t (set ts))" by simp
  moreover have "Max (insert (max w t) (set ts)) = Max (insert w (insert t (set ts)))"
    by (cases "ts = []") (simp_all add: max.assoc)
  ultimately show ?case using Cons by simp
qed

lemma worst_of_Max:
  assumes "segs \<noteq> []"
  shows "worst_of h Mutating segs = Max (segment_tier h ` set segs)"
proof -
  have "worst_of h Mutating segs = Max (insert Mutating (segment_tier h ` set segs))"
    by (simp add: worst_of_eq foldl_max_Max)
  also have "\<dots> = max Mutating (Max (segment_tier h ` set segs))"
    using assms by (intro Max_insert) auto
  also have "\<dots> = Max (segment_tier h ` set segs)"
  proof -
    obtain seg where "seg \<in> set segs" using assms by (cases segs) auto
    then have "segment_tier h seg \<le> Max (segment_tier h ` set segs)" by simp
    then show ?thesis using classify_parsed_ge_Mutating [of h "parse_segment seg"] by (simp add: max_absorb2)
  qed
  finally show ?thesis .
qed

lemma plain_safety: "cmd_safety_enabled plain_host" by code_simp

section \<open>Mined paths\<close>

text \<open>A token that names a path as it stands: no flag, variable, redirect or assignment.\<close>

definition plainly_named :: "string \<Rightarrow> bool" where
  "plainly_named t \<longleftrightarrow> t \<noteq> [] \<and> \<not> startswith t ''-'' \<and> \<not> startswith t ''$'' \<and> redir_head t = None
     \<and> \<not> is_assignment t \<and> path_like t \<and> \<not> is_safe_device t"

lemma mine_plain: "plainly_named t \<Longrightarrow> mine b t = [t]"
proof -
  assume p: "plainly_named t"
  then have "redir_prefix t = None" by (simp add: plainly_named_def redir_prefix_def)
  moreover have "\<not> startswith t ''$(pwd)/''" using p by (cases t) (auto simp: plainly_named_def)
  moreover have "var_ref t = None" using p by (simp add: plainly_named_def var_ref_def)
  ultimately show ?thesis using p by (simp add: plainly_named_def mine_def Let_def)
qed

lemma mine_tokens_plain: "plainly_named t \<Longrightarrow> t \<in> set ts \<Longrightarrow> t \<in> set (snd (mine_tokens b ts))"
proof (induction b ts rule: mine_tokens.induct)
  case (2 b tok toks)
  show ?case
  proof (cases "is_assignment tok")
    case True
    then have "t \<in> set toks" using 2(3,4) by (auto simp: plainly_named_def)
    then show ?thesis using 2(1) [OF True refl refl 2(3)] True
      by (auto simp: Let_def split: prod.split)
  next
    case False
    then show ?thesis using 2(2) [OF False 2(3)] 2(3,4) mine_plain [OF 2(3)]
      by (auto simp: Let_def split: prod.split)
  qed
qed simp

lemma mine_segments_plain:
  "plainly_named t \<Longrightarrow> seg \<in> set segs \<Longrightarrow>
     t \<in> set (p_args (parse_segment seg)) \<union> set (p_redirects (parse_segment seg)) \<Longrightarrow>
     t \<in> set (mine_segments b segs)"
proof (induction segs arbitrary: b)
  case (Cons s segs)
  obtain b1 o1 where 1: "mine_assignments b (p_assignments (parse_segment s)) = (b1, o1)" by fastforce
  obtain b2 o2 where 2: "mine_tokens b1 (p_args (parse_segment s) @ p_redirects (parse_segment s)) = (b2, o2)"
    by fastforce
  show ?case
  proof (cases "seg = s")
    case True
    then have "t \<in> set o2" using mine_tokens_plain [OF Cons(2), of _ b1] Cons(4) 2 by (metis set_append snd_conv)
    then show ?thesis using 1 2 by (simp add: Let_def)
  next
    case False
    then have "t \<in> set (mine_segments b2 segs)" using Cons by simp
    then show ?thesis using 1 2 by (simp add: Let_def)
  qed
qed simp

lemma mine_only_paths: "x \<in> set (mine b t) \<Longrightarrow> path_like x \<and> \<not> is_safe_device x"
  by (auto simp: mine_def Let_def split: if_splits option.splits)

lemma mine_assignments_only: "x \<in> set (snd (mine_assignments b al)) \<Longrightarrow> path_like x \<and> \<not> is_safe_device x"
  by (induction b al rule: mine_assignments.induct)
    (auto simp: Let_def split: prod.splits dest: mine_only_paths)

lemma mine_tokens_only: "x \<in> set (snd (mine_tokens b ts)) \<Longrightarrow> path_like x \<and> \<not> is_safe_device x"
  by (induction b ts rule: mine_tokens.induct)
    (auto simp: Let_def split: prod.splits if_splits dest: mine_only_paths)

lemma mine_segments_only: "x \<in> set (mine_segments b segs) \<Longrightarrow> path_like x \<and> \<not> is_safe_device x"
proof (induction segs arbitrary: b)
  case (Cons s segs)
  obtain b1 o1 where 1: "mine_assignments b (p_assignments (parse_segment s)) = (b1, o1)" by fastforce
  obtain b2 o2 where 2: "mine_tokens b1 (p_args (parse_segment s) @ p_redirects (parse_segment s)) = (b2, o2)"
    by fastforce
  have "x \<in> set (snd (b1, o1)) \<or> x \<in> set (snd (b2, o2)) \<or> x \<in> set (mine_segments b2 segs)"
    using Cons(2) 1 2 by (auto simp: Let_def)
  then show ?case
    using Cons(1) mine_assignments_only [of x] mine_tokens_only [of x] unfolding 1 [symmetric] 2 [symmetric]
    by blast
qed simp

section \<open>Properties\<close>

text \<open>The tier of a command is the worst tier of its statements when one of them is dangerous;
  otherwise the command runs freely exactly when the allowlist accepts every statement.\<close>

lemma classify_is_worst_statement:
  assumes "cmd_safety_enabled h" "\<not> is_read_only_command c" "\<not> fork_bomb (strip c)"
    and "split_statements (strip c) = Some ps"
  shows "classify_command h c =
     (let worst = Max (segment_tier h ` fst ` set ps)
      in if Dangerous \<le> worst then worst
         else if \<forall>p \<in> set ps. is_read_only_command (fst p) then ReadOnlyTier else Mutating)"
proof -
  have ne: "ps \<noteq> []" using statements.last_delimiter [OF assms(4)] by simp
  then have w: "worst_of h Mutating (segments_of (strip c)) = Max (segment_tier h ` fst ` set ps)"
    using worst_of_Max [of "map fst ps" h] assms(4) by (simp add: segments_of_def)
  have b: "strip c \<noteq> []" using assms(4) by (auto simp: split_statements_def split: if_splits)
  show ?thesis
  proof (cases "Dangerous \<le> Max (segment_tier h ` fst ` set ps)")
    case True
    then show ?thesis using classify_worst [OF assms(1) b assms(2,3)] w by (simp add: Let_def)
  next
    case False
    then have "Max (segment_tier h ` fst ` set ps) \<noteq> Dangerous"
      "Max (segment_tier h ` fst ` set ps) \<noteq> Catastrophic" by auto
    then show ?thesis
      using False assms b w
      by (simp add: classify_command_def Let_def is_read_only_strip list_all_iff)
  qed
qed

lemma classify_is_worst_statement_witness:
  "classify_command plain_host ''ls; rm -r build'' = Dangerous"
proof -
  have "classify_command plain_host ''ls; rm -r build'' =
     (let worst = Max (segment_tier plain_host ` fst ` set [(''ls'', '';''), (''rm -r build'', [])])
      in if Dangerous \<le> worst then worst
         else if \<forall>p \<in> set [(''ls'', '';''), (''rm -r build'', [])]. is_read_only_command (fst p)
         then ReadOnlyTier else Mutating)"
    by (rule classify_is_worst_statement; code_simp)
  moreover have "segment_tier plain_host ''ls'' = Mutating" "segment_tier plain_host ''rm -r build'' = Dangerous"
    by code_simp+
  ultimately show ?thesis by (simp add: max_def less_eq_tier_def)
qed

text \<open>A recursive, forced \<open>rm\<close> on the root or the home directory, in any statement of the command
  and behind any prefix runner, makes the command catastrophic.\<close>

lemma rm_root_is_catastrophic:
  assumes "cmd_safety_enabled h" "\<not> is_read_only_command c"
    and "split_statements (strip c) = Some ps" "p \<in> set ps"
    and "p_binary (parse_segment (fst p)) = Some ''rm''"
    and "recursive_flag (p_args (parse_segment (fst p)))" "force_flag (p_args (parse_segment (fst p)))"
    and "target \<in> set root_targets" "target \<in> set (p_args (parse_segment (fst p)))"
  shows "classify_command h c = Catastrophic"
proof -
  have ok: "p_ok (parse_segment (fst p))"
    using assms(5) by (auto simp: parse_segment_def Let_def split: if_splits option.splits prod.splits list.splits)
  have "list_all (\<lambda>t. \<not> startswith t ''-'') root_targets" by code_simp
  then have "target \<in> set (positionals (p_args (parse_segment (fst p))))"
    using assms(8,9) by (auto simp: positionals_def list_all_iff)
  then have "list_ex (List.member root_targets) (positionals (p_args (parse_segment (fst p))))"
    using assms(8) by (auto simp: list_ex_iff)
  then have "segment_tier h (fst p) = Catastrophic"
    using assms(5-7) ok by (simp add: classify_parsed_def Let_def catastrophic_call_def)
  moreover have "segment_tier h (fst p) \<le> classify_command h c"
    using assms(1-4) \<open>segment_tier h (fst p) = Catastrophic\<close>
    by (intro classify_upper) (auto simp: segments_of_def split_statements_def split: if_splits)
  ultimately show ?thesis by simp
qed

lemma rm_root_is_catastrophic_witness:
  "classify_command plain_host ''cd build && sudo rm -r -f $HOME'' = Catastrophic"
  by (rule rm_root_is_catastrophic
      [where p = "(''sudo rm -r -f $HOME'', [])" and target = "''$HOME''"
        and ps = "[(''cd build'', ''&&''), (''sudo rm -r -f $HOME'', [])]"]; code_simp)

text \<open>Prefixing a statement with a runner leaves its tier unchanged, except that a privilege
  escalator makes it at least dangerous.\<close>

lemma runner_tier:
  assumes "r \<in> set runners" "strip c = c" "shlex_split c = Some (t # ts)" "\<not> startswith t ''-''"
  shows "segment_tier h (r @ '' '' @ c) =
     (if r \<in> set privilege then max Dangerous (segment_tier h c) else segment_tier h c)"
proof -
  have p: "parse_segment (r @ '' '' @ c)
     = (parse_segment c)\<lparr>p_privileged := p_privileged (parse_segment c) \<or> List.member privilege r, p_wrapped := True\<rparr>"
    using runner_parse [OF runners_plain [OF assms(1)] assms(2-4)] by simp
  have "p_ok (parse_segment c)"
    using assms(2,3) by (auto simp: parse_segment_def Let_def shlex_split_def split: prod.split list.split)
  then show ?thesis
    unfolding p using redirect_go_range [of None "p_redirects (parse_segment c)"]
    by (cases "p_privileged (parse_segment c)"; cases "redirect_tier (p_redirects (parse_segment c))")
      (auto simp: classify_parsed_def Let_def worse_max redirect_tier_def max_def less_eq_tier_def split: option.split)
qed


lemma runner_tier_witness:
  "segment_tier plain_host ''sudo ls'' = Dangerous \<and> segment_tier plain_host ''nohup ls'' = Mutating"
proof -
  have "segment_tier plain_host (''sudo'' @ '' '' @ ''ls'') =
      (if ''sudo'' \<in> set privilege then max Dangerous (segment_tier plain_host ''ls'') else segment_tier plain_host ''ls'')"
    by (rule runner_tier [where t = "''ls''" and ts = "[]"]; code_simp)
  moreover have "segment_tier plain_host (''nohup'' @ '' '' @ ''ls'') =
      (if ''nohup'' \<in> set privilege then max Dangerous (segment_tier plain_host ''ls'') else segment_tier plain_host ''ls'')"
    by (rule runner_tier [where t = "''ls''" and ts = "[]"]; code_simp)
  moreover have "segment_tier plain_host ''ls'' = Mutating" by code_simp
  ultimately show ?thesis by (simp add: privilege_def max_def less_eq_tier_def)
qed

text \<open>In a command of the read-only tier every statement passes the allowlist and none writes
  through a redirect.\<close>

lemma read_only_tier_only_reads:
  assumes "classify_command h c = ReadOnlyTier"
  shows "\<exists>ps. split_statements (strip c) = Some ps \<and>
     (\<forall>p \<in> set ps. is_read_only_command (fst p) \<and> p_redirects (parse_segment (fst p)) = [])"
  using classify_ReadOnly_D [OF assms]
proof
  assume ro: "is_read_only_command c"
  then have "is_read_only_command (strip c)" by (simp add: is_read_only_strip)
  then show ?thesis
    using read_only_one_statement_aux [OF ro] read_only_no_redirects [of "strip c"] by auto
qed (use read_only_no_redirects in blast)

lemma read_only_tier_only_reads_witness:
  "\<exists>ps. split_statements (strip ''git status && ls | wc -l'') = Some ps \<and>
     (\<forall>p \<in> set ps. is_read_only_command (fst p) \<and> p_redirects (parse_segment (fst p)) = [])"
  by (rule read_only_tier_only_reads [where h = plain_host]; code_simp)

text \<open>Every path a statement names plainly, as an argument or as the target of a redirect, is among the
  paths that the protected-path check sees.\<close>

lemma command_paths_covers:
  assumes "split_statements c = Some ps" "p \<in> set ps" "plainly_named t"
    and "t \<in> set (p_args (parse_segment (fst p))) \<union> set (p_redirects (parse_segment (fst p)))"
  shows "t \<in> set (command_paths c)"
  using mine_segments_plain [OF assms(3) _ assms(4), of "map fst ps"] assms(1,2)
  by (simp add: command_paths_def)

lemma command_paths_covers_witness: "''~/.ssh/id_rsa'' \<in> set (command_paths ''cd /tmp && cat -n ~/.ssh/id_rsa | wc'')"
  by (rule command_paths_covers [where p = "(''cat -n ~/.ssh/id_rsa'', ''|'')"
        and ps = "[(''cd /tmp'', ''&&''), (''cat -n ~/.ssh/id_rsa'', ''|''), (''wc'', [])]"]; code_simp)

text \<open>The protected-path check sees nothing but path-like words: each has a slash, starts with a
  tilde or is a dot directory, and none is one of the harmless devices.\<close>

lemma command_paths_are_paths:
  assumes "x \<in> set (command_paths c)"
  shows "(List.member x (CHR ''/'') \<or> startswith x ''~'' \<or> x = ''.'' \<or> x = ''..'') \<and> \<not> is_safe_device x"
  using mine_segments_only assms by (auto simp: command_paths_def path_like_def)

lemma command_paths_are_paths_witness: "\<not> is_safe_device ''/etc/hosts'' \<and> ''/etc/hosts'' \<in> set (command_paths ''cat /etc/hosts 2> /dev/null'')"
proof -
  have m: "''/etc/hosts'' \<in> set (command_paths ''cat /etc/hosts 2> /dev/null'')" by code_simp
  then show ?thesis using command_paths_are_paths [OF m] by blast
qed

text \<open>
  What the tiers miss. A redirect glued to the word before it is not recognised, the operator of a
  file-descriptor duplication is read as a statement separator, and an assignment whose value ends
  in the name of a reading program makes any command free.
\<close>

lemma glued_redirect_missed:
  "classify_command plain_host ''echo x > /etc/passwd'' = Dangerous
   \<and> classify_command plain_host ''echo x>/etc/passwd'' = Mutating"
  by code_simp

lemma fd_duplication_splits:
  "split_statements ''make 2>&1'' = Some [(''make 2>'', ''&''), (''1'', [])]"
  by code_simp

lemma assignment_prefix_runs_freely:
  "classify_command plain_host ''rm -rf /'' = Catastrophic
   \<and> classify_command plain_host ''A=/ls rm -rf /'' = ReadOnlyTier"
  by code_simp

end
