(* ===== verification/Rules.thy ===== *)
theory Rules
  imports Host "HOL-Library.Multiset"
begin

text \<open>
  \<open>permissions/modes.py\<close>, \<open>permissions/rules.py\<close> and \<open>permissions/settings.py\<close>: the permission
  modes, the rules with their per-tool keys and workspace-aware matching, and the layered
  hierarchy that fixes the order in which rules are tried.

  The arguments of a tool call are a map from names to strings; arguments of other types are
  outside the model.
\<close>

datatype permission_mode = Default | Plan | AcceptEdits | BypassPermissions | DontAsk

datatype rule_behavior = RDeny | RAsk | RAllow

datatype rule_source = Policy | User | Project | Session

record permission_rule =
  r_source :: rule_source
  r_behavior :: rule_behavior
  r_tool :: string
  r_content :: "string option"

type_synonym tool_args = "string \<Rightarrow> string option"

definition arg :: "tool_args \<Rightarrow> string \<Rightarrow> string \<Rightarrow> string" where
  "arg as name dflt = (case as name of None \<Rightarrow> dflt | Some v \<Rightarrow> v)"

definition rule_key :: "string \<Rightarrow> tool_args \<Rightarrow> string option" where
  "rule_key tool as =
     (if tool = ''run_skill_script'' then Some (arg as ''skill_name'' [] @ '':'' @ arg as ''file_path'' [])
      else if tool = ''read_file'' \<or> tool = ''write_file'' \<or> tool = ''edit_file'' then Some (arg as ''path'' [])
      else if tool = ''glob_files'' then Some (arg as ''root'' ''.'')
      else if tool = ''grep'' then Some (arg as ''path'' ''.'')
      else if tool = ''run_bash'' then Some (arg as ''command'' [])
      else None)"

definition is_path_tool :: "string \<Rightarrow> bool" where
  "is_path_tool tool \<longleftrightarrow>
     List.member [''run_skill_script'', ''read_file'', ''write_file'', ''edit_file'', ''glob_files'', ''grep''] tool"

text \<open>\<open>Path(raw).expanduser()\<close>; \<open>None\<close> is its \<open>RuntimeError\<close> for an unknown home.\<close>

definition path_expanduser :: "host \<Rightarrow> string \<Rightarrow> string option" where
  "path_expanduser h raw =
     (case path_parts raw of
        [] \<Rightarrow> Some (path_str raw)
      | t # ts \<Rightarrow>
          if \<not> is_abs raw \<and> startswith t ''~''
          then (let homedir = os_expanduser h t
                in if startswith homedir ''~'' then None else Some (path_str (join ''/'' (homedir # ts))))
          else Some (path_str raw))"

definition resolve_against_workspace :: "host \<Rightarrow> string \<Rightarrow> string option \<Rightarrow> string option" where
  "resolve_against_workspace h raw root =
     (if raw = [] then None
      else (case path_expanduser h raw of
              None \<Rightarrow> None
            | Some p \<Rightarrow>
                if is_abs p then Some (os_realpath h p)
                else (case root of
                        None \<Rightarrow> Some (os_realpath h p)
                      | Some w \<Rightarrow> if w = [] then Some (os_realpath h p) else Some (os_realpath h (path_div w p)))))"

definition rule_matches ::
  "host \<Rightarrow> permission_rule \<Rightarrow> string \<Rightarrow> tool_args \<Rightarrow> string option \<Rightarrow> bool" where
  "rule_matches h rule tool as root =
     (if r_tool rule \<noteq> ''*'' \<and> r_tool rule \<noteq> tool then False
      else (case r_content rule of
              None \<Rightarrow> True
            | Some pat \<Rightarrow>
                (case rule_key tool as of
                   None \<Rightarrow> False
                 | Some key \<Rightarrow>
                     if fnmatch key pat then True
                     else if is_path_tool tool
                       then (case resolve_against_workspace h key root of
                               None \<Rightarrow> False
                             | Some resolved \<Rightarrow> fnmatch resolved pat)
                     else False)))"

section \<open>The settings hierarchy\<close>

type_synonym settings = "rule_source \<Rightarrow> permission_rule list"

definition source_order :: "rule_source list" where
  "source_order = [Policy, User, Project, Session]"

definition new_settings :: "permission_rule list \<Rightarrow> settings" where
  "new_settings rules = (\<lambda>s. filter (\<lambda>r. r_source r = s) rules)"

definition all_rules :: "settings \<Rightarrow> permission_rule list" where
  "all_rules st = concat (map st source_order)"

datatype settings_error = OnlySessionRules

definition add_session_rule :: "settings \<Rightarrow> permission_rule \<Rightarrow> settings_error + settings" where
  "add_session_rule st rule =
     (if r_source rule \<noteq> Session then Inl OnlySessionRules
      else Inr (st(Session := st Session @ [rule])))"

definition empty_settings :: settings where
  "empty_settings = new_settings []"

fun priority :: "rule_source \<Rightarrow> nat" where
  "priority Policy = 0"
| "priority User = 1"
| "priority Project = 2"
| "priority Session = 3"

definition layered :: "settings \<Rightarrow> bool" where
  "layered st \<longleftrightarrow> (\<forall>s. \<forall>r \<in> set (st s). r_source r = s)"

lemma all_rules_eq: "all_rules st = st Policy @ st User @ st Project @ st Session"
  by (simp add: all_rules_def source_order_def)

lemma layered_new: "layered (new_settings rules)"
  by (simp add: layered_def new_settings_def)

lemma set_all_rules_new: "set (all_rules (new_settings rules)) = set rules"
proof -
  have "r_source r = Policy \<or> r_source r = User \<or> r_source r = Project \<or> r_source r = Session" for r
    by (cases "r_source r") auto
  then show ?thesis by (auto simp: all_rules_eq new_settings_def)
qed

lemma add_session_rule_appends:
  "add_session_rule st rule = Inr st' \<Longrightarrow> all_rules st' = all_rules st @ [rule]"
  by (auto simp: add_session_rule_def all_rules_eq split: if_splits)

lemma add_session_rule_layered:
  "layered st \<Longrightarrow> add_session_rule st rule = Inr st' \<Longrightarrow> layered st'"
  by (auto simp: layered_def add_session_rule_def split: if_splits)

lemma layered_priority_sorted: "layered st \<Longrightarrow> sorted (map (\<lambda>r. priority (r_source r)) (all_rules st))"
proof -
  assume l: "layered st"
  have "map (\<lambda>r. priority (r_source r)) (st s) = replicate (length (st s)) (priority s)" for s
    using l by (simp add: layered_def map_replicate_const [symmetric] cong: map_cong)
  then show ?thesis by (auto simp: all_rules_eq sorted_append)
qed

section \<open>First match\<close>

definition rule_applies ::
  "host \<Rightarrow> rule_behavior \<Rightarrow> string \<Rightarrow> tool_args \<Rightarrow> string option \<Rightarrow> permission_rule \<Rightarrow> bool" where
  "rule_applies h b tool as root r \<longleftrightarrow> r_behavior r = b \<and> rule_matches h r tool as root"

definition first_match ::
  "host \<Rightarrow> permission_rule list \<Rightarrow> rule_behavior \<Rightarrow> string \<Rightarrow> tool_args \<Rightarrow> string option
    \<Rightarrow> permission_rule option" where
  "first_match h rules b tool as root = List.find (rule_applies h b tool as root) rules"

lemma first_match_Some:
  "first_match h rules b tool as root = Some r \<Longrightarrow> r \<in> set rules \<and> rule_applies h b tool as root r"
  unfolding first_match_def by (rule find_Some_D)

lemma first_match_None_iff:
  "first_match h rules b tool as root = None \<longleftrightarrow> (\<forall>r \<in> set rules. \<not> rule_applies h b tool as root r)"
  unfolding first_match_def by (auto simp: find_None_iff)

lemma find_sorted_first:
  "sorted (map f xs) \<Longrightarrow> List.find P xs = Some x \<Longrightarrow> y \<in> set xs \<Longrightarrow> P y \<Longrightarrow> f x \<le> (f y :: nat)"
  by (induction xs) (auto split: if_splits)

lemma first_match_highest_priority:
  assumes "layered st" "first_match h (all_rules st) b tool as root = Some r"
    and "r' \<in> set (all_rules st)" "rule_applies h b tool as root r'"
  shows "priority (r_source r) \<le> priority (r_source r')"
  using find_sorted_first [OF layered_priority_sorted [OF assms(1)]] assms(2-4)
  by (simp add: first_match_def)

text \<open>A key without pattern characters, stored as a rule, matches exactly the calls with that key.\<close>

lemma rule_matches_star_tool:
  "r_tool r = ''*'' \<Longrightarrow> r_content r = None \<Longrightarrow> rule_matches h r tool as root"
  by (simp add: rule_matches_def)

lemma rule_matches_bash:
  "rule_matches h r ''run_bash'' as root \<longleftrightarrow>
     (r_tool r = ''*'' \<or> r_tool r = ''run_bash'')
     \<and> (case r_content r of None \<Rightarrow> True | Some pat \<Rightarrow> fnmatch (arg as ''command'' []) pat)"
  by (auto simp: rule_matches_def rule_key_def is_path_tool_def split: option.split)

lemma rule_matches_raw_key:
  "r_tool r = ''*'' \<or> r_tool r = tool \<Longrightarrow> rule_key tool as = Some key \<Longrightarrow> r_content r = Some pat \<Longrightarrow>
     fnmatch key pat \<Longrightarrow> rule_matches h r tool as root"
  by (auto simp: rule_matches_def)

lemma all_rules_new_sort: "all_rules (new_settings rules) = sort_key (\<lambda>r. priority (r_source r)) rules"
proof (rule properties_for_sort_key [symmetric])
  show "mset (all_rules (new_settings rules)) = mset rules"
  proof (induction rules)
    case (Cons r rules)
    then show ?case by (cases "r_source r") (simp_all add: all_rules_eq new_settings_def)
  qed (simp add: all_rules_eq new_settings_def)
next
  fix k
  have s: "priority a = priority b \<longleftrightarrow> a = b" for a b by (cases a; cases b) simp_all
  assume "k \<in> set (all_rules (new_settings rules))"
  then show "filter (\<lambda>x. priority (r_source k) = priority (r_source x)) (all_rules (new_settings rules))
      = filter (\<lambda>x. priority (r_source k) = priority (r_source x)) rules"
    unfolding s by (cases "r_source k") (auto simp: all_rules_eq new_settings_def filter_empty_conv intro!: filter_cong)
next
  show "sorted (map (\<lambda>r. priority (r_source r)) (all_rules (new_settings rules)))"
    by (rule layered_priority_sorted [OF layered_new])
qed

section \<open>Properties\<close>

text \<open>The layered settings try the rules in the order of their sources (policy, user, project,
  session), and within one source in the order they were given: the first match is the first
  applicable rule of the rules sorted stably by source.\<close>

lemma first_match_is_first_of_sorted:
  "first_match h (all_rules (new_settings rules)) b tool as root
     = List.find (rule_applies h b tool as root) (sort_key (\<lambda>r. priority (r_source r)) rules)"
  by (simp add: first_match_def all_rules_new_sort)

end
