(* ===== verification/Broadening.thy ===== *)
theory Broadening
  imports CommandSafety Rules
begin

text \<open>
  \<open>permissions/broadening.py\<close>: the rule contents an "Allow always" click stores. A command is cut
  by this module's own splitter (\<open>split_compound\<close>), benign redirects are dropped, and each
  segment is widened to its command family; path tools are widened to the workspace.
  \<open>_has_unsafe_shell_metachars\<close> has the same text here and in \<open>parse.py\<close>; the model's
  \<open>has_unsafe_shell_metachars\<close> of \<open>ShellParse\<close> is used for both.
\<close>

definition prefix_table :: "(string \<times> nat) list" where
  "prefix_table =
     [(''cd'', 1), (''pwd'', 1), (''ls'', 1), (''cat'', 1), (''echo'', 1), (''printf'', 1), (''mkdir'', 1),
      (''rmdir'', 1), (''touch'', 1), (''rm'', 1), (''cp'', 1), (''mv'', 1), (''ln'', 1), (''chmod'', 1),
      (''chown'', 1), (''tee'', 1), (''xargs'', 1), (''find'', 1), (''rg'', 1), (''grep'', 1), (''head'', 1),
      (''tail'', 1), (''wc'', 1), (''sort'', 1), (''uniq'', 1), (''cut'', 1), (''tr'', 1), (''sed'', 1),
      (''awk'', 1), (''tree'', 1), (''which'', 1), (''whereis'', 1), (''ps'', 1), (''df'', 1), (''du'', 1),
      (''stat'', 1), (''file'', 1), (''env'', 1), (''sleep'', 1), (''basename'', 1), (''dirname'', 1),
      (''pytest'', 1), (''python'', 1), (''python3'', 1), (''node'', 1), (''ruby'', 1), (''go'', 1),
      (''pip'', 2), (''uv'', 2), (''git'', 2), (''npm'', 2), (''yarn'', 2), (''pnpm'', 2), (''cargo'', 2),
      (''kubectl'', 2), (''docker'', 2), (''make'', 2), (''brew'', 2), (''apt'', 2), (''gh'', 2), (''aws'', 2),
      (''gcloud'', 2), (''az'', 2)]"

definition prefix_tokens :: "string \<Rightarrow> nat" where
  "prefix_tokens b = (case map_of prefix_table b of None \<Rightarrow> 2 | Some n \<Rightarrow> n)"

definition scope_preserving :: "string list" where
  "scope_preserving = [''cd'', ''source'', ''.'', ''pushd'', ''popd'', ''export'', ''env'', ''exec'']"

section \<open>The compound splitter\<close>

text \<open>One pass of the loop of \<open>_split_compound\<close>: only \<open>&&\<close>, \<open>||\<close>, \<open>|\<close> and \<open>;\<close> separate.\<close>

definition compound_move :: "qstate \<Rightarrow> char \<Rightarrow> string \<Rightarrow> move" where
  "compound_move st c s =
     (if st \<noteq> Unquoted then quoted_move st c s
      else if c = CHR 0x27 then Take [c] Single s
      else if c = CHR 0x22 then Take [c] Double s
      else if c = CHR 0x5C \<and> s \<noteq> [] then Take [c, hd s] Unquoted (tl s)
      else if c = CHR ''&'' \<and> startswith s ''&'' then Cut ''&&'' (tl s)
      else if c = CHR ''|'' \<and> startswith s ''|'' then Cut ''||'' (tl s)
      else if c = CHR ''|'' then Cut ''|'' s
      else if c = CHR '';'' then Cut '';'' s
      else Take [c] Unquoted s)"

lemma compound_move_take: "compound_move st c s = Take t st' r \<Longrightarrow> c # s = t @ r \<and> t \<noteq> []"
  by (auto simp: compound_move_def quoted_move_take split: if_splits)

lemma compound_move_cut_cases:
  assumes "compound_move st c s = Cut d r"
  shows "r = s \<and> nonblank [c] = nonblank d \<or> s = c # r \<and> nonblank [c, c] = nonblank d"
  using assms
  by (cases s; simp add: compound_move_def split: if_split_asm;
      (elim conjE disjE)?; hypsubst; simp add: nonblank_Cons nonblank_Nil separator_spaces)

lemma compound_move_cut:
  assumes "compound_move st c s = Cut d r"
  shows "nonblank (c # s) = nonblank d @ nonblank r" and "length r < Suc (length s)"
  using compound_move_cut_cases [OF assms]
  by (auto simp: nonblank_Cons nonblank_Nil split: if_splits)

lemma compound_move_take_length [termination_simp]:
  "compound_move st c s = Take t st' r \<Longrightarrow> length r < Suc (length s)"
  using compound_move_take [of st c s t st' r]
  by (metis length_Cons length_append length_greater_0_conv less_add_same_cancel2)

lemmas compound_move_cut_length [termination_simp] = compound_move_cut(2)

fun compound_go :: "qstate \<Rightarrow> string \<Rightarrow> string \<Rightarrow> (string \<times> string) list option" where
  "compound_go st buf [] =
     (if st \<noteq> Unquoted then None
      else if strip buf = [] then None
      else Some [(strip buf, [])])"
| "compound_go st buf (c # s) =
     (case compound_move st c s of
        Take t st' r \<Rightarrow> compound_go st' (buf @ t) r
      | Cut sep r \<Rightarrow> flush buf sep (compound_go Unquoted [] r))"

definition split_compound :: "string \<Rightarrow> (string \<times> string) list option" where
  "split_compound command = (if strip command = [] then None else compound_go Unquoted [] command)"

interpretation compound_scanner: scanner compound_move compound_go
  by unfold_locales (auto dest: compound_move_take compound_move_cut)

interpretation compound: statement_splitter split_compound "\<lambda>command. command"
proof (unfold_locales, goal_cases)
  case (1 c ps p)
  then show ?case by (auto simp: split_compound_def split: if_splits dest: compound_scanner.go_segments)
next
  case (2 c ps)
  then show ?case by (auto simp: split_compound_def split: if_splits dest: compound_scanner.go_last)
next
  case (3 c ps)
  then show ?case
    by (auto simp: split_compound_def nonblank_simps split: if_splits dest: compound_scanner.go_lossless)
qed

section \<open>One segment\<close>

text \<open>
  \<open>_BENIGN_REDIRECT_RE = \s*(?:\d?>&\d|\d?>>?\s*/dev/null|<\s*/dev/null)\<close>: what is left after a
  match at the head of the string.
\<close>

definition dev_null_after :: "string \<Rightarrow> string option" where
  "dev_null_after s =
     (let r = dropWhile py_space s in if startswith r ''/dev/null'' then Some (drop 9 r) else None)"

definition benign_operator :: "string \<Rightarrow> string option" where
  "benign_operator r =
     (let r1 = (if r \<noteq> [] \<and> ascii_digit (hd r) then tl r else r)
      in if startswith r1 ''>&'' \<and> length r1 > 2 \<and> ascii_digit (r1 ! 2) then Some (drop 3 r1)
         else if startswith r1 ''>'' then dev_null_after (drop (if startswith r1 ''>>'' then 2 else 1) r1)
         else if startswith r ''<'' then dev_null_after (drop 1 r)
         else None)"

definition benign_redirect :: "string \<Rightarrow> string option" where
  "benign_redirect s = benign_operator (dropWhile py_space s)"

lemma dev_null_after_length: "dev_null_after s = Some r \<Longrightarrow> length r \<le> length s"
  using length_dropWhile_le [of py_space s] by (auto simp: dev_null_after_def Let_def split: if_splits)

lemma dev_null_after_drop:
  "dev_null_after (drop k x) = Some r \<Longrightarrow> 0 < k \<Longrightarrow> x \<noteq> [] \<Longrightarrow> length r < length x"
  using dev_null_after_length [of "drop k x" r] by (cases x) auto

lemma benign_operator_length: "benign_operator r = Some t \<Longrightarrow> length t < length r"
proof -
  assume b: "benign_operator r = Some t"
  define r1 where "r1 = (if r \<noteq> [] \<and> ascii_digit (hd r) then tl r else r)"
  have l1: "length r1 \<le> length r" by (simp add: r1_def)
  have ne: "startswith x (d # p) \<Longrightarrow> x \<noteq> []" for x d p by (cases x) auto
  from b consider
      (dup) "length r1 > 2" "t = drop 3 r1"
    | (out) "r1 \<noteq> []" "dev_null_after (drop (if startswith r1 ''>>'' then 2 else 1) r1) = Some t"
    | (inp) "r \<noteq> []" "dev_null_after (drop 1 r) = Some t"
    unfolding benign_operator_def Let_def r1_def [symmetric] by (metis ne option.inject option.distinct(1))
  then show ?thesis
  proof cases
    case dup
    then show ?thesis using l1 by simp
  next
    case out
    then have "length t < length r1" using dev_null_after_drop [OF out(2) _ out(1)] by simp
    then show ?thesis using l1 by simp
  next
    case inp
    then show ?thesis using dev_null_after_drop [OF inp(2) _ inp(1)] by simp
  qed
qed

lemma benign_redirect_length [termination_simp]:
  "benign_redirect (c # s) = Some r \<Longrightarrow> length r < Suc (length s)"
  using benign_operator_length [of "dropWhile py_space (c # s)" r] length_dropWhile_le [of py_space "c # s"]
  by (simp add: benign_redirect_def del: dropWhile.simps)

fun drop_benign :: "string \<Rightarrow> string" where
  "drop_benign [] = []"
| "drop_benign (c # s) =
     (case benign_redirect (c # s) of
        Some r \<Rightarrow> drop_benign r
      | None \<Rightarrow> c # drop_benign s)"

definition strip_benign_redirects :: "string \<Rightarrow> string" where
  "strip_benign_redirects segment = strip (drop_benign segment)"

definition safe_token_char :: "char \<Rightarrow> bool" where
  "safe_token_char c \<longleftrightarrow> ascii_word c \<or> List.member ''-./=:@+,%'' c"

definition needs_quoting :: "string \<Rightarrow> bool" where
  "needs_quoting token \<longleftrightarrow> token = [] \<or> \<not> list_all safe_token_char token"

definition broaden_segment :: "string \<Rightarrow> string option" where
  "broaden_segment segment =
     (case shlex_split segment of
        None \<Rightarrow> None
      | Some [] \<Rightarrow> None
      | Some (b # ts) \<Rightarrow>
          if List.member scope_preserving (basename b) then Some (strip segment)
          else Some (join '' '' (map (\<lambda>t. if needs_quoting t then shlex_quote t else t)
                       (take (max 1 (prefix_tokens (basename b))) (b # ts))) @ '' *''))"

fun broaden_segments :: "string list \<Rightarrow> string list \<Rightarrow> string list option" where
  "broaden_segments acc [] = Some acc"
| "broaden_segments acc (segment # segments) =
     (let cleaned = strip_benign_redirects segment
      in if cleaned = [] \<or> has_unsafe_shell_metachars cleaned then None
         else (case broaden_segment cleaned of
                 None \<Rightarrow> None
               | Some b \<Rightarrow> broaden_segments (if List.member acc b then acc else acc @ [b]) segments))"

definition broaden_run_bash :: "string \<Rightarrow> string list option" where
  "broaden_run_bash command =
     (case split_compound command of
        None \<Rightarrow> None
      | Some ps \<Rightarrow>
          (case broaden_segments [] (map fst ps) of
             None \<Rightarrow> None
           | Some bs \<Rightarrow> if bs = [] then None else Some bs))"

section \<open>Workspace anchors and the whole computation\<close>

definition workspace_anchor :: "host \<Rightarrow> string \<Rightarrow> string option \<Rightarrow> string option" where
  "workspace_anchor h raw_path workspace_root =
     (case workspace_root of
        None \<Rightarrow> None
      | Some w \<Rightarrow>
          if w = [] then None
          else (let root = os_realpath h w
                in case resolve_against_workspace h raw_path (Some root) of
                     None \<Rightarrow> None
                   | Some target \<Rightarrow>
                       if target = root \<or> startswith target (root @ ''/'')
                       then Some (glob_escape root @ ''/*'') else None))"

definition compute_allow_always_rule_contents ::
  "host \<Rightarrow> string \<Rightarrow> tool_args \<Rightarrow> string option \<Rightarrow> string list" where
  "compute_allow_always_rule_contents h tool as workspace_root =
     (case rule_key tool as of
        None \<Rightarrow> [[]]
      | Some raw \<Rightarrow>
          if tool = ''run_skill_script'' then
            (let skill = before_char (CHR '':'') raw
             in if skill \<noteq> [] then [raw, skill @ '':*''] else [raw])
          else
            (let literal = strip raw
             in if literal = [] then [[]]
                else if tool = ''run_bash'' then
                  (if classify_command h literal = Dangerous \<or> classify_command h literal = Catastrophic
                      \<or> command_deletes literal then [literal]
                   else (case broaden_run_bash literal of
                           None \<Rightarrow> [literal]
                         | Some bs \<Rightarrow>
                             if bs = [literal] then [literal]
                             else literal # filter (\<lambda>b. b \<noteq> literal) bs))
                else (case workspace_anchor h literal workspace_root of
                        None \<Rightarrow> [literal]
                      | Some anchored \<Rightarrow> if anchored \<noteq> literal then [literal, anchored] else [literal])))"

section \<open>What a grant covers\<close>

text \<open>The session rule an "Allow always" click stores for a command.\<close>

definition bash_grant :: "string \<Rightarrow> permission_rule" where
  "bash_grant content = \<lparr>r_source = Session, r_behavior = RAllow, r_tool = ''run_bash'', r_content = Some content\<rparr>"

lemma contents_dangerous:
  assumes "as ''command'' = Some c" "strip c \<noteq> []"
    and "classify_command h c = Dangerous \<or> classify_command h c = Catastrophic \<or> command_deletes (strip c)"
  shows "compute_allow_always_rule_contents h ''run_bash'' as root = [strip c]"
  using assms
  by (auto simp: compute_allow_always_rule_contents_def rule_key_def arg_def Let_def classify_strip)

lemma bash_grant_exact:
  assumes "\<forall>x \<in> set pat. literal_char x"
  shows "rule_matches h (bash_grant pat) ''run_bash'' [''command'' \<mapsto> c] root \<longleftrightarrow> c = pat"
  using fnmatch_literal [OF assms] by (simp add: rule_matches_bash bash_grant_def arg_def)

lemma contents_literal:
  assumes "rule_key tool as = Some raw" "strip raw \<noteq> []" "tool \<noteq> ''run_skill_script''"
  shows "\<exists>cs. compute_allow_always_rule_contents h tool as root = strip raw # cs"
  using assms by (auto simp: compute_allow_always_rule_contents_def Let_def split: option.split)

lemma workspace_anchor_tree:
  "workspace_anchor h raw (Some w) = Some pat \<Longrightarrow> fnmatch p pat \<longleftrightarrow> startswith p (os_realpath h w @ ''/'')"
  by (auto simp: workspace_anchor_def Let_def fnmatch_glob_escape_tree split: if_splits option.splits)

section \<open>Properties\<close>



text \<open>"Allow always" on a path tool inside the workspace stores a pattern that matches exactly the
  paths below the workspace's real path, whatever characters its name has, so that the stored rule
  matches every later call of the tool whose path resolves there.\<close>

lemma workspace_grant_covers:
  assumes tool: "is_path_tool tool" "tool \<noteq> ''run_skill_script''" "rule_key tool as = Some raw" 
    and inside: "resolve_against_workspace h (strip raw) (Some (os_realpath h w)) = Some target"
      "startswith target (os_realpath h w @ ''/'')" "w \<noteq> []" "strip raw \<noteq> []"
  shows "\<exists>pat. pat \<in> set (compute_allow_always_rule_contents h tool as (Some w))
     \<and> (\<forall>p. fnmatch p pat \<longleftrightarrow> startswith p (os_realpath h w @ ''/''))
     \<and> (\<forall>as' key q root. rule_key tool as' = Some key \<longrightarrow> resolve_against_workspace h key root = Some q \<longrightarrow>
          startswith q (os_realpath h w @ ''/'') \<longrightarrow>
          rule_matches h \<lparr>r_source = Session, r_behavior = RAllow, r_tool = tool, r_content = Some pat\<rparr> tool as' root)"
proof -
  define pat where "pat = glob_escape (os_realpath h w) @ ''/*''"
  have a: "workspace_anchor h (strip raw) (Some w) = Some pat"
    using inside by (simp add: workspace_anchor_def Let_def pat_def)
  have "tool \<noteq> ''run_bash''" using tool(1) by (auto simp: is_path_tool_def)
  then have "pat \<in> set (compute_allow_always_rule_contents h tool as (Some w))"
    using a tool(2,3) inside(4) by (simp add: compute_allow_always_rule_contents_def Let_def)
  moreover have "fnmatch p pat \<longleftrightarrow> startswith p (os_realpath h w @ ''/'')" for p
    by (rule workspace_anchor_tree [OF a])
  moreover have "rule_matches h \<lparr>r_source = Session, r_behavior = RAllow, r_tool = tool, r_content = Some pat\<rparr> tool as' root"
    if "rule_key tool as' = Some key" "resolve_against_workspace h key root = Some q"
      "startswith q (os_realpath h w @ ''/'')" for as' key q root
    using that tool(1) workspace_anchor_tree [OF a] by (simp add: rule_matches_def)
  ultimately show ?thesis by blast
qed

lemma workspace_grant_covers_witness:
  "\<exists>pat. pat \<in> set (compute_allow_always_rule_contents plain_host ''read_file'' [''path'' \<mapsto> ''src/a.py''] (Some ''/work/[x]''))
     \<and> (\<forall>p. fnmatch p pat \<longleftrightarrow> startswith p (os_realpath plain_host ''/work/[x]'' @ ''/''))"
proof -
  have "is_path_tool ''read_file''" "rule_key ''read_file'' [''path'' \<mapsto> ''src/a.py''] = Some ''src/a.py''"
    "resolve_against_workspace plain_host (strip ''src/a.py'') (Some (os_realpath plain_host ''/work/[x]'')) = Some ''/work/[x]/src/a.py''"
    "startswith ''/work/[x]/src/a.py'' (os_realpath plain_host ''/work/[x]'' @ ''/'')" "strip ''src/a.py'' \<noteq> []"
    by code_simp+
  then show ?thesis using workspace_grant_covers [of "''read_file''" "[''path'' \<mapsto> ''src/a.py'']" "''src/a.py''" plain_host "''/work/[x]''" "''/work/[x]/src/a.py''"]
    by fastforce
qed

text \<open>
  Where grants and commands part ways. A stored command is matched as a pattern; the splitter of
  this module does not see \<open>&\<close> and newlines as separators; a benign redirect is recognised without
  its end; and the pattern made from a quoted program does not match the segment it came from.
\<close>

lemma literal_grant_is_a_pattern:
  "compute_allow_always_rule_contents plain_host ''run_bash'' [''command'' \<mapsto> ''rm -rf build/*''] None = [''rm -rf build/*'']
   \<and> rule_matches plain_host (bash_grant ''rm -rf build/*'') ''run_bash'' [''command'' \<mapsto> ''rm -rf build/ /''] None
   \<and> classify_command plain_host ''rm -rf build/ /'' = Catastrophic"
  by code_simp

lemma literal_grant_misses_itself:
  "\<not> rule_matches plain_host (bash_grant ''rm -r [ab]'') ''run_bash'' [''command'' \<mapsto> ''rm -r [ab]''] None"
  by code_simp

lemma background_command_is_one_segment:
  "split_compound ''npx tsc x & rm -rf ~/work'' = Some [(''npx tsc x & rm -rf ~/work'', [])]
   \<and> split_statements ''npx tsc x & rm -rf ~/work'' = Some [(''npx tsc x'', ''&''), (''rm -rf ~/work'', [])]"
  by code_simp

lemma benign_redirect_has_no_end:
  "strip_benign_redirects ''echo x > /dev/nullfile'' = ''echo xfile''"
  by code_simp

lemma quoted_program_pattern_misses:
  "broaden_segment (''pip'' @ CHR '' '' # CHR 0x22 # ''a b'' @ [CHR 0x22]) = Some (''pip'' @ CHR '' '' # CHR 0x27 # ''a b'' @ CHR 0x27 # '' *'')
   \<and> \<not> fnmatch (''pip'' @ CHR '' '' # CHR 0x22 # ''a b'' @ [CHR 0x22]) (''pip'' @ CHR '' '' # CHR 0x27 # ''a b'' @ CHR 0x27 # '' *'')"
  by code_simp

end
