(* ===== verification/Protected.thy ===== *)
theory Protected
  imports Host
begin

text \<open>
  \<open>permissions/protected.py\<close>: the protected-path floor of the desktop profile. A resolved path is
  secret material (\<open>PDeny\<close>), shell or tool configuration (\<open>PAsk\<close>) or unprotected (\<open>None\<close>). The
  Python \<open>set\<close> of two data roots is a list here: only membership is used.
\<close>

datatype protection = PDeny | PAsk

definition deny_default :: "string list" where
  "deny_default = [''~/.ssh'', ''~/.ssh/**'', ''~/.aws'', ''~/.aws/**'', ''~/.config/gcloud/**'',
     ''~/.config/gh/hosts.yml'', ''~/.gnupg'', ''~/.gnupg/**'', ''~/.kube/config'',
     ''~/.docker/config.json'', ''~/.git-credentials'', ''~/.netrc'']"

definition ask_default :: "string list" where
  "ask_default = [''~/.gitconfig'', ''~/.npmrc'', ''~/.pypirc'', ''~/.zshrc'', ''~/.zprofile'',
     ''~/.bashrc'', ''~/.bash_profile'', ''~/.profile'', ''**/.git/config'']"

definition secret_store_patterns :: "host \<Rightarrow> string list" where
  "secret_store_patterns h =
     (let d = rstrip_slash (os_realpath h (desktop_data_dir h));
          roots = [d, rstrip_slash (os_realpath h (data_dir h))];
          reg = env_str h ''ADK_CC_MODEL_REGISTRY_FILE''
      in [d @ ''/secrets'', d @ ''/secrets/**'', d @ ''/credential.key'']
         @ concat (map (\<lambda>r. [r @ ''/model-endpoints.json'', r @ ''/admin-data/model-endpoints.json'']) roots)
         @ (if reg \<noteq> [] then [os_realpath h (os_expanduser h reg)] else []))"

definition expand :: "host \<Rightarrow> string list \<Rightarrow> string list" where
  "expand h pats = map (os_expanduser h) (filter (\<lambda>p. p \<noteq> []) pats)"

definition deny_patterns :: "host \<Rightarrow> string list" where
  "deny_patterns h =
     secret_store_patterns h @ expand h deny_default @ expand h (env_list h ''ADK_CC_PROTECTED_DENY'')"

definition ask_patterns :: "host \<Rightarrow> string list" where
  "ask_patterns h = expand h ask_default @ expand h (env_list h ''ADK_CC_PROTECTED_ASK'')"

definition realpath_prefix :: "host \<Rightarrow> string \<Rightarrow> string" where
  "realpath_prefix h pat =
     (let prefix = takeWhile literal_char pat; glob = dropWhile literal_char pat
      in if prefix = [] then pat
         else (let rp = os_realpath h prefix
               in (if endswith prefix ''/'' \<and> \<not> endswith rp ''/'' then rp @ ''/'' else rp) @ glob))"

definition protected_match :: "host \<Rightarrow> string \<Rightarrow> string \<Rightarrow> bool" where
  "protected_match h target pat \<longleftrightarrow>
     list_ex (\<lambda>form. fnmatch target (lower form)) [pat, realpath_prefix h pat]"

definition expand_remote_home :: "string \<Rightarrow> string \<Rightarrow> string" where
  "expand_remote_home home pat =
     (if pat = ''~'' \<or> startswith pat ''~/'' then rstrip_slash home @ drop 1 pat else pat)"

definition verdict :: "bool \<Rightarrow> bool \<Rightarrow> protection option" where
  "verdict deny ask = (if deny then Some PDeny else if ask then Some PAsk else None)"

definition classify_remote :: "host \<Rightarrow> string \<Rightarrow> string \<Rightarrow> protection option" where
  "classify_remote h home abs_path =
     (let t = lower (rstrip_slash abs_path);
          target = (if t = [] then ''/'' else t);
          hits = (\<lambda>pats. list_ex (\<lambda>p. fnmatch target (lower (expand_remote_home home p))) pats)
      in verdict (hits (deny_default @ env_list h ''ADK_CC_PROTECTED_DENY''))
                 (hits (ask_default @ env_list h ''ADK_CC_PROTECTED_ASK'')))"

definition classify_path :: "host \<Rightarrow> string option \<Rightarrow> string \<Rightarrow> protection option" where
  "classify_path h remote_home abs_path =
     (if abs_path = [] then None
      else if \<not> is_desktop h then None
      else (case given remote_home of
              Some home \<Rightarrow> classify_remote h home abs_path
            | None \<Rightarrow>
                (let target = lower (os_realpath h abs_path)
                 in verdict (list_ex (protected_match h target) (deny_patterns h))
                            (list_ex (protected_match h target) (ask_patterns h)))))"

section \<open>What the floor covers\<close>

lemma classify_path_off_desktop: "\<not> is_desktop h \<Longrightarrow> classify_path h home p = None"
  by (simp add: classify_path_def)

lemma lower_append [simp]: "lower (s @ t) = lower s @ lower t"
  by (simp add: lower_def)

lemma lower_eq_Nil_iff [simp]: "lower s = [] \<longleftrightarrow> s = []"
  by (simp add: lower_def)

lemma tok_match_double_star: "tok_match [PStar, PStar] s"
  by (subst tok_match_star) auto

text \<open>A directory whose name has no pattern characters, followed by \<open>/**\<close>, covers everything below it.\<close>

lemma fnmatch_tree:
  "\<forall>c \<in> set d. literal_char c \<Longrightarrow> fnmatch s (d @ ''/**'') \<longleftrightarrow> startswith s (d @ ''/'')"
proof -
  assume d: "\<forall>c \<in> set d. literal_char c"
  have dd: "\<forall>c \<in> set (d @ ''/''). literal_char c" using d by (auto simp: literal_char_def)
  have "fnmatch s ((d @ ''/'') @ ''**'') \<longleftrightarrow> (\<exists>v. s = (d @ ''/'') @ v \<and> fnmatch v ''**'')"
    by (rule fnmatch_literal_prefix [OF dd])
  then show ?thesis by (simp add: startswith_iff fnmatch_def tok_match_double_star)
qed

lemma verdict_PDeny [simp]: "verdict d a = Some PDeny \<longleftrightarrow> d"
  by (simp add: verdict_def)

lemma remote_deny_tree:
  assumes home: "\<forall>c \<in> set (lower (rstrip_slash home)). literal_char c"
    and desk: "is_desktop h" "home \<noteq> []"
    and pat: "''~/'' @ d @ ''/**'' \<in> set deny_default" "\<forall>c \<in> set (lower d). literal_char c"
    and path: "lower (rstrip_slash p) = lower (rstrip_slash home) @ ''/'' @ lower d @ ''/'' @ x"
  shows "classify_path h (Some home) p = Some PDeny"
proof -
  let ?dir = "lower (rstrip_slash home) @ ''/'' @ lower d"
  have ne: "p \<noteq> []" using path by (auto simp: rstrip_slash_def lower_def)
  have "lower (expand_remote_home home (''~/'' @ d @ ''/**'')) = ?dir @ ''/**''"
    by (simp add: expand_remote_home_def lower_def lower_char_def)
  moreover have "fnmatch (lower (rstrip_slash p)) (?dir @ ''/**'')"
    using home pat(2) path by (subst fnmatch_tree) (auto simp: literal_char_def startswith_iff)
  ultimately have "list_ex (\<lambda>q. fnmatch (lower (rstrip_slash p)) (lower (expand_remote_home home q)))
      (deny_default @ env_list h ''ADK_CC_PROTECTED_DENY'')"
    using pat(1) by (auto simp: list_ex_iff intro!: bexI [of _ "''~/'' @ d @ ''/**''"])
  then show ?thesis
    using ne desk path by (simp add: classify_path_def classify_remote_def given_def Let_def)
qed

end
