(* ===== verification/Engine.thy ===== *)
theory Engine
  imports Broadening Protected
begin

text \<open>
  \<open>permissions/engine.py\<close>: the permission decision. \<open>decide_impl\<close> is \<open>_decide_impl\<close> with its steps
  in the code's order (1, 1b, 1c, 1d, 2a, 1e, 1f, 2b, 2c, 3, 4). The decision's reason text is a
  constructor of \<open>reason\<close>, one per message. Logging and the audit event of \<open>decide\<close> are outside
  the model; \<open>decide\<close> returns what \<open>_decide_impl\<close> returns.
\<close>

record tool_meta =
  t_name :: string
  t_read_only :: bool
  t_destructive :: bool

datatype behavior = Allow | Deny | Ask

datatype reason =
    DeniedByRule rule_source
  | ProtectedNever
  | CatastrophicBlocked
  | ReadOnlyCommand
  | PlanReadOnlyBash
  | PlanBlockedCommand string
  | PlanBlocked string
  | DangerousDontAsk
  | DangerousAsks
  | OutsideDontAsk
  | OutsideAsks
  | BypassMode
  | ProtectedDontAsk
  | ProtectedAsks
  | AskRuleDontAsk
  | AskedByRule rule_source
  | AcceptEditsMode
  | DestructiveDontAsk string
  | DestructiveAsks string
  | AllowedByDefault
  | AllowedByRule rule_source

record permission_decision =
  d_behavior :: behavior
  d_rule :: "permission_rule option"
  d_reason :: reason

definition decision :: "behavior \<Rightarrow> permission_rule option \<Rightarrow> reason \<Rightarrow> permission_decision" where
  "decision b r w = \<lparr>d_behavior = b, d_rule = r, d_reason = w\<rparr>"

section \<open>Allow matching for commands\<close>

definition whole_command_rule :: "permission_rule list \<Rightarrow> tool_args \<Rightarrow> permission_rule option" where
  "whole_command_rule rules as =
     (let command = arg as ''command'' []
      in List.find (\<lambda>r. r_behavior r = RAllow \<and> (r_tool r = ''run_bash'' \<or> r_tool r = ''*'')
           \<and> (r_content r = None \<or> r_content r = Some ''*'' \<or> r_content r = Some command)) rules)"

fun segments_match ::
  "host \<Rightarrow> permission_rule list \<Rightarrow> tool_args \<Rightarrow> string option \<Rightarrow> permission_rule option \<Rightarrow> string list
    \<Rightarrow> permission_rule option" where
  "segments_match h rules as root matched [] = matched"
| "segments_match h rules as root matched (seg # segs) =
     (case first_match h rules RAllow ''run_bash'' [''command'' \<mapsto> seg] root of
        None \<Rightarrow> whole_command_rule rules as
      | Some hit \<Rightarrow>
          segments_match h rules as root (case matched of None \<Rightarrow> Some hit | Some m \<Rightarrow> Some m) segs)"

definition looks_compound :: "string \<Rightarrow> bool" where
  "looks_compound command \<longleftrightarrow> list_ex (contains command) [''&&'', ''||'', '';'', ''|'']"

definition bash_allow_match ::
  "host \<Rightarrow> permission_rule list \<Rightarrow> tool_args \<Rightarrow> string option \<Rightarrow> permission_rule option" where
  "bash_allow_match h rules as root =
     (let command = arg as ''command'' [];
          split = (if command = [] then None else split_compound command)
      in if split = None \<and> command \<noteq> [] then
           (if looks_compound command then whole_command_rule rules as
            else first_match h rules RAllow ''run_bash'' as root)
         else
           (let segments = (case split of None \<Rightarrow> [] | Some ps \<Rightarrow> map fst ps)
            in if length segments \<le> 1 then first_match h rules RAllow ''run_bash'' as root
               else segments_match h rules as root None segments))"

section \<open>Plan mode and remote paths\<close>

definition plan_mode_bash_ok :: "tool_args \<Rightarrow> bool" where
  "plan_mode_bash_ok as = is_read_only_command (arg as ''command'' [])"

definition plan_block_reason :: "string \<Rightarrow> tool_args \<Rightarrow> reason" where
  "plan_block_reason tool as =
     (if tool = ''run_bash'' then
        (let cmd = replace_char (CHR 0x0A) (CHR '' '') (strip (arg as ''command'' []))
         in if cmd \<noteq> [] then
              PlanBlockedCommand (if length cmd \<le> 120 then cmd else take 117 cmd @ ''...'')
            else PlanBlocked tool)
      else PlanBlocked tool)"

definition resolve_remote_lexical :: "string \<Rightarrow> string option \<Rightarrow> string \<Rightarrow> string option" where
  "resolve_remote_lexical raw root remote_home =
     (if raw = [] then None
      else
        (let p = (if raw = ''~'' \<or> startswith raw ''~/'' then rstrip_slash remote_home @ drop 1 raw else raw)
         in if is_abs p then Some (normpath p)
            else (case given root of
                    None \<Rightarrow> None
                  | Some w \<Rightarrow> Some (normpath (posix_join w p)))))"

section \<open>The decision\<close>

text \<open>What the steps consult, computed once per call.\<close>

definition resolve_path :: "host \<Rightarrow> string option \<Rightarrow> string option \<Rightarrow> string \<Rightarrow> string option" where
  "resolve_path h root remote_home raw =
     (case given remote_home of
        Some home \<Rightarrow> resolve_remote_lexical raw root home
      | None \<Rightarrow> resolve_against_workspace h raw root)"

definition classify_raw :: "host \<Rightarrow> string option \<Rightarrow> string option \<Rightarrow> string \<Rightarrow> protection option" where
  "classify_raw h root remote_home raw =
     (case given (resolve_path h root remote_home raw) of
        None \<Rightarrow> None
      | Some resolved \<Rightarrow> classify_path h remote_home resolved)"

fun worst_protection :: "('a \<Rightarrow> protection option) \<Rightarrow> protection option \<Rightarrow> 'a list \<Rightarrow> protection option" where
  "worst_protection f prot [] = prot"
| "worst_protection f prot (raw # raws) =
     (case f raw of
        Some PDeny \<Rightarrow> Some PDeny
      | Some PAsk \<Rightarrow> worst_protection f (if prot = None then Some PAsk else prot) raws
      | None \<Rightarrow> worst_protection f prot raws)"

definition protection_of ::
  "host \<Rightarrow> string \<Rightarrow> tool_args \<Rightarrow> string option \<Rightarrow> string option \<Rightarrow> protection option" where
  "protection_of h tool as root remote_home =
     (let path_prot =
            (if is_path_tool tool
             then (case rule_key tool as of None \<Rightarrow> None | Some key \<Rightarrow> classify_raw h root remote_home key)
             else None)
      in if tool = ''run_bash''
         then worst_protection (classify_raw h root remote_home) path_prot
                (command_paths (arg as ''command'' []))
         else path_prot)"

definition command_tier :: "host \<Rightarrow> string \<Rightarrow> tool_args \<Rightarrow> tier" where
  "command_tier h tool as =
     (if tool = ''run_bash'' then classify_command h (arg as ''command'' []) else Mutating)"

definition allow_match ::
  "host \<Rightarrow> permission_rule list \<Rightarrow> string \<Rightarrow> tool_args \<Rightarrow> string option \<Rightarrow> permission_rule option" where
  "allow_match h rules tool as root =
     (if tool = ''run_bash'' then bash_allow_match h rules as root
      else first_match h rules RAllow tool as root)"

definition effective_mode :: "permission_mode \<Rightarrow> bool \<Rightarrow> permission_mode" where
  "effective_mode mode sandbox_isolated =
     (if sandbox_isolated \<and> (mode = Default \<or> mode = AcceptEdits) then BypassPermissions else mode)"

definition decide_impl ::
  "host \<Rightarrow> tool_meta \<Rightarrow> tool_args \<Rightarrow> permission_mode \<Rightarrow> settings \<Rightarrow> string option \<Rightarrow> bool
    \<Rightarrow> string option \<Rightarrow> bool \<Rightarrow> permission_decision" where
  "decide_impl h tool as mode0 st root cmd_out_of_scope remote_home sandbox_isolated =
     (let mode = effective_mode mode0 sandbox_isolated;
          rules = all_rules st;
          name = t_name tool;
          protected = protection_of h name as root remote_home;
          cmd_tier = command_tier h name as;
          deny = first_match h rules RDeny name as root;
          allow = allow_match h rules name as root;
          ask = first_match h rules RAsk name as root
      in case deny of
           Some r \<Rightarrow> decision Deny (Some r) (DeniedByRule (r_source r))
         | None \<Rightarrow>
        if protected = Some PDeny then decision Deny None ProtectedNever
        else if cmd_tier = Catastrophic \<and> allow = None then decision Deny None CatastrophicBlocked
        else if cmd_tier = ReadOnlyTier \<and> ask = None \<and> protected = None then
          decision Allow allow ReadOnlyCommand
        else if mode = Plan \<and> \<not> t_read_only tool then
          (if name = ''run_bash'' \<and> plan_mode_bash_ok as then decision Allow None PlanReadOnlyBash
           else decision Deny None (plan_block_reason name as))
        else if cmd_tier = Dangerous \<and> allow = None then
          (if mode = DontAsk then decision Deny None DangerousDontAsk
           else decision Ask None DangerousAsks)
        else if cmd_out_of_scope \<and> cmd_tier = Mutating \<and> allow = None then
          (if mode = DontAsk then decision Deny None OutsideDontAsk
           else decision Ask None OutsideAsks)
        else if mode = BypassPermissions then decision Allow None BypassMode
        else if protected = Some PAsk then
          (if mode = DontAsk then decision Deny None ProtectedDontAsk
           else decision Ask None ProtectedAsks)
        else if ask \<noteq> None \<and> allow = None then
          (if mode = DontAsk then decision Deny ask AskRuleDontAsk
           else decision Ask ask (AskedByRule (r_source (the ask))))
        else if t_destructive tool \<and> allow = None then
          (if mode = AcceptEdits then decision Allow None AcceptEditsMode
           else if mode = DontAsk then decision Deny None (DestructiveDontAsk name)
           else decision Ask None (DestructiveAsks name))
        else decision Allow allow
               (case allow of None \<Rightarrow> AllowedByDefault | Some r \<Rightarrow> AllowedByRule (r_source r)))"

definition decide ::
  "host \<Rightarrow> tool_meta \<Rightarrow> tool_args \<Rightarrow> permission_mode \<Rightarrow> settings \<Rightarrow> string option \<Rightarrow> bool
    \<Rightarrow> string option \<Rightarrow> bool \<Rightarrow> permission_decision" where
  "decide h tool as mode st root cmd_out_of_scope remote_home sandbox_isolated =
     decide_impl h tool as mode st root cmd_out_of_scope remote_home sandbox_isolated"

section \<open>The abstract decision\<close>

text \<open>
  What a permission decision depends on, and the decision as a policy over it: a hard floor that
  denies, free reading, the plan-mode block, and otherwise a human is asked when one is needed,
  which is a denial where nobody may be asked.
\<close>

record facts =
  f_denied :: bool
  f_protected :: "protection option"
  f_tier :: tier
  f_allowed :: bool
  f_asked :: bool
  f_outside :: bool
  f_read_only :: bool
  f_destructive :: bool
  f_plan_reads :: bool

definition hard_floor :: "facts \<Rightarrow> bool" where
  "hard_floor f \<longleftrightarrow> f_denied f \<or> f_protected f = Some PDeny \<or> f_tier f = Catastrophic \<and> \<not> f_allowed f"

definition free_read :: "facts \<Rightarrow> bool" where
  "free_read f \<longleftrightarrow> f_tier f = ReadOnlyTier \<and> \<not> f_asked f \<and> f_protected f = None"

definition command_floor :: "facts \<Rightarrow> bool" where
  "command_floor f \<longleftrightarrow> \<not> f_allowed f \<and> (f_tier f = Dangerous \<or> f_outside f \<and> f_tier f = Mutating)"

definition needs_human :: "permission_mode \<Rightarrow> facts \<Rightarrow> bool" where
  "needs_human mode f \<longleftrightarrow>
     command_floor f
     \<or> mode \<noteq> BypassPermissions
       \<and> (f_protected f = Some PAsk
          \<or> \<not> f_allowed f \<and> (f_asked f \<or> f_destructive f \<and> mode \<noteq> AcceptEdits))"

definition outcome :: "permission_mode \<Rightarrow> facts \<Rightarrow> behavior" where
  "outcome mode f =
     (if hard_floor f then Deny
      else if free_read f then Allow
      else if mode = Plan \<and> \<not> f_read_only f then (if f_plan_reads f then Allow else Deny)
      else if needs_human mode f then (if mode = DontAsk then Deny else Ask)
      else Allow)"

definition facts_of ::
  "host \<Rightarrow> tool_meta \<Rightarrow> tool_args \<Rightarrow> settings \<Rightarrow> string option \<Rightarrow> bool \<Rightarrow> string option \<Rightarrow> facts" where
  "facts_of h tool as st root out home =
     \<lparr>f_denied = (first_match h (all_rules st) RDeny (t_name tool) as root \<noteq> None),
      f_protected = protection_of h (t_name tool) as root home,
      f_tier = command_tier h (t_name tool) as,
      f_allowed = (allow_match h (all_rules st) (t_name tool) as root \<noteq> None),
      f_asked = (first_match h (all_rules st) RAsk (t_name tool) as root \<noteq> None),
      f_outside = out,
      f_read_only = t_read_only tool,
      f_destructive = t_destructive tool,
      f_plan_reads = (t_name tool = ''run_bash'' \<and> plan_mode_bash_ok as)\<rparr>"

lemma protection_cases: "p \<noteq> None \<Longrightarrow> p \<noteq> Some PDeny \<Longrightarrow> p = Some PAsk"
  by (cases p; cases "the p") auto

lemma d_behavior_decision [simp]: "d_behavior (decision b r w) = b"
  by (simp add: decision_def)

text \<open>The steps of the code, over their conditions, are the policy.\<close>

lemma steps_outcome:
  "(if p = Some PDeny then Deny
    else if t = Catastrophic \<and> \<not> al then Deny
    else if t = ReadOnlyTier \<and> \<not> ak \<and> p = None then Allow
    else if m = Plan \<and> \<not> ro then (if pr then Allow else Deny)
    else if t = Dangerous \<and> \<not> al then (if m = DontAsk then Deny else Ask)
    else if out \<and> t = Mutating \<and> \<not> al then (if m = DontAsk then Deny else Ask)
    else if m = BypassPermissions then Allow
    else if p = Some PAsk then (if m = DontAsk then Deny else Ask)
    else if ak \<and> \<not> al then (if m = DontAsk then Deny else Ask)
    else if ds \<and> \<not> al then (if m = AcceptEdits then Allow else if m = DontAsk then Deny else Ask)
    else Allow)
   = outcome m \<lparr>f_denied = False, f_protected = p, f_tier = t, f_allowed = al, f_asked = ak,
       f_outside = out, f_read_only = ro, f_destructive = ds, f_plan_reads = pr\<rparr>"
  (is "?steps = outcome m ?f")
proof (cases "hard_floor ?f \<or> free_read ?f \<or> m = Plan \<and> \<not> ro")
  case True
  then consider (floor) "p = Some PDeny \<or> t = Catastrophic \<and> \<not> al"
    | (free) "\<not> hard_floor ?f" "t = ReadOnlyTier" "\<not> ak" "p = None"
    | (plan) "\<not> hard_floor ?f" "\<not> free_read ?f" "m = Plan" "\<not> ro"
    by (auto simp: hard_floor_def free_read_def)
  then show ?thesis
  proof cases
    case floor
    then have "?steps = Deny" by (cases "p = Some PDeny") (simp_all only: if_True if_False simp_thms)
    moreover from floor have "outcome m ?f = Deny" by (auto simp: outcome_def hard_floor_def)
    ultimately show ?thesis by simp
  next
    case free
    then show ?thesis by (simp add: outcome_def hard_floor_def free_read_def)
  next
    case plan
    from plan(1) have "p \<noteq> Some PDeny" "\<not> (t = Catastrophic \<and> \<not> al)" by (auto simp: hard_floor_def)
    moreover from plan(2) have "\<not> (t = ReadOnlyTier \<and> \<not> ak \<and> p = None)" by (auto simp: free_read_def)
    moreover from plan have "m = Plan \<and> \<not> ro" by simp
    ultimately have "?steps = (if pr then Allow else Deny)" by (simp only: if_False if_True simp_thms)
    moreover from plan have "outcome m ?f = (if pr then Allow else Deny)" by (simp add: outcome_def)
    ultimately show ?thesis by simp
  qed
next
  case False
  have n: "needs_human m ?f \<longleftrightarrow>
      \<not> al \<and> (t = Dangerous \<or> out \<and> t = Mutating)
      \<or> m \<noteq> BypassPermissions \<and> (p = Some PAsk \<or> \<not> al \<and> (ak \<or> ds \<and> m \<noteq> AcceptEdits))"
    by (simp add: needs_human_def command_floor_def)
  from False have "outcome m ?f = (if needs_human m ?f then (if m = DontAsk then Deny else Ask) else Allow)"
    unfolding outcome_def by (simp only: facts.simps simp_thms de_Morgan_disj if_False)
  moreover have "?steps = (if needs_human m ?f then (if m = DontAsk then Deny else Ask) else Allow)"
    using False unfolding n hard_floor_def free_read_def
    by (cases al; cases "m = BypassPermissions"; cases "p = Some PAsk"; cases t; auto)
  ultimately show ?thesis by simp
qed

lemma decide_outcome:
  "d_behavior (decide h tool as mode st root out home isolated)
     = outcome (effective_mode mode isolated) (facts_of h tool as st root out home)"
proof (cases "first_match h (all_rules st) RDeny (t_name tool) as root")
  case None
  then have f: "facts_of h tool as st root out home =
     \<lparr>f_denied = False, f_protected = protection_of h (t_name tool) as root home,
      f_tier = command_tier h (t_name tool) as,
      f_allowed = (allow_match h (all_rules st) (t_name tool) as root \<noteq> None),
      f_asked = (first_match h (all_rules st) RAsk (t_name tool) as root \<noteq> None),
      f_outside = out, f_read_only = t_read_only tool, f_destructive = t_destructive tool,
      f_plan_reads = (t_name tool = ''run_bash'' \<and> plan_mode_bash_ok as)\<rparr>"
    by (simp add: facts_of_def)
  show ?thesis
    unfolding f steps_outcome [symmetric]
    unfolding decide_def decide_impl_def Let_def None
    by (simp only: option.case if_distrib [of d_behavior] d_behavior_decision not_not)
next
  case (Some r)
  then show ?thesis
    by (simp add: decide_def decide_impl_def outcome_def Let_def facts_of_def hard_floor_def)
qed

text \<open>Facts about the policy, mode by mode.\<close>

lemma needs_human_modes:
  "needs_human DontAsk f = needs_human Default f"
  "needs_human AcceptEdits f \<Longrightarrow> needs_human Default f"
  "needs_human BypassPermissions f \<Longrightarrow> needs_human AcceptEdits f"
  by (auto simp: needs_human_def)

lemma outcome_DontAsk:
  "outcome DontAsk f = (if outcome Default f = Ask then Deny else outcome Default f)"
  by (simp add: outcome_def needs_human_modes)

lemma outcome_never_asks: "outcome DontAsk f \<noteq> Ask"
  by (simp add: outcome_def)

lemma outcome_AcceptEdits: "outcome Default f = Allow \<Longrightarrow> outcome AcceptEdits f = Allow"
  using needs_human_modes(2) by (auto simp: outcome_def split: if_splits)

lemma outcome_Bypass: "outcome AcceptEdits f = Allow \<Longrightarrow> outcome BypassPermissions f = Allow"
  using needs_human_modes(3) by (auto simp: outcome_def split: if_splits)

lemma outcome_Bypass_Deny: "outcome BypassPermissions f = Deny \<longleftrightarrow> hard_floor f"
  by (simp add: outcome_def)

lemma outcome_Plan_reads:
  "outcome Plan f \<noteq> Deny \<Longrightarrow> \<not> f_read_only f \<Longrightarrow> f_tier f = ReadOnlyTier \<or> f_plan_reads f"
  by (auto simp: outcome_def free_read_def split: if_splits)

lemma outcome_floor: "hard_floor f \<Longrightarrow> outcome mode f = Deny"
  by (simp add: outcome_def)

lemma outcome_command_floor: "f_tier f = Dangerous \<Longrightarrow> \<not> f_allowed f \<Longrightarrow> outcome mode f = Allow \<Longrightarrow>
    mode = Plan \<and> f_plan_reads f \<and> \<not> f_read_only f"
  by (auto simp: outcome_def free_read_def needs_human_def command_floor_def split: if_splits)

lemma outcome_Allow_iff:
  "outcome mode f = Allow \<longleftrightarrow>
     \<not> hard_floor f
     \<and> (free_read f \<or> (if mode = Plan \<and> \<not> f_read_only f then f_plan_reads f else \<not> needs_human mode f))"
  by (simp add: outcome_def)

lemma outcome_grant:
  assumes allow: "outcome mode f = Allow" and grant: "f_allowed f \<Longrightarrow> f_allowed g"
    and same: "f_denied g = f_denied f" "f_protected g = f_protected f" "f_tier g = f_tier f"
    "f_asked g = f_asked f" "f_outside g = f_outside f" "f_read_only g = f_read_only f"
    "f_destructive g = f_destructive f" "f_plan_reads g = f_plan_reads f"
  shows "outcome mode g = Allow"
proof -
  have "hard_floor g \<Longrightarrow> hard_floor f" and "free_read g = free_read f"
    and "needs_human mode g \<Longrightarrow> needs_human mode f"
    using grant by (auto simp: hard_floor_def free_read_def needs_human_def command_floor_def same)
  then show ?thesis using allow unfolding outcome_Allow_iff same by (auto split: if_splits)
qed

lemma outcome_allowed_not_Ask:
  "f_allowed f \<Longrightarrow> f_protected f \<noteq> Some PAsk \<Longrightarrow> outcome mode f \<noteq> Ask"
  by (simp add: outcome_def needs_human_def command_floor_def)

section \<open>Allow matching, segment by segment\<close>

definition grants_segment :: "host \<Rightarrow> permission_rule list \<Rightarrow> string option \<Rightarrow> string \<Rightarrow> bool" where
  "grants_segment h rules root seg \<longleftrightarrow> first_match h rules RAllow ''run_bash'' [''command'' \<mapsto> seg] root \<noteq> None"

lemma segments_match_iff:
  "segments_match h rules as root m segs \<noteq> None \<longleftrightarrow>
     (if \<forall>seg \<in> set segs. grants_segment h rules root seg then m \<noteq> None \<or> segs \<noteq> []
      else whole_command_rule rules as \<noteq> None)"
proof (induction segs arbitrary: m)
  case Nil
  then show ?case by simp
next
  case (Cons seg segs)
  show ?case
  proof (cases "first_match h rules RAllow ''run_bash'' [''command'' \<mapsto> seg] root")
    case None
    then show ?thesis by (simp add: grants_segment_def)
  next
    case (Some hit)
    then have g: "grants_segment h rules root seg" by (simp add: grants_segment_def)
    show ?thesis using Some g Cons [of "case m of None \<Rightarrow> Some hit | Some m \<Rightarrow> Some m"]
      by (cases m) auto
  qed
qed

lemma first_match_mono:
  "first_match h rules b tool as root \<noteq> None \<Longrightarrow> set rules \<subseteq> set rules' \<Longrightarrow>
     first_match h rules' b tool as root \<noteq> None"
  by (auto simp: first_match_None_iff)

lemma whole_command_rule_iff:
  "whole_command_rule rules as \<noteq> None \<longleftrightarrow>
     (\<exists>r \<in> set rules. r_behavior r = RAllow \<and> (r_tool r = ''run_bash'' \<or> r_tool r = ''*'')
        \<and> (r_content r = None \<or> r_content r = Some ''*'' \<or> r_content r = Some (arg as ''command'' [])))"
  by (auto simp: whole_command_rule_def Let_def find_None_iff)

lemma whole_command_rule_mono:
  "whole_command_rule rules as \<noteq> None \<Longrightarrow> set rules \<subseteq> set rules' \<Longrightarrow> whole_command_rule rules' as \<noteq> None"
  unfolding whole_command_rule_iff by blast

lemma segments_match_mono:
  assumes "segments_match h rules as root m segs \<noteq> None" "set rules \<subseteq> set rules'"
  shows "segments_match h rules' as root m segs \<noteq> None"
proof -
  have g: "grants_segment h rules root seg \<Longrightarrow> grants_segment h rules' root seg" for seg
    using first_match_mono [OF _ assms(2)] by (simp add: grants_segment_def)
  show ?thesis
  proof (cases "\<forall>seg \<in> set segs. grants_segment h rules root seg")
    case True
    then show ?thesis using assms(1) g unfolding segments_match_iff by simp
  next
    case False
    then obtain seg where "seg \<in> set segs" by blast
    then have "segs \<noteq> []" by auto
    then show ?thesis using assms(1) whole_command_rule_mono [OF _ assms(2)] False
      unfolding segments_match_iff by simp
  qed
qed

lemma bash_allow_match_mono:
  assumes "bash_allow_match h rules as root \<noteq> None" "set rules \<subseteq> set rules'"
  shows "bash_allow_match h rules' as root \<noteq> None"
proof -
  define c where "c = arg as ''command'' []"
  define sp where "sp = (if c = [] then None else split_compound c)"
  define segs where "segs = (case sp of None \<Rightarrow> [] | Some ps \<Rightarrow> map fst ps)"
  note mono = first_match_mono [OF _ assms(2)] whole_command_rule_mono [OF _ assms(2)]
    segments_match_mono [OF _ assms(2)]
  have eq: "bash_allow_match h rs as root =
      (if sp = None \<and> c \<noteq> [] then
         (if looks_compound c then whole_command_rule rs as else first_match h rs RAllow ''run_bash'' as root)
       else if length segs \<le> 1 then first_match h rs RAllow ''run_bash'' as root
       else segments_match h rs as root None segs)" for rs
    by (simp only: bash_allow_match_def Let_def c_def sp_def segs_def)
  show ?thesis
  proof (cases "sp = None \<and> c \<noteq> []")
    case True
    then show ?thesis using assms(1) mono unfolding eq
      by (cases "looks_compound c") (simp_all only: if_True if_False simp_thms)
  next
    case False
    then show ?thesis using assms(1) mono unfolding eq
      by (cases "length segs \<le> 1") (simp_all only: if_True if_False simp_thms)
  qed
qed

lemma allow_match_mono:
  "allow_match h rules tool as root \<noteq> None \<Longrightarrow> set rules \<subseteq> set rules' \<Longrightarrow>
     allow_match h rules' tool as root \<noteq> None"
  unfolding allow_match_def using first_match_mono bash_allow_match_mono by metis

lemma bash_allow_match_compound:
  assumes "split_compound c = Some ps" "2 \<le> length ps" "as ''command'' = Some c"
  shows "bash_allow_match h rules as root \<noteq> None \<longleftrightarrow>
     (\<forall>p \<in> set ps. grants_segment h rules root (fst p)) \<or> whole_command_rule rules as \<noteq> None"
proof -
  have c: "arg as ''command'' [] = c" by (simp add: arg_def assms(3))
  have "c \<noteq> []" using assms(1) by (auto simp: split_compound_def)
  then have b: "bash_allow_match h rules as root = segments_match h rules as root None (map fst ps)"
    using assms(1,2) c by (simp add: bash_allow_match_def Let_def)
  have ne: "map fst ps \<noteq> []" using assms(2) by auto
  show ?thesis using segments_match_iff [of h rules as root None "map fst ps"] ne unfolding b
    by (auto simp del: not_None_eq split: if_splits)
qed

lemma deny_unaffected_by_grant:
  "r_behavior r = RAllow \<Longrightarrow> b \<noteq> RAllow \<Longrightarrow>
     first_match h (rules @ [r]) b tool as root = first_match h rules b tool as root"
  by (simp add: first_match_def find_append rule_applies_def split: option.split)

section \<open>The protected floor\<close>

lemma worst_protection_deny_iff:
  "worst_protection f prot raws = Some PDeny \<longleftrightarrow>
     (\<exists>raw \<in> set raws. f raw = Some PDeny) \<or> prot = Some PDeny"
proof (induction raws arbitrary: prot)
  case (Cons raw raws)
  show ?case
  proof (cases "f raw")
    case None
    then show ?thesis using Cons by simp
  next
    case (Some p)
    then show ?thesis using Cons [of prot] Cons [of "Some PAsk"] by (cases p; cases prot) auto
  qed
qed simp

text \<open>The paths a call names: the key of a path tool, or a path mined from a command.\<close>

definition names_path :: "string \<Rightarrow> tool_args \<Rightarrow> string \<Rightarrow> bool" where
  "names_path tool as raw \<longleftrightarrow>
     is_path_tool tool \<and> rule_key tool as = Some raw
     \<or> tool = ''run_bash'' \<and> raw \<in> set (command_paths (arg as ''command'' []))"

lemma protection_of_deny:
  assumes "names_path tool as raw" "classify_raw h root home raw = Some PDeny"
  shows "protection_of h tool as root home = Some PDeny"
proof (cases "tool = ''run_bash''")
  case True
  then have "\<not> is_path_tool tool" by (simp add: is_path_tool_def)
  then show ?thesis
    using assms True unfolding names_path_def protection_of_def Let_def
    by (simp add: worst_protection_deny_iff) blast
next
  case False
  then show ?thesis using assms by (simp add: names_path_def protection_of_def)
qed

lemma remote_ssh_classified:
  assumes "is_desktop h" "home \<noteq> []" "\<forall>c \<in> set (lower (rstrip_slash home)). literal_char c"
    and "resolve_remote_lexical raw root home = Some p"
    and "lower (rstrip_slash p) = lower (rstrip_slash home) @ ''/.ssh/'' @ x"
  shows "classify_raw h root (Some home) raw = Some PDeny"
proof -
  have ne: "p \<noteq> []" using assms(5) by (auto simp: rstrip_slash_def lower_def)
  have "classify_path h (Some home) p = Some PDeny"
  proof (rule remote_deny_tree [OF assms(3,1,2), where d = "''.ssh''" and x = x])
    show "''~/'' @ ''.ssh'' @ ''/**'' \<in> set deny_default" by (simp add: deny_default_def)
    show "\<forall>c \<in> set (lower ''.ssh''). literal_char c" by code_simp
    have "lower ''.ssh'' = ''.ssh''" by code_simp
    then show "lower (rstrip_slash p) = lower (rstrip_slash home) @ ''/'' @ lower ''.ssh'' @ ''/'' @ x"
      using assms(5) by simp
  qed
  then show ?thesis using assms(2,4) ne by (simp add: classify_raw_def resolve_path_def given_def)
qed

section \<open>Grants\<close>

lemma facts_after_grant:
  assumes "add_session_rule st r = Inr st'" "r_behavior r = RAllow"
  shows "facts_of h tool as st' root out home = (facts_of h tool as st root out home)
    \<lparr>f_allowed := (allow_match h (all_rules st @ [r]) (t_name tool) as root \<noteq> None)\<rparr>"
  using assms by (simp add: facts_of_def add_session_rule_appends [OF assms(1)] deny_unaffected_by_grant)

lemma grant_widens:
  assumes "add_session_rule st r = Inr st'" "r_behavior r = RAllow"
    and "d_behavior (decide h tool as mode st root out home isolated) = Allow"
  shows "d_behavior (decide h tool as mode st' root out home isolated) = Allow"
proof -
  let ?f = "facts_of h tool as st root out home"
  have "f_allowed ?f \<Longrightarrow> allow_match h (all_rules st @ [r]) (t_name tool) as root \<noteq> None"
    using allow_match_mono [of h "all_rules st" "t_name tool" as root "all_rules st @ [r]"]
    by (simp add: facts_of_def subset_insertI)
  then show ?thesis
    using outcome_grant [of _ ?f "facts_of h tool as st' root out home"] assms(3)
    unfolding decide_outcome facts_after_grant [OF assms(1,2)] by simp
qed

lemma grant_keeps_floor:
  assumes "add_session_rule st r = Inr st'" "r_behavior r = RAllow"
    and "(\<exists>q \<in> set (all_rules st). r_behavior q = RDeny \<and> rule_matches h q (t_name tool) as root)
      \<or> protection_of h (t_name tool) as root home = Some PDeny"
  shows "d_behavior (decide h tool as mode st' root out home isolated) = Deny"
proof -
  have "hard_floor (facts_of h tool as st' root out home)"
    using assms(3) first_match_None_iff [of h "all_rules st" RDeny "t_name tool" as root]
    unfolding facts_after_grant [OF assms(1,2)]
    by (auto simp: hard_floor_def facts_of_def rule_applies_def)
  then show ?thesis unfolding decide_outcome by (rule outcome_floor)
qed

lemma own_rule_matches:
  assumes "as ''command'' = Some c" "bash_grant c \<in> set rules" "c \<noteq> []"
    and "(\<forall>x \<in> set c. literal_char x) \<or> (\<exists>ps. split_compound c = Some ps \<and> 2 \<le> length ps)"
  shows "bash_allow_match h rules as root \<noteq> None"
  using assms(4)
proof
  assume lit: "\<forall>x \<in> set c. literal_char x"
  have c: "arg as ''command'' [] = c" using assms(1) by (simp add: arg_def)
  have w: "whole_command_rule rules as \<noteq> None"
    unfolding whole_command_rule_iff c using assms(2) by (intro bexI [of _ "bash_grant c"]) (simp_all add: bash_grant_def)
  have "rule_applies h RAllow ''run_bash'' as root (bash_grant c)"
    using fnmatch_literal [OF lit] by (simp add: rule_applies_def rule_matches_bash c bash_grant_def)
  then have f: "first_match h rules RAllow ''run_bash'' as root \<noteq> None"
    using assms(2) first_match_None_iff by metis
  show ?thesis
  proof (cases "\<exists>ps. split_compound c = Some ps \<and> 2 \<le> length ps")
    case True
    then show ?thesis using bash_allow_match_compound [of c _ as] assms(1) w by blast
  next
    case False
    then have "bash_allow_match h rules as root = whole_command_rule rules as
        \<or> bash_allow_match h rules as root = first_match h rules RAllow ''run_bash'' as root"
      using assms(3) c by (auto simp: bash_allow_match_def Let_def split: option.split)
    then show ?thesis using w f by metis
  qed
next
  assume "\<exists>ps. split_compound c = Some ps \<and> 2 \<le> length ps"
  moreover have "whole_command_rule rules as \<noteq> None"
    unfolding whole_command_rule_iff using assms(1,2)
    by (intro bexI [of _ "bash_grant c"]) (simp_all add: bash_grant_def arg_def)
  ultimately show ?thesis using bash_allow_match_compound [of c _ as] assms(1) by blast
qed

section \<open>Properties\<close>

text \<open>C1: The decision, in every mode and with or without an isolated sandbox, is the abstract policy
  \<open>outcome\<close> over the facts of the call: the eleven steps of the code implement it.\<close>

lemma decide_implements_the_policy:
  "d_behavior (decide h tool as mode st root out home isolated)
     = outcome (effective_mode mode isolated) (facts_of h tool as st root out home)"
  by (rule decide_outcome)

text \<open>C2: A deny rule that matches the call always wins: the call is denied in every mode, sandbox or not,
  and the rule reported is a matching deny rule of the highest layer that has one.\<close>

lemma deny_rule_wins:
  assumes "layered st" "r \<in> set (all_rules st)" "r_behavior r = RDeny" "rule_matches h r (t_name tool) as root"
  shows "\<exists>r'. decide h tool as mode st root out home isolated
       = \<lparr>d_behavior = Deny, d_rule = Some r', d_reason = DeniedByRule (r_source r')\<rparr>
     \<and> r' \<in> set (all_rules st) \<and> r_behavior r' = RDeny \<and> rule_matches h r' (t_name tool) as root
     \<and> priority (r_source r') \<le> priority (r_source r)"
proof -
  have ap: "rule_applies h RDeny (t_name tool) as root r" using assms by (simp add: rule_applies_def)
  then obtain r' where r': "first_match h (all_rules st) RDeny (t_name tool) as root = Some r'"
    using assms(2) first_match_None_iff by (metis not_None_eq)
  have "decide h tool as mode st root out home isolated
       = \<lparr>d_behavior = Deny, d_rule = Some r', d_reason = DeniedByRule (r_source r')\<rparr>"
    by (simp add: decide_def decide_impl_def Let_def r' decision_def)
  moreover have "priority (r_source r') \<le> priority (r_source r)"
    using first_match_highest_priority [OF assms(1) r' assms(2) ap] .
  ultimately show ?thesis using first_match_Some [OF r'] by (auto simp: rule_applies_def)
qed

lemma deny_rule_wins_witness:
  "\<exists>r'. decide plain_host \<lparr>t_name = ''run_bash'', t_read_only = False, t_destructive = True\<rparr> [''command'' \<mapsto> ''ls'']
        BypassPermissions (new_settings [\<lparr>r_source = User, r_behavior = RDeny, r_tool = ''*'', r_content = None\<rparr>])
        None False None True
       = \<lparr>d_behavior = Deny, d_rule = Some r', d_reason = DeniedByRule (r_source r')\<rparr>"
  using deny_rule_wins [of "new_settings [\<lparr>r_source = User, r_behavior = RDeny, r_tool = ''*'', r_content = None\<rparr>]"
      "\<lparr>r_source = User, r_behavior = RDeny, r_tool = ''*'', r_content = None\<rparr>" plain_host
      "\<lparr>t_name = ''run_bash'', t_read_only = False, t_destructive = True\<rparr>" "[''command'' \<mapsto> ''ls'']" None
      BypassPermissions False None True]
  by (auto simp: layered_new set_all_rules_new rule_matches_star_tool)

lemma secret_path_denied:
  assumes "names_path (t_name tool) as raw" "classify_raw h root home raw = Some PDeny"
  shows "d_behavior (decide h tool as mode st root out home isolated) = Deny"
  unfolding decide_outcome
  using protection_of_deny [OF assms] by (intro outcome_floor) (simp add: hard_floor_def facts_of_def)

text \<open>C3: A call that names a path the protected floor classifies as secret is denied, whatever the mode,
  the rules and the sandbox.\<close>

lemma secret_path_is_denied:
  assumes "names_path (t_name tool) as raw" "classify_raw h root home raw = Some PDeny"
  shows "d_behavior (decide h tool as mode st root out home isolated) = Deny"
  using assms by (rule secret_path_denied)

lemma secret_path_is_denied_witness:
  "d_behavior (decide desktop_host \<lparr>t_name = ''read_file'', t_read_only = True, t_destructive = False\<rparr>
      [''path'' \<mapsto> ''~/.aws/credentials''] BypassPermissions empty_settings (Some ''/home/u/prj'') False
      (Some ''/home/u'') True) = Deny"
proof -
  have "classify_raw desktop_host (Some ''/home/u/prj'') (Some ''/home/u'') ''~/.aws/credentials'' = Some PDeny" by code_simp
  moreover have "names_path ''read_file'' [''path'' \<mapsto> ''~/.aws/credentials''] ''~/.aws/credentials''"
    by (simp add: names_path_def is_path_tool_def rule_key_def arg_def)
  ultimately show ?thesis
    by (intro secret_path_is_denied [where raw = "''~/.aws/credentials''"]) simp_all
qed

text \<open>On a remote desktop session no call reads or runs anything below the remote home's \<open>.ssh\<close>
  directory, however the path is written (relative, with dots, with a tilde, in any case), as a tool
  argument or inside a command.\<close>

lemma remote_ssh_key_is_denied:
  assumes "is_desktop h" "home \<noteq> []" "\<forall>c \<in> set (lower (rstrip_slash home)). literal_char c"
    and "names_path (t_name tool) as raw"
    and "resolve_remote_lexical raw root home = Some p"
    and "lower (rstrip_slash p) = lower (rstrip_slash home) @ ''/.ssh/'' @ x"
  shows "d_behavior (decide h tool as mode st root out (Some home) isolated) = Deny"
  by (rule secret_path_denied [OF assms(4) remote_ssh_classified [OF assms(1-3,5,6)]])

lemma remote_ssh_key_is_denied_witness:
  "d_behavior (decide desktop_host \<lparr>t_name = ''run_bash'', t_read_only = False, t_destructive = True\<rparr>
      [''command'' \<mapsto> ''cat ../.SSH/id_rsa''] BypassPermissions empty_settings (Some ''/home/u/prj'') False
      (Some ''/home/u/'') True) = Deny"
proof -
  have "is_desktop desktop_host" "\<forall>c \<in> set (lower (rstrip_slash ''/home/u/'')). literal_char c"
    "resolve_remote_lexical ''../.SSH/id_rsa'' (Some ''/home/u/prj'') ''/home/u/'' = Some ''/home/u/.SSH/id_rsa''"
    "lower (rstrip_slash ''/home/u/.SSH/id_rsa'') = lower (rstrip_slash ''/home/u/'') @ ''/.ssh/'' @ ''id_rsa''"
    by code_simp+
  moreover have "''../.SSH/id_rsa'' \<in> set (command_paths ''cat ../.SSH/id_rsa'')" by code_simp
  then have "names_path ''run_bash'' [''command'' \<mapsto> ''cat ../.SSH/id_rsa''] ''../.SSH/id_rsa''"
    by (simp add: names_path_def arg_def)
  ultimately show ?thesis
    by (intro remote_ssh_key_is_denied [where raw = "''../.SSH/id_rsa''" and p = "''/home/u/.SSH/id_rsa''" and x = "''id_rsa''"])
      simp_all
qed

text \<open>C4: Without an allow rule for it, a dangerous command is never run silently in any mode, and a
  catastrophic one is denied.\<close>

lemma dangerous_command_without_a_grant:
  assumes "t_name tool = ''run_bash''" "Dangerous \<le> classify_command h (arg as ''command'' [])"
    and "bash_allow_match h (all_rules st) as root = None"
  shows "d_behavior (decide h tool as mode st root out home isolated) \<noteq> Allow
    \<and> (classify_command h (arg as ''command'' []) = Catastrophic \<longrightarrow>
         d_behavior (decide h tool as mode st root out home isolated) = Deny)"
proof -
  let ?f = "facts_of h tool as st root out home"
  let ?c = "arg as ''command'' []"
  let ?m = "effective_mode mode isolated"
  have allowed: "\<not> f_allowed ?f" and tier: "f_tier ?f = classify_command h ?c"
    using assms(1,3) by (simp_all add: facts_of_def command_tier_def allow_match_def)
  show ?thesis
  proof (cases "classify_command h ?c = Catastrophic")
    case True
    then have "hard_floor ?f" using allowed tier by (simp add: hard_floor_def)
    then show ?thesis unfolding decide_outcome by (simp add: outcome_floor)
  next
    case False
    then have d: "classify_command h ?c = Dangerous"
      using assms(2) by (cases "classify_command h ?c") (simp_all add: less_eq_tier_def)
    then have "cmd_safety_enabled h" by (auto simp: classify_command_def split: if_splits)
    then have "\<not> f_plan_reads ?f"
      using classify_read_only_command [of h ?c] d by (auto simp: facts_of_def plan_mode_bash_ok_def)
    then have "outcome ?m ?f \<noteq> Allow" using outcome_command_floor [of ?f ?m] d allowed tier by auto
    then show ?thesis using False unfolding decide_outcome by simp
  qed
qed

lemma dangerous_command_without_a_grant_witness:
  "d_behavior (decide plain_host \<lparr>t_name = ''run_bash'', t_read_only = False, t_destructive = True\<rparr>
     [''command'' \<mapsto> ''sudo rm -rf ~''] BypassPermissions empty_settings None False None True) = Deny"
proof -
  have c: "classify_command plain_host (arg [''command'' \<mapsto> ''sudo rm -rf ~''] ''command'' []) = Catastrophic"
    by code_simp
  have "bash_allow_match plain_host (all_rules empty_settings) [''command'' \<mapsto> ''sudo rm -rf ~''] None = None"
    by code_simp
  then show ?thesis
    using dangerous_command_without_a_grant [of "\<lparr>t_name = ''run_bash'', t_read_only = False, t_destructive = True\<rparr>"
        plain_host "[''command'' \<mapsto> ''sudo rm -rf ~'']" empty_settings None BypassPermissions False None True] c
    by simp
qed

text \<open>The mode that asks nobody decides as the default mode does, with every question answered by a
  denial, and is not lifted by a sandbox.\<close>

lemma dont_ask_never_asks:
  "d_behavior (decide h tool as DontAsk st root out home isolated) =
     (let b = d_behavior (decide h tool as Default st root out home False)
      in if b = Ask then Deny else b)"
  by (simp add: decide_outcome effective_mode_def outcome_DontAsk)

text \<open>What the default mode allows, accept-edits allows, and what accept-edits allows, bypass allows.\<close>

lemma modes_only_widen:
  assumes "d_behavior (decide h tool as Default st root out home isolated) = Allow"
  shows "d_behavior (decide h tool as AcceptEdits st root out home isolated) = Allow
    \<and> d_behavior (decide h tool as BypassPermissions st root out home isolated) = Allow"
  using assms outcome_AcceptEdits outcome_Bypass
  by (cases isolated) (auto simp: decide_outcome effective_mode_def)

lemma modes_only_widen_witness:
  "d_behavior (decide plain_host \<lparr>t_name = ''read_file'', t_read_only = True, t_destructive = False\<rparr>
     [''path'' \<mapsto> ''a''] BypassPermissions empty_settings None False None False) = Allow"
proof -
  have "d_behavior (decide plain_host \<lparr>t_name = ''read_file'', t_read_only = True, t_destructive = False\<rparr>
     [''path'' \<mapsto> ''a''] Default empty_settings None False None False) = Allow" by code_simp
  from modes_only_widen [OF this] show ?thesis by blast
qed

text \<open>Even bypass mode denies, and it denies exactly for a matching deny rule, a secret path, or a
  catastrophic command without an allow rule.\<close>

lemma bypass_denies_only_the_floor:
  "d_behavior (decide h tool as BypassPermissions st root out home isolated) = Deny \<longleftrightarrow>
     (\<exists>r \<in> set (all_rules st). r_behavior r = RDeny \<and> rule_matches h r (t_name tool) as root)
     \<or> protection_of h (t_name tool) as root home = Some PDeny
     \<or> command_tier h (t_name tool) as = Catastrophic \<and> allow_match h (all_rules st) (t_name tool) as root = None"
proof -
  have "first_match h (all_rules st) RDeny (t_name tool) as root = None \<longleftrightarrow>
      \<not> (\<exists>r \<in> set (all_rules st). r_behavior r = RDeny \<and> rule_matches h r (t_name tool) as root)"
    by (auto simp: first_match_None_iff rule_applies_def)
  then show ?thesis
    by (simp only: decide_outcome effective_mode_def outcome_Bypass_Deny hard_floor_def facts_of_def
        permission_mode.distinct facts.simps simp_thms if_False not_not)
qed

lemma plan_mode_reads:
  assumes "d_behavior (decide h tool as Plan st root out home isolated) \<noteq> Deny" "\<not> t_read_only tool"
  shows "t_name tool = ''run_bash'' \<and>
    (\<exists>ps. split_statements (strip (arg as ''command'' [])) = Some ps \<and>
       (\<forall>p \<in> set ps. is_read_only_command (fst p) \<and> p_redirects (parse_segment (fst p)) = []))"
proof -
  let ?f = "facts_of h tool as st root out home"
  let ?c = "arg as ''command'' []"
  have "outcome Plan ?f \<noteq> Deny" using assms(1) unfolding decide_outcome by (simp add: effective_mode_def)
  moreover have "\<not> f_read_only ?f" using assms(2) by (simp add: facts_of_def)
  ultimately have "f_tier ?f = ReadOnlyTier \<or> f_plan_reads ?f" by (rule outcome_Plan_reads)
  then have b: "t_name tool = ''run_bash''" and "classify_command h ?c = ReadOnlyTier \<or> is_read_only_command ?c"
    by (auto simp: facts_of_def command_tier_def plan_mode_bash_ok_def split: if_splits)
  then obtain ps where "split_statements (strip ?c) = Some ps" "\<forall>p \<in> set ps. is_read_only_command (fst p)"
    using classify_ReadOnly_D read_only_one_statement_aux [of ?c] is_read_only_strip [of ?c] by fastforce
  then show ?thesis using b read_only_no_redirects by blast
qed

text \<open>C5: In plan mode a tool that is not read-only runs only as a shell command all of whose statements
  pass the read-only allowlist and write through no redirect.\<close>

lemma plan_mode_only_reads:
  assumes "d_behavior (decide h tool as Plan st root out home isolated) = Allow" "\<not> t_read_only tool"
  shows "t_name tool = ''run_bash'' \<and>
    (\<exists>ps. split_statements (strip (arg as ''command'' [])) = Some ps \<and>
       (\<forall>p \<in> set ps. is_read_only_command (fst p) \<and> p_redirects (parse_segment (fst p)) = []))"
proof -
  have "d_behavior (decide h tool as Plan st root out home isolated) \<noteq> Deny" using assms(1) by simp
  then show ?thesis using assms(2) by (rule plan_mode_reads)
qed

lemma plan_mode_only_reads_witness:
  "\<exists>ps. split_statements (strip ''git log | head'') = Some ps \<and>
     (\<forall>p \<in> set ps. is_read_only_command (fst p) \<and> p_redirects (parse_segment (fst p)) = [])"
proof -
  have "d_behavior (decide plain_host \<lparr>t_name = ''run_bash'', t_read_only = False, t_destructive = True\<rparr>
     [''command'' \<mapsto> ''git log | head''] Plan empty_settings None False None False) = Allow" by code_simp
  from plan_mode_only_reads [OF this] show ?thesis by (simp add: arg_def)
qed

text \<open>An isolated sandbox lifts the default and the accept-edits mode to bypass, and the only question
  left is about a dangerous command or one outside the workspace that no rule allows.\<close>

lemma isolated_sandbox_is_bypass:
  assumes "mode \<in> {Default, AcceptEdits}"
  shows "decide h tool as mode st root out home True = decide h tool as BypassPermissions st root out home False
    \<and> (d_behavior (decide h tool as mode st root out home True) = Ask \<longrightarrow>
         allow_match h (all_rules st) (t_name tool) as root = None
         \<and> (command_tier h (t_name tool) as = Dangerous \<or> out \<and> command_tier h (t_name tool) as = Mutating))"
proof -
  have e: "effective_mode mode True = BypassPermissions" using assms by (auto simp: effective_mode_def)
  have "command_floor (facts_of h tool as st root out home)"
    if "d_behavior (decide h tool as mode st root out home True) = Ask"
    using that unfolding decide_outcome e by (auto simp: outcome_def needs_human_def split: if_splits)
  then have "d_behavior (decide h tool as mode st root out home True) = Ask \<longrightarrow>
      allow_match h (all_rules st) (t_name tool) as root = None
      \<and> (command_tier h (t_name tool) as = Dangerous \<or> out \<and> command_tier h (t_name tool) as = Mutating)"
    by (auto simp: command_floor_def facts_of_def)
  moreover have "effective_mode BypassPermissions False = BypassPermissions" by (simp add: effective_mode_def)
  then have "decide h tool as mode st root out home True = decide h tool as BypassPermissions st root out home False"
    using e by (simp only: decide_def decide_impl_def)
  ultimately show ?thesis by blast
qed

lemma isolated_sandbox_is_bypass_witness:
  "decide plain_host \<lparr>t_name = ''write_file'', t_read_only = False, t_destructive = True\<rparr> [''path'' \<mapsto> ''a'']
      Default empty_settings None False None True
   = decide plain_host \<lparr>t_name = ''write_file'', t_read_only = False, t_destructive = True\<rparr> [''path'' \<mapsto> ''a'']
      BypassPermissions empty_settings None False None False"
  using isolated_sandbox_is_bypass [of Default plain_host
      "\<lparr>t_name = ''write_file'', t_read_only = False, t_destructive = True\<rparr>" "[''path'' \<mapsto> ''a'']" empty_settings None False None]
  by simp

text \<open>A compound command has an allow match only if each of its segments is matched by an allow rule,
  or one rule allows the command as a whole, and the segments leave out no character of the command.\<close>

lemma compound_grant_covers_every_segment:
  assumes "split_compound c = Some ps" "2 \<le> length ps"
  shows "concat (map pair_text ps) = nonblank c
    \<and> (bash_allow_match h rules [''command'' \<mapsto> c] root \<noteq> None \<longleftrightarrow>
        (\<forall>p \<in> set ps. \<exists>r \<in> set rules. r_behavior r = RAllow
           \<and> rule_matches h r ''run_bash'' [''command'' \<mapsto> fst p] root)
        \<or> (\<exists>r \<in> set rules. r_behavior r = RAllow \<and> (r_tool r = ''run_bash'' \<or> r_tool r = ''*'')
             \<and> (r_content r = None \<or> r_content r = Some ''*'' \<or> r_content r = Some c)))"
proof -
  have g: "grants_segment h rules root seg \<longleftrightarrow> (\<exists>r \<in> set rules. r_behavior r = RAllow
           \<and> rule_matches h r ''run_bash'' [''command'' \<mapsto> seg] root)" for seg
    unfolding grants_segment_def using first_match_None_iff by (auto simp: rule_applies_def)
  have c: "arg [''command'' \<mapsto> c] ''command'' [] = c" by (simp add: arg_def)
  show ?thesis
    using bash_allow_match_compound [OF assms, of "[''command'' \<mapsto> c]" h rules root]
      compound.lossless [OF assms(1)] whole_command_rule_iff [of rules "[''command'' \<mapsto> c]"]
    unfolding g c by simp
qed

lemma compound_grant_covers_every_segment_witness:
  "bash_allow_match plain_host [bash_grant ''make *'', bash_grant ''pytest *''] [''command'' \<mapsto> ''make all && pytest -q''] None \<noteq> None"
proof -
  have s: "split_compound ''make all && pytest -q'' = Some [(''make all'', ''&&''), (''pytest -q'', [])]" by code_simp
  have "rule_matches plain_host (bash_grant ''make *'') ''run_bash'' [''command'' \<mapsto> ''make all''] None"
    "rule_matches plain_host (bash_grant ''pytest *'') ''run_bash'' [''command'' \<mapsto> ''pytest -q''] None" by code_simp+
  moreover have "r_behavior (bash_grant p) = RAllow" for p by (simp add: bash_grant_def)
  ultimately show ?thesis
    using compound_grant_covers_every_segment [OF s, of plain_host "[bash_grant ''make *'', bash_grant ''pytest *'']" None]
    by (simp del: not_None_eq)
qed

text \<open>Adding an allow rule to the session never takes an allowed call away, and never opens what a deny
  rule or the secret floor denies.\<close>

lemma allow_grant_only_widens:
  assumes "add_session_rule st r = Inr st'" "r_behavior r = RAllow"
  shows "(d_behavior (decide h tool as mode st root out home isolated) = Allow \<longrightarrow>
      d_behavior (decide h tool as mode st' root out home isolated) = Allow)
    \<and> ((\<exists>q \<in> set (all_rules st). r_behavior q = RDeny \<and> rule_matches h q (t_name tool) as root)
      \<or> protection_of h (t_name tool) as root home = Some PDeny \<longrightarrow>
      d_behavior (decide h tool as mode st' root out home isolated) = Deny)"
  using grant_widens [OF assms] grant_keeps_floor [OF assms] by blast

lemma allow_grant_only_widens_witness:
  "(case add_session_rule empty_settings (bash_grant ''make *'') of
      Inl e \<Rightarrow> False
    | Inr st' \<Rightarrow> d_behavior (decide plain_host \<lparr>t_name = ''read_file'', t_read_only = True, t_destructive = False\<rparr>
     [''path'' \<mapsto> ''a''] Default st' None False None False) = Allow)"
proof -
  have "d_behavior (decide plain_host \<lparr>t_name = ''read_file'', t_read_only = True, t_destructive = False\<rparr>
     [''path'' \<mapsto> ''a''] Default empty_settings None False None False) = Allow" by code_simp
  moreover have "add_session_rule empty_settings (bash_grant ''make *'') =
     Inr (empty_settings(Session := empty_settings Session @ [bash_grant ''make *'']))"
    by (simp add: add_session_rule_def bash_grant_def)
  ultimately show ?thesis
    using allow_grant_only_widens [of empty_settings "bash_grant ''make *''" _ plain_host
        "\<lparr>t_name = ''read_file'', t_read_only = True, t_destructive = False\<rparr>" "[''path'' \<mapsto> ''a'']" Default None False None False]
    by (simp add: bash_grant_def)
qed

text \<open>
  What a grant can open by accident. The segment splitter does not see a background \<open>&\<close>, so a prefix
  grant carries whatever follows it past the dangerous floor; and a grant stored literally opens the
  catastrophic command that matches it as a pattern.
\<close>

lemma background_command_rides_on_grant:
  "classify_command plain_host ''npx tsc x & rm -rf ~/work'' = Dangerous
   \<and> d_behavior (decide plain_host \<lparr>t_name = ''run_bash'', t_read_only = False, t_destructive = True\<rparr>
        [''command'' \<mapsto> ''npx tsc x & rm -rf ~/work''] Default (new_settings [bash_grant ''npx tsc *'']) None False None False) = Allow"
  by code_simp

lemma literal_grant_opens_catastrophe:
  "classify_command plain_host ''rm -rf build/ /'' = Catastrophic
   \<and> d_behavior (decide plain_host \<lparr>t_name = ''run_bash'', t_read_only = False, t_destructive = True\<rparr>
        [''command'' \<mapsto> ''rm -rf build/ /''] Default (new_settings [bash_grant ''rm -rf build/*'']) None False None False) = Allow"
  by code_simp

end
