(* ===== verification/Workspace.thy ===== *)
theory Workspace
  imports Protected
begin

text \<open>
  \<open>sandbox/workspace.py\<close> and the file policies of \<open>sandbox/config.py\<close>: the workspace of a session, the
  directories the user has granted beside it (for the session, for the user, for one operation), and
  the glob patterns the file guard checks. The workspace seeded into the session state is an
  argument; \<open>default_workspace\<close>, which builds one from the environment when none is seeded, and the
  tenant and session names are outside the model.
\<close>

record workspace =
  ws_path :: string
  ws_scratch :: "string option"
  ws_extra :: "string list"
  ws_remote :: bool

datatype root_key = SessionRoots | UserRoots | OnceRoots

record roots_state =
  st_session_roots :: "string list"
  st_user_roots :: "string list"
  st_once_roots :: "string list"

section \<open>The workspace and its guard\<close>

fun canon_roots :: "host \<Rightarrow> string \<Rightarrow> string list \<Rightarrow> string list \<Rightarrow> string list" where
  "canon_roots h path seen [] = seen"
| "canon_roots h path seen (r # rs) =
     (if r = [] then canon_roots h path seen rs
      else (let cr = os_realpath h r
            in canon_roots h path (if cr \<noteq> path \<and> \<not> List.member seen cr then seen @ [cr] else seen) rs))"

definition post_init :: "host \<Rightarrow> workspace \<Rightarrow> workspace" where
  "post_init h w =
     (if ws_remote w then w
      else (let path = os_realpath h (ws_path w)
            in w\<lparr>ws_path := path,
                 ws_scratch := (case given (ws_scratch w) of None \<Rightarrow> ws_scratch w | Some s \<Rightarrow> Some (os_realpath h s)),
                 ws_extra := canon_roots h path [] (ws_extra w)\<rparr>))"

definition system_temp_roots :: "host \<Rightarrow> string list" where
  "system_temp_roots h =
     [''/tmp'', ''/private/tmp'']
     @ (let t = rstrip_slash (os_realpath h (os_tempdir h)) in if t = [] then [] else [t])"

definition ws_roots :: "host \<Rightarrow> workspace \<Rightarrow> string list" where
  "ws_roots h w =
     ws_path w # (case given (ws_scratch w) of None \<Rightarrow> [] | Some s \<Rightarrow> [s]) @ ws_extra w @ system_temp_roots h"

definition allow_paths :: "host \<Rightarrow> workspace \<Rightarrow> string list" where
  "allow_paths h w = concat (map (\<lambda>r. [r @ ''/**'', r]) (ws_roots h w))"

definition fs_allows :: "string list \<Rightarrow> string \<Rightarrow> bool" where
  "fs_allows patterns p \<longleftrightarrow> list_ex (fnmatch p) patterns"

section \<open>Granted directories\<close>

fun roots_at :: "root_key \<Rightarrow> 'a roots_state_scheme \<Rightarrow> string list" where
  "roots_at SessionRoots st = st_session_roots st"
| "roots_at UserRoots st = st_user_roots st"
| "roots_at OnceRoots st = st_once_roots st"

fun put_roots :: "root_key \<Rightarrow> string list \<Rightarrow> 'a roots_state_scheme \<Rightarrow> 'a roots_state_scheme" where
  "put_roots SessionRoots rs st = st\<lparr>st_session_roots := rs\<rparr>"
| "put_roots UserRoots rs st = st\<lparr>st_user_roots := rs\<rparr>"
| "put_roots OnceRoots rs st = st\<lparr>st_once_roots := rs\<rparr>"

definition read_roots :: "root_key \<Rightarrow> 'a roots_state_scheme \<Rightarrow> string list" where
  "read_roots key st = filter (\<lambda>r. r \<noteq> []) (roots_at key st)"

fun append_new :: "'a list \<Rightarrow> 'a list \<Rightarrow> 'a list" where
  "append_new out [] = out"
| "append_new out (r # rs) = append_new (if List.member out r then out else out @ [r]) rs"

definition list_granted_roots :: "'a roots_state_scheme \<Rightarrow> string list" where
  "list_granted_roots st =
     append_new (append_new (append_new [] (read_roots SessionRoots st)) (read_roots UserRoots st))
       (read_roots OnceRoots st)"

definition get_workspace :: "host \<Rightarrow> workspace \<Rightarrow> 'a roots_state_scheme \<Rightarrow> workspace" where
  "get_workspace h seeded st =
     (if \<not> is_desktop h then seeded
      else (let granted = list_granted_roots st
            in if granted = [] then seeded
               else post_init h (seeded\<lparr>ws_extra := ws_extra seeded @ granted\<rparr>)))"

definition in_scope :: "host \<Rightarrow> workspace \<Rightarrow> 'a roots_state_scheme \<Rightarrow> string \<Rightarrow> bool" where
  "in_scope h seeded st p \<longleftrightarrow> fs_allows (allow_paths h (get_workspace h seeded st)) p"

definition canon_for_ctx :: "host \<Rightarrow> workspace \<Rightarrow> 'a roots_state_scheme \<Rightarrow> string \<Rightarrow> string" where
  "canon_for_ctx h seeded st path =
     (if path = [] then path
      else if ws_remote (get_workspace h seeded st) then path
      else os_realpath h path)"

definition root_matches :: "host \<Rightarrow> string \<Rightarrow> string \<Rightarrow> bool" where
  "root_matches h stored path \<longleftrightarrow> stored = path \<or> stored = os_realpath h path"

definition append_root ::
  "host \<Rightarrow> workspace \<Rightarrow> root_key \<Rightarrow> string \<Rightarrow> 'a roots_state_scheme \<Rightarrow> 'a roots_state_scheme" where
  "append_root h seeded key path st =
     (if path = [] then st
      else (let existing = read_roots key st; canon = canon_for_ctx h seeded st path
            in if list_ex (\<lambda>r. root_matches h r canon) existing then st
               else put_roots key (existing @ [canon]) st))"

definition add_granted_root ::
  "host \<Rightarrow> workspace \<Rightarrow> string \<Rightarrow> bool \<Rightarrow> 'a roots_state_scheme \<Rightarrow> 'a roots_state_scheme" where
  "add_granted_root h seeded path persist st =
     append_root h seeded (if persist then UserRoots else SessionRoots) path st"

definition remove_granted_root ::
  "host \<Rightarrow> workspace \<Rightarrow> string \<Rightarrow> bool \<Rightarrow> 'a roots_state_scheme \<Rightarrow> 'a roots_state_scheme" where
  "remove_granted_root h seeded path persist st =
     (let key = (if persist then UserRoots else SessionRoots);
          canon = (if path = [] then path else canon_for_ctx h seeded st path)
      in put_roots key (filter (\<lambda>r. \<not> root_matches h r canon) (read_roots key st)) st)"

definition grant_once :: "host \<Rightarrow> workspace \<Rightarrow> string \<Rightarrow> 'a roots_state_scheme \<Rightarrow> 'a roots_state_scheme" where
  "grant_once h seeded path st = append_root h seeded OnceRoots path st"

definition discard_grant_once ::
  "host \<Rightarrow> workspace \<Rightarrow> string \<Rightarrow> 'a roots_state_scheme \<Rightarrow> 'a roots_state_scheme" where
  "discard_grant_once h seeded path st =
     (if path = [] then st
      else (let canon = canon_for_ctx h seeded st path; cur = read_roots OnceRoots st
            in if list_ex (\<lambda>r. root_matches h r canon) cur
               then put_roots OnceRoots (filter (\<lambda>r. \<not> root_matches h r canon) cur) st
               else st))"

definition clear_grant_once :: "'a roots_state_scheme \<Rightarrow> 'a roots_state_scheme" where
  "clear_grant_once st = (if st_once_roots st = [] then st else st\<lparr>st_once_roots := []\<rparr>)"

section \<open>What the guard allows\<close>

definition covers :: "string \<Rightarrow> string \<Rightarrow> bool" where
  "covers r p \<longleftrightarrow> p = r \<or> startswith p (r @ ''/'')"

lemma root_patterns: "\<forall>c \<in> set r. literal_char c \<Longrightarrow> fnmatch p (r @ ''/**'') \<or> fnmatch p r \<longleftrightarrow> covers r p"
  by (auto simp: fnmatch_tree fnmatch_literal covers_def)

lemma fs_allows_roots:
  assumes "\<forall>r \<in> set (ws_roots h w). \<forall>c \<in> set r. literal_char c"
  shows "fs_allows (allow_paths h w) p \<longleftrightarrow> (\<exists>r \<in> set (ws_roots h w). covers r p)"
  using assms root_patterns [of _ p] by (auto simp: fs_allows_def allow_paths_def list_ex_iff)

lemma fs_allows_root:
  "r \<in> set (ws_roots h w) \<Longrightarrow> \<forall>c \<in> set r. literal_char c \<Longrightarrow> covers r p \<Longrightarrow> fs_allows (allow_paths h w) p"
  using root_patterns [of r p] by (auto simp: fs_allows_def allow_paths_def list_ex_iff)

lemma fs_allows_mono:
  "set (ws_roots h w) \<subseteq> set (ws_roots h w') \<Longrightarrow> fs_allows (allow_paths h w) p \<Longrightarrow> fs_allows (allow_paths h w') p"
  by (auto simp: fs_allows_def allow_paths_def list_ex_iff)

lemma set_canon_roots:
  "set (canon_roots h path seen rs) = set seen \<union> (os_realpath h ` {r \<in> set rs. r \<noteq> []} - {path})"
  by (induction h path seen rs rule: canon_roots.induct) (auto simp: Let_def)

lemma set_append_new: "set (append_new out rs) = set out \<union> set rs"
  by (induction out rs rule: append_new.induct) auto

lemma distinct_append_new: "distinct out \<Longrightarrow> distinct (append_new out rs)"
  by (induction out rs rule: append_new.induct) auto

lemma set_list_granted_roots:
  "set (list_granted_roots st) =
     {r. r \<noteq> [] \<and> (r \<in> set (st_session_roots st) \<or> r \<in> set (st_user_roots st) \<or> r \<in> set (st_once_roots st))}"
  by (auto simp: list_granted_roots_def set_append_new read_roots_def)

definition canonical :: "host \<Rightarrow> workspace \<Rightarrow> bool" where
  "canonical h w \<longleftrightarrow> post_init h w = w"

lemma get_workspace_desktop:
  "canonical h w \<Longrightarrow> is_desktop h \<Longrightarrow>
     get_workspace h w st = post_init h (w\<lparr>ws_extra := ws_extra w @ list_granted_roots st\<rparr>)"
  by (simp add: get_workspace_def canonical_def Let_def)

lemma canonical_facts:
  assumes "canonical h w" "\<not> ws_remote w"
  shows "os_realpath h (ws_path w) = ws_path w"
    "given (ws_scratch w) = Some s \<Longrightarrow> os_realpath h s = s"
  using assms unfolding canonical_def post_init_def Let_def
  by (cases w; auto simp: given_def split: option.splits if_splits)+

lemma canonical_extra:
  assumes "canonical h w" "\<not> ws_remote w"
  shows "canon_roots h (ws_path w) [] (ws_extra w) = ws_extra w"
proof -
  have "ws_extra (post_init h w) = canon_roots h (os_realpath h (ws_path w)) [] (ws_extra w)"
    using assms(2) by (simp add: post_init_def Let_def)
  then show ?thesis using assms canonical_facts(1) [OF assms] by (simp add: canonical_def)
qed

lemma roots_of_get_workspace:
  assumes "canonical h w" "is_desktop h" "\<not> ws_remote w"
  shows "set (ws_roots h (get_workspace h w st)) =
    set (ws_roots h w) \<union> (os_realpath h ` set (list_granted_roots st) - {ws_path w})"
proof -
  note c = canonical_facts [OF assms(1,3)]
  have ex: "os_realpath h ` {r \<in> set (ws_extra w). r \<noteq> []} - {ws_path w} = set (ws_extra w)"
    using set_canon_roots [of h "ws_path w" "[]" "ws_extra w"] canonical_extra [OF assms(1,3)] by simp
  have "{r \<in> set (ws_extra w @ list_granted_roots st). r \<noteq> []}
      = {r \<in> set (ws_extra w). r \<noteq> []} \<union> set (list_granted_roots st)"
    by (auto simp: set_list_granted_roots)
  then have "set (canon_roots h (ws_path w) [] (ws_extra w @ list_granted_roots st))
      = set (ws_extra w) \<union> (os_realpath h ` set (list_granted_roots st) - {ws_path w})"
    using ex by (simp only: set_canon_roots image_Un Un_Diff) simp
  then show ?thesis
    using assms(3) c unfolding get_workspace_desktop [OF assms(1,2)] post_init_def Let_def
    by (auto simp: ws_roots_def given_def split: option.splits if_splits)
qed

lemma roots_at_put_roots [simp]: "roots_at k (put_roots k' rs st) = (if k = k' then rs else roots_at k st)"
  by (cases k; cases k') simp_all

declare put_roots.simps [simp del] roots_at.simps [simp del]

lemma granted_iff:
  "r \<in> set (list_granted_roots st) \<longleftrightarrow> r \<noteq> [] \<and> (\<exists>k. r \<in> set (roots_at k st))"
proof
  assume "r \<in> set (list_granted_roots st)"
  then have "r \<noteq> []" "r \<in> set (roots_at SessionRoots st) \<or> r \<in> set (roots_at UserRoots st) \<or> r \<in> set (roots_at OnceRoots st)"
    by (simp_all add: set_list_granted_roots roots_at.simps)
  then show "r \<noteq> [] \<and> (\<exists>k. r \<in> set (roots_at k st))" by blast
next
  assume "r \<noteq> [] \<and> (\<exists>k. r \<in> set (roots_at k st))"
  then obtain k where "r \<noteq> []" "r \<in> set (roots_at k st)" by blast
  then show "r \<in> set (list_granted_roots st)" by (cases k) (simp_all add: set_list_granted_roots roots_at.simps)
qed

lemma append_root_granted:
  "set (list_granted_roots st) \<subseteq> set (list_granted_roots (append_root h w key path st))"
  by (auto simp: granted_iff append_root_def Let_def read_roots_def)

lemma append_root_has:
  assumes "path \<noteq> []" "canon_for_ctx h w st path \<noteq> []"
  shows "\<exists>r \<in> set (list_granted_roots (append_root h w key path st)). root_matches h r (canon_for_ctx h w st path)"
proof (cases "list_ex (\<lambda>r. root_matches h r (canon_for_ctx h w st path)) (read_roots key st)")
  case True
  then obtain r where r: "r \<in> set (read_roots key st)" "root_matches h r (canon_for_ctx h w st path)"
    by (auto simp: list_ex_iff)
  then have "r \<in> set (list_granted_roots st)" by (auto simp: granted_iff read_roots_def)
  then show ?thesis using True r assms(1) by (auto simp: append_root_def Let_def)
next
  case False
  then have "canon_for_ctx h w st path \<in> set (list_granted_roots (append_root h w key path st))"
    using assms by (auto simp: append_root_def granted_iff Let_def intro!: exI [of _ key])
  then show ?thesis by (auto simp: root_matches_def)
qed

lemma ws_remote_get [simp]: "ws_remote (get_workspace h w st) = ws_remote w"
  by (simp add: get_workspace_def post_init_def Let_def)

lemma roots_after_grant:
  assumes h: "is_desktop h" "canonical h w" "\<not> ws_remote w"
    and d: "d \<noteq> []" "os_realpath h d \<noteq> []" "os_realpath h (os_realpath h d) = os_realpath h d"
    and st: "\<forall>r \<in> set (list_granted_roots st). os_realpath h r = r"
  shows "set (ws_roots h (get_workspace h w (add_granted_root h w d persist st)))
    = insert (os_realpath h d) (set (ws_roots h (get_workspace h w st)))"
proof -
  let ?key = "if persist then UserRoots else SessionRoots"
  let ?st = "append_root h w ?key d st"
  have canon: "canon_for_ctx h w st d = os_realpath h d" using d(1) h(3) by (simp add: canon_for_ctx_def)
  obtain r where r: "r \<in> set (list_granted_roots ?st)" "root_matches h r (os_realpath h d)"
    using append_root_has [OF d(1), of h w st ?key] d(2) unfolding canon by blast
  then have "r = os_realpath h d" using d(3) by (auto simp: root_matches_def)
  moreover have "set (list_granted_roots ?st) \<subseteq> insert (os_realpath h d) (set (list_granted_roots st))"
    unfolding append_root_def Let_def canon by (auto simp: granted_iff read_roots_def split: if_splits)
  ultimately have "set (list_granted_roots ?st) = insert (os_realpath h d) (set (list_granted_roots st))"
    using r(1) append_root_granted [of st h w ?key d] by blast
  then have "os_realpath h ` set (list_granted_roots ?st) = insert (os_realpath h d) (os_realpath h ` set (list_granted_roots st))"
    using d(3) by simp
  moreover have "ws_path w \<in> set (ws_roots h w)" by (simp add: ws_roots_def)
  ultimately show ?thesis
    unfolding add_granted_root_def roots_of_get_workspace [OF h(2,1,3)] by auto
qed

lemma read_put_roots [simp]: "read_roots k (put_roots k rs st) = filter (\<lambda>r. r \<noteq> []) rs"
  by (simp add: read_roots_def)

definition project :: workspace where
  "project = \<lparr>ws_path = ''/home/u/prj'', ws_scratch = None, ws_extra = [], ws_remote = False\<rparr>"

definition no_roots :: roots_state where
  "no_roots = \<lparr>st_session_roots = [], st_user_roots = [], st_once_roots = []\<rparr>"

section \<open>Properties\<close>

text \<open>On the desktop, granting a directory opens exactly that directory and what lies below it, and
  nothing else changes: the guard then allows what it allowed before and this tree.\<close>

lemma grant_opens_exactly_a_tree:
  assumes "is_desktop h" "canonical h w" "\<not> ws_remote w"
    and "d \<noteq> []" "os_realpath h d \<noteq> []" "os_realpath h (os_realpath h d) = os_realpath h d"
    and "\<forall>r \<in> set (list_granted_roots st). os_realpath h r = r"
    and "\<forall>r \<in> insert (os_realpath h d) (set (ws_roots h (get_workspace h w st))). \<forall>c \<in> set r. literal_char c"
  shows "in_scope h w (add_granted_root h w d persist st) p \<longleftrightarrow>
    in_scope h w st p \<or> p = os_realpath h d \<or> startswith p (os_realpath h d @ ''/'')"
proof -
  note new = roots_after_grant [OF assms(1-7), of persist]
  have "in_scope h w (add_granted_root h w d persist st) p \<longleftrightarrow>
      (\<exists>r \<in> insert (os_realpath h d) (set (ws_roots h (get_workspace h w st))). covers r p)"
    unfolding in_scope_def new [symmetric] by (rule fs_allows_roots) (use assms(8) new in simp)
  moreover have "in_scope h w st p \<longleftrightarrow> (\<exists>r \<in> set (ws_roots h (get_workspace h w st)). covers r p)"
    unfolding in_scope_def by (rule fs_allows_roots) (use assms(8) in simp)
  ultimately show ?thesis by (simp add: covers_def) blast
qed

lemma grant_opens_exactly_a_tree_witness:
  "\<forall>p. in_scope desktop_host project (add_granted_root desktop_host project ''/data/in/../out'' False no_roots) p \<longleftrightarrow>
    in_scope desktop_host project no_roots p \<or> p = ''/data/out'' \<or> startswith p ''/data/out/''"
proof -
  have c: "canonical desktop_host project" unfolding canonical_def by code_simp
  have r: "os_realpath desktop_host ''/data/in/../out'' = ''/data/out''" "os_realpath desktop_host ''/data/out'' = ''/data/out''"
    "is_desktop desktop_host" "\<not> ws_remote project" "list_granted_roots no_roots = []"
    "ws_roots desktop_host (get_workspace desktop_host project no_roots) = [''/home/u/prj'', ''/tmp'', ''/private/tmp'', ''/tmp'']"
    by code_simp+
  have l: "\<forall>r \<in> insert ''/data/out'' (set [''/home/u/prj'', ''/tmp'', ''/private/tmp'', ''/tmp'']). \<forall>c \<in> set r. literal_char c"
    by code_simp
  have e: "\<forall>r \<in> set (list_granted_roots no_roots). os_realpath desktop_host r = r" by (simp add: r)
  have n: "''/data/in/../out'' \<noteq> []" "os_realpath desktop_host ''/data/in/../out'' \<noteq> []" by (simp_all add: r)
  have i: "os_realpath desktop_host (os_realpath desktop_host ''/data/in/../out'') = os_realpath desktop_host ''/data/in/../out''"
    by (simp only: r)
  show ?thesis
    using grant_opens_exactly_a_tree [OF r(3) c r(4) n i e, of False] l unfolding r by simp
qed

text \<open>A one-shot grant is gone once the operation it was given for has consumed it, and every other
  one-shot grant is kept.\<close>

lemma once_grant_consumed:
  assumes "p \<noteq> []"
  shows "read_roots OnceRoots (discard_grant_once h w p (grant_once h w p st))
    = filter (\<lambda>r. \<not> root_matches h r (canon_for_ctx h w st p)) (read_roots OnceRoots st)"
proof -
  let ?c = "canon_for_ctx h w st p"
  have c: "canon_for_ctx h w (append_root h w OnceRoots p st) p = ?c" using assms by (simp add: canon_for_ctx_def)
  have m: "root_matches h ?c ?c" by (simp add: root_matches_def)
  let ?P = "\<lambda>r. \<not> root_matches h r ?c"
  let ?ex = "read_roots OnceRoots st"
  have nb: "filter (\<lambda>r. r \<noteq> []) (filter ?P ?ex) = filter ?P ?ex" "filter (\<lambda>r. r \<noteq> []) ?ex = ?ex"
    by (auto simp: read_roots_def intro: filter_cong)
  show ?thesis
  proof (cases "list_ex (\<lambda>r. root_matches h r ?c) ?ex")
    case True
    then show ?thesis using assms nb(1) by (simp add: discard_grant_once_def grant_once_def append_root_def Let_def)
  next
    case False
    then have all: "filter ?P ?ex = ?ex" by (auto simp: list_ex_iff filter_id_conv)
    have st': "grant_once h w p st = put_roots OnceRoots (?ex @ [?c]) st"
      using False assms by (simp add: grant_once_def append_root_def Let_def)
    have cur: "read_roots OnceRoots (put_roots OnceRoots (?ex @ [?c]) st) = ?ex @ (if ?c = [] then [] else [?c])"
      by (simp add: nb(2))
    have c': "canon_for_ctx h w (put_roots OnceRoots (?ex @ [?c]) st) p = ?c"
      using assms by (simp add: canon_for_ctx_def)
    show ?thesis
    proof (cases "?c = []")
      case True
      then show ?thesis unfolding discard_grant_once_def st' c' cur using assms False all cur by (simp add: Let_def)
    next
      case ne: False
      then show ?thesis unfolding discard_grant_once_def st' c' cur using assms m all nb(2) by (simp add: Let_def)
    qed
  qed
qed

lemma once_grant_consumed_witness:
  "read_roots OnceRoots (discard_grant_once desktop_host project ''/data/a.txt''
      (grant_once desktop_host project ''/data/a.txt'' (no_roots\<lparr>st_once_roots := [''/b'']\<rparr>))) = [''/b'']"
proof -
  have "filter (\<lambda>r. \<not> root_matches desktop_host r (canon_for_ctx desktop_host project (no_roots\<lparr>st_once_roots := [''/b'']\<rparr>) ''/data/a.txt''))
      (read_roots OnceRoots (no_roots\<lparr>st_once_roots := [''/b'']\<rparr>)) = [''/b'']" by code_simp
  then show ?thesis
    using once_grant_consumed [of "''/data/a.txt''" desktop_host project "no_roots\<lparr>st_once_roots := [''/b'']\<rparr>"] by simp
qed

text \<open>
  The guard builds its patterns from the roots as they are: a root whose name has a bracket allows
  nothing inside itself and opens the directory that the bracket matches.
\<close>

lemma bracket_root_opens_sibling:
  "\<not> in_scope plain_host (project\<lparr>ws_path := ''/work/[x]''\<rparr>) no_roots ''/work/[x]/a''
   \<and> in_scope plain_host (project\<lparr>ws_path := ''/work/[x]''\<rparr>) no_roots ''/work/x/a''"
  by code_simp

end
