(* ===== verification/PermissionPlugin.thy ===== *)
theory PermissionPlugin
  imports Engine Workspace
begin

text \<open>
  \<open>plugins/permissions.py\<close>: the callback ADK runs before every tool call. It gates skill scripts,
  offers to widen the workspace (\<open>scope_gate\<close>), asks the engine, and turns the user's answer to a
  prompt into a run, a stored grant or a refusal. Session state is passed explicitly and returned.

  The frontend's answer is the record \<open>confirmation\<close> (\<open>_read_choice_id\<close> and \<open>_read_persist_toggle\<close>
  read these fields from its payload). Prompt texts, previews, logging and audit events are outside
  the model; the JSON form of a stored rule is the rule.
\<close>

record confirmation =
  f_chose :: "string option"
  f_persist :: bool
  f_confirmed :: bool

record call_ctx =
  c_seeded :: workspace
  c_backend :: "string option"
  c_backend_home :: "string option"
  c_container_cwd :: "string \<Rightarrow> string"
  c_call_id :: bool
  c_confirmation :: "confirmation option"

record session_state = roots_state +
  st_mode :: "string option"
  st_subagent :: bool
  st_session_rules :: "permission_rule list"
  st_user_rules :: "permission_rule list"

record plugin =
  p_settings :: settings
  p_default_mode :: permission_mode

datatype any_tool = AdkTool tool_meta | OtherTool string

datatype callback =
    Run
  | Denied permission_decision
  | DeniedInSubagent
  | DeclinedByUser
  | AskTool permission_decision bool
  | AskSkill string
  | AskScope string bool

fun tool_name :: "any_tool \<Rightarrow> string" where
  "tool_name (AdkTool t) = t_name t"
| "tool_name (OtherTool n) = n"

section \<open>Skill scripts named in a command\<close>

text \<open>
  \<open>_BASH_SKILL_SCRIPT_RE\<close>: at the start of the command or after a separator, an optional path
  prefix, \<open>.adk-cc/\<close> or \<open>.agents/\<close>, and the source or runtime form of a script path. The prefix is
  greedy, so the rightmost candidate of the path run is tried first. \<open>\w\<close> is Unicode's on Latin-1.
\<close>

definition latin_word_codes :: "nat list" where
  "latin_word_codes = [170, 178, 179, 181, 185, 186, 188, 189, 190]"

definition re_word :: "char \<Rightarrow> bool" where
  "re_word c \<longleftrightarrow> ascii_word c \<or> List.member latin_word_codes (of_char c)
     \<or> in_range 192 214 c \<or> in_range 216 246 c \<or> in_range 248 255 c"

definition name_char :: "char \<Rightarrow> bool" where
  "name_char c \<longleftrightarrow> re_word c \<or> c = CHR ''.'' \<or> c = CHR ''-''"

definition run_char :: "char \<Rightarrow> bool" where
  "run_char c \<longleftrightarrow> name_char c \<or> c = CHR ''/''"

definition after_prefix :: "string \<Rightarrow> string \<Rightarrow> string option" where
  "after_prefix p s = (if startswith s p then Some (drop (length p) s) else None)"

text \<open>\<open>scripts/[\w./-]+\<close>, the greedy rest of the match.\<close>

definition script_path :: "string \<Rightarrow> string option" where
  "script_path s =
     (case after_prefix ''scripts/'' s of
        None \<Rightarrow> None
      | Some r \<Rightarrow> if takeWhile run_char r = [] then None else Some (''scripts/'' @ takeWhile run_char r))"

definition name_slash :: "string \<Rightarrow> (string \<times> string) option" where
  "name_slash s =
     (let n = takeWhile name_char s
      in if n = [] then None else map_option (\<lambda>r. (n, r)) (after_prefix ''/'' (dropWhile name_char s)))"

definition skill_tail :: "string \<Rightarrow> (string \<times> string) option" where
  "skill_tail s =
     (case after_prefix ''skills/'' s of
        Some r \<Rightarrow> (case name_slash r of None \<Rightarrow> None | Some (n, r1) \<Rightarrow> map_option (Pair n) (script_path r1))
      | None \<Rightarrow>
          (case after_prefix ''skill-runtime/'' s of
             None \<Rightarrow> None
           | Some r \<Rightarrow>
               (case name_slash r of
                  None \<Rightarrow> None
                | Some (n, r1) \<Rightarrow>
                    (case name_slash r1 of None \<Rightarrow> None | Some (d, r2) \<Rightarrow> map_option (Pair n) (script_path r2)))))"

definition skill_dir :: "string \<Rightarrow> (string \<times> string) option" where
  "skill_dir s =
     (case after_prefix ''.adk-cc/'' s of
        Some r \<Rightarrow> skill_tail r
      | None \<Rightarrow> (case after_prefix ''.agents/'' s of None \<Rightarrow> None | Some r \<Rightarrow> skill_tail r))"

fun from_right :: "nat \<Rightarrow> string \<Rightarrow> (string \<times> string) option" where
  "from_right 0 s = skill_dir s"
| "from_right (Suc k) s =
     (case (if s ! k = CHR ''/'' then skill_dir (drop (Suc k) s) else None) of
        Some m \<Rightarrow> Some m
      | None \<Rightarrow> from_right k s)"

definition skill_path_here :: "string \<Rightarrow> (string \<times> string) option" where
  "skill_path_here s = from_right (length (takeWhile run_char s)) s"

definition path_start :: "char \<Rightarrow> bool" where
  "path_start c \<longleftrightarrow> py_space c \<or> List.member (CHR 0x60 # CHR 0x27 # CHR 0x22 # '';&|(='') c"

fun skill_search :: "string \<Rightarrow> (string \<times> string) option" where
  "skill_search [] = None"
| "skill_search (c # s) =
     (case (if path_start c then skill_path_here s else None) of
        Some m \<Rightarrow> Some m
      | None \<Rightarrow> skill_search s)"

definition bash_skill_script :: "string \<Rightarrow> (string \<times> string) option" where
  "bash_skill_script command =
     (case skill_path_here command of Some m \<Rightarrow> Some m | None \<Rightarrow> skill_search command)"

section \<open>What the callback reads\<close>

definition isolated_backends :: "string list" where
  "isolated_backends = [''container'', ''docker'', ''e2b'', ''daytona'', ''sandbox_service'']"

definition sandbox_isolated :: "host \<Rightarrow> call_ctx \<Rightarrow> bool" where
  "sandbox_isolated h ctx \<longleftrightarrow>
     \<not> is_desktop h
     \<and> \<not> List.member [''0'', ''false''] (lower (case environ h ''ADK_CC_SANDBOX_RELAXED'' of None \<Rightarrow> ''1'' | Some v \<Rightarrow> v))
     \<and> (case c_backend ctx of None \<Rightarrow> False | Some n \<Rightarrow> List.member isolated_backends n)"

definition mode_explicit :: "session_state \<Rightarrow> bool" where
  "mode_explicit st \<longleftrightarrow> given (st_mode st) \<noteq> None"

definition relaxation_active :: "host \<Rightarrow> call_ctx \<Rightarrow> session_state \<Rightarrow> bool" where
  "relaxation_active h ctx st \<longleftrightarrow> sandbox_isolated h ctx \<and> \<not> mode_explicit st"

definition mode_of_value :: "string \<Rightarrow> permission_mode option" where
  "mode_of_value s =
     map_of [(''default'', Default), (''plan'', Plan), (''acceptEdits'', AcceptEdits),
       (''bypassPermissions'', BypassPermissions), (''dontAsk'', DontAsk)] s"

definition mode_from_context :: "plugin \<Rightarrow> session_state \<Rightarrow> permission_mode" where
  "mode_from_context plug st =
     (case given (st_mode st) of
        None \<Rightarrow> p_default_mode plug
      | Some raw \<Rightarrow> (case mode_of_value raw of None \<Rightarrow> p_default_mode plug | Some m \<Rightarrow> m))"

definition load_state_rules :: "session_state \<Rightarrow> permission_rule list" where
  "load_state_rules st = st_session_rules st @ st_user_rules st"

definition effective_settings :: "plugin \<Rightarrow> session_state \<Rightarrow> settings" where
  "effective_settings plug st =
     (if load_state_rules st = [] then p_settings plug
      else new_settings (all_rules (p_settings plug) @ load_state_rules st))"

definition plugin_root :: "host \<Rightarrow> call_ctx \<Rightarrow> session_state \<Rightarrow> string" where
  "plugin_root h ctx st = ws_path (get_workspace h (c_seeded ctx) st)"

definition remote_home :: "host \<Rightarrow> call_ctx \<Rightarrow> session_state \<Rightarrow> string option" where
  "remote_home h ctx st =
     (if ws_remote (get_workspace h (c_seeded ctx) st) then c_backend_home ctx else None)"

definition to_host_path :: "(string \<Rightarrow> string) \<Rightarrow> string \<Rightarrow> string \<Rightarrow> string" where
  "to_host_path container_cwd path host_workspace =
     (let root = rstrip_slash (container_cwd host_workspace)
      in if root = [] \<or> root = rstrip_slash host_workspace then path
         else if path = root then host_workspace
         else if startswith path (root @ ''/'') then rstrip_slash host_workspace @ drop (length root) path
         else path)"

definition resolved_target :: "host \<Rightarrow> call_ctx \<Rightarrow> session_state \<Rightarrow> string \<Rightarrow> tool_args \<Rightarrow> string option" where
  "resolved_target h ctx st tool as =
     (case given (rule_key tool as) of
        None \<Rightarrow> None
      | Some raw \<Rightarrow>
          resolve_against_workspace h (to_host_path (c_container_cwd ctx) raw (plugin_root h ctx st))
            (Some (plugin_root h ctx st)))"

definition bash_out_of_scope :: "host \<Rightarrow> call_ctx \<Rightarrow> session_state \<Rightarrow> string \<Rightarrow> tool_args \<Rightarrow> bool" where
  "bash_out_of_scope h ctx st tool as \<longleftrightarrow>
     is_desktop h \<and> tool = ''run_bash''
     \<and> list_ex (\<lambda>raw. case given (resolve_against_workspace h raw (Some (plugin_root h ctx st))) of
            None \<Rightarrow> False
          | Some resolved \<Rightarrow> \<not> in_scope h (c_seeded ctx) st resolved)
        (command_paths (arg as ''command'' []))"

section \<open>Storing grants\<close>

definition state_rule :: "string \<Rightarrow> string \<Rightarrow> permission_rule" where
  "state_rule tool content =
     \<lparr>r_source = Session, r_behavior = RAllow, r_tool = tool,
      r_content = (if content = [] then None else Some content)\<rparr>"

definition put_rules :: "bool \<Rightarrow> permission_rule list \<Rightarrow> session_state \<Rightarrow> session_state" where
  "put_rules persist rules st =
     (if persist then st\<lparr>st_user_rules := st_user_rules st @ rules\<rparr>
      else st\<lparr>st_session_rules := st_session_rules st @ rules\<rparr>)"

definition add_session_allow ::
  "host \<Rightarrow> string \<Rightarrow> tool_args \<Rightarrow> bool \<Rightarrow> string option \<Rightarrow> session_state \<Rightarrow> session_state" where
  "add_session_allow h tool as persist root st =
     put_rules persist (map (state_rule tool) (compute_allow_always_rule_contents h tool as root)) st"

text \<open>\<open>os.path.dirname\<close>\<close>

definition dirname :: "string \<Rightarrow> string" where
  "dirname p =
     (let head = rev (dropWhile (\<lambda>c. c \<noteq> CHR ''/'') (rev p))
      in if list_all (\<lambda>c. c = CHR ''/'') head then head else rstrip_slash head)"

definition apply_folder_grant ::
  "host \<Rightarrow> call_ctx \<Rightarrow> string \<Rightarrow> tool_args \<Rightarrow> bool \<Rightarrow> session_state \<Rightarrow> session_state" where
  "apply_folder_grant h ctx tool as persist st =
     (case given (resolved_target h ctx st tool as) of
        None \<Rightarrow> st
      | Some resolved \<Rightarrow>
          (let parent = dirname resolved; dir_glob = glob_escape parent @ ''/*''
           in put_rules persist [state_rule ''write_file'' dir_glob, state_rule ''edit_file'' dir_glob]
                (add_granted_root h (c_seeded ctx) parent persist st)))"

section \<open>The gates\<close>

text \<open>The answers that let a gated call run: \<open>None\<close> is a frontend that only sends \<open>confirmed\<close>.\<close>

definition allowed_once :: "confirmation \<Rightarrow> bool" where
  "allowed_once f \<longleftrightarrow> f_chose f = Some ''allow'' \<or> f_chose f = Some ''allow_once''"

definition gate_skill_script ::
  "host \<Rightarrow> plugin \<Rightarrow> call_ctx \<Rightarrow> tool_args \<Rightarrow> session_state \<Rightarrow> callback \<times> session_state" where
  "gate_skill_script h plug ctx as st =
     (if list_ex (\<lambda>r. r_behavior r = RAllow \<and> rule_matches h r ''run_skill_script'' as None)
           (all_rules (effective_settings plug st))
      then (Run, st)
      else (case c_confirmation ctx of
              Some f \<Rightarrow>
                (if allowed_once f then (Run, st)
                 else if f_chose f = Some ''allow_always''
                   then (Run, add_session_allow h ''run_skill_script'' as (f_persist f) None st)
                 else if f_chose f = None \<and> f_confirmed f then (Run, st)
                 else (DeclinedByUser, st))
            | None \<Rightarrow>
                if st_subagent st then (DeniedInSubagent, st)
                else if \<not> c_call_id ctx then (Run, st)
                else (AskSkill (arg as ''skill_name'' [] @ '':'' @ arg as ''file_path'' []), st)))"

definition scope_decide ::
  "host \<Rightarrow> plugin \<Rightarrow> call_ctx \<Rightarrow> tool_meta \<Rightarrow> tool_args \<Rightarrow> permission_mode \<Rightarrow> string \<Rightarrow> session_state
    \<Rightarrow> permission_decision" where
  "scope_decide h plug ctx tool as mode root st =
     decide h tool as mode (effective_settings plug st) (Some root) False (remote_home h ctx st) False"

text \<open>\<open>None\<close> stands for \<open>_CONTINUE\<close>.\<close>

definition scope_gate ::
  "host \<Rightarrow> plugin \<Rightarrow> call_ctx \<Rightarrow> tool_meta \<Rightarrow> tool_args \<Rightarrow> permission_mode \<Rightarrow> string \<Rightarrow> session_state
    \<Rightarrow> (callback \<times> session_state) option" where
  "scope_gate h plug ctx tool as mode root st =
     (if \<not> is_desktop h \<or> \<not> is_path_tool (t_name tool) then None
      else (case c_confirmation ctx of
              Some f \<Rightarrow>
                (if f_chose f = Some ''grant_folder'' \<or> f_chose f = Some ''grant_once'' then
                   (let st' = (if f_chose f = Some ''grant_folder''
                               then apply_folder_grant h ctx (t_name tool) as (f_persist f) st
                               else (case given (resolved_target h ctx st (t_name tool) as) of
                                       None \<Rightarrow> st
                                     | Some resolved \<Rightarrow> grant_once h (c_seeded ctx) resolved st));
                        d = scope_decide h plug ctx tool as mode root st'
                    in if d_behavior d = Deny then Some (Denied d, st') else Some (Run, st'))
                 else if f_chose f = Some ''grant_deny'' then Some (DeclinedByUser, st)
                 else None)
            | None \<Rightarrow>
                (case resolved_target h ctx st (t_name tool) as of
                   None \<Rightarrow> None
                 | Some resolved \<Rightarrow>
                     if in_scope h (c_seeded ctx) st resolved then None
                     else if d_behavior (scope_decide h plug ctx tool as mode root st) = Deny then None
                     else if st_subagent st then Some (DeniedInSubagent, st)
                     else if \<not> c_call_id ctx then None
                     else Some (AskScope resolved (classify_path h None resolved \<noteq> Some PAsk), st))))"

definition plugin_decide ::
  "host \<Rightarrow> plugin \<Rightarrow> call_ctx \<Rightarrow> tool_meta \<Rightarrow> tool_args \<Rightarrow> session_state \<Rightarrow> permission_decision" where
  "plugin_decide h plug ctx tool as st =
     decide h tool as (mode_from_context plug st) (effective_settings plug st)
       (Some (plugin_root h ctx st)) (bash_out_of_scope h ctx st (t_name tool) as)
       (remote_home h ctx st) (relaxation_active h ctx st)"

definition answer_ask ::
  "host \<Rightarrow> call_ctx \<Rightarrow> tool_meta \<Rightarrow> tool_args \<Rightarrow> permission_decision \<Rightarrow> session_state
    \<Rightarrow> callback \<times> session_state" where
  "answer_ask h ctx tool as d st =
     (if st_subagent st then (DeniedInSubagent, st)
      else (case c_confirmation ctx of
              Some f \<Rightarrow>
                (if allowed_once f then (Run, st)
                 else if f_chose f = Some ''allow_always''
                   then (Run, add_session_allow h (t_name tool) as (f_persist f) (Some (plugin_root h ctx st)) st)
                 else if f_chose f = None \<and> f_confirmed f then (Run, st)
                 else (DeclinedByUser, st))
            | None \<Rightarrow> (AskTool d (c_call_id ctx), st)))"

definition decide_and_answer ::
  "host \<Rightarrow> plugin \<Rightarrow> call_ctx \<Rightarrow> tool_meta \<Rightarrow> tool_args \<Rightarrow> session_state \<Rightarrow> callback \<times> session_state" where
  "decide_and_answer h plug ctx tool as st =
     (case scope_gate h plug ctx tool as (mode_from_context plug st) (plugin_root h ctx st) st of
        Some result \<Rightarrow> result
      | None \<Rightarrow>
          (let d = plugin_decide h plug ctx tool as st
           in case d_behavior d of
                Deny \<Rightarrow> (Denied d, st)
              | Ask \<Rightarrow> answer_ask h ctx tool as d st
              | Allow \<Rightarrow> (Run, st)))"

definition skill_route :: "any_tool \<Rightarrow> tool_args \<Rightarrow> (string \<times> string) option" where
  "skill_route tool as =
     (case tool of
        OtherTool n \<Rightarrow> None
      | AdkTool t \<Rightarrow>
          if t_name t = ''run_bash'' \<and> \<not> is_read_only_command (arg as ''command'' [])
          then bash_skill_script (arg as ''command'' []) else None)"

definition before_tool_callback ::
  "host \<Rightarrow> plugin \<Rightarrow> call_ctx \<Rightarrow> any_tool \<Rightarrow> tool_args \<Rightarrow> session_state \<Rightarrow> callback \<times> session_state" where
  "before_tool_callback h plug ctx tool as st =
     (if tool_name tool = ''run_skill_script'' then
        (if relaxation_active h ctx st then (Run, st) else gate_skill_script h plug ctx as st)
      else
        (case (if relaxation_active h ctx st then None else skill_route tool as) of
           Some (skill, file) \<Rightarrow>
             (case gate_skill_script h plug ctx [''skill_name'' \<mapsto> skill, ''file_path'' \<mapsto> file] st of
                (Run, st') \<Rightarrow>
                  (case tool of OtherTool n \<Rightarrow> (Run, st') | AdkTool t \<Rightarrow> decide_and_answer h plug ctx t as st')
              | refused \<Rightarrow> refused)
         | None \<Rightarrow>
             (case tool of OtherTool n \<Rightarrow> (Run, st) | AdkTool t \<Rightarrow> decide_and_answer h plug ctx t as st)))"

definition after_tool_callback ::
  "host \<Rightarrow> call_ctx \<Rightarrow> any_tool \<Rightarrow> tool_args \<Rightarrow> session_state \<Rightarrow> session_state" where
  "after_tool_callback h ctx tool as st =
     (case tool of
        OtherTool n \<Rightarrow> st
      | AdkTool t \<Rightarrow>
          if is_desktop h \<and> is_path_tool (t_name t) then
            (case given (resolved_target h ctx st (t_name t) as) of
               None \<Rightarrow> st
             | Some resolved \<Rightarrow> discard_grant_once h (c_seeded ctx) resolved st)
          else st)"

section \<open>What a stored grant leaves alone\<close>

lemma put_rules_keeps [simp]:
  "st_subagent (put_rules p rs st) = st_subagent st" "st_mode (put_rules p rs st) = st_mode st"
  "read_roots k (put_rules p rs st) = read_roots k st"
  by (simp_all add: put_rules_def read_roots_def) (cases k; simp add: roots_at.simps)

lemma granted_put_rules [simp]: "list_granted_roots (put_rules p rs st) = list_granted_roots st"
  by (simp add: list_granted_roots_def)

lemma workspace_put_rules [simp]: "get_workspace h w (put_rules p rs st) = get_workspace h w st"
  by (simp add: get_workspace_def)

lemma set_state_rules_put [simp]:
  "set (load_state_rules (put_rules p rs st)) = set (load_state_rules st) \<union> set rs"
  by (auto simp: load_state_rules_def put_rules_def)

lemma reads_put_rules [simp]:
  "plugin_root h ctx (put_rules p rs st) = plugin_root h ctx st"
  "remote_home h ctx (put_rules p rs st) = remote_home h ctx st"
  "mode_from_context plug (put_rules p rs st) = mode_from_context plug st"
  "relaxation_active h ctx (put_rules p rs st) = relaxation_active h ctx st"
  "in_scope h w (put_rules p rs st) q = in_scope h w st q"
  by (simp_all add: plugin_root_def remote_home_def mode_from_context_def relaxation_active_def mode_explicit_def in_scope_def)

lemma out_put_rules [simp]: "bash_out_of_scope h ctx (put_rules p rs st) tool as = bash_out_of_scope h ctx st tool as"
  by (simp add: bash_out_of_scope_def cong: option.case_cong)

lemma set_effective:
  "set (all_rules (effective_settings plug st)) = set (all_rules (p_settings plug)) \<union> set (load_state_rules st)"
  by (simp add: effective_settings_def set_all_rules_new)

lemma append_root_keeps [simp]:
  "load_state_rules (append_root h w k p st) = load_state_rules st"
  "st_subagent (append_root h w k p st) = st_subagent st"
  "st_mode (append_root h w k p st) = st_mode st"
  by (cases k; simp add: append_root_def Let_def load_state_rules_def put_roots.simps)+

lemma remote_home_append_root [simp]: "remote_home h ctx (append_root h w k p st) = remote_home h ctx st"
  by (simp add: remote_home_def)

lemma gate_skill_script_state:
  "\<exists>p rs. snd (gate_skill_script h plug ctx as st) = put_rules p rs st"
proof -
  have "st = put_rules False [] st" by (simp add: put_rules_def)
  then show ?thesis
    by (auto simp: gate_skill_script_def add_session_allow_def split: option.split)
qed

lemma gate_skill_script_unanswered:
  "c_confirmation ctx = None \<Longrightarrow> snd (gate_skill_script h plug ctx as st) = st"
  by (simp add: gate_skill_script_def)

text \<open>What is denied whatever the mode and the grants.\<close>

definition always_denied :: "host \<Rightarrow> plugin \<Rightarrow> call_ctx \<Rightarrow> tool_meta \<Rightarrow> tool_args \<Rightarrow> session_state \<Rightarrow> bool" where
  "always_denied h plug ctx tool as st \<longleftrightarrow>
     (\<exists>r \<in> set (all_rules (p_settings plug)). r_behavior r = RDeny
        \<and> rule_matches h r (t_name tool) as (Some (plugin_root h ctx st)))
     \<or> protection_of h (t_name tool) as (Some (plugin_root h ctx st)) (remote_home h ctx st) = Some PDeny"

lemma floor_is_denied:
  assumes "(\<exists>r \<in> set (all_rules stt). r_behavior r = RDeny \<and> rule_matches h r (t_name tool) as root)
      \<or> protection_of h (t_name tool) as root home = Some PDeny"
  shows "d_behavior (decide h tool as mode stt root out home isolated) = Deny"
proof -
  have "hard_floor (facts_of h tool as stt root out home)"
    using assms first_match_None_iff [of h "all_rules stt" RDeny "t_name tool" as root]
    by (auto simp: hard_floor_def facts_of_def rule_applies_def)
  then show ?thesis unfolding decide_outcome by (rule outcome_floor)
qed

lemma always_denied_decides:
  assumes "always_denied h plug ctx tool as st" "remote_home h ctx st' = remote_home h ctx st"
  shows "d_behavior (scope_decide h plug ctx tool as mode (plugin_root h ctx st) st') = Deny"
  unfolding scope_decide_def
  using assms by (intro floor_is_denied) (auto simp: always_denied_def set_effective)

lemma always_denied_plugin:
  assumes "always_denied h plug ctx tool as st"
  shows "d_behavior (plugin_decide h plug ctx tool as st) = Deny"
  unfolding plugin_decide_def
  using assms by (intro floor_is_denied) (auto simp: always_denied_def set_effective)

lemma always_denied_put_rules [simp]:
  "always_denied h plug ctx tool as (put_rules p rs st) = always_denied h plug ctx tool as st"
  by (simp add: always_denied_def)

lemma scope_gate_denied:
  assumes "always_denied h plug ctx tool as st"
    and "scope_gate h plug ctx tool as mode (plugin_root h ctx st) st = Some (r, st')"
  shows "r \<noteq> Run"
proof -
  have f: "d_behavior (scope_decide h plug ctx tool as mode (plugin_root h ctx st) st'') = Deny"
    if "remote_home h ctx st'' = remote_home h ctx st" for st''
    by (rule always_denied_decides [OF assms(1) that])
  have a: "remote_home h ctx (apply_folder_grant h ctx n as p st) = remote_home h ctx st" for n p
    by (simp add: apply_folder_grant_def Let_def add_granted_root_def split: option.split)
  show ?thesis
    using assms(2) f a
    by (auto simp: scope_gate_def Let_def grant_once_def split: if_splits option.splits)
qed

lemma decide_and_answer_denied:
  assumes "always_denied h plug ctx tool as st"
  shows "fst (decide_and_answer h plug ctx tool as st) \<noteq> Run"
  using scope_gate_denied [OF assms] always_denied_plugin [OF assms]
  by (auto simp: decide_and_answer_def Let_def split: option.split)

lemma before_tool_cases:
  assumes "t_name t \<noteq> ''run_skill_script''"
  obtains (plain) "before_tool_callback h plug ctx (AdkTool t) as st = decide_and_answer h plug ctx t as st"
  | (skill) skill_args st' where
      "gate_skill_script h plug ctx skill_args st = (Run, st')"
      "before_tool_callback h plug ctx (AdkTool t) as st = decide_and_answer h plug ctx t as st'"
  | (refused) skill_args where
      "fst (gate_skill_script h plug ctx skill_args st) \<noteq> Run"
      "before_tool_callback h plug ctx (AdkTool t) as st = gate_skill_script h plug ctx skill_args st"
proof (cases "if relaxation_active h ctx st then None else skill_route (AdkTool t) as")
  case None
  then show ?thesis using plain assms by (simp add: before_tool_callback_def)
next
  case (Some m)
  obtain skill script where m: "m = (skill, script)" by fastforce
  let ?as = "[''skill_name'' \<mapsto> skill, ''file_path'' \<mapsto> script]"
  obtain r st' where g: "gate_skill_script h plug ctx ?as st = (r, st')" by fastforce
  show ?thesis
  proof (cases "r = Run")
    case True
    then show ?thesis using skill [of ?as st'] Some m g assms by (simp add: before_tool_callback_def)
  next
    case False
    then show ?thesis using refused [of ?as] Some m g assms
      by (cases r) (simp_all add: before_tool_callback_def)
  qed
qed


section \<open>Asking\<close>

fun asks :: "callback \<Rightarrow> bool" where
  "asks (AskTool d b) = True"
| "asks (AskSkill k) = True"
| "asks (AskScope p b) = True"
| "asks r = False"

lemma gate_skill_script_asks:
  "st_subagent st \<Longrightarrow> \<not> asks (fst (gate_skill_script h plug ctx as st))"
  by (auto simp: gate_skill_script_def split: option.split)

lemma scope_gate_asks:
  "st_subagent st \<Longrightarrow> scope_gate h plug ctx tool as mode root st = Some (r, st') \<Longrightarrow> \<not> asks r"
  by (auto simp: scope_gate_def Let_def split: if_splits option.splits)

lemma decide_and_answer_asks:
  "st_subagent st \<Longrightarrow> \<not> asks (fst (decide_and_answer h plug ctx tool as st))"
  using scope_gate_asks [of st h plug ctx tool as]
  by (auto simp: decide_and_answer_def Let_def answer_ask_def split: option.split behavior.split)

lemma scope_gate_unanswered:
  assumes "c_confirmation ctx = None" "scope_gate h plug ctx tool as mode root st = Some (r, st')"
  shows "r \<noteq> Run"
  using assms by (auto simp: scope_gate_def Let_def split: if_splits option.splits)

section \<open>Allow always\<close>

lemma reads_confirmation [simp]:
  "plugin_root h (ctx\<lparr>c_confirmation := x\<rparr>) st = plugin_root h ctx st"
  "remote_home h (ctx\<lparr>c_confirmation := x\<rparr>) st = remote_home h ctx st"
  "relaxation_active h (ctx\<lparr>c_confirmation := x\<rparr>) st = relaxation_active h ctx st"
  "bash_out_of_scope h (ctx\<lparr>c_confirmation := x\<rparr>) st n as = bash_out_of_scope h ctx st n as"
  by (simp_all add: plugin_root_def remote_home_def relaxation_active_def sandbox_isolated_def
      bash_out_of_scope_def cong: option.case_cong)

lemma plugin_decide_confirmation [simp]:
  "plugin_decide h plug (ctx\<lparr>c_confirmation := x\<rparr>) t as st = plugin_decide h plug ctx t as st"
  by (simp add: plugin_decide_def)

lemma outcome_Ask_granted:
  assumes "outcome mode f = Ask" "g = f\<lparr>f_allowed := True\<rparr>" "f_protected f \<noteq> Some PAsk"
  shows "outcome mode g = Allow"
proof -
  have "\<not> hard_floor f" "\<not> free_read f" "\<not> (mode = Plan \<and> \<not> f_read_only f)"
    using assms(1) by (auto simp: outcome_def split: if_splits)
  then show ?thesis using assms(2,3)
    by (auto simp: outcome_Allow_iff hard_floor_def free_read_def needs_human_def command_floor_def)
qed

lemma first_match_same:
  assumes "set rules' = set rules \<union> set new" "\<forall>r \<in> set new. r_behavior r = RAllow" "b \<noteq> RAllow"
  shows "first_match h rules' b tool as root = None \<longleftrightarrow> first_match h rules b tool as root = None"
  using assms by (auto simp: first_match_None_iff rule_applies_def)

lemma facts_after_rules:
  assumes "set (all_rules stt') = set (all_rules stt) \<union> set new" "\<forall>r \<in> set new. r_behavior r = RAllow"
    and "allow_match h (all_rules stt') (t_name tool) as root \<noteq> None"
  shows "facts_of h tool as stt' root out home = (facts_of h tool as stt root out home)\<lparr>f_allowed := True\<rparr>"
  using first_match_same [OF assms(1,2), of RDeny h] first_match_same [OF assms(1,2), of RAsk h] assms(3)
  by (simp add: facts_of_def)

lemma state_rule_bash: "c \<noteq> [] \<Longrightarrow> state_rule ''run_bash'' c = bash_grant c"
  by (simp add: state_rule_def bash_grant_def)

lemma allow_always_decides:
  assumes t: "t_name t = ''run_bash''" and c: "as ''command'' = Some c" "strip c = c" "c \<noteq> []"
    and lit: "(\<forall>x \<in> set c. literal_char x) \<or> (\<exists>ps. split_compound c = Some ps \<and> 2 \<le> length ps)"
    and prot: "protection_of h ''run_bash'' as (Some (plugin_root h ctx st)) (remote_home h ctx st) = None"
    and ask: "d_behavior (plugin_decide h plug ctx t as st) = Ask"
    and ctx: "ctx' = ctx\<lparr>c_confirmation := conf\<rparr>"
  shows "d_behavior (plugin_decide h plug ctx' t as (add_session_allow h ''run_bash'' as p root st)) = Allow"
proof -
  let ?rs = "map (state_rule ''run_bash'') (compute_allow_always_rule_contents h ''run_bash'' as root)"
  let ?st = "put_rules p ?rs st"
  have set: "set (all_rules (effective_settings plug ?st)) = set (all_rules (effective_settings plug st)) \<union> set ?rs"
    by (auto simp: set_effective)
  have allow: "\<forall>r \<in> set ?rs. r_behavior r = RAllow" by (simp add: state_rule_def)
  have "rule_key ''run_bash'' as = Some c" using c(1) by (simp add: rule_key_def arg_def)
  then obtain cs where "compute_allow_always_rule_contents h ''run_bash'' as root = c # cs"
    using contents_literal [of "''run_bash''" as c h root] c(2,3) by auto
  then have "bash_grant c \<in> set (all_rules (effective_settings plug ?st))"
    using set c(3) by (simp add: state_rule_bash)
  from own_rule_matches [of as c, OF c(1) this c(3) lit]
  have am: "allow_match h (all_rules (effective_settings plug ?st)) (t_name t) as root' \<noteq> None" for root'
    by (simp add: allow_match_def t)
  have "outcome (effective_mode (mode_from_context plug st) (relaxation_active h ctx st))
      (facts_of h t as (effective_settings plug ?st) (Some (plugin_root h ctx st))
        (bash_out_of_scope h ctx st (t_name t) as) (remote_home h ctx st)) = Allow"
  proof (rule outcome_Ask_granted)
    show "facts_of h t as (effective_settings plug ?st) (Some (plugin_root h ctx st))
        (bash_out_of_scope h ctx st (t_name t) as) (remote_home h ctx st) =
      (facts_of h t as (effective_settings plug st) (Some (plugin_root h ctx st))
        (bash_out_of_scope h ctx st (t_name t) as) (remote_home h ctx st))\<lparr>f_allowed := True\<rparr>"
      by (rule facts_after_rules [OF set allow am])
    show "outcome (effective_mode (mode_from_context plug st) (relaxation_active h ctx st))
      (facts_of h t as (effective_settings plug st) (Some (plugin_root h ctx st))
        (bash_out_of_scope h ctx st (t_name t) as) (remote_home h ctx st)) = Ask"
      using ask by (simp add: plugin_decide_def decide_outcome)
    show "f_protected (facts_of h t as (effective_settings plug st) (Some (plugin_root h ctx st))
        (bash_out_of_scope h ctx st (t_name t) as) (remote_home h ctx st)) \<noteq> Some PAsk"
      using prot t by (simp add: facts_of_def)
  qed
  then show ?thesis by (simp add: plugin_decide_def decide_outcome add_session_allow_def ctx)
qed

lemma bash_no_scope_gate: "t_name t = ''run_bash'' \<Longrightarrow> scope_gate h plug ctx t as mode root st = None"
  by (simp add: scope_gate_def is_path_tool_def)


section \<open>Folder grants\<close>

lemma granted_root_in:
  assumes h: "is_desktop h" "canonical h w" "\<not> ws_remote w"
    and d: "d \<noteq> []" "os_realpath h d = d"
  shows "d \<in> set (ws_roots h (get_workspace h w (add_granted_root h w d persist st)))"
proof -
  let ?key = "if persist then UserRoots else SessionRoots"
  have canon: "canon_for_ctx h w st d = d" using d h(3) by (simp add: canon_for_ctx_def)
  obtain r where r: "r \<in> set (list_granted_roots (append_root h w ?key d st))" "root_matches h r d"
    using append_root_has [OF d(1), of h w st ?key] d(1) unfolding canon by blast
  then have "d \<in> os_realpath h ` set (list_granted_roots (append_root h w ?key d st))"
    using d(2) by (metis image_eqI root_matches_def)
  moreover have "ws_path w \<in> set (ws_roots h w)" by (simp add: ws_roots_def)
  ultimately show ?thesis unfolding add_granted_root_def roots_of_get_workspace [OF h(2,1,3)] by auto
qed

lemma dirname_covers:
  assumes "dirname p \<noteq> []" "\<not> list_all (\<lambda>c. c = CHR ''/'') (dirname p)"
  shows "startswith p (dirname p @ ''/'')"
proof -
  define head where "head = rev (dropWhile (\<lambda>c. c \<noteq> CHR ''/'') (rev p))"
  have na: "\<not> list_all (\<lambda>c. c = CHR ''/'') head" and dn: "dirname p = rstrip_slash head"
    using assms(2) by (auto simp: dirname_def head_def [symmetric] Let_def split: if_splits)
  have p: "p = head @ rev (takeWhile (\<lambda>c. c \<noteq> CHR ''/'') (rev p))"
    unfolding head_def rev_append [symmetric] by simp
  have ne: "head \<noteq> []" using na by auto
  then have "last head = CHR ''/''"
    unfolding head_def last_rev using hd_dropWhile [of "\<lambda>c. c \<noteq> CHR ''/''" "rev p"] by auto
  then obtain u where u: "rev head = CHR ''/'' # u" using ne
    by (metis hd_rev list.collapse rev_is_Nil_conv)
  have "head = rstrip_slash head @ rev (takeWhile (\<lambda>c. c = CHR ''/'') (rev head))"
    unfolding rstrip_slash_def rev_append [symmetric] by simp
  then have "head = rstrip_slash head @ rev (takeWhile (\<lambda>c. c = CHR ''/'') u) @ ''/''" using u by simp
  moreover have "rev (takeWhile (\<lambda>c. c = CHR ''/'') u) @ ''/'' = ''/'' @ rev (takeWhile (\<lambda>c. c = CHR ''/'') u)"
  proof -
    have "replicate n (CHR ''/'') @ ''/'' = ''/'' @ replicate n (CHR ''/'')" for n by (induction n) auto
    moreover have "rev (takeWhile (\<lambda>c. c = CHR ''/'') u) = replicate (length (takeWhile (\<lambda>c. c = CHR ''/'') u)) (CHR ''/'')"
      by (rule replicate_eqI) (auto dest: set_takeWhileD)
    ultimately show ?thesis by metis
  qed
  ultimately have "p = (rstrip_slash head @ ''/'') @ rev (takeWhile (\<lambda>c. c = CHR ''/'') u)
      @ rev (takeWhile (\<lambda>c. c \<noteq> CHR ''/'') (rev p))"
    using p by (metis append.assoc)
  then show ?thesis unfolding dn startswith_iff by blast
qed

lemma before_tool_no_route:
  "t_name t \<noteq> ''run_skill_script'' \<Longrightarrow> skill_route (AdkTool t) as = None \<Longrightarrow>
     before_tool_callback h plug ctx (AdkTool t) as st = decide_and_answer h plug ctx t as st"
  by (simp add: before_tool_callback_def)

section \<open>Concrete calls\<close>

definition demo_plugin :: plugin where
  "demo_plugin = \<lparr>p_settings = empty_settings, p_default_mode = Default\<rparr>"

definition demo_ctx :: call_ctx where
  "demo_ctx = \<lparr>c_seeded = project, c_backend = Some ''noop'', c_backend_home = None, c_container_cwd = (\<lambda>w. w),
     c_call_id = True, c_confirmation = None\<rparr>"

definition answer_with :: "string \<Rightarrow> call_ctx" where
  "answer_with choice = demo_ctx\<lparr>c_confirmation := Some \<lparr>f_chose = Some choice, f_persist = False, f_confirmed = True\<rparr>\<rparr>"

definition fresh_state :: session_state where
  "fresh_state = \<lparr>st_session_roots = [], st_user_roots = [], st_once_roots = [], st_mode = None, st_subagent = False,
     st_session_rules = [], st_user_rules = []\<rparr>"

definition bash_tool :: tool_meta where
  "bash_tool = \<lparr>t_name = ''run_bash'', t_read_only = False, t_destructive = True\<rparr>"

definition write_tool :: tool_meta where
  "write_tool = \<lparr>t_name = ''write_file'', t_read_only = False, t_destructive = True\<rparr>"

section \<open>Properties\<close>





text \<open>Inside a sub-agent, where nobody can answer, the callback raises no prompt of any kind.\<close>

lemma subagent_is_never_asked:
  assumes "st_subagent st"
  shows "\<not> asks (fst (before_tool_callback h plug ctx tool as st))"
proof (cases "tool_name tool = ''run_skill_script''")
  case True
  then show ?thesis using gate_skill_script_asks [OF assms] by (simp add: before_tool_callback_def)
next
  case False
  show ?thesis
  proof (cases tool)
    case (OtherTool n)
    then show ?thesis using False by (simp add: before_tool_callback_def skill_route_def)
  next
    case (AdkTool t)
    then have "t_name t \<noteq> ''run_skill_script''" using False by simp
    then show ?thesis unfolding AdkTool
    proof (cases rule: before_tool_cases [of t h plug ctx as st])
      case plain
      then show "\<not> asks (fst (before_tool_callback h plug ctx (AdkTool t) as st))"
        using decide_and_answer_asks [OF assms] by simp
    next
      case (skill skill_args st')
      then obtain p rs where "st' = put_rules p rs st"
        using gate_skill_script_state [of h plug ctx skill_args st] by auto
      then have "st_subagent st'" using assms by simp
      then show "\<not> asks (fst (before_tool_callback h plug ctx (AdkTool t) as st))"
        using decide_and_answer_asks skill by simp
    next
      case (refused skill_args)
      then show "\<not> asks (fst (before_tool_callback h plug ctx (AdkTool t) as st))"
        using gate_skill_script_asks [OF assms] by simp
    qed
  qed
qed

lemma subagent_is_never_asked_witness:
  "\<not> asks (fst (before_tool_callback plain_host demo_plugin demo_ctx (AdkTool bash_tool)
     [''command'' \<mapsto> ''rm -r x''] (fresh_state\<lparr>st_subagent := True\<rparr>)))"
  by (rule subagent_is_never_asked) code_simp

text \<open>"Allow always" sticks: once a command that needed a question has been answered so, the same command
  runs without a question, provided it is a compound command or has no pattern characters, is not a
  skill script and touches no protected file.\<close>

lemma allow_always_is_remembered:
  assumes t: "t_name t = ''run_bash''" and c: "as ''command'' = Some c" "strip c = c" "c \<noteq> []"
    and lit: "(\<forall>x \<in> set c. literal_char x) \<or> (\<exists>ps. split_compound c = Some ps \<and> 2 \<le> length ps)"
    and prot: "protection_of h ''run_bash'' as (Some (plugin_root h ctx st)) (remote_home h ctx st) = None"
    and ask: "d_behavior (plugin_decide h plug ctx t as st) = Ask"
    and route: "bash_skill_script c = None" "\<not> st_subagent st"
    and answer: "f_chose f = Some ''allow_always''"
    and call: "before_tool_callback h plug (ctx\<lparr>c_confirmation := Some f\<rparr>) (AdkTool t) as st = (r, st')"
  shows "r = Run \<and> before_tool_callback h plug (ctx\<lparr>c_confirmation := None\<rparr>) (AdkTool t) as st' = (Run, st')"
proof -
  have sr: "skill_route (AdkTool t) as = None" using c route(1) by (simp add: skill_route_def arg_def t)
  have bt: "before_tool_callback h plug ctx0 (AdkTool t) as st0 = decide_and_answer h plug ctx0 t as st0" for ctx0 st0
    by (simp add: before_tool_callback_def t sr)
  have st': "r = Run \<and> st' = add_session_allow h ''run_bash'' as (f_persist f)
      (Some (plugin_root h (ctx\<lparr>c_confirmation := Some f\<rparr>) st)) st"
    using call ask route(2) answer
    by (simp add: bt decide_and_answer_def bash_no_scope_gate t Let_def answer_ask_def allowed_once_def)
  have "d_behavior (plugin_decide h plug (ctx\<lparr>c_confirmation := None\<rparr>) t as st') = Allow"
    using allow_always_decides [OF t c lit prot ask refl] st' by simp
  then show ?thesis using st' by (simp add: bt decide_and_answer_def bash_no_scope_gate t Let_def)
qed

lemma allow_always_is_remembered_witness:
  "\<exists>st'. before_tool_callback plain_host demo_plugin (demo_ctx\<lparr>c_confirmation := None\<rparr>) (AdkTool bash_tool)
     [''command'' \<mapsto> ''make all''] st' = (Run, st') \<and> length (st_session_rules st') = 2"
proof -
  obtain r st' where c: "before_tool_callback plain_host demo_plugin
      (demo_ctx\<lparr>c_confirmation := Some \<lparr>f_chose = Some ''allow_always'', f_persist = False, f_confirmed = True\<rparr>\<rparr>)
      (AdkTool bash_tool) [''command'' \<mapsto> ''make all''] fresh_state = (r, st')" by fastforce
  have l: "length (st_session_rules (snd (before_tool_callback plain_host demo_plugin
      (demo_ctx\<lparr>c_confirmation := Some \<lparr>f_chose = Some ''allow_always'', f_persist = False, f_confirmed = True\<rparr>\<rparr>)
      (AdkTool bash_tool) [''command'' \<mapsto> ''make all''] fresh_state))) = 2" by code_simp
  have "(\<forall>x \<in> set ''make all''. literal_char x)" "strip ''make all'' = ''make all''"
    "protection_of plain_host ''run_bash'' [''command'' \<mapsto> ''make all''] (Some (plugin_root plain_host demo_ctx fresh_state))
       (remote_home plain_host demo_ctx fresh_state) = None"
    "d_behavior (plugin_decide plain_host demo_plugin demo_ctx bash_tool [''command'' \<mapsto> ''make all''] fresh_state) = Ask"
    "bash_skill_script ''make all'' = None" by code_simp+
  note h = this
  show ?thesis
    using allow_always_is_remembered [OF _ _ h(2) _ disjI1 [OF h(1)] h(3,4,5) _ _ c] l c
    by (auto simp: bash_tool_def fresh_state_def)
qed

text \<open>Answering a scope prompt with a folder grant brings the target into the guarded scope, and still
  runs nothing that is denied outright.\<close>

lemma folder_grant_opens_the_target:
  assumes h: "is_desktop h" "canonical h (c_seeded ctx)" "\<not> ws_remote (c_seeded ctx)"
    and t: "is_path_tool (t_name t)" "t_name t \<noteq> ''run_skill_script''"
    and answer: "c_confirmation ctx = Some f" "f_chose f = Some ''grant_folder''"
    and target: "resolved_target h ctx st (t_name t) as = Some p" "p \<noteq> []"
    and dir: "os_realpath h (dirname p) = dirname p" "\<not> list_all (\<lambda>c. c = CHR ''/'') (dirname p)"
      "\<forall>c \<in> set (dirname p). literal_char c"
    and call: "before_tool_callback h plug ctx (AdkTool t) as st = (r, st')"
  shows "in_scope h (c_seeded ctx) st' p \<and> (always_denied h plug ctx t as st \<longrightarrow> r \<noteq> Run)"
proof -
  have ne: "dirname p \<noteq> []" using dir(2) by auto
  have nb: "skill_route (AdkTool t) as = None" using t(1) by (auto simp: skill_route_def is_path_tool_def)
  have "snd (decide_and_answer h plug ctx t as st) = apply_folder_grant h ctx (t_name t) as (f_persist f) st"
    using h(1) t(1) answer by (simp add: decide_and_answer_def scope_gate_def Let_def)
  then have st': "st' = apply_folder_grant h ctx (t_name t) as (f_persist f) st"
    using call before_tool_no_route [OF t(2) nb] by simp
  have "in_scope h (c_seeded ctx) st' p = in_scope h (c_seeded ctx) (add_granted_root h (c_seeded ctx) (dirname p) (f_persist f) st) p"
    unfolding st' using target by (simp add: apply_folder_grant_def given_def Let_def)
  moreover have "in_scope h (c_seeded ctx) (add_granted_root h (c_seeded ctx) (dirname p) (f_persist f) st) p"
    unfolding in_scope_def
  proof (rule fs_allows_root)
    show "dirname p \<in> set (ws_roots h (get_workspace h (c_seeded ctx) (add_granted_root h (c_seeded ctx) (dirname p) (f_persist f) st)))"
      by (rule granted_root_in [OF h ne dir(1)])
    show "covers (dirname p) p" using dirname_covers [OF ne dir(2)] by (simp add: covers_def)
  qed (rule dir(3))
  moreover have "always_denied h plug ctx t as st \<Longrightarrow> fst (before_tool_callback h plug ctx (AdkTool t) as st) \<noteq> Run"
    using decide_and_answer_denied before_tool_no_route [OF t(2) nb] by simp
  ultimately show ?thesis using call by simp
qed

lemma folder_grant_opens_the_target_witness:
  "in_scope desktop_host project (snd (before_tool_callback desktop_host demo_plugin (answer_with ''grant_folder'')
     (AdkTool write_tool) [''path'' \<mapsto> ''/data/out/a.txt''] fresh_state)) ''/data/out/a.txt''"
proof -
  obtain r st' where c: "before_tool_callback desktop_host demo_plugin (answer_with ''grant_folder'')
     (AdkTool write_tool) [''path'' \<mapsto> ''/data/out/a.txt''] fresh_state = (r, st')" by fastforce
  have s: "c_seeded (answer_with ''grant_folder'') = project" by (simp add: answer_with_def demo_ctx_def)
  have "canonical desktop_host project" unfolding canonical_def by code_simp
  moreover have "is_desktop desktop_host" "\<not> ws_remote project" "is_path_tool (t_name write_tool)"
    "t_name write_tool \<noteq> ''run_skill_script''"
    "resolved_target desktop_host (answer_with ''grant_folder'') fresh_state (t_name write_tool) [''path'' \<mapsto> ''/data/out/a.txt'']
       = Some ''/data/out/a.txt''"
    "os_realpath desktop_host (dirname ''/data/out/a.txt'') = dirname ''/data/out/a.txt''"
    "\<not> list_all (\<lambda>c. c = CHR ''/'') (dirname ''/data/out/a.txt'')" "\<forall>c \<in> set (dirname ''/data/out/a.txt''). literal_char c"
    by code_simp+
  ultimately have "in_scope desktop_host project st' ''/data/out/a.txt''"
    using folder_grant_opens_the_target [of desktop_host "answer_with ''grant_folder''" write_tool _ fresh_state
        "[''path'' \<mapsto> ''/data/out/a.txt'']" "''/data/out/a.txt''" demo_plugin r st'] c
    unfolding s by (simp add: answer_with_def)
  then show ?thesis using c by simp
qed

text \<open>
  Two gaps. The answer to the skill-script prompt is the same confirmation the engine's question
  reads, so one click on the script approves the dangerous command around it. And the skill-script
  gate looks at allow rules only: a deny rule for the tool is not consulted.
\<close>

lemma skill_consent_covers_the_whole_command:
  "before_tool_callback plain_host demo_plugin demo_ctx (AdkTool bash_tool)
      [''command'' \<mapsto> ''bash .adk-cc/skills/x/scripts/y.sh; rm -rf ~/work''] fresh_state
     = (AskSkill ''x:scripts/y.sh'', fresh_state)
   \<and> plugin_decide plain_host demo_plugin demo_ctx bash_tool
      [''command'' \<mapsto> ''bash .adk-cc/skills/x/scripts/y.sh; rm -rf ~/work''] fresh_state = decision Ask None DangerousAsks
   \<and> before_tool_callback plain_host demo_plugin (answer_with ''allow_once'') (AdkTool bash_tool)
      [''command'' \<mapsto> ''bash .adk-cc/skills/x/scripts/y.sh; rm -rf ~/work''] fresh_state
     = (Run, fresh_state)"
  by (intro conjI; code_simp)

lemma skill_script_deny_rule_ignored:
  "rule_matches plain_host \<lparr>r_source = Policy, r_behavior = RDeny, r_tool = ''run_skill_script'', r_content = None\<rparr>
      ''run_skill_script'' [''skill_name'' \<mapsto> ''x'', ''file_path'' \<mapsto> ''scripts/y.sh''] None
   \<and> before_tool_callback plain_host
      (demo_plugin\<lparr>p_settings := new_settings [\<lparr>r_source = Policy, r_behavior = RDeny, r_tool = ''run_skill_script'', r_content = None\<rparr>]\<rparr>)
      (answer_with ''allow_once'') (OtherTool ''run_skill_script'')
      [''skill_name'' \<mapsto> ''x'', ''file_path'' \<mapsto> ''scripts/y.sh''] fresh_state = (Run, fresh_state)"
  by (intro conjI; code_simp)

end
