(* ===== verification/Authz.thy ===== *)
theory Authz
  imports Rules
begin

text \<open>
  \<open>authz/model.py\<close>, \<open>authz/pdp.py\<close>, \<open>authz/attributes.py\<close>, \<open>authz/policy_loader.py\<close> and the two
  enforcement points, \<open>plugins/authz.py\<close> (tool calls) and \<open>service/authz_routes.py\<close> (REST requests):
  subject-aware authorization. The abstract class \<open>PolicyDecisionPoint\<close> is the locale
  \<open>decision_point\<close>, which both enforcement points are proved against, interpreted on
  \<open>AbacPolicyDecisionPoint\<close>.

  A decision point may raise; \<open>None\<close> is the exception. A YAML document is the parsed list of policy
  entries (PyYAML is not part of the program); \<open>owner\<close> and \<open>same_tenant\<close> are booleans or absent.
\<close>

section \<open>Subjects, resources, decisions\<close>

record subject =
  s_user :: string
  s_tenant :: string
  s_roles :: "string list"
  s_scopes :: "string list"

record resource =
  o_type :: string
  o_id :: string
  o_owner :: "string option"
  o_tenant :: "string option"

datatype effect = Permit | Forbid

datatype verdict_reason =
    DeniedByPolicy string
  | PermittedByPolicy string
  | OwnsResource
  | InTenant
  | NoMatchingPolicy
  | EvaluationError

record pdp_decision =
  v_effect :: effect
  v_reason :: verdict_reason

definition verdict_of :: "effect \<Rightarrow> verdict_reason \<Rightarrow> pdp_decision" where
  "verdict_of e r = \<lparr>v_effect = e, v_reason = r\<rparr>"

lemma v_effect_verdict_of [simp]: "v_effect (verdict_of e r) = e"
  by (simp add: verdict_of_def)

section \<open>The attribute-based decision point\<close>

record abac_policy =
  y_effect :: effect
  y_roles :: "string list"
  y_scopes :: "string list"
  y_subject_tenant :: "string option"
  y_action :: "string option"
  y_resource_type :: "string option"
  y_resource :: "string option"
  y_owner :: "bool option"
  y_same_tenant :: "bool option"
  y_name :: string

definition shares :: "string list \<Rightarrow> string list \<Rightarrow> bool" where
  "shares xs ys \<longleftrightarrow> list_ex (List.member ys) xs"

definition owns :: "subject \<Rightarrow> resource \<Rightarrow> bool" where
  "owns s r \<longleftrightarrow> o_owner r = Some (s_user s)"

definition own_tenant :: "subject \<Rightarrow> resource \<Rightarrow> bool" where
  "own_tenant s r \<longleftrightarrow> o_tenant r = Some (s_tenant s)"

definition policy_matches :: "abac_policy \<Rightarrow> subject \<Rightarrow> string \<Rightarrow> resource \<Rightarrow> bool" where
  "policy_matches p s act r \<longleftrightarrow>
     (if y_roles p \<noteq> [] \<and> \<not> shares (y_roles p) (s_roles s) then False
      else if y_scopes p \<noteq> [] \<and> \<not> shares (y_scopes p) (s_scopes s) then False
      else if y_subject_tenant p \<noteq> None \<and> y_subject_tenant p \<noteq> Some (s_tenant s) then False
      else if (case y_action p of None \<Rightarrow> False | Some pat \<Rightarrow> \<not> fnmatch act pat) then False
      else if y_resource_type p \<noteq> None \<and> y_resource_type p \<noteq> Some (o_type r) then False
      else if (case y_resource p of None \<Rightarrow> False | Some pat \<Rightarrow> \<not> fnmatch (o_id r) pat) then False
      else if (case y_owner p of None \<Rightarrow> False | Some b \<Rightarrow> owns s r \<noteq> b) then False
      else if (case y_same_tenant p of None \<Rightarrow> False | Some b \<Rightarrow> own_tenant s r \<noteq> b) then False
      else True)"

definition authorize :: "abac_policy list \<Rightarrow> subject \<Rightarrow> string \<Rightarrow> resource \<Rightarrow> pdp_decision" where
  "authorize policies s act r =
     (case List.find (\<lambda>p. y_effect p = Forbid \<and> policy_matches p s act r) policies of
        Some p \<Rightarrow> verdict_of Forbid (DeniedByPolicy (y_name p))
      | None \<Rightarrow>
          (case List.find (\<lambda>p. y_effect p = Permit \<and> policy_matches p s act r) policies of
             Some p \<Rightarrow> verdict_of Permit (PermittedByPolicy (y_name p))
           | None \<Rightarrow>
               if owns s r then verdict_of Permit OwnsResource
               else if own_tenant s r then verdict_of Permit InTenant
               else verdict_of Forbid NoMatchingPolicy))"

section \<open>Loading policies\<close>

datatype yaml = YNull | YStr string | YSeq "string list" | YOther

fun words_go :: "string \<Rightarrow> string \<Rightarrow> string list" where
  "words_go w [] = (if w = [] then [] else [w])"
| "words_go w (c # s) =
     (if py_space c then (if w = [] then words_go [] s else w # words_go [] s) else words_go (w @ [c]) s)"

fun as_set :: "yaml \<Rightarrow> string list" where
  "as_set YNull = []"
| "as_set (YStr s) = words_go [] s"
| "as_set (YSeq vs) = vs"
| "as_set YOther = []"

record policy_entry =
  e_effect :: "string option"
  e_roles :: yaml
  e_scopes :: yaml
  e_subject_tenant :: "string option"
  e_action :: "string option"
  e_resource_type :: "string option"
  e_resource :: "string option"
  e_owner :: "bool option"
  e_same_tenant :: "bool option"
  e_name :: "string option"

datatype policy_error = BadEffect nat "string option"

definition parse_effect :: "string option \<Rightarrow> effect option" where
  "parse_effect e =
     (if e = Some ''permit'' then Some Permit else if e = Some ''deny'' then Some Forbid else None)"

definition parse_policy :: "policy_entry \<Rightarrow> nat \<Rightarrow> policy_error + abac_policy" where
  "parse_policy d idx =
     (case parse_effect (e_effect d) of
        None \<Rightarrow> Inl (BadEffect idx (e_effect d))
      | Some e \<Rightarrow>
          Inr \<lparr>y_effect = e, y_roles = as_set (e_roles d), y_scopes = as_set (e_scopes d),
               y_subject_tenant = e_subject_tenant d, y_action = e_action d,
               y_resource_type = e_resource_type d, y_resource = e_resource d,
               y_owner = e_owner d, y_same_tenant = e_same_tenant d,
               y_name = (case e_name d of None \<Rightarrow> ''policy['' @ decimal idx @ '']'' | Some n \<Rightarrow> n)\<rparr>)"

fun load_policies :: "nat \<Rightarrow> policy_entry list \<Rightarrow> policy_error + abac_policy list" where
  "load_policies i [] = Inr []"
| "load_policies i (d # ds) =
     (case parse_policy d i of
        Inl e \<Rightarrow> Inl e
      | Inr p \<Rightarrow> (case load_policies (Suc i) ds of Inl e \<Rightarrow> Inl e | Inr ps \<Rightarrow> Inr (p # ps)))"

text \<open>
  \<open>_default_pdp\<close>: without a file there are no policies; a file that does not load leaves the list
  empty as well. The argument is the file's content when \<open>ADK_CC_PERMISSIONS_YAML\<close> names one:
  \<open>None\<close> for a file that cannot be read or parsed as YAML.
\<close>

definition default_policies :: "host \<Rightarrow> policy_entry list option \<Rightarrow> abac_policy list" where
  "default_policies h content =
     (if env_str h ''ADK_CC_PERMISSIONS_YAML'' = [] then []
      else (case content of
              None \<Rightarrow> []
            | Some ds \<Rightarrow> (case load_policies 0 ds of Inl e \<Rightarrow> [] | Inr ps \<Rightarrow> ps)))"

section \<open>Attributes\<close>

record principal =
  p_user :: "string option"
  p_tenant :: "string option"
  p_roles :: "string list"
  p_scopes :: "string list"

definition or_local :: "string option \<Rightarrow> string" where
  "or_local x = (case x of None \<Rightarrow> ''local'' | Some s \<Rightarrow> if s = [] then ''local'' else s)"

text \<open>The seeded principal and the seeded tenant context (user and tenant), each possibly absent.\<close>

definition subject_from_state :: "principal option \<Rightarrow> (string option \<times> string option) option \<Rightarrow> subject" where
  "subject_from_state seeded tenant =
     (case seeded of
        Some p \<Rightarrow>
          if p_user p \<noteq> None \<and> p_user p \<noteq> Some [] then
            \<lparr>s_user = or_local (p_user p), s_tenant = or_local (p_tenant p),
             s_roles = p_roles p, s_scopes = p_scopes p\<rparr>
          else
            (let (u, t) = (case tenant of None \<Rightarrow> (None, None) | Some ut \<Rightarrow> ut)
             in \<lparr>s_user = or_local u, s_tenant = or_local t, s_roles = [], s_scopes = []\<rparr>)
      | None \<Rightarrow>
          (let (u, t) = (case tenant of None \<Rightarrow> (None, None) | Some ut \<Rightarrow> ut)
           in \<lparr>s_user = or_local u, s_tenant = or_local t, s_roles = [], s_scopes = []\<rparr>))"

definition resource_types :: "(string \<times> string) list" where
  "resource_types =
     [(''read_file'', ''file''), (''write_file'', ''file''), (''edit_file'', ''file''),
      (''glob_files'', ''file''), (''grep'', ''file''), (''run_bash'', ''command''),
      (''save_as_artifact'', ''artifact''), (''load_artifact_to_sandbox'', ''artifact'')]"

definition resource_from_tool :: "string \<Rightarrow> tool_args \<Rightarrow> subject \<Rightarrow> resource" where
  "resource_from_tool tool as s =
     \<lparr>o_type = (case map_of resource_types tool of None \<Rightarrow> ''tool'' | Some t \<Rightarrow> t),
      o_id = (case rule_key tool as of None \<Rightarrow> [] | Some key \<Rightarrow> key),
      o_owner = Some (s_user s), o_tenant = Some (s_tenant s)\<rparr>"

section \<open>The enforcement points\<close>

type_synonym pdp = "subject \<Rightarrow> string \<Rightarrow> resource \<Rightarrow> pdp_decision option"

definition authz_enabled :: "host \<Rightarrow> bool" where
  "authz_enabled h = env_bool h ''ADK_CC_AUTHZ'' False"

text \<open>
  The tool-call gate: \<open>None\<close> lets the call through, \<open>Some\<close> is the denial with its reason. An exception
  of the decision point is a denial. Whether the gate is on is read when the plugin is built.
\<close>

definition tool_gate :: "bool \<Rightarrow> pdp \<Rightarrow> subject \<Rightarrow> string \<Rightarrow> tool_args \<Rightarrow> verdict_reason option" where
  "tool_gate enabled decide_fn s tool as =
     (if \<not> enabled then None
      else (case decide_fn s tool (resource_from_tool tool as s) of
              None \<Rightarrow> Some EvaluationError
            | Some v \<Rightarrow> if v_effect v = Forbid then Some (v_reason v) else None))"

datatype response = PassThrough | Unauthenticated | Forbidden verdict_reason

definition segment_of :: "string \<Rightarrow> (string \<times> string) option" where
  "segment_of s =
     (let seg = takeWhile (\<lambda>c. c \<noteq> CHR ''/'') s
      in if seg = [] then None else Some (seg, dropWhile (\<lambda>c. c \<noteq> CHR ''/'') s))"

text \<open>\<open>_USER_PATH = ^/apps/([^/]+)/users/([^/]+)(?:/|$)\<close>\<close>

definition user_path :: "string \<Rightarrow> (string \<times> string) option" where
  "user_path path =
     (if \<not> startswith path ''/apps/'' then None
      else (case segment_of (drop 6 path) of
              None \<Rightarrow> None
            | Some (app, rest) \<Rightarrow>
                if \<not> startswith rest ''/users/'' then None
                else map_option (\<lambda>(user, _). (app, user)) (segment_of (drop 7 rest))))"

definition writes_method :: "string \<Rightarrow> bool" where
  "writes_method m \<longleftrightarrow> List.member [''POST'', ''PUT'', ''PATCH'', ''DELETE''] m"

definition rest_gate :: "host \<Rightarrow> pdp \<Rightarrow> string \<Rightarrow> string \<Rightarrow> subject option \<Rightarrow> response option" where
  "rest_gate h decide_fn path http_method caller =
     (if \<not> authz_enabled h then Some PassThrough
      else (case user_path path of
              None \<Rightarrow> Some PassThrough
            | Some (app, user) \<Rightarrow>
                (case caller of
                   None \<Rightarrow> Some Unauthenticated
                 | Some s \<Rightarrow>
                     (case decide_fn s (if writes_method http_method then ''write_user_data'' else ''read_user_data'')
                             \<lparr>o_type = ''user_data'', o_id = app @ ''/'' @ user, o_owner = Some user, o_tenant = None\<rparr> of
                        None \<Rightarrow> None
                      | Some v \<Rightarrow> Some (if v_effect v = Forbid then Forbidden (v_reason v) else PassThrough)))))"


section \<open>The contract of a decision point\<close>

text \<open>
  Explicit denials win, then explicit permits, then ownership or tenancy, and everything else is
  denied. The enforcement points are proved against this contract.
\<close>

locale decision_point =
  fixes decide_fn :: pdp
    and denies :: "subject \<Rightarrow> string \<Rightarrow> resource \<Rightarrow> bool"
    and permits :: "subject \<Rightarrow> string \<Rightarrow> resource \<Rightarrow> bool"
  assumes contract: "map_option v_effect (decide_fn s act r) =
    Some (if denies s act r then Forbid
          else if permits s act r \<or> owns s r \<or> own_tenant s r then Permit else Forbid)"
begin

lemma decides: "\<exists>v. decide_fn s act r = Some v
    \<and> (v_effect v = Permit \<longleftrightarrow> \<not> denies s act r \<and> (permits s act r \<or> owns s r \<or> own_tenant s r))"
  using contract [of s act r] by (auto split: if_splits)

lemma tool_gate_passes:
  "tool_gate True decide_fn s tool as = None \<longleftrightarrow> \<not> denies s tool (resource_from_tool tool as s)"
proof -
  have own: "owns s (resource_from_tool tool as s)" by (simp add: owns_def resource_from_tool_def)
  obtain v where "decide_fn s tool (resource_from_tool tool as s) = Some v"
    "v_effect v = Permit \<longleftrightarrow> \<not> denies s tool (resource_from_tool tool as s)"
    using decides [of s tool "resource_from_tool tool as s"] own by blast
  then show ?thesis by (cases "v_effect v") (auto simp: tool_gate_def)
qed

lemma rest_gate_passes:
  assumes "authz_enabled h" "user_path path = Some (app, user)"
    and "act = (if writes_method m then ''write_user_data'' else ''read_user_data'')"
    and "r = \<lparr>o_type = ''user_data'', o_id = app @ ''/'' @ user, o_owner = Some user, o_tenant = None\<rparr>"
  shows "rest_gate h decide_fn path m (Some s) = Some PassThrough \<longleftrightarrow>
    \<not> denies s act r \<and> (permits s act r \<or> user = s_user s)"
proof -
  have own: "owns s r \<longleftrightarrow> user = s_user s" "\<not> own_tenant s r"
    by (simp_all add: owns_def own_tenant_def assms(4))
  obtain v where "decide_fn s act r = Some v"
    "v_effect v = Permit \<longleftrightarrow> \<not> denies s act r \<and> (permits s act r \<or> owns s r \<or> own_tenant s r)"
    using decides [of s act r] by blast
  then show ?thesis using assms(1,2) own unfolding assms(3,4)
    by (cases "v_effect v") (auto simp: rest_gate_def)
qed

end

definition some_policy :: "effect \<Rightarrow> abac_policy list \<Rightarrow> subject \<Rightarrow> string \<Rightarrow> resource \<Rightarrow> bool" where
  "some_policy e policies s act r \<longleftrightarrow> list_ex (\<lambda>p. y_effect p = e \<and> policy_matches p s act r) policies"

lemma find_None_ex: "List.find P xs = None \<longleftrightarrow> \<not> list_ex P xs"
  by (auto simp: find_None_iff list_ex_iff)

lemma authorize_effect:
  "v_effect (authorize policies s act r) =
    (if some_policy Forbid policies s act r then Forbid
     else if some_policy Permit policies s act r \<or> owns s r \<or> own_tenant s r then Permit else Forbid)"
  unfolding some_policy_def by (auto simp: authorize_def find_None_ex [symmetric] split: option.split)

interpretation abac: decision_point "\<lambda>s act r. Some (authorize policies s act r)"
  "some_policy Forbid policies" "some_policy Permit policies" for policies
  by unfold_locales (simp add: authorize_effect)

lemma load_policies_iff:
  "load_policies i ds = Inr ps \<longleftrightarrow> length ps = length ds \<and> (\<forall>k < length ds. parse_policy (ds ! k) (i + k) = Inr (ps ! k))"
proof (induction i ds arbitrary: ps rule: load_policies.induct)
  case (1 i)
  then show ?case by auto
next
  case (2 i d ds)
  show ?case
  proof (cases "parse_policy d i")
    case (Inl e)
    then show ?thesis by force
  next
    case (Inr p)
    show ?thesis
    proof (cases ps)
      case Nil
      then show ?thesis using Inr by (auto split: sum.split)
    next
      case (Cons q qs)
      have "load_policies i (d # ds) = Inr ps \<longleftrightarrow> q = p \<and> load_policies (Suc i) ds = Inr qs"
        using Inr Cons by (auto split: sum.split)
      also have "\<dots> \<longleftrightarrow> q = p \<and> length qs = length ds \<and> (\<forall>k < length ds. parse_policy (ds ! k) (Suc i + k) = Inr (qs ! k))"
        using 2 [OF Inr] by blast
      also have "\<dots> \<longleftrightarrow> length ps = length (d # ds) \<and> (\<forall>k < length (d # ds). parse_policy ((d # ds) ! k) (i + k) = Inr (ps ! k))"
        using Inr Cons by (auto simp: All_less_Suc2)
      finally show ?thesis .
    qed
  qed
qed

lemma parse_effect_valid: "parse_effect e \<noteq> None \<longleftrightarrow> e \<in> {Some ''permit'', Some ''deny''}"
  by (auto simp: parse_effect_def)

lemma load_policies_total:
  "(\<exists>ps. load_policies i ds = Inr ps) \<longleftrightarrow> (\<forall>d \<in> set ds. parse_effect (e_effect d) \<noteq> None)"
proof (induction i ds rule: load_policies.induct)
  case (2 i d ds)
  show ?case
  proof (cases "parse_effect (e_effect d)")
    case None
    then show ?thesis by (simp add: parse_policy_def)
  next
    case (Some e)
    then obtain p where p: "parse_policy d i = Inr p" by (simp add: parse_policy_def)
    show ?thesis using 2 [OF p] p Some by (auto split: sum.split)
  qed
qed simp

section \<open>Properties\<close>

text \<open>The decision point permits exactly when no deny policy matches and a permit policy matches or the
  subject owns the resource or shares its tenant; the order of the policies never matters.\<close>

lemma authorize_spec:
  "v_effect (authorize policies s act r) = Permit \<longleftrightarrow>
     \<not> (\<exists>p \<in> set policies. y_effect p = Forbid \<and> policy_matches p s act r)
     \<and> ((\<exists>p \<in> set policies. y_effect p = Permit \<and> policy_matches p s act r)
        \<or> o_owner r = Some (s_user s) \<or> o_tenant r = Some (s_tenant s))"
  unfolding authorize_effect by (simp add: some_policy_def list_ex_iff owns_def own_tenant_def)

text \<open>C24: With authorization on, a request for the data of a user passes only for that user or under a
  permit policy, and never against a deny policy: no caller reaches another user's sessions by
  editing the path.\<close>

lemma rest_gate_isolates_users:
  assumes "authz_enabled h" "user_path path = Some (app, user)"
    and "act = (if writes_method m then ''write_user_data'' else ''read_user_data'')"
    and "r = \<lparr>o_type = ''user_data'', o_id = app @ ''/'' @ user, o_owner = Some user, o_tenant = None\<rparr>"
  shows "(rest_gate h (\<lambda>s act r. Some (authorize policies s act r)) path m (Some s) = Some PassThrough \<longleftrightarrow>
      \<not> (\<exists>p \<in> set policies. y_effect p = Forbid \<and> policy_matches p s act r)
      \<and> ((\<exists>p \<in> set policies. y_effect p = Permit \<and> policy_matches p s act r) \<or> user = s_user s))
    \<and> rest_gate h (\<lambda>s act r. Some (authorize policies s act r)) path m None = Some Unauthenticated"
  using abac.rest_gate_passes [OF assms, of policies s] assms(1,2)
  by (simp add: some_policy_def list_ex_iff rest_gate_def)

definition alice :: subject where
  "alice = \<lparr>s_user = ''alice'', s_tenant = ''acme'', s_roles = [], s_scopes = []\<rparr>"

definition authz_host :: host where
  "authz_host = plain_host\<lparr>environ := [''ADK_CC_AUTHZ'' \<mapsto> ''1'', ''ADK_CC_PERMISSIONS_YAML'' \<mapsto> ''p.yaml'']\<rparr>"

lemma rest_gate_isolates_users_witness:
  "rest_gate authz_host (\<lambda>s act r. Some (authorize [] s act r)) ''/apps/x/users/bob/sessions'' ''GET'' (Some alice)
     \<noteq> Some PassThrough"
proof -
  have "authz_enabled authz_host" "user_path ''/apps/x/users/bob/sessions'' = Some (''x'', ''bob'')" by code_simp+
  from rest_gate_isolates_users [OF this refl refl, where policies = "[]" and m = "''GET''" and s = alice]
  show ?thesis by (simp add: alice_def)
qed

text \<open>A tool call passes the authorization gate exactly when no deny policy matches it: the resource of
  a tool call is owned by its subject, so the closed-world default is never reached.\<close>

lemma tool_gate_only_denies_by_policy:
  "tool_gate True (\<lambda>s act r. Some (authorize policies s act r)) s tool as = None \<longleftrightarrow>
     \<not> (\<exists>p \<in> set policies. y_effect p = Forbid \<and> policy_matches p s tool (resource_from_tool tool as s))"
  using abac.tool_gate_passes [of policies s tool as] by (simp add: some_policy_def list_ex_iff)

text \<open>A policy file loads as a whole or not at all: the policies are the entries in order, each parsed
  under its own index, and one entry with an unknown effect rejects the file.\<close>

lemma policy_file_loads_whole:
  "(\<forall>ps. load_policies 0 ds = Inr ps \<longleftrightarrow>
      length ps = length ds \<and> (\<forall>k < length ds. parse_policy (ds ! k) k = Inr (ps ! k)))
   \<and> ((\<exists>ps. load_policies 0 ds = Inr ps) \<longleftrightarrow> (\<forall>d \<in> set ds. e_effect d \<in> {Some ''permit'', Some ''deny''}))"
proof -
  have "load_policies 0 ds = Inr ps \<longleftrightarrow>
      length ps = length ds \<and> (\<forall>k < length ds. parse_policy (ds ! k) k = Inr (ps ! k))" for ps
    using load_policies_iff [of 0 ds ps] by simp
  then show ?thesis using load_policies_total [of 0 ds] unfolding parse_effect_valid by blast
qed

definition deny_bash :: policy_entry where
  "deny_bash = \<lparr>e_effect = Some ''deny'', e_roles = YNull, e_scopes = YNull, e_subject_tenant = None,
     e_action = Some ''run_bash'', e_resource_type = None, e_resource = None, e_owner = None,
     e_same_tenant = None, e_name = None\<rparr>"

lemma policy_file_loads_whole_witness:
  "\<not> (\<exists>ps. load_policies 0 [deny_bash, deny_bash\<lparr>e_effect := Some ''forbid''\<rparr>] = Inr ps)"
proof -
  have "\<not> (\<forall>d \<in> set [deny_bash, deny_bash\<lparr>e_effect := Some ''forbid''\<rparr>]. e_effect d \<in> {Some ''permit'', Some ''deny''})"
    by (simp add: deny_bash_def)
  then show ?thesis using policy_file_loads_whole [THEN conjunct2] by blast
qed

text \<open>
  A file that does not load leaves the decision point without policies: its deny policies are lost,
  and the ownership baseline then lets every tool call through.
\<close>

lemma broken_policy_file_opens_the_gate:
  "tool_gate True (\<lambda>s act r. Some (authorize (default_policies authz_host (Some [deny_bash])) s act r)) alice
      ''run_bash'' [''command'' \<mapsto> ''ls''] \<noteq> None
   \<and> tool_gate True (\<lambda>s act r. Some (authorize (default_policies authz_host
        (Some [deny_bash, deny_bash\<lparr>e_effect := Some ''forbid''\<rparr>])) s act r)) alice
      ''run_bash'' [''command'' \<mapsto> ''ls''] = None"
  by code_simp

end
