(* ===== verification/Tasks.thy ===== *)
theory Tasks
  imports Workspace
begin

text \<open>
  \<open>tasks/model.py\<close>, \<open>tasks/storage.py\<close>, \<open>tasks/runner.py\<close> and the tools of \<open>tools/task\<close>: the progress
  checklist of a session. The abstract class \<open>TaskStorage\<close> is the locale \<open>task_store\<close>: both storages
  refine a finite map from tenant and id to tasks, and the runner and the tools are proved against it.

  A file holds the task whose JSON was written to it, or text that does not validate as a task
  (pydantic's dump and validation are inverse on tasks). A path is the list of its components; the
  operating system resolves parent references lexically, there are no symbolic links. The order of
  the file list is the order in which directories are listed. The write lock and the temporary file
  of the atomic write are outside the model. Ids and timestamps are supplied by the caller.
\<close>

section \<open>Tasks\<close>

datatype task_status = Pending | InProgress | Completed

record task =
  k_id :: string
  k_tenant :: string
  k_session :: string
  k_title :: string
  k_description :: string
  k_status :: task_status
  k_blocks :: "string list"
  k_blocked_by :: "string list"
  k_created :: nat
  k_updated :: nat

definition status_of_value :: "string \<Rightarrow> task_status option" where
  "status_of_value s =
     map_of [(''pending'', Pending), (''in_progress'', InProgress), (''completed'', Completed)] s"

datatype storage_error = TaskNotFound | InvalidJson

record 's storage_ops =
  op_create :: "task \<Rightarrow> string option \<Rightarrow> 's \<Rightarrow> 's"
  op_get :: "string \<Rightarrow> string \<Rightarrow> string option \<Rightarrow> 's \<Rightarrow> storage_error + task"
  op_update :: "task \<Rightarrow> string option \<Rightarrow> 's \<Rightarrow> storage_error + 's"
  op_list :: "string \<Rightarrow> string option \<Rightarrow> task_status option \<Rightarrow> string option \<Rightarrow> 's \<Rightarrow> task list"

section \<open>The in-memory storage\<close>

type_synonym memory = "((string \<times> string) \<times> task) list"

definition task_key :: "task \<Rightarrow> string \<times> string" where
  "task_key t = (k_tenant t, k_id t)"

definition mem_create :: "task \<Rightarrow> string option \<Rightarrow> memory \<Rightarrow> memory" where
  "mem_create t ws m = dict_put (task_key t) t m"

definition mem_get :: "string \<Rightarrow> string \<Rightarrow> string option \<Rightarrow> memory \<Rightarrow> storage_error + task" where
  "mem_get task_id tenant ws m =
     (case map_of m (tenant, task_id) of None \<Rightarrow> Inl TaskNotFound | Some t \<Rightarrow> Inr t)"

definition mem_update :: "task \<Rightarrow> string option \<Rightarrow> memory \<Rightarrow> storage_error + memory" where
  "mem_update t ws m =
     (if map_of m (task_key t) = None then Inl TaskNotFound else Inr (dict_put (task_key t) t m))"

definition mem_list ::
  "string \<Rightarrow> string option \<Rightarrow> task_status option \<Rightarrow> string option \<Rightarrow> memory \<Rightarrow> task list" where
  "mem_list tenant session status ws m =
     sort_key k_created
       (map snd (filter (\<lambda>((tid, i), t). tid = tenant
          \<and> (session = None \<or> session = Some (k_session t))
          \<and> (status = None \<or> status = Some (k_status t))) m))"

definition memory_ops :: "memory storage_ops" where
  "memory_ops = \<lparr>op_create = mem_create, op_get = mem_get, op_update = mem_update, op_list = mem_list\<rparr>"

section \<open>The file storage\<close>

type_synonym path = "string list"

datatype file_content = TaskJson task | NotTask

type_synonym files = "(path \<times> file_content) list"

text \<open>\<open>Path(a) / b\<close> for an absolute \<open>a\<close>, and what the operating system makes of a path.\<close>

definition pdiv :: "path \<Rightarrow> string \<Rightarrow> path" where
  "pdiv p b = (if is_abs b then path_parts b else p @ path_parts b)"

definition os_resolve :: "path \<Rightarrow> path" where
  "os_resolve p = norm_comps 1 [] p"

record json_storage =
  j_root :: path
  j_override :: bool

definition default_root :: "host \<Rightarrow> path" where
  "default_root h =
     (let raw = env_str h ''ADK_CC_TASKS_DIR''
      in if raw \<noteq> [] then path_parts (os_realpath h (os_expanduser h raw))
         else pdiv (path_parts (data_dir h)) ''tasks'')"

definition new_json_storage :: "host \<Rightarrow> path option \<Rightarrow> json_storage" where
  "new_json_storage h root =
     \<lparr>j_root = (case root of None \<Rightarrow> default_root h | Some r \<Rightarrow> r),
      j_override = (env_str h ''ADK_CC_TASKS_DIR'' \<noteq> [])\<rparr>"

definition tenant_dir :: "json_storage \<Rightarrow> string \<Rightarrow> string option \<Rightarrow> path" where
  "tenant_dir js tenant ws =
     (case given ws of
        Some w \<Rightarrow> if \<not> j_override js then pdiv (pdiv (path_parts w) ''.adk-cc'') ''tasks'' else pdiv (j_root js) tenant
      | None \<Rightarrow> pdiv (j_root js) tenant)"

definition list_dir :: "json_storage \<Rightarrow> string \<Rightarrow> string \<Rightarrow> string option \<Rightarrow> path" where
  "list_dir js tenant session ws = pdiv (tenant_dir js tenant ws) session"

definition task_path :: "json_storage \<Rightarrow> task \<Rightarrow> string option \<Rightarrow> path" where
  "task_path js t ws = pdiv (list_dir js (k_tenant t) (k_session t) ws) (k_id t @ ''.json'')"

definition read_path :: "files \<Rightarrow> path \<Rightarrow> file_content option" where
  "read_path fs p = map_of fs (os_resolve p)"

definition below :: "path \<Rightarrow> nat \<Rightarrow> path \<Rightarrow> bool" where
  "below d n q \<longleftrightarrow> take (length d) q = d \<and> length d + n \<le> length q"

definition is_dir :: "files \<Rightarrow> path \<Rightarrow> bool" where
  "is_dir fs p \<longleftrightarrow> list_ex (\<lambda>(q, c). below (os_resolve p) 1 q) fs"

definition subdirs :: "files \<Rightarrow> path \<Rightarrow> path list" where
  "subdirs fs p =
     (let d = os_resolve p
      in map (\<lambda>n. p @ [n])
           (append_new [] (map (\<lambda>(q, c). q ! length d) (filter (\<lambda>(q, c). below d 2 q) fs))))"

definition json_create :: "json_storage \<Rightarrow> task \<Rightarrow> string option \<Rightarrow> files \<Rightarrow> files" where
  "json_create js t ws fs = dict_put (os_resolve (task_path js t ws)) (TaskJson t) fs"

fun find_in :: "files \<Rightarrow> string \<Rightarrow> path list \<Rightarrow> storage_error + task" where
  "find_in fs task_id [] = Inl TaskNotFound"
| "find_in fs task_id (d # ds) =
     (case read_path fs (pdiv d (task_id @ ''.json'')) of
        Some (TaskJson t) \<Rightarrow> Inr t
      | Some NotTask \<Rightarrow> Inl InvalidJson
      | None \<Rightarrow> find_in fs task_id ds)"

definition json_get ::
  "json_storage \<Rightarrow> string \<Rightarrow> string \<Rightarrow> string option \<Rightarrow> files \<Rightarrow> storage_error + task" where
  "json_get js task_id tenant ws fs =
     (let d = tenant_dir js tenant ws
      in if \<not> is_dir fs d then Inl TaskNotFound else find_in fs task_id (subdirs fs d))"

definition json_update :: "json_storage \<Rightarrow> task \<Rightarrow> string option \<Rightarrow> files \<Rightarrow> storage_error + files" where
  "json_update js t ws fs =
     (if read_path fs (task_path js t ws) = None then Inl TaskNotFound
      else Inr (dict_put (os_resolve (task_path js t ws)) (TaskJson t) fs))"

text \<open>The tasks of a directory: its \<open>*.json\<close> files that are not hidden and validate.\<close>

definition dir_tasks :: "files \<Rightarrow> path \<Rightarrow> task list" where
  "dir_tasks fs p =
     concat (map (\<lambda>(q, c).
         let d = os_resolve p; name = last q
         in if below d 1 q \<and> length q = length d + 1 \<and> endswith name ''.json'' \<and> \<not> startswith name ''.''
            then (case c of TaskJson t \<Rightarrow> [t] | NotTask \<Rightarrow> []) else []) fs)"

definition json_list ::
  "json_storage \<Rightarrow> string \<Rightarrow> string option \<Rightarrow> task_status option \<Rightarrow> string option \<Rightarrow> files \<Rightarrow> task list" where
  "json_list js tenant session status ws fs =
     (let d = tenant_dir js tenant ws
      in if \<not> is_dir fs d then []
         else
           (let dirs = (case session of
                          Some s \<Rightarrow> if is_dir fs (pdiv d s) then [pdiv d s] else []
                        | None \<Rightarrow> subdirs fs d)
            in sort_key k_created
                 (filter (\<lambda>t. status = None \<or> status = Some (k_status t)) (concat (map (dir_tasks fs) dirs)))))"

definition json_ops :: "json_storage \<Rightarrow> files storage_ops" where
  "json_ops js = \<lparr>op_create = json_create js, op_get = json_get js, op_update = json_update js, op_list = json_list js\<rparr>"

section \<open>The runner and the tools\<close>

definition enqueue ::
  "'s storage_ops \<Rightarrow> string \<Rightarrow> nat \<Rightarrow> string \<Rightarrow> string \<Rightarrow> string \<Rightarrow> string \<Rightarrow> string list \<Rightarrow> string list
    \<Rightarrow> string option \<Rightarrow> 's \<Rightarrow> task \<times> 's" where
  "enqueue ops uuid now title description tenant session blocks blocked_by ws s =
     (let t = \<lparr>k_id = uuid, k_tenant = tenant, k_session = session, k_title = title, k_description = description,
               k_status = Pending, k_blocks = blocks, k_blocked_by = blocked_by, k_created = now, k_updated = now\<rparr>
      in (t, op_create ops t ws s))"

record task_ctx =
  x_tenant :: string
  x_session :: string
  x_path :: string

datatype task_result =
    Created string task_status
  | TaskOk task
  | TaskList "task list"
  | NotFoundResult "(string \<times> task_status \<times> string) list"
  | UnknownStatus string
  | StorageFailed storage_error

definition task_create_tool ::
  "'s storage_ops \<Rightarrow> task_ctx \<Rightarrow> string \<Rightarrow> nat \<Rightarrow> string \<Rightarrow> string \<Rightarrow> string list \<Rightarrow> 's \<Rightarrow> task_result \<times> 's" where
  "task_create_tool ops x uuid now title description blocked_by s =
     (let (t, s') = enqueue ops uuid now title description (x_tenant x) (x_session x) [] blocked_by (Some (x_path x)) s
      in (Created (k_id t) (k_status t), s'))"

definition task_not_found :: "'s storage_ops \<Rightarrow> task_ctx \<Rightarrow> 's \<Rightarrow> task_result" where
  "task_not_found ops x s =
     NotFoundResult (map (\<lambda>t. (k_id t, k_status t, k_title t))
       (op_list ops (x_tenant x) (Some (x_session x)) None (Some (x_path x)) s))"

definition task_get_tool :: "'s storage_ops \<Rightarrow> task_ctx \<Rightarrow> string \<Rightarrow> 's \<Rightarrow> task_result" where
  "task_get_tool ops x task_id s =
     (case op_get ops task_id (x_tenant x) (Some (x_path x)) s of
        Inr t \<Rightarrow> TaskOk t
      | Inl TaskNotFound \<Rightarrow> task_not_found ops x s
      | Inl e \<Rightarrow> StorageFailed e)"

definition task_list_tool :: "'s storage_ops \<Rightarrow> task_ctx \<Rightarrow> string option \<Rightarrow> 's \<Rightarrow> task_result" where
  "task_list_tool ops x status s =
     (case status of
        None \<Rightarrow> TaskList (op_list ops (x_tenant x) (Some (x_session x)) None (Some (x_path x)) s)
      | Some v \<Rightarrow>
          (case status_of_value v of
             None \<Rightarrow> UnknownStatus v
           | Some st \<Rightarrow> TaskList (op_list ops (x_tenant x) (Some (x_session x)) (Some st) (Some (x_path x)) s)))"

definition apply_update :: "string option \<Rightarrow> string option \<Rightarrow> nat \<Rightarrow> task \<Rightarrow> task option" where
  "apply_update status description now t =
     (let described = (\<lambda>u. (case description of None \<Rightarrow> u | Some d \<Rightarrow> u\<lparr>k_description := d\<rparr>)\<lparr>k_updated := now\<rparr>)
      in case status of
           None \<Rightarrow> Some (described t)
         | Some v \<Rightarrow> map_option (\<lambda>st. described (t\<lparr>k_status := st\<rparr>)) (status_of_value v))"

definition task_update_tool ::
  "'s storage_ops \<Rightarrow> task_ctx \<Rightarrow> string \<Rightarrow> string option \<Rightarrow> string option \<Rightarrow> nat \<Rightarrow> 's \<Rightarrow> task_result \<times> 's" where
  "task_update_tool ops x task_id status description now s =
     (case op_get ops task_id (x_tenant x) (Some (x_path x)) s of
        Inl TaskNotFound \<Rightarrow> (task_not_found ops x s, s)
      | Inl e \<Rightarrow> (StorageFailed e, s)
      | Inr t \<Rightarrow>
          (case apply_update status description now t of
             None \<Rightarrow> (UnknownStatus (case status of None \<Rightarrow> [] | Some v \<Rightarrow> v), s)
           | Some t' \<Rightarrow>
               (case op_update ops t' (Some (x_path x)) s of
                  Inl e \<Rightarrow> (StorageFailed e, s)
                | Inr s' \<Rightarrow> (TaskOk t', s'))))"

section \<open>The contract of a task storage\<close>

text \<open>
  A storage refines a finite map from tenant and id to tasks. \<open>adm\<close> says which tasks may be created,
  and \<open>ten_ok\<close>, \<open>sess_ok\<close> and \<open>id_ok\<close> which names the storage can address.
\<close>

locale task_store =
  fixes ops :: "'s storage_ops"
    and ws :: "string option"
    and inv :: "'s \<Rightarrow> bool"
    and view :: "'s \<Rightarrow> string \<times> string \<Rightarrow> task option"
    and adm :: "task \<Rightarrow> 's \<Rightarrow> bool"
    and ten_ok :: "string \<Rightarrow> bool"
    and sess_ok :: "string \<Rightarrow> bool"
    and id_ok :: "string \<Rightarrow> bool"
  assumes create: "inv s \<Longrightarrow> adm t s \<Longrightarrow>
      inv (op_create ops t ws s) \<and> view (op_create ops t ws s) = (view s)(task_key t \<mapsto> t)"
    and adm_names: "adm t s \<Longrightarrow> ten_ok (k_tenant t) \<and> sess_ok (k_session t) \<and> id_ok (k_id t)"
    and get: "inv s \<Longrightarrow> ten_ok ten \<Longrightarrow> id_ok i \<Longrightarrow>
      op_get ops i ten ws s = (case view s (ten, i) of None \<Rightarrow> Inl TaskNotFound | Some t \<Rightarrow> Inr t)"
    and view_key: "inv s \<Longrightarrow> view s k = Some t \<Longrightarrow> task_key t = k"
    and update: "inv s \<Longrightarrow> view s (task_key t) = Some t0 \<Longrightarrow> k_session t0 = k_session t \<Longrightarrow>
      \<exists>s'. op_update ops t ws s = Inr s' \<and> inv s' \<and> view s' = (view s)(task_key t \<mapsto> t)"
    and list_tasks: "inv s \<Longrightarrow> ten_ok ten \<Longrightarrow> sess_ok sess \<Longrightarrow>
      set (op_list ops ten (Some sess) st ws s) =
        {t. view s (task_key t) = Some t \<and> k_tenant t = ten \<and> k_session t = sess
            \<and> (st = None \<or> st = Some (k_status t))}
      \<and> sorted (map k_created (op_list ops ten (Some sess) st ws s))
      \<and> distinct (op_list ops ten (Some sess) st ws s)"
begin

lemma created_is_found:
  assumes "inv s" "adm t s"
  shows "op_get ops (k_id t) (k_tenant t) ws (op_create ops t ws s) = Inr t"
  using create [OF assms] adm_names [OF assms(2)] get [of "op_create ops t ws s" "k_tenant t" "k_id t"]
  by (simp add: task_key_def)

lemma created_keeps_others:
  assumes "inv s" "adm t s" "ten_ok ten" "id_ok i" "(ten, i) \<noteq> task_key t"
  shows "op_get ops i ten ws (op_create ops t ws s) = op_get ops i ten ws s"
  using create [OF assms(1,2)] assms get [OF assms(1,3,4)] get [OF _ assms(3,4), of "op_create ops t ws s"] by simp

lemma update_tool:
  assumes "inv s" "ws = Some (x_path x)" "ten_ok (x_tenant x)" "id_ok i"
    and "view s (x_tenant x, i) = Some t" "apply_update status description now t = Some t'"
  shows "\<exists>s'. task_update_tool ops x i status description now s = (TaskOk t', s')
    \<and> inv s' \<and> view s' = (view s)((x_tenant x, i) \<mapsto> t')"
proof -
  have k: "task_key t' = task_key t" "k_session t = k_session t'"
    using assms(6) by (auto simp: apply_update_def Let_def task_key_def split: option.splits)
  moreover have "task_key t = (x_tenant x, i)" by (rule view_key [OF assms(1,5)])
  ultimately obtain s' where "op_update ops t' ws s = Inr s'" "inv s'" "view s' = (view s)((x_tenant x, i) \<mapsto> t')"
    using update [OF assms(1), of t' t] assms(5) by auto
  moreover have "op_get ops i (x_tenant x) ws s = Inr t" using get [OF assms(1,3,4)] assms(5) by simp
  ultimately show ?thesis using assms(2,6) by (simp add: task_update_tool_def)
qed

lemma missing_tool:
  assumes "inv s" "ws = Some (x_path x)" "ten_ok (x_tenant x)" "sess_ok (x_session x)" "id_ok i"
    and "view s (x_tenant x, i) = None"
  shows "\<exists>listing. task_update_tool ops x i status description now s = (NotFoundResult listing, s)
    \<and> set listing = (\<lambda>t. (k_id t, k_status t, k_title t)) `
        {t. view s (task_key t) = Some t \<and> k_tenant t = x_tenant x \<and> k_session t = x_session x}"
  using get [OF assms(1,3,5)] assms(2,6) list_tasks [OF assms(1,3,4), of None]
  by (simp add: task_update_tool_def task_not_found_def)

end

section \<open>Lists of tasks with one task per key\<close>

fun put_task :: "task \<Rightarrow> task list \<Rightarrow> task list" where
  "put_task t [] = [t]"
| "put_task t (u # us) = (if task_key u = task_key t then t # us else u # put_task t us)"

definition index :: "task list \<Rightarrow> string \<times> string \<Rightarrow> task option" where
  "index ts = map_of (map (\<lambda>t. (task_key t, t)) ts)"

lemma dict_put_map:
  "\<forall>u \<in> set ts. f u = f t \<longleftrightarrow> task_key u = task_key t \<Longrightarrow>
     dict_put (f t) (g t) (map (\<lambda>t. (f t, g t)) ts) = map (\<lambda>t. (f t, g t)) (put_task t ts)"
  by (induction ts) auto

lemma index_put: "index (put_task t ts) = (index ts)(task_key t \<mapsto> t)"
  by (induction ts) (auto simp: index_def)

lemma set_put_task: "set (put_task t ts) \<subseteq> insert t (set ts)"
  by (induction ts) auto

lemma keys_put_task: "set (map task_key (put_task t ts)) = insert (task_key t) (set (map task_key ts))"
  by (induction ts) auto

lemma distinct_put_task: "distinct (map task_key ts) \<Longrightarrow> distinct (map task_key (put_task t ts))"
proof (induction ts)
  case (Cons u us)
  then show ?case using keys_put_task [of t us] by auto
qed simp

lemma index_iff: "distinct (map task_key ts) \<Longrightarrow> index ts k = Some t \<longleftrightarrow> t \<in> set ts \<and> task_key t = k"
  by (auto simp: index_def comp_def)

lemma index_None: "index ts k = None \<longleftrightarrow> k \<notin> task_key ` set ts"
  by (simp add: index_def map_of_eq_None_iff image_image)

section \<open>The in-memory storage meets the contract\<close>

definition mem_inv :: "memory \<Rightarrow> bool" where
  "mem_inv m \<longleftrightarrow> (\<exists>ts. m = map (\<lambda>t. (task_key t, t)) ts \<and> distinct (map task_key ts))"

lemma mem_put:
  "dict_put (task_key t) t (map (\<lambda>t. (task_key t, t)) ts) = map (\<lambda>t. (task_key t, t)) (put_task t ts)"
  using dict_put_map [of ts task_key t "\<lambda>t. t"] by simp

lemma distinct_of_keys: "distinct (map task_key ts) \<Longrightarrow> distinct ts"
  by (simp add: distinct_map)

interpretation memory: task_store memory_ops ws mem_inv map_of "\<lambda>t m. True" "\<lambda>n. True" "\<lambda>n. True" "\<lambda>n. True" for ws
proof (unfold_locales, goal_cases)
  case (1 s t)
  then obtain ts where "s = map (\<lambda>t. (task_key t, t)) ts" "distinct (map task_key ts)" by (auto simp: mem_inv_def)
  then show ?case
    using index_put [of t ts] distinct_put_task [of ts t]
    by (auto simp: memory_ops_def mem_create_def mem_put mem_inv_def index_def)
next
  case (4 s k t)
  then obtain ts where "s = map (\<lambda>t. (task_key t, t)) ts" "distinct (map task_key ts)" by (auto simp: mem_inv_def)
  then show ?case using 4(2) index_iff [of ts k t] by (simp add: index_def)
next
  case (5 s t t0)
  then obtain ts where "s = map (\<lambda>t. (task_key t, t)) ts" "distinct (map task_key ts)" by (auto simp: mem_inv_def)
  then show ?case
    using 5(2) index_put [of t ts] distinct_put_task [of ts t]
    by (auto simp: memory_ops_def mem_update_def mem_put mem_inv_def index_def)
next
  case (6 s ten sess st)
  then obtain ts where ts: "s = map (\<lambda>t. (task_key t, t)) ts" "distinct (map task_key ts)" by (auto simp: mem_inv_def)
  let ?P = "\<lambda>t. k_tenant t = ten \<and> k_session t = sess \<and> (st = None \<or> st = Some (k_status t))"
  have "op_list memory_ops ten (Some sess) st ws s = sort_key k_created (filter ?P ts)"
    by (simp add: memory_ops_def mem_list_def ts(1) filter_map comp_def task_key_def)
      (metis (mono_tags, lifting))
  then show ?case
    using index_iff [OF ts(2)] distinct_of_keys [OF ts(2)] by (auto simp: ts(1) index_def [symmetric])
qed (simp_all add: memory_ops_def mem_get_def)

section \<open>The file storage meets the contract\<close>

definition plain_name :: "string \<Rightarrow> bool" where
  "plain_name n \<longleftrightarrow> n \<noteq> [] \<and> n \<noteq> ''.'' \<and> n \<noteq> ''..'' \<and> CHR ''/'' \<notin> set n"

definition file_name :: "string \<Rightarrow> bool" where
  "file_name i \<longleftrightarrow> i \<noteq> [] \<and> hd i \<noteq> CHR ''.'' \<and> CHR ''/'' \<notin> set i"

definition clean :: "path \<Rightarrow> bool" where
  "clean p \<longleftrightarrow> (\<forall>c \<in> set p. plain_name c)"

lemma path_parts_plain: "plain_name n \<Longrightarrow> path_parts n = [n]"
  by (simp add: path_parts_def plain_name_def split_char_no)

lemma pdiv_plain: "plain_name n \<Longrightarrow> pdiv p n = p @ [n]"
  by (cases n) (auto simp: pdiv_def path_parts_plain is_abs_def plain_name_def)

lemma plain_json: "file_name i \<Longrightarrow> plain_name (i @ ''.json'')"
  by (cases i) (auto simp: file_name_def plain_name_def)

lemma norm_comps_clean: "clean p \<Longrightarrow> norm_comps k acc p = rev acc @ p"
  by (induction p arbitrary: acc) (auto simp: clean_def plain_name_def)

lemma os_resolve_clean: "clean p \<Longrightarrow> os_resolve p = p"
  by (simp add: os_resolve_def norm_comps_clean)

text \<open>The tenants of a storage have distinct directories of the same depth, with plain components.\<close>

definition layout_ok :: "json_storage \<Rightarrow> string option \<Rightarrow> (string \<Rightarrow> bool) \<Rightarrow> bool" where
  "layout_ok js ws ten_ok \<longleftrightarrow>
     (\<forall>a. ten_ok a \<longrightarrow> clean (tenant_dir js a ws))
     \<and> (\<forall>a b. ten_ok a \<longrightarrow> ten_ok b \<longrightarrow> length (tenant_dir js a ws) = length (tenant_dir js b ws))
     \<and> (\<forall>a b. ten_ok a \<longrightarrow> ten_ok b \<longrightarrow> tenant_dir js a ws = tenant_dir js b ws \<longrightarrow> a = b)"

definition names_ok :: "(string \<Rightarrow> bool) \<Rightarrow> task \<Rightarrow> bool" where
  "names_ok ten_ok t \<longleftrightarrow> ten_ok (k_tenant t) \<and> plain_name (k_session t) \<and> file_name (k_id t)"

definition location :: "json_storage \<Rightarrow> string option \<Rightarrow> task \<Rightarrow> path" where
  "location js ws t = tenant_dir js (k_tenant t) ws @ [k_session t, k_id t @ ''.json'']"

definition tree :: "json_storage \<Rightarrow> string option \<Rightarrow> task list \<Rightarrow> files" where
  "tree js ws ts = map (\<lambda>t. (location js ws t, TaskJson t)) ts"

definition json_inv :: "json_storage \<Rightarrow> string option \<Rightarrow> (string \<Rightarrow> bool) \<Rightarrow> files \<Rightarrow> bool" where
  "json_inv js ws ten_ok fs \<longleftrightarrow>
     layout_ok js ws ten_ok
     \<and> (\<exists>ts. fs = tree js ws ts \<and> distinct (map task_key ts) \<and> (\<forall>t \<in> set ts. names_ok ten_ok t))"

definition stored :: "files \<Rightarrow> task list" where
  "stored fs = concat (map (\<lambda>(q, c). case c of TaskJson t \<Rightarrow> [t] | NotTask \<Rightarrow> []) fs)"

definition json_view :: "files \<Rightarrow> string \<times> string \<Rightarrow> task option" where
  "json_view fs = index (stored fs)"

definition json_adm :: "(string \<Rightarrow> bool) \<Rightarrow> task \<Rightarrow> files \<Rightarrow> bool" where
  "json_adm ten_ok t fs \<longleftrightarrow>
     names_ok ten_ok t \<and> (\<forall>u \<in> set (stored fs). task_key u = task_key t \<longrightarrow> k_session u = k_session t)"

lemma stored_tree [simp]: "stored (tree js ws ts) = ts"
  by (induction ts) (simp_all add: stored_def tree_def)

lemma clean_append [simp]: "clean (p @ q) \<longleftrightarrow> clean p \<and> clean q"
  by (auto simp: clean_def)

lemma clean_single [simp]: "clean [n] = plain_name n"
  by (simp add: clean_def)

lemma layout_clean: "layout_ok js ws ten_ok \<Longrightarrow> ten_ok a \<Longrightarrow> clean (tenant_dir js a ws)"
  by (simp add: layout_ok_def)

lemma layout_length:
  "layout_ok js ws ten_ok \<Longrightarrow> ten_ok a \<Longrightarrow> ten_ok b \<Longrightarrow> length (tenant_dir js a ws) = length (tenant_dir js b ws)"
  unfolding layout_ok_def by blast

lemma layout_inj:
  "layout_ok js ws ten_ok \<Longrightarrow> ten_ok a \<Longrightarrow> ten_ok b \<Longrightarrow> tenant_dir js a ws = tenant_dir js b ws \<longleftrightarrow> a = b"
  unfolding layout_ok_def by blast

lemma location_inj:
  assumes "layout_ok js ws ten_ok" "ten_ok (k_tenant t)" "ten_ok (k_tenant u)"
  shows "location js ws u = location js ws t \<longleftrightarrow> task_key u = task_key t \<and> k_session u = k_session t"
proof -
  have "location js ws u = location js ws t \<longleftrightarrow>
      tenant_dir js (k_tenant u) ws = tenant_dir js (k_tenant t) ws \<and> k_session u = k_session t \<and> k_id u = k_id t"
    by (simp add: location_def)
  then show ?thesis unfolding layout_inj [OF assms(1,3,2)] by (simp add: task_key_def conj_ac)
qed

lemma location_clean: "layout_ok js ws ten_ok \<Longrightarrow> names_ok ten_ok t \<Longrightarrow> clean (location js ws t)"
  using layout_clean [of js ws ten_ok "k_tenant t"] plain_json [of "k_id t"]
  by (simp add: location_def names_ok_def clean_def)

lemma task_path_location: "names_ok ten_ok t \<Longrightarrow> task_path js t ws = location js ws t"
  by (simp add: task_path_def list_dir_def location_def names_ok_def pdiv_plain plain_json)

lemma below_tenant:
  assumes "layout_ok js ws ten_ok" "ten_ok a" "ten_ok (k_tenant t)" "n \<le> 2"
  shows "below (tenant_dir js a ws) n (location js ws t) \<longleftrightarrow> k_tenant t = a"
  using layout_length [OF assms(1,2,3)] layout_inj [OF assms(1,2,3)] assms(4)
  by (auto simp: below_def location_def)

lemma below_session:
  assumes "layout_ok js ws ten_ok" "ten_ok a" "ten_ok (k_tenant t)"
  shows "below (tenant_dir js a ws @ [sess]) 1 (location js ws t) \<longleftrightarrow> k_tenant t = a \<and> k_session t = sess"
  using layout_length [OF assms] layout_inj [OF assms] by (auto simp: below_def location_def)

lemma map_of_find:
  "(\<And>t. t \<in> set ts \<Longrightarrow> f t = p \<longleftrightarrow> P t) \<Longrightarrow>
     map_of (map (\<lambda>t. (f t, g t)) ts) p = map_option g (List.find P ts)"
proof (induction ts)
  case (Cons t ts)
  have "map_of (map (\<lambda>t. (f t, g t)) ts) p = map_option g (List.find P ts)" by (rule Cons.IH) (simp add: Cons.prems)
  then show ?case using Cons.prems [of t] by auto
qed simp

lemma location_nth:
  "length (tenant_dir js (k_tenant t) ws) = n \<Longrightarrow> location js ws t ! n = k_session t"
  by (auto simp: location_def)

lemma read_location:
  assumes "layout_ok js ws ten_ok" "\<forall>t \<in> set ts. names_ok ten_ok t" "ten_ok a" "plain_name sess" "file_name i"
  shows "read_path (tree js ws ts) (tenant_dir js a ws @ [sess, i @ ''.json'']) =
    map_option TaskJson (List.find (\<lambda>t. task_key t = (a, i) \<and> k_session t = sess) ts)"
proof -
  have "os_resolve (tenant_dir js a ws @ [sess, i @ ''.json'']) = tenant_dir js a ws @ [sess, i @ ''.json'']"
    using layout_clean [OF assms(1,3)] plain_json [OF assms(5)] assms(4) by (intro os_resolve_clean) (simp add: clean_def)
  moreover have "location js ws t = tenant_dir js a ws @ [sess, i @ ''.json''] \<longleftrightarrow> task_key t = (a, i) \<and> k_session t = sess"
    if "t \<in> set ts" for t
    using that assms(2,3) layout_inj [OF assms(1), of "k_tenant t" a]
    by (simp add: location_def task_key_def names_ok_def) blast
  then have "map_of (map (\<lambda>t. (location js ws t, TaskJson t)) ts) (tenant_dir js a ws @ [sess, i @ ''.json'']) =
      map_option TaskJson (List.find (\<lambda>t. task_key t = (a, i) \<and> k_session t = sess) ts)"
    by (rule map_of_find)
  ultimately show ?thesis by (simp add: read_path_def tree_def)
qed

lemma is_dir_tenant:
  assumes "layout_ok js ws ten_ok" "\<forall>t \<in> set ts. names_ok ten_ok t" "ten_ok a"
  shows "is_dir (tree js ws ts) (tenant_dir js a ws) \<longleftrightarrow> (\<exists>t \<in> set ts. k_tenant t = a)"
  using below_tenant [OF assms(1,3), of _ 1] assms(2)
  by (auto simp: is_dir_def tree_def list_ex_iff os_resolve_clean [OF layout_clean [OF assms(1,3)]] names_ok_def)

lemma is_dir_session:
  assumes "layout_ok js ws ten_ok" "\<forall>t \<in> set ts. names_ok ten_ok t" "ten_ok a" "plain_name sess"
  shows "is_dir (tree js ws ts) (tenant_dir js a ws @ [sess]) \<longleftrightarrow>
    (\<exists>t \<in> set ts. k_tenant t = a \<and> k_session t = sess)"
proof -
  have "os_resolve (tenant_dir js a ws @ [sess]) = tenant_dir js a ws @ [sess]"
    using layout_clean [OF assms(1,3)] assms(4) by (intro os_resolve_clean) (simp add: clean_def)
  then show ?thesis
    using below_session [OF assms(1,3)] assms(2) by (auto simp: is_dir_def tree_def list_ex_iff names_ok_def)
qed

lemma subdirs_tenant:
  assumes "layout_ok js ws ten_ok" "\<forall>t \<in> set ts. names_ok ten_ok t" "ten_ok a"
  shows "subdirs (tree js ws ts) (tenant_dir js a ws) =
    map (\<lambda>n. tenant_dir js a ws @ [n]) (append_new [] (map k_session (filter (\<lambda>t. k_tenant t = a) ts)))"
proof -
  let ?d = "tenant_dir js a ws"
  have "map (\<lambda>(q, c). q ! length ?d) (filter (\<lambda>(q, c). below ?d 2 q) (tree js ws ts)) =
      map k_session (filter (\<lambda>t. k_tenant t = a) ts)"
    using assms(2)
  proof (induction ts)
    case (Cons t ts)
    then have t: "ten_ok (k_tenant t)" by (simp add: names_ok_def)
    show ?case
      using Cons below_tenant [OF assms(1,3) t, of 2] location_nth [OF layout_length [OF assms(1) t assms(3)]]
      by (simp add: tree_def)
  qed (simp add: tree_def)
  then show ?thesis by (simp add: subdirs_def os_resolve_clean [OF layout_clean [OF assms(1,3)]])
qed

lemma find_in_sessions:
  assumes "layout_ok js ws ten_ok" "\<forall>t \<in> set ts. names_ok ten_ok t" "ten_ok a" "file_name i"
    and "\<forall>n \<in> set ns. plain_name n"
  shows "find_in (tree js ws ts) i (map (\<lambda>n. tenant_dir js a ws @ [n]) ns) =
    (case List.find (\<lambda>n. List.find (\<lambda>t. task_key t = (a, i) \<and> k_session t = n) ts \<noteq> None) ns of
       None \<Rightarrow> Inl TaskNotFound
     | Some n \<Rightarrow> Inr (the (List.find (\<lambda>t. task_key t = (a, i) \<and> k_session t = n) ts)))"
  using assms(5)
proof (induction ns)
  case (Cons n ns)
  have "pdiv (tenant_dir js a ws @ [n]) (i @ ''.json'') = tenant_dir js a ws @ [n, i @ ''.json'']"
    by (simp add: pdiv_plain [OF plain_json [OF assms(4)]])
  then show ?case
    using Cons read_location [OF assms(1,2,3) _ assms(4), of n]
    by (auto split: option.splits)
qed simp

lemma find_index: "distinct (map task_key ts) \<Longrightarrow> index ts k = Some t \<Longrightarrow>
    List.find (\<lambda>u. task_key u = k \<and> k_session u = n) ts = (if n = k_session t then Some t else None)"
proof (induction ts)
  case (Cons u us)
  show ?case
  proof (cases "task_key u = k")
    case True
    then have "List.find (\<lambda>u. task_key u = k \<and> k_session u = n) us = None"
      using Cons.prems(1) by (auto simp: find_None_iff image_iff)
    then show ?thesis using True Cons.prems(2) by (auto simp: index_def)
  next
    case False
    then show ?thesis using Cons by (simp add: index_def)
  qed
qed (simp add: index_def)

lemma find_index_None: "index ts k = None \<Longrightarrow> List.find (\<lambda>u. task_key u = k \<and> k_session u = n) ts = None"
  by (auto simp: find_None_iff index_None)

lemma json_get_tree:
  assumes "layout_ok js ws ten_ok" "\<forall>t \<in> set ts. names_ok ten_ok t" "ten_ok a" "file_name i" "distinct (map task_key ts)"
  shows "json_get js i a ws (tree js ws ts) =
    (case index ts (a, i) of None \<Rightarrow> Inl TaskNotFound | Some t \<Rightarrow> Inr t)"
proof -
  let ?ns = "append_new [] (map k_session (filter (\<lambda>t. k_tenant t = a) ts))"
  have ns: "set ?ns = k_session ` {t \<in> set ts. k_tenant t = a}" by (auto simp: set_append_new)
  then have plain: "\<forall>n \<in> set ?ns. plain_name n" using assms(2) by (auto simp: names_ok_def)
  note find = find_in_sessions [OF assms(1-4) plain]
  show ?thesis
  proof (cases "index ts (a, i)")
    case None
    then have "List.find (\<lambda>n. List.find (\<lambda>t. task_key t = (a, i) \<and> k_session t = n) ts \<noteq> None) ?ns = None"
      by (simp add: find_index_None find_None_iff)
    then show ?thesis
      using None find by (simp add: json_get_def Let_def subdirs_tenant [OF assms(1-3)])
  next
    case (Some t)
    then have t: "t \<in> set ts" "k_tenant t = a" using index_iff [OF assms(5), of "(a, i)" t] by (auto simp: task_key_def)
    then have "k_session t \<in> set ?ns" using ns by blast
    then have "List.find (\<lambda>n. n = k_session t) ?ns = Some (k_session t)"
      by (metis (mono_tags, lifting) find_None_iff2 find_Some_D not_None_eq)
    then have "List.find (\<lambda>n. List.find (\<lambda>t. task_key t = (a, i) \<and> k_session t = n) ts \<noteq> None) ?ns = Some (k_session t)"
      using find_index [OF assms(5) Some] by (simp cong: if_cong)
    moreover have "is_dir (tree js ws ts) (tenant_dir js a ws)" using is_dir_tenant [OF assms(1-3)] t by blast
    ultimately show ?thesis
      using Some find find_index [OF assms(5) Some, of "k_session t"]
      by (simp add: json_get_def Let_def subdirs_tenant [OF assms(1-3)])
  qed
qed

lemma dir_tasks_session:
  assumes "layout_ok js ws ten_ok" "\<forall>t \<in> set ts. names_ok ten_ok t" "ten_ok a" "plain_name sess"
  shows "dir_tasks (tree js ws ts) (tenant_dir js a ws @ [sess]) =
    filter (\<lambda>t. k_tenant t = a \<and> k_session t = sess) ts"
proof -
  have d: "os_resolve (tenant_dir js a ws @ [sess]) = tenant_dir js a ws @ [sess]"
    using layout_clean [OF assms(1,3)] assms(4) by (intro os_resolve_clean) (simp add: clean_def)
  have json: "endswith (i @ ''.json'') ''.json''" "\<not> startswith (i @ ''.json'') ''.''" if "file_name i" for i
    using that by (cases i; simp add: endswith_def file_name_def)+
  show ?thesis
    using assms(2)
  proof (induction ts)
    case (Cons t ts)
    then have t: "ten_ok (k_tenant t)" "file_name (k_id t)" by (simp_all add: names_ok_def)
    have "last (location js ws t) = k_id t @ ''.json''" "length (location js ws t) = length (tenant_dir js a ws) + 2"
      using layout_length [OF assms(1) t(1) assms(3)] by (simp_all add: location_def)
    then show ?case
      using Cons json [OF t(2)] below_session [OF assms(1,3) t(1), of sess]
      by (simp add: dir_tasks_def tree_def Let_def d)
  qed (simp add: dir_tasks_def tree_def)
qed

lemma json_list_tree:
  assumes "layout_ok js ws ten_ok" "\<forall>t \<in> set ts. names_ok ten_ok t" "ten_ok a" "plain_name sess"
  shows "json_list js a (Some sess) st ws (tree js ws ts) =
    sort_key k_created (filter (\<lambda>t. k_tenant t = a \<and> k_session t = sess \<and> (st = None \<or> st = Some (k_status t))) ts)"
proof -
  let ?ok = "\<lambda>t. st = None \<or> st = Some (k_status t)"
  let ?here = "filter (\<lambda>t. k_tenant t = a \<and> k_session t = sess) ts"
  have split: "filter ?ok ?here =
      filter (\<lambda>t. k_tenant t = a \<and> k_session t = sess \<and> (st = None \<or> st = Some (k_status t))) ts"
    by (simp add: conj_ac)
  show ?thesis
  proof (cases "\<exists>t \<in> set ts. k_tenant t = a \<and> k_session t = sess")
    case True
    then show ?thesis
      using is_dir_tenant [OF assms(1-3)] is_dir_session [OF assms] dir_tasks_session [OF assms]
      by (auto simp: json_list_def Let_def pdiv_plain [OF assms(4)] split [symmetric] simp del: filter_filter)
  next
    case False
    then have "?here = []" by (auto simp: filter_empty_conv)
    moreover have "\<not> is_dir (tree js ws ts) (tenant_dir js a ws @ [sess])" using is_dir_session [OF assms] False by blast
    ultimately show ?thesis
      by (simp add: json_list_def Let_def pdiv_plain [OF assms(4)] split [symmetric] del: filter_filter)
  qed
qed

lemma same_location:
  assumes "layout_ok js ws ten_ok" "\<forall>u \<in> set ts. names_ok ten_ok u" "names_ok ten_ok t"
    and "\<forall>u \<in> set ts. task_key u = task_key t \<longrightarrow> k_session u = k_session t"
  shows "\<forall>u \<in> set ts. location js ws u = location js ws t \<longleftrightarrow> task_key u = task_key t"
proof
  fix u assume u: "u \<in> set ts"
  then have "location js ws u = location js ws t \<longleftrightarrow> task_key u = task_key t \<and> k_session u = k_session t"
    using assms(2,3) by (intro location_inj [OF assms(1)]) (simp_all add: names_ok_def)
  then show "location js ws u = location js ws t \<longleftrightarrow> task_key u = task_key t" using assms(4) u by blast
qed

lemma put_tree:
  assumes "layout_ok js ws ten_ok" "\<forall>u \<in> set ts. names_ok ten_ok u" "names_ok ten_ok t"
    and "\<forall>u \<in> set ts. task_key u = task_key t \<longrightarrow> k_session u = k_session t"
  shows "dict_put (os_resolve (task_path js t ws)) (TaskJson t) (tree js ws ts) = tree js ws (put_task t ts)"
  using dict_put_map [OF same_location [OF assms], where g = TaskJson]
  by (simp add: tree_def task_path_location [OF assms(3)] os_resolve_clean [OF location_clean [OF assms(1,3)]])

lemma json_inv_put:
  assumes "json_inv js ws ten_ok (tree js ws ts)" "names_ok ten_ok t"
  shows "json_inv js ws ten_ok (tree js ws (put_task t ts))"
proof -
  obtain us where us: "layout_ok js ws ten_ok" "tree js ws ts = tree js ws us" "distinct (map task_key us)"
      "\<forall>u \<in> set us. names_ok ten_ok u"
    using assms(1) unfolding json_inv_def by blast
  then have "ts = us" by (metis stored_tree)
  then show ?thesis
    using us distinct_put_task [of us t] set_put_task [of t us] assms(2) unfolding json_inv_def by blast
qed

lemma json_inv_tree:
  assumes "json_inv js ws ten_ok fs"
  obtains ts where "fs = tree js ws ts" "layout_ok js ws ten_ok" "distinct (map task_key ts)"
    "\<forall>t \<in> set ts. names_ok ten_ok t"
  using assms unfolding json_inv_def by blast

interpretation json: task_store "json_ops js" ws "json_inv js ws ten_ok" json_view "json_adm ten_ok" ten_ok plain_name file_name
  for js ws ten_ok
proof (unfold_locales, goal_cases)
  case (1 fs t)
  obtain ts where ts: "fs = tree js ws ts" "layout_ok js ws ten_ok" "\<forall>t \<in> set ts. names_ok ten_ok t"
    using 1(1) by (rule json_inv_tree)
  have t: "names_ok ten_ok t" "\<forall>u \<in> set ts. task_key u = task_key t \<longrightarrow> k_session u = k_session t"
    using 1(2) ts(1) by (simp_all add: json_adm_def)
  have "op_create (json_ops js) t ws fs = tree js ws (put_task t ts)"
    using put_tree [OF ts(2,3) t] by (simp add: json_ops_def json_create_def ts(1))
  then show ?case using json_inv_put [OF _ t(1)] 1(1) by (simp add: ts(1) json_view_def index_put)
next
  case (2 t fs)
  then show ?case by (simp add: json_adm_def names_ok_def)
next
  case (3 fs a i)
  then show ?case by (auto elim!: json_inv_tree simp: json_ops_def json_get_tree json_view_def)
next
  case (4 fs k t)
  then show ?case by (auto elim!: json_inv_tree simp: json_view_def index_iff)
next
  case (5 fs t t0)
  obtain ts where ts: "fs = tree js ws ts" "layout_ok js ws ten_ok" "distinct (map task_key ts)" "\<forall>t \<in> set ts. names_ok ten_ok t"
    using 5(1) by (rule json_inv_tree)
  have t0: "t0 \<in> set ts" "task_key t0 = task_key t" "index ts (task_key t) = Some t0"
    using 5(2) index_iff [OF ts(3)] by (simp_all add: ts(1) json_view_def)
  then have t: "names_ok ten_ok t" using ts(4) 5(3) by (auto simp: names_ok_def task_key_def)
  have same: "\<forall>u \<in> set ts. task_key u = task_key t \<longrightarrow> k_session u = k_session t"
    using t0 5(3) index_iff [OF ts(3)] by (metis option.inject)
  have "task_path js t ws = tenant_dir js (k_tenant t) ws @ [k_session t, k_id t @ ''.json'']"
    using task_path_location [OF t] by (simp add: location_def)
  then have "read_path fs (task_path js t ws) = Some (TaskJson t0)"
    using read_location [OF ts(2,4), of "k_tenant t" "k_session t" "k_id t"] t find_index [OF ts(3) t0(3), of "k_session t"] 5(3)
    by (simp add: ts(1) names_ok_def task_key_def)
  then show ?case
    using put_tree [OF ts(2,4) t same] json_inv_put [OF _ t] 5(1)
    by (simp add: json_ops_def json_update_def ts(1) json_view_def index_put)
next
  case (6 fs a sess st)
  obtain ts where ts: "fs = tree js ws ts" "layout_ok js ws ten_ok" "distinct (map task_key ts)" "\<forall>t \<in> set ts. names_ok ten_ok t"
    using 6(1) by (rule json_inv_tree)
  show ?case
    using json_list_tree [OF ts(2,4) 6(2,3), of st] distinct_of_keys [OF ts(3)] index_iff [OF ts(3)]
    by (auto simp: json_ops_def ts(1) json_view_def)
qed

text \<open>Both layouts of the file storage meet the hypothesis on directories.\<close>

lemma layout_legacy: "clean (j_root js) \<Longrightarrow> given ws = None \<or> j_override js \<Longrightarrow> layout_ok js ws plain_name"
  by (auto simp: layout_ok_def tenant_dir_def pdiv_plain split: option.split)

lemma layout_workspace:
  assumes "clean (path_parts w)" "w \<noteq> []" "\<not> j_override js"
  shows "layout_ok js (Some w) ((=) tenant)"
proof -
  have "plain_name ''.adk-cc''" "plain_name ''tasks''" by (simp_all add: plain_name_def)
  then show ?thesis using assms by (simp add: layout_ok_def tenant_dir_def given_def pdiv_plain clean_def)
qed

lemma put_new: "task_key t \<notin> set (map task_key ts) \<Longrightarrow> put_task t ts = ts @ [t]"
  by (induction ts) auto

lemma fold_mem_create:
  "distinct (map task_key ts) \<Longrightarrow> fold (\<lambda>t. mem_create t ws) ts [] = map (\<lambda>t. (task_key t, t)) ts"
proof (induction ts rule: rev_induct)
  case (snoc t ts)
  then show ?case by (simp add: mem_create_def mem_put put_new)
qed simp

lemma fold_json_create:
  "layout_ok js ws ten_ok \<Longrightarrow> distinct (map task_key ts) \<Longrightarrow> \<forall>t \<in> set ts. names_ok ten_ok t \<Longrightarrow>
     fold (\<lambda>t. json_create js t ws) ts [] = tree js ws ts"
proof (induction ts rule: rev_induct)
  case (snoc t ts)
  have fresh: "task_key t \<notin> set (map task_key ts)" using snoc.prems(2) by simp
  then have "dict_put (os_resolve (task_path js t ws)) (TaskJson t) (tree js ws ts) = tree js ws (put_task t ts)"
    using snoc.prems(3) by (intro put_tree [OF snoc.prems(1)]) (simp, simp, metis imageI list.set_map)
  then show ?case using snoc fresh by (simp add: json_create_def put_new)
qed (simp add: tree_def)

lemma mem_list_map:
  "mem_list a (Some sess) st ws (map (\<lambda>t. (task_key t, t)) ts) =
     sort_key k_created (filter (\<lambda>t. k_tenant t = a \<and> k_session t = sess \<and> (st = None \<or> st = Some (k_status t))) ts)"
  by (simp add: mem_list_def filter_map comp_def task_key_def) (metis (mono_tags, lifting))

section \<open>Properties\<close>

text \<open>The file storage loses nothing: on well-formed storage, a created task is found by its id, with
  every field as written, and looking up any other id of any tenant answers as before.\<close>

lemma created_task_is_found:
  assumes "json_inv js ws ten_ok fs" "json_adm ten_ok t fs"
  shows "json_get js (k_id t) (k_tenant t) ws (json_create js t ws fs) = Inr t
    \<and> (\<forall>a i. ten_ok a \<longrightarrow> file_name i \<longrightarrow> (a, i) \<noteq> task_key t \<longrightarrow>
         json_get js i a ws (json_create js t ws fs) = json_get js i a ws fs)"
  using json.created_is_found [OF assms] json.created_keeps_others [OF assms] by (simp add: json_ops_def)

definition central :: json_storage where
  "central = \<lparr>j_root = [''var'', ''tasks''], j_override = True\<rparr>"

definition demo_task :: "string \<Rightarrow> string \<Rightarrow> string \<Rightarrow> task" where
  "demo_task tenant session i =
     \<lparr>k_id = i, k_tenant = tenant, k_session = session, k_title = ''write'', k_description = [], k_status = Pending,
      k_blocks = [], k_blocked_by = [], k_created = 1, k_updated = 1\<rparr>"

lemma central_ok: "layout_ok central ws plain_name"
  by (rule layout_legacy) (simp_all add: central_def clean_def plain_name_def)

lemma central_inv:
  "distinct (map task_key ts) \<Longrightarrow> \<forall>t \<in> set ts. names_ok plain_name t \<Longrightarrow> json_inv central ws plain_name (tree central ws ts)"
  using central_ok unfolding json_inv_def by blast

lemma created_task_is_found_witness:
  "json_get central ''t2'' ''a'' None
     (json_create central (demo_task ''a'' ''s'' ''t2'') None (tree central None [demo_task ''a'' ''s'' ''t1'']))
   = Inr (demo_task ''a'' ''s'' ''t2'')"
proof -
  have inv: "json_inv central None plain_name (tree central None [demo_task ''a'' ''s'' ''t1''])"
    by (rule central_inv) (simp_all add: demo_task_def names_ok_def plain_name_def file_name_def)
  have adm: "json_adm plain_name (demo_task ''a'' ''s'' ''t2'') (tree central None [demo_task ''a'' ''s'' ''t1''])"
    by (simp add: json_adm_def demo_task_def names_ok_def plain_name_def file_name_def task_key_def)
  show ?thesis using created_task_is_found [OF inv adm] by (simp add: demo_task_def)
qed



text \<open>\<open>task_update\<close> on the file storage changes the requested task, in the requested fields and the time
  stamp, and nothing else: every lookup afterwards answers as before except for that id, which gives the
  updated task; the updated task keeps its id, tenant, session, title, dependencies and creation time.\<close>

lemma update_changes_one_task:
  assumes "json_inv js (Some (x_path x)) ten_ok fs" "ten_ok (x_tenant x)" "file_name i"
    and "json_get js i (x_tenant x) (Some (x_path x)) fs = Inr t"
    and "apply_update status description now t = Some t'"
  shows "\<exists>fs'. task_update_tool (json_ops js) x i status description now fs = (TaskOk t', fs')
    \<and> (\<forall>a j. ten_ok a \<longrightarrow> file_name j \<longrightarrow> json_get js j a (Some (x_path x)) fs' =
         (if (a, j) = (x_tenant x, i) then Inr t' else json_get js j a (Some (x_path x)) fs))
    \<and> t' = t\<lparr>k_status := k_status t', k_description := k_description t', k_updated := now\<rparr>"
proof -
  note get = json.get [where js = js and ws = "Some (x_path x)" and ten_ok = ten_ok, unfolded json_ops_def, simplified]
  have v: "json_view fs (x_tenant x, i) = Some t"
    using get [OF assms(1,2,3)] assms(4) by (auto split: option.splits)
  obtain fs' where fs': "task_update_tool (json_ops js) x i status description now fs = (TaskOk t', fs')"
      "json_inv js (Some (x_path x)) ten_ok fs'" "json_view fs' = (json_view fs)((x_tenant x, i) \<mapsto> t')"
    using json.update_tool [OF assms(1) refl assms(2,3) v assms(5)] by blast
  have "json_get js j a (Some (x_path x)) fs' =
         (if (a, j) = (x_tenant x, i) then Inr t' else json_get js j a (Some (x_path x)) fs)"
    if "ten_ok a" "file_name j" for a j
    using get [OF fs'(2) that] get [OF assms(1) that] fs'(3) by auto
  moreover have "t' = t\<lparr>k_status := k_status t', k_description := k_description t', k_updated := now\<rparr>"
    using assms(5) by (auto simp: apply_update_def Let_def split: option.splits)
  ultimately show ?thesis using fs'(1) by blast
qed

definition demo_task_ctx :: task_ctx where
  "demo_task_ctx = \<lparr>x_tenant = ''a'', x_session = ''s'', x_path = ''/ws''\<rparr>"

lemma update_changes_one_task_witness:
  "\<exists>fs'. task_update_tool (json_ops central) demo_task_ctx ''t1'' (Some ''completed'') None 9
      (tree central (Some ''/ws'') [demo_task ''a'' ''s'' ''t1'']) =
    (TaskOk ((demo_task ''a'' ''s'' ''t1'')\<lparr>k_status := Completed, k_updated := 9\<rparr>), fs')"
proof -
  have inv: "json_inv central (Some (x_path demo_task_ctx)) plain_name (tree central (Some ''/ws'') [demo_task ''a'' ''s'' ''t1''])"
    unfolding demo_task_ctx_def task_ctx.simps
    by (rule central_inv) (simp_all add: demo_task_def names_ok_def plain_name_def file_name_def)
  have n: "plain_name (x_tenant demo_task_ctx)" "file_name ''t1''"
    by (simp_all add: demo_task_ctx_def plain_name_def file_name_def)
  have g: "json_get central ''t1'' (x_tenant demo_task_ctx) (Some (x_path demo_task_ctx))
      (tree central (Some ''/ws'') [demo_task ''a'' ''s'' ''t1'']) = Inr (demo_task ''a'' ''s'' ''t1'')"
    by code_simp
  have u: "apply_update (Some ''completed'') None 9 (demo_task ''a'' ''s'' ''t1'') =
      Some ((demo_task ''a'' ''s'' ''t1'')\<lparr>k_status := Completed, k_updated := 9\<rparr>)"
    by code_simp
  show ?thesis using update_changes_one_task [OF inv n g u] by blast
qed

text \<open>A wrong id is answered with the ids that exist: when the file storage has no task of that id for the
  tenant, \<open>task_update\<close> changes nothing and its answer lists exactly the tasks of the session.\<close>

lemma wrong_id_lists_the_session:
  assumes "json_inv js (Some (x_path x)) ten_ok fs" "ten_ok (x_tenant x)" "plain_name (x_session x)" "file_name i"
    and "json_get js i (x_tenant x) (Some (x_path x)) fs = Inl TaskNotFound"
  shows "\<exists>listing. task_update_tool (json_ops js) x i status description now fs = (NotFoundResult listing, fs)
    \<and> set listing = (\<lambda>t. (k_id t, k_status t, k_title t)) ` {t \<in> set (stored fs). k_tenant t = x_tenant x \<and> k_session t = x_session x}"
proof -
  obtain ts where ts: "fs = tree js (Some (x_path x)) ts" "distinct (map task_key ts)"
    using assms(1) by (rule json_inv_tree)
  have "{t. json_view fs (task_key t) = Some t \<and> k_tenant t = x_tenant x \<and> k_session t = x_session x} =
      {t \<in> set (stored fs). k_tenant t = x_tenant x \<and> k_session t = x_session x}"
    using index_iff [OF ts(2)] by (auto simp: json_view_def ts(1))
  moreover have "json_view fs (x_tenant x, i) = None"
    using json.get [OF assms(1,2,4)] assms(5) by (auto simp: json_ops_def split: option.splits)
  ultimately show ?thesis using json.missing_tool [OF assms(1) refl assms(2-4)] by simp
qed

lemma wrong_id_lists_the_session_witness:
  "\<exists>listing. task_update_tool (json_ops central) demo_task_ctx ''t9'' None None 9
      (tree central (Some ''/ws'') [demo_task ''a'' ''s'' ''t1'', demo_task ''a'' ''z'' ''t2'']) =
    (NotFoundResult listing, tree central (Some ''/ws'') [demo_task ''a'' ''s'' ''t1'', demo_task ''a'' ''z'' ''t2''])
    \<and> set listing = {(''t1'', Pending, ''write'')}"
proof -
  let ?fs = "tree central (Some ''/ws'') [demo_task ''a'' ''s'' ''t1'', demo_task ''a'' ''z'' ''t2'']"
  have inv: "json_inv central (Some (x_path demo_task_ctx)) plain_name ?fs"
    unfolding demo_task_ctx_def task_ctx.simps
    by (rule central_inv) (simp_all add: demo_task_def task_key_def names_ok_def plain_name_def file_name_def)
  have n: "plain_name (x_tenant demo_task_ctx)" "plain_name (x_session demo_task_ctx)" "file_name ''t9''"
    by (simp_all add: demo_task_ctx_def plain_name_def file_name_def)
  have g: "json_get central ''t9'' (x_tenant demo_task_ctx) (Some (x_path demo_task_ctx)) ?fs = Inl TaskNotFound"
    by code_simp
  have "{t \<in> set (stored ?fs). k_tenant t = x_tenant demo_task_ctx \<and> k_session t = x_session demo_task_ctx} =
      {demo_task ''a'' ''s'' ''t1''}"
    by (auto simp: demo_task_ctx_def demo_task_def)
  then have "(\<lambda>t. (k_id t, k_status t, k_title t)) ` {t \<in> set (stored ?fs). k_tenant t = x_tenant demo_task_ctx \<and> k_session t = x_session demo_task_ctx} =
      {(''t1'', Pending, ''write'')}"
    by (simp add: demo_task_def)
  then show ?thesis using wrong_id_lists_the_session [OF inv n g, of None None 9] by simp
qed

text \<open>An id is not checked to be a plain name: with parent references in it, the tools of one tenant find and
  update the task of another (\<open>JsonFileTaskStorage.get\<close> joins the id to each session directory).\<close>

lemma parent_references_reach_another_tenant:
  "task_update_tool (json_ops central) demo_task_ctx ''../../b/s/t1'' (Some ''completed'') None 9
      (tree central (Some ''/ws'') [demo_task ''a'' ''s'' ''t1'', demo_task ''b'' ''s'' ''t1'']) =
    (TaskOk ((demo_task ''b'' ''s'' ''t1'')\<lparr>k_status := Completed, k_updated := 9\<rparr>),
     tree central (Some ''/ws'') [demo_task ''a'' ''s'' ''t1'',
       (demo_task ''b'' ''s'' ''t1'')\<lparr>k_status := Completed, k_updated := 9\<rparr>])"
  by code_simp

end
