(* ===== verification/Settings.thy ===== *)
theory Settings
  imports Complex_Main Host
begin

text \<open>
  The numeric and list parsers of \<open>config/schema.py\<close> (\<open>as_int\<close>, \<open>as_float\<close>, \<open>env_int\<close>, \<open>as_csv\<close>,
  \<open>as_csv_colon\<close>, \<open>as_path\<close>) and the rest of \<open>deployment.py\<close>: which sandbox a deployment runs.

  A Python \<open>float\<close> is a rational number: rounding, and the spellings of infinity and not-a-number, are
  outside the model. The stored sandbox settings are the parsed JSON object; \<open>detect_runtime\<close>, which
  asks the operating system for a container runtime, is not part of this model.
\<close>

section \<open>Numbers as text\<close>

definition digit_value :: "char \<Rightarrow> nat option" where
  "digit_value c = (let n = of_char c in if 48 \<le> n \<and> n \<le> 57 then Some (n - 48) else None)"

text \<open>A group of digits with single underscores between digits; the number of digits is counted.\<close>

fun digits :: "nat \<Rightarrow> nat \<Rightarrow> bool \<Rightarrow> string \<Rightarrow> (nat \<times> nat) option" where
  "digits acc n prev [] = (if prev then Some (acc, n) else None)"
| "digits acc n prev (c # s) =
     (case digit_value c of
        Some d \<Rightarrow> digits (10 * acc + d) (Suc n) True s
      | None \<Rightarrow> if c = CHR ''_'' \<and> prev then digits acc n False s else None)"

fun signed :: "string \<Rightarrow> bool \<times> string" where
  "signed (c # s) = (if c = CHR ''-'' then (True, s) else if c = CHR ''+'' then (False, s) else (False, c # s))"
| "signed [] = (False, [])"

definition py_int :: "string \<Rightarrow> int option" where
  "py_int raw =
     (let (neg, s) = signed (strip raw)
      in map_option (\<lambda>(v, n). if neg then - int v else int v) (digits 0 0 False s))"

definition fraction :: "string \<Rightarrow> rat option" where
  "fraction m =
     (let a = takeWhile (\<lambda>c. c \<noteq> CHR ''.'') m;
          rest = dropWhile (\<lambda>c. c \<noteq> CHR ''.'') m;
          group = (\<lambda>s. if s = [] then Some (0, 0) else digits 0 0 False s)
      in if rest = [] then map_option (\<lambda>(v, n). of_nat v) (digits 0 0 False a)
         else if a = [] \<and> tl rest = [] then None
         else (case (group a, group (tl rest)) of
                 (Some (v, n), Some (w, k)) \<Rightarrow> Some (of_nat v + of_nat w / 10 ^ k)
               | _ \<Rightarrow> None))"

definition py_float :: "string \<Rightarrow> rat option" where
  "py_float raw =
     (let (neg, s) = signed (strip raw);
          is_e = (\<lambda>c. c = CHR ''e'' \<or> c = CHR ''E'');
          m = fraction (takeWhile (\<lambda>c. \<not> is_e c) s);
          rest = dropWhile (\<lambda>c. \<not> is_e c) s;
          sgn_of = (\<lambda>x. if neg then - x else x)
      in if rest = [] then map_option sgn_of m
         else (let (eneg, e) = signed (tl rest)
               in case (m, digits 0 0 False e) of
                    (Some x, Some (k, _)) \<Rightarrow> Some (sgn_of (if eneg then x / 10 ^ k else x * 10 ^ k))
                  | _ \<Rightarrow> None))"

definition strip_inline_comment :: "string \<Rightarrow> string" where
  "strip_inline_comment raw = strip (before_char (CHR ''#'') raw)"

definition as_int :: "string \<Rightarrow> int option" where
  "as_int raw = py_int (strip_inline_comment raw)"

definition as_float :: "string \<Rightarrow> rat option" where
  "as_float raw = py_float (strip_inline_comment raw)"

definition env_int :: "host \<Rightarrow> string \<Rightarrow> int option \<Rightarrow> int option" where
  "env_int h name dflt =
     (case environ h name of
        None \<Rightarrow> dflt
      | Some raw \<Rightarrow> if strip raw = [] then dflt else (case as_int raw of None \<Rightarrow> dflt | Some n \<Rightarrow> Some n))"

definition as_csv :: "string \<Rightarrow> string list" where
  "as_csv raw = map strip (filter (\<lambda>p. strip p \<noteq> []) (split_char (CHR '','') raw))"

definition as_csv_colon :: "string \<Rightarrow> string list" where
  "as_csv_colon raw =
     map strip (filter (\<lambda>p. strip p \<noteq> []) (split_char (CHR '','') (replace_char (CHR '':'') (CHR '','') raw)))"

definition as_path :: "host \<Rightarrow> string \<Rightarrow> string" where
  "as_path h raw = os_abspath h (os_expanduser h (strip raw))"

section \<open>Which sandbox a deployment runs\<close>

record sandbox_settings =
  sb_mode :: "string option"
  sb_network :: "bool option"
  sb_image :: "string option"
  sb_require :: bool

definition no_sandbox_settings :: sandbox_settings where
  "no_sandbox_settings = \<lparr>sb_mode = None, sb_network = None, sb_image = None, sb_require = False\<rparr>"

text \<open>The content of \<open>sandbox.json\<close>: absent, unreadable or not an object all read as empty settings.\<close>

definition read_sandbox_settings :: "sandbox_settings option \<Rightarrow> sandbox_settings" where
  "read_sandbox_settings stored = (case stored of None \<Rightarrow> no_sandbox_settings | Some s \<Rightarrow> s)"

definition session_store_root :: "host \<Rightarrow> string" where
  "session_store_root h = (if is_desktop h then desktop_data_dir h else data_dir h)"

definition sandbox_mode :: "host \<Rightarrow> sandbox_settings option \<Rightarrow> string" where
  "sandbox_mode h stored =
     (let e = env_str h ''ADK_CC_SANDBOX_MODE''
      in if e \<noteq> [] then lower (strip e)
         else lower (strip (case given (sb_mode (read_sandbox_settings stored)) of None \<Rightarrow> ''host'' | Some m \<Rightarrow> m)))"

definition sandbox_network_enabled :: "host \<Rightarrow> sandbox_settings option \<Rightarrow> bool" where
  "sandbox_network_enabled h stored =
     (case environ h ''ADK_CC_SANDBOX_NETWORK'' of
        Some e \<Rightarrow> as_bool e
      | None \<Rightarrow> (case sb_network (read_sandbox_settings stored) of None \<Rightarrow> True | Some v \<Rightarrow> v))"

definition sandbox_image :: "host \<Rightarrow> sandbox_settings option \<Rightarrow> string" where
  "sandbox_image h stored =
     (let e = env_str h ''ADK_CC_SANDBOX_IMAGE''
      in if e \<noteq> [] then e
         else (case given (sb_image (read_sandbox_settings stored)) of None \<Rightarrow> ''python:3.13.11-slim'' | Some i \<Rightarrow> i))"

definition sandbox_require :: "host \<Rightarrow> sandbox_settings option \<Rightarrow> bool" where
  "sandbox_require h stored =
     (case environ h ''ADK_CC_SANDBOX_REQUIRE'' of
        Some e \<Rightarrow> as_bool e
      | None \<Rightarrow> sb_require (read_sandbox_settings stored))"

definition sandbox_backend_name :: "host \<Rightarrow> sandbox_settings option \<Rightarrow> string" where
  "sandbox_backend_name h stored =
     (let e = env_str h ''ADK_CC_SANDBOX_BACKEND''
      in if e \<noteq> [] then lower e
         else if is_desktop h \<and> sandbox_mode h stored = ''container'' then ''container'' else ''noop'')"

definition noop_ack_host_exec :: "host \<Rightarrow> bool" where
  "noop_ack_host_exec h =
     (case environ h ''ADK_CC_NOOP_ACK_HOST_EXEC'' of Some e \<Rightarrow> as_bool e | None \<Rightarrow> is_desktop h)"

section \<open>Lemmas\<close>

text \<open>Numbers print and parse back.\<close>

lemma digit_value_char: "d < 10 \<Longrightarrow> digit_value (char_of (48 + d)) = Some d"
  by (simp add: digit_value_def Let_def)

lemma digits_snoc:
  "digits acc n prev s = Some (v, k) \<Longrightarrow> digit_value c = Some d \<Longrightarrow> digits acc n prev (s @ [c]) = Some (10 * v + d, Suc k)"
  by (induction acc n prev s rule: digits.induct) (auto split: option.splits if_splits)

lemma digits_decimal: "\<exists>k. digits 0 0 False (decimal m) = Some (m, k)"
proof (induction m rule: less_induct)
  case (less m)
  show ?case
  proof (cases "m < 10")
    case True
    then show ?thesis by (subst decimal.simps) (simp add: digit_value_char)
  next
    case False
    then obtain k where k: "digits 0 0 False (decimal (m div 10)) = Some (m div 10, k)" using less.IH [of "m div 10"] by auto
    have c: "digit_value (char_of (48 + m mod 10)) = Some (m mod 10)" by (rule digit_value_char) simp
    have "decimal m = decimal (m div 10) @ [char_of (48 + m mod 10)]" using False by (subst decimal.simps) simp
    then have "digits 0 0 False (decimal m) = Some (10 * (m div 10) + m mod 10, Suc k)"
      using digits_snoc [OF k c] by simp
    then show ?thesis by auto
  qed
qed

lemma decimal_chars: "\<forall>c \<in> set (decimal m). 48 \<le> (of_char c :: nat) \<and> (of_char c :: nat) \<le> 57"
proof (induction m rule: less_induct)
  case (less m)
  show ?case
  proof (cases "m < 10")
    case True
    then show ?thesis by (subst decimal.simps) simp
  next
    case False
    then have "decimal m = decimal (m div 10) @ [char_of (48 + m mod 10)]" by (subst decimal.simps) simp
    moreover have "48 + m mod 10 \<le> 57" by simp
    ultimately show ?thesis using less.IH [of "m div 10"] False by auto
  qed
qed

lemma decimal_not_Nil: "decimal m \<noteq> []"
  by (subst decimal.simps) simp

lemma decimal_stripped: "strip (decimal m) = decimal m" "strip (CHR ''-'' # decimal m) = CHR ''-'' # decimal m"
proof -
  have no_space: "\<not> py_space c" if "c \<in> set (decimal m)" for c
    using decimal_chars [of m] that by (auto simp: py_space_def space_codes_def)
  have "\<not> py_space (hd (decimal m))" "\<not> py_space (last (decimal m))" "\<not> py_space (CHR ''-'')"
    using no_space decimal_not_Nil [of m] by (auto simp: py_space_def space_codes_def)
  then show "strip (decimal m) = decimal m" "strip (CHR ''-'' # decimal m) = CHR ''-'' # decimal m"
    using decimal_not_Nil [of m] by (simp_all add: strip_fixed_iff)
qed

lemma signed_decimal: "signed (decimal m) = (False, decimal m)"
  using decimal_chars [of m] by (cases "decimal m") auto

lemma py_int_decimal: "py_int (decimal_int i) = Some i"
proof -
  obtain k where "digits 0 0 False (decimal (nat \<bar>i\<bar>)) = Some (nat \<bar>i\<bar>, k)" using digits_decimal by blast
  then show ?thesis by (cases "i < 0") (auto simp: py_int_def decimal_int_def decimal_stripped signed_decimal)
qed

end
