(* ===== verification/Models.thy ===== *)
theory Models
  imports Settings
begin

text \<open>
  \<open>models/rate_limit.py\<close>, \<open>models/selectable.py\<close>, \<open>models/endpoints.py\<close> and \<open>models/retry_status.py\<close>:
  which model endpoint a call uses, the output cap it is built with, the pacing of calls, and the
  retries of a rate-limited call.

  An exception is a value with the class name, the names of its base classes, the status code, the
  text, the headers of its response and its cause. Header values are text, parsed as numbers the way
  \<open>float\<close> does. Time is a rational number of seconds, supplied by the caller, as are the random jitter and the
  outcome of each call of the underlying model. The registry file is the value last written to it;
  a file that is missing or not JSON reads as empty. Threads are outside the model: an operation under
  the lock is one step. The wording of the quota message (\<open>describe_quota\<close>) is left out.
\<close>

section \<open>Rate limits\<close>

datatype exn = Exn
  (x_type: string)
  (x_bases: "string list")
  (x_status: "int option")
  (x_text: string)
  (x_retry_after: "string option")
  (x_headers: "(string \<Rightarrow> string option) option")
  (x_cause: "exn option")

definition is_rate_limited :: "exn \<Rightarrow> bool" where
  "is_rate_limited e \<longleftrightarrow> x_status e = Some 429 \<or> List.member (x_type e # x_bases e) ''RateLimitError''"

datatype limit_kind = Burst | Upstream | Quota

definition quota_horizon :: rat where
  "quota_horizon = 15 * 60"

definition header :: "exn \<Rightarrow> string \<Rightarrow> string option" where
  "header e name = (case x_headers e of None \<Rightarrow> None | Some h \<Rightarrow> h name)"

definition header_float :: "exn \<Rightarrow> string \<Rightarrow> rat option" where
  "header_float e name = (case header e name of None \<Rightarrow> None | Some v \<Rightarrow> py_float v)"

text \<open>\<open>_UPSTREAM_PAT\<close>: \<open>rate-?limited upstream|provider returned error|upstream.*rate.?limit\<close>, without case.\<close>

fun rate_limit_on_line :: "string \<Rightarrow> bool" where
  "rate_limit_on_line [] = False"
| "rate_limit_on_line (c # s) =
     (startswith (c # s) ''ratelimit''
      \<or> startswith (c # s) ''rate'' \<and> (case drop 4 (c # s) of d # t \<Rightarrow> d \<noteq> CHR 0x0A \<and> startswith t ''limit'' | [] \<Rightarrow> False)
      \<or> c \<noteq> CHR 0x0A \<and> rate_limit_on_line s)"

fun upstream_then_limit :: "string \<Rightarrow> bool" where
  "upstream_then_limit [] = False"
| "upstream_then_limit (c # s) =
     (startswith (c # s) ''upstream'' \<and> rate_limit_on_line (drop 8 (c # s)) \<or> upstream_then_limit s)"

definition upstream_pattern :: "string \<Rightarrow> bool" where
  "upstream_pattern body \<longleftrightarrow>
     (let s = lower body
      in contains s ''rate-limited upstream'' \<or> contains s ''ratelimited upstream''
         \<or> contains s ''provider returned error'' \<or> upstream_then_limit s)"

definition reset_hint :: "rat \<Rightarrow> exn \<Rightarrow> rat option" where
  "reset_hint now e =
     (case header_float e ''retry-after'' of
        Some r \<Rightarrow> Some r
      | None \<Rightarrow>
          (case header_float e ''x-ratelimit-reset'' of
             None \<Rightarrow> None
           | Some reset \<Rightarrow>
               if reset > 10 ^ 12 then Some (max 0 (reset / 1000 - now))
               else if reset > 10 ^ 9 then Some (max 0 (reset - now))
               else Some reset))"

definition classify_429 :: "rat \<Rightarrow> exn \<Rightarrow> limit_kind \<times> rat option" where
  "classify_429 now e =
     (let hint = reset_hint now e
      in if (case hint of None \<Rightarrow> False | Some h \<Rightarrow> h > quota_horizon) then (Quota, hint)
         else if upstream_pattern (x_text e) then (Upstream, hint)
         else if contains (lower (x_text e)) ''quota'' \<or> contains (lower (x_text e)) ''per day'' then (Quota, hint)
         else (Burst, hint))"

section \<open>Endpoints and their registry\<close>

record endpoint =
  n_name :: string
  n_model :: string
  n_api_base :: string
  n_api_key :: "string option"
  n_key_env :: string
  n_max_tokens :: "int option"
  n_effort :: "string option"

datatype key_source = Inline | FromEnv | Keyless

definition key_source_of :: "endpoint \<Rightarrow> key_source" where
  "key_source_of e =
     (case n_api_key e of
        Some k \<Rightarrow> if k \<noteq> [] then Inline else Keyless
      | None \<Rightarrow> if n_key_env e \<noteq> [] then FromEnv else Keyless)"

definition requires_key :: "endpoint \<Rightarrow> bool" where
  "requires_key e = (case n_api_key e of Some k \<Rightarrow> k \<noteq> [] | None \<Rightarrow> n_key_env e \<noteq> [])"

definition resolve_api_key :: "host \<Rightarrow> endpoint \<Rightarrow> string option" where
  "resolve_api_key h e =
     (case n_api_key e of
        Some k \<Rightarrow> if k \<noteq> [] then Some k else None
      | None \<Rightarrow> if n_key_env e \<noteq> [] then environ h (n_key_env e) else None)"

definition api_key_present :: "host \<Rightarrow> endpoint \<Rightarrow> bool" where
  "api_key_present h e = (if \<not> requires_key e then True else given (resolve_api_key h e) \<noteq> None)"

text \<open>The response form of an endpoint: every field but the key, and what is known of the key.\<close>

record masked_endpoint =
  a_name :: string
  a_model :: string
  a_api_base :: string
  a_key_env :: string
  a_max_tokens :: "int option"
  a_effort :: "string option"
  a_key_present :: bool
  a_key_source :: key_source

definition masked :: "host \<Rightarrow> endpoint \<Rightarrow> masked_endpoint" where
  "masked h e =
     \<lparr>a_name = n_name e, a_model = n_model e, a_api_base = n_api_base e, a_key_env = n_key_env e,
      a_max_tokens = n_max_tokens e, a_effort = n_effort e,
      a_key_present = api_key_present h e, a_key_source = key_source_of e\<rparr>"

record registry =
  g_endpoints :: "endpoint list"
  g_active :: "string option"

definition empty_registry :: registry where
  "empty_registry = \<lparr>g_endpoints = [], g_active = None\<rparr>"

definition find_endpoint :: "registry \<Rightarrow> string \<Rightarrow> endpoint option" where
  "find_endpoint g name = List.find (\<lambda>e. n_name e = name) (g_endpoints g)"

definition get_active :: "registry \<Rightarrow> endpoint option" where
  "get_active g = (case g_active g of None \<Rightarrow> None | Some a \<Rightarrow> find_endpoint g a)"

definition upsert :: "endpoint \<Rightarrow> registry \<Rightarrow> registry" where
  "upsert cfg g =
     \<lparr>g_endpoints = filter (\<lambda>e. n_name e \<noteq> n_name cfg) (g_endpoints g) @ [cfg],
      g_active = (case g_active g of None \<Rightarrow> Some (n_name cfg) | Some a \<Rightarrow> Some a)\<rparr>"

datatype registry_error = LastEndpoint | ActiveEndpoint | UnknownEndpoint string | KeyMissing string

definition remove_endpoint :: "string \<Rightarrow> registry \<Rightarrow> registry_error + registry" where
  "remove_endpoint name g =
     (if \<not> list_ex (\<lambda>e. n_name e = name) (g_endpoints g) then Inr g
      else if length (g_endpoints g) \<le> 1 then Inl LastEndpoint
      else if g_active g = Some name then Inl ActiveEndpoint
      else Inr (g\<lparr>g_endpoints := filter (\<lambda>e. n_name e \<noteq> name) (g_endpoints g)\<rparr>))"

definition activate :: "host \<Rightarrow> string \<Rightarrow> registry \<Rightarrow> registry_error + registry" where
  "activate h name g =
     (case find_endpoint g name of
        None \<Rightarrow> Inl (UnknownEndpoint name)
      | Some target \<Rightarrow>
          if requires_key target \<and> \<not> api_key_present h target then Inl (KeyMissing name)
          else Inr (g\<lparr>g_active := Some name\<rparr>))"

definition seed_default :: "endpoint \<Rightarrow> registry \<Rightarrow> registry" where
  "seed_default cfg g =
     (if g_endpoints g \<noteq> [] then g else \<lparr>g_endpoints = [cfg], g_active = Some (n_name cfg)\<rparr>)"

section \<open>Output caps\<close>

definition cap_of :: "int \<Rightarrow> int option" where
  "cap_of n = (if n > 0 then Some n else None)"

definition cap_from_env :: "string option \<Rightarrow> int \<Rightarrow> int option" where
  "cap_from_env raw dflt =
     (case raw of
        None \<Rightarrow> Some dflt
      | Some r \<Rightarrow> if r = [] then Some dflt else (case py_int r of None \<Rightarrow> Some dflt | Some n \<Rightarrow> cap_of n))"

definition resolve_max_output_tokens :: "host \<Rightarrow> endpoint option \<Rightarrow> int option" where
  "resolve_max_output_tokens h cfg =
     (case (case cfg of None \<Rightarrow> None | Some e \<Rightarrow> n_max_tokens e) of
        Some n \<Rightarrow> cap_of n
      | None \<Rightarrow> cap_from_env (environ h ''ADK_CC_MAX_OUTPUT_TOKENS'') 8192)"

definition escalated_max_output_tokens :: "host \<Rightarrow> int option" where
  "escalated_max_output_tokens h = cap_from_env (environ h ''ADK_CC_MAX_OUTPUT_TOKENS_ESCALATED'') 32768"

definition effective_cap :: "int option \<Rightarrow> int option \<Rightarrow> int option" where
  "effective_cap floor_cap base =
     (case (floor_cap, base) of
        (Some f, Some b) \<Rightarrow> if f > b then Some f else Some b
      | _ \<Rightarrow> base)"

section \<open>The selectable model\<close>

datatype delegate =
    LiteDelegate string string "string option" "int option"
  | CodexDelegate string "string option"
  | BootDelegate "int option"

type_synonym cache_key = "string \<times> string \<times> string \<times> string option"

record llm =
  l_default :: "delegate option"
  l_rebuild :: "int option \<Rightarrow> delegate option"
  l_has_factory :: bool
  l_cache :: "(cache_key \<times> delegate) list"
  l_floor :: "int option"
  l_escalated :: "delegate option"
  l_model :: string

datatype llm_error = NoDelegate | EndpointKeyMissing string

definition build_litellm :: "host \<Rightarrow> int option \<Rightarrow> endpoint \<Rightarrow> llm_error + delegate" where
  "build_litellm h floor_cap cfg =
     (if startswith (n_model cfg) ''chatgpt-codex/'' then
        Inr (CodexDelegate (after_char (CHR ''/'') (n_model cfg)) (n_effort cfg))
      else
        (let model_id = (if startswith (n_model cfg) ''openai/'' then n_model cfg else ''openai/'' @ n_model cfg);
             base = resolve_max_output_tokens h (Some cfg);
             tokens = (if n_max_tokens cfg \<noteq> None then base else effective_cap floor_cap base)
         in if requires_key cfg then
              (case given (resolve_api_key h cfg) of
                 None \<Rightarrow> Inl (EndpointKeyMissing (n_name cfg))
               | Some k \<Rightarrow> Inr (LiteDelegate model_id (n_api_base cfg) (Some k) tokens))
            else Inr (LiteDelegate model_id (n_api_base cfg) None tokens)))"

definition session_override_cfg :: "(string \<times> string) option \<Rightarrow> registry option \<Rightarrow> endpoint option" where
  "session_override_cfg ov reg =
     (case (ov, reg) of
        (Some (name, model_id), Some g) \<Rightarrow>
          (case find_endpoint g name of
             None \<Rightarrow> None
           | Some cfg \<Rightarrow>
               if model_id \<noteq> [] \<and> model_id \<noteq> n_model cfg then Some (cfg\<lparr>n_model := model_id\<rparr>) else Some cfg)
      | _ \<Rightarrow> None)"

definition escalated_default :: "host \<Rightarrow> llm \<Rightarrow> delegate option \<times> llm" where
  "escalated_default h m =
     (case l_escalated m of
        Some d \<Rightarrow> (Some d, m)
      | None \<Rightarrow>
          (let d = (if l_has_factory m
                    then (case l_rebuild m (effective_cap (l_floor m) (resolve_max_output_tokens h None)) of
                            None \<Rightarrow> l_default m | Some d \<Rightarrow> Some d)
                    else l_default m)
           in (d, m\<lparr>l_escalated := d\<rparr>)))"

definition resolve_delegate ::
  "host \<Rightarrow> registry option \<Rightarrow> (string \<times> string) option \<Rightarrow> llm \<Rightarrow> llm_error + (delegate \<times> llm)" where
  "resolve_delegate h reg ov m =
     (case (case session_override_cfg ov reg of
              Some e \<Rightarrow> Some e
            | None \<Rightarrow> (case reg of None \<Rightarrow> None | Some g \<Rightarrow> get_active g)) of
        None \<Rightarrow>
          (case l_default m of
             None \<Rightarrow> Inl NoDelegate
           | Some d \<Rightarrow>
               if l_floor m \<noteq> None
               then (case escalated_default h m of (Some e, m') \<Rightarrow> Inr (e, m') | (None, m') \<Rightarrow> Inr (d, m'))
               else Inr (d, m))
      | Some active \<Rightarrow>
          (let key = (n_model active, n_api_base active, n_key_env active, n_api_key active)
           in case map_of (l_cache m) key of
                Some cached \<Rightarrow> Inr (cached, m\<lparr>l_model := n_model active\<rparr>)
              | None \<Rightarrow>
                  (case build_litellm h (l_floor m) active of
                     Inl e \<Rightarrow> Inl e
                   | Inr d \<Rightarrow> Inr (d, m\<lparr>l_cache := dict_put key d (l_cache m), l_model := n_model active\<rparr>))))"

definition on_max_tokens :: "host \<Rightarrow> llm \<Rightarrow> llm" where
  "on_max_tokens h m =
     (if l_floor m \<noteq> None then m
      else (let esc = escalated_max_output_tokens h; base = resolve_max_output_tokens h None
            in case esc of
                 None \<Rightarrow> m
               | Some n \<Rightarrow>
                   if (case base of None \<Rightarrow> False | Some b \<Rightarrow> n \<le> b) then m
                   else m\<lparr>l_floor := Some n, l_cache := [], l_escalated := None\<rparr>))"

section \<open>Pacing\<close>

definition model_min_interval :: "host \<Rightarrow> rat" where
  "model_min_interval h =
     (let rpm = env_str h ''ADK_CC_MODEL_MAX_RPM''
      in if rpm \<noteq> [] then (case py_float rpm of None \<Rightarrow> 0 | Some v \<Rightarrow> if v > 0 then 60 / v else 0)
         else (case py_float (env_str h ''ADK_CC_MODEL_MIN_INTERVAL_S'') of None \<Rightarrow> 0 | Some v \<Rightarrow> max 0 v))"

text \<open>The call made at time \<open>now\<close>: the time it may start at, and the last start claimed.\<close>

definition pace_model_call :: "rat \<Rightarrow> rat \<Rightarrow> rat \<Rightarrow> rat \<times> rat" where
  "pace_model_call interval now last_at =
     (if interval \<le> 0 then (now, last_at)
      else (let start = max now (last_at + interval) in (start, start)))"

fun paced_starts :: "rat \<Rightarrow> rat \<Rightarrow> rat list \<Rightarrow> rat list" where
  "paced_starts interval last_at [] = []"
| "paced_starts interval last_at (now # nows) =
     (let (start, last_at') = pace_model_call interval now last_at
      in start # paced_starts interval last_at' nows)"

section \<open>Retries\<close>

definition retry_count :: "host \<Rightarrow> nat" where
  "retry_count h = (case as_int (env_str h ''ADK_CC_MODEL_RETRIES'') of None \<Rightarrow> 3 | Some n \<Rightarrow> nat (max 0 n))"

definition retry_base :: "host \<Rightarrow> rat" where
  "retry_base h = (case py_float (env_str h ''ADK_CC_MODEL_RETRY_BASE_S'') of None \<Rightarrow> 5 | Some b \<Rightarrow> max (1 / 2) b)"

definition delay_cap :: "limit_kind \<Rightarrow> rat" where
  "delay_cap kind = (if kind = Upstream then 120 else 60)"

definition retry_delay :: "rat \<Rightarrow> exn \<Rightarrow> nat \<Rightarrow> rat \<Rightarrow> limit_kind \<Rightarrow> rat" where
  "retry_delay jitter e attempt base kind =
     (let eff_base = (if kind = Upstream then base * 6 else base);
          cap = delay_cap kind;
          delay = min (eff_base * 2 ^ (attempt - 1)) cap * (1 + jitter * (1 / 4));
          hint = (case x_retry_after e of Some r \<Rightarrow> Some r | None \<Rightarrow> header e ''retry-after'');
          hinted = (case hint of None \<Rightarrow> None | Some r \<Rightarrow> py_float r);
          delay = (case hinted of None \<Rightarrow> delay | Some r \<Rightarrow> if r > 0 then max delay (min r cap) else delay)
      in min delay cap)"

record chunk =
  h_text :: string
  h_max_tokens :: bool

datatype call_end = Finished | Raised exn | Cancelled

datatype run_outcome = Answered | FailedWith exn | QuotaExhausted exn "rat option" | CannotResolve llm_error | Aborted

text \<open>
  A run of \<open>_generate_with_retry\<close>: \<open>world k\<close> is what attempt \<open>k\<close> meets: the time, the jitter, the registry,
  and the chunks and end of the call of the delegate it resolves. The result is the list of delegates called, the chunks
  delivered, the delays slept and the outcome.
\<close>

record attempt_world =
  w_now :: rat
  w_jitter :: rat
  w_registry :: "registry option"
  w_call :: "delegate \<Rightarrow> chunk list \<times> call_end"

record run_result =
  r_called :: "delegate list"
  r_chunks :: "chunk list"
  r_delays :: "rat list"
  r_outcome :: run_outcome

definition one_call :: "delegate \<Rightarrow> chunk list \<Rightarrow> run_outcome \<Rightarrow> run_result" where
  "one_call d cs out = \<lparr>r_called = [d], r_chunks = cs, r_delays = [], r_outcome = out\<rparr>"

definition after_retry :: "delegate \<Rightarrow> rat \<Rightarrow> run_result \<Rightarrow> run_result" where
  "after_retry d delay r = r\<lparr>r_called := d # r_called r, r_delays := delay # r_delays r\<rparr>"

function generate_with_retry ::
  "host \<Rightarrow> (nat \<Rightarrow> attempt_world) \<Rightarrow> (string \<times> string) option \<Rightarrow> nat \<Rightarrow> llm \<Rightarrow> run_result" where
  "generate_with_retry h world ov attempt m =
     (case resolve_delegate h (w_registry (world attempt)) ov m of
        Inl e \<Rightarrow> \<lparr>r_called = [], r_chunks = [], r_delays = [], r_outcome = CannotResolve e\<rparr>
      | Inr (d, m') \<Rightarrow>
          (let (cs, fin) = w_call (world attempt) d;
               m'' = fold (\<lambda>c m. if h_max_tokens c then on_max_tokens h m else m) cs m'
           in case fin of
                Finished \<Rightarrow> one_call d cs Answered
              | Cancelled \<Rightarrow> one_call d cs Aborted
              | Raised e \<Rightarrow>
                  if cs \<noteq> [] \<or> \<not> is_rate_limited e \<or> attempt \<ge> retry_count h then one_call d cs (FailedWith e)
                  else (case classify_429 (w_now (world attempt)) e of
                          (Quota, hint) \<Rightarrow> one_call d cs (QuotaExhausted e hint)
                        | (kind, hint) \<Rightarrow>
                            after_retry d (retry_delay (w_jitter (world attempt)) e (Suc attempt) (retry_base h) kind)
                              (generate_with_retry h world ov (Suc attempt) m''))))"
  by pat_completeness auto
termination
  by (relation "measure (\<lambda>(h, world, ov, attempt, m). retry_count h - attempt)") auto

declare generate_with_retry.simps [simp del]

section \<open>The retry status of a session\<close>

record retry_info =
  i_model :: string
  i_attempt :: nat
  i_of :: nat
  i_kind :: limit_kind
  i_resume_at :: rat

type_synonym status_table = "(string \<times> retry_info) list"

definition publish_retry :: "string option \<Rightarrow> rat \<Rightarrow> string \<Rightarrow> nat \<Rightarrow> nat \<Rightarrow> rat \<Rightarrow> limit_kind \<Rightarrow> status_table \<Rightarrow> status_table" where
  "publish_retry key now model attempt tries delay kind tab =
     (case given key of
        None \<Rightarrow> tab
      | Some k \<Rightarrow>
          dict_put k \<lparr>i_model = model, i_attempt = attempt, i_of = tries, i_kind = kind, i_resume_at = now + delay\<rparr> tab)"

definition clear_retry :: "string option \<Rightarrow> status_table \<Rightarrow> status_table" where
  "clear_retry key tab = (case given key of None \<Rightarrow> tab | Some k \<Rightarrow> dict_pop k tab)"

text \<open>The status and the seconds left (rounding to a tenth is left out); a stale entry is dropped.\<close>

definition get_status :: "rat \<Rightarrow> string \<Rightarrow> status_table \<Rightarrow> (retry_info \<times> rat) option \<times> status_table" where
  "get_status now key tab =
     (case map_of tab key of
        None \<Rightarrow> (None, tab)
      | Some st \<Rightarrow>
          (let remaining = i_resume_at st - now
           in if remaining < - 600 then (None, dict_pop key tab) else (Some (st, max 0 remaining), tab)))"

section \<open>Retries are bounded\<close>

lemma retry_delay_cap: "retry_delay j e n b kind \<le> delay_cap kind"
  unfolding retry_delay_def Let_def by (rule min.cobounded2)

lemma delay_cap_le: "delay_cap kind \<le> 120"
  by (simp add: delay_cap_def)

text \<open>The cases of one attempt: it ends the run with the chunks of its call, or delivered nothing and goes on.\<close>

lemma attempt_cases:
  obtains (cannot) e where "generate_with_retry h world ov a m =
      \<lparr>r_called = [], r_chunks = [], r_delays = [], r_outcome = CannotResolve e\<rparr>"
  | (ends) d out where "generate_with_retry h world ov a m = one_call d (fst (w_call (world a) d)) out"
  | (again) d m' delay where "a < retry_count h" "fst (w_call (world a) d) = []" "delay \<le> 120"
      "generate_with_retry h world ov a m = after_retry d delay (generate_with_retry h world ov (Suc a) m')"
proof (cases "resolve_delegate h (w_registry (world a)) ov m")
  case (Inl e)
  then show ?thesis using cannot by (simp add: generate_with_retry.simps [of h world ov a])
next
  case (Inr p)
  obtain d m' where p: "p = (d, m')" by fastforce
  obtain cs fin where c: "w_call (world a) d = (cs, fin)" by fastforce
  note step = generate_with_retry.simps [of h world ov a m, unfolded Inr p sum.case prod.case c Let_def]
  show ?thesis
  proof (cases fin)
    case Finished
    then show ?thesis using ends [of d Answered] step c by simp
  next
    case Cancelled
    then show ?thesis using ends [of d Aborted] step c by simp
  next
    case (Raised e)
    obtain kind hint where k: "classify_429 (w_now (world a)) e = (kind, hint)" by fastforce
    let ?delay = "retry_delay (w_jitter (world a)) e (Suc a) (retry_base h) kind"
    consider "cs \<noteq> [] \<or> \<not> is_rate_limited e \<or> a \<ge> retry_count h"
      | "cs = []" "is_rate_limited e" "a < retry_count h" "kind = Quota"
      | "cs = []" "is_rate_limited e" "a < retry_count h" "kind \<noteq> Quota" by linarith
    then show ?thesis
    proof cases
      case 1
      then show ?thesis using ends [of d "FailedWith e"] step c Raised by simp
    next
      case 2
      then show ?thesis using ends [of d "QuotaExhausted e hint"] step c Raised k by simp
    next
      case 3
      then have "generate_with_retry h world ov a m = after_retry d ?delay (generate_with_retry h world ov (Suc a) m')"
        using step Raised k by (cases kind) simp_all
      moreover have "?delay \<le> 120" using retry_delay_cap delay_cap_le order_trans by blast
      ultimately show ?thesis using 3(1,3) c by (intro again [of d ?delay m']) simp_all
    qed
  qed
qed

lemma retry_bounds_from:
  "length (r_called (generate_with_retry h world ov a m)) \<le> Suc (retry_count h - a)
   \<and> length (r_delays (generate_with_retry h world ov a m)) \<le> retry_count h - a
   \<and> (\<forall>d \<in> set (r_delays (generate_with_retry h world ov a m)). d \<le> 120)"
proof (induction "retry_count h - a" arbitrary: a m)
  case 0
  then show ?case by (cases rule: attempt_cases [of h world ov a m]) (simp_all add: one_call_def)
next
  case (Suc n)
  show ?case
  proof (cases rule: attempt_cases [of h world ov a m])
    case (again d m' delay)
    have n: "n = retry_count h - Suc a" using Suc.hyps(2) by arith
    have "Suc (retry_count h - Suc a) = retry_count h - a" using again(1) by arith
    then show ?thesis using Suc.hyps(1) [OF n, of m'] again(3,4) by (simp add: after_retry_def)
  qed (simp_all add: one_call_def)
qed

definition delivered_once :: "(nat \<Rightarrow> attempt_world) \<Rightarrow> nat \<Rightarrow> run_result \<Rightarrow> bool" where
  "delivered_once world a r \<longleftrightarrow>
     r_chunks r = concat (map (\<lambda>k. fst (w_call (world (a + k)) (r_called r ! k))) [0..<length (r_called r)])
     \<and> (\<forall>k. Suc k < length (r_called r) \<longrightarrow> fst (w_call (world (a + k)) (r_called r ! k)) = [])"

lemma delivered_once_from: "delivered_once world a (generate_with_retry h world ov a m)"
proof (induction "retry_count h - a" arbitrary: a m)
  case 0
  then show ?case by (cases rule: attempt_cases [of h world ov a m]) (simp_all add: one_call_def delivered_once_def)
next
  case (Suc n)
  show ?case
  proof (cases rule: attempt_cases [of h world ov a m])
    case (again d m' delay)
    let ?r = "generate_with_retry h world ov (Suc a) m'"
    have n: "n = retry_count h - Suc a" using Suc.hyps(2) by arith
    note IH = Suc.hyps(1) [OF n, of m']
    have "[0..<Suc (length (r_called ?r))] = 0 # map Suc [0..<length (r_called ?r)]"
      by (simp add: upt_conv_Cons map_Suc_upt del: upt_Suc)
    then have "concat (map (\<lambda>k. fst (w_call (world (a + k)) ((d # r_called ?r) ! k))) [0..<Suc (length (r_called ?r))]) =
        concat (map (\<lambda>k. fst (w_call (world (Suc a + k)) (r_called ?r ! k))) [0..<length (r_called ?r)])"
      using again(2) by (simp add: comp_def del: upt_Suc)
    moreover have "fst (w_call (world (a + k)) ((d # r_called ?r) ! k)) = []" if "Suc k < length (d # r_called ?r)" for k
      using that again(2) IH by (cases k) (simp_all add: delivered_once_def)
    ultimately show ?thesis using IH again(4) by (simp add: delivered_once_def after_retry_def del: upt_Suc)
  qed (simp_all add: one_call_def delivered_once_def)
qed

section \<open>Pacing\<close>

lemma paced_starts_from:
  assumes "0 < interval"
  shows "length (paced_starts interval last_at nows) = length nows
    \<and> (nows \<noteq> [] \<longrightarrow> last_at + interval \<le> paced_starts interval last_at nows ! 0)
    \<and> (\<forall>k. Suc k < length nows \<longrightarrow>
         paced_starts interval last_at nows ! k + interval \<le> paced_starts interval last_at nows ! Suc k)
    \<and> (\<forall>k < length nows. nows ! k \<le> paced_starts interval last_at nows ! k)"
proof (induction nows arbitrary: last_at)
  case (Cons now nows)
  let ?s = "max now (last_at + interval)"
  have step: "paced_starts interval last_at (now # nows) = ?s # paced_starts interval ?s nows"
    using assms by (simp add: pace_model_call_def Let_def)
  note IH = Cons.IH [of ?s]
  have "(?s # paced_starts interval ?s nows) ! k + interval \<le> (?s # paced_starts interval ?s nows) ! Suc k"
    if "Suc k < length (now # nows)" for k
    using that IH by (cases k) auto
  moreover have "(now # nows) ! k \<le> (?s # paced_starts interval ?s nows) ! k" if "k < length (now # nows)" for k
    using that IH by (cases k) simp_all
  ultimately show ?case unfolding step using IH by simp
qed simp

section \<open>The registry\<close>

definition registry_ok :: "registry \<Rightarrow> bool" where
  "registry_ok g \<longleftrightarrow>
     distinct (map n_name (g_endpoints g))
     \<and> (case g_active g of None \<Rightarrow> g_endpoints g = [] | Some a \<Rightarrow> a \<in> n_name ` set (g_endpoints g))"

lemma find_endpoint_None: "find_endpoint g name = None \<longleftrightarrow> name \<notin> n_name ` set (g_endpoints g)"
  by (auto simp: find_endpoint_def find_None_iff)

lemma find_endpoint_Some: "find_endpoint g name = Some e \<Longrightarrow> e \<in> set (g_endpoints g) \<and> n_name e = name"
  using find_Some_D [of "\<lambda>e. n_name e = name" "g_endpoints g" e] by (simp add: find_endpoint_def)

lemma upsert_ok: "registry_ok g \<Longrightarrow> registry_ok (upsert cfg g)"
  by (auto simp: registry_ok_def upsert_def distinct_map_filter split: option.splits)

lemma remove_ok: "registry_ok g \<Longrightarrow> remove_endpoint name g = Inr g' \<Longrightarrow> registry_ok g'"
  by (auto simp: registry_ok_def remove_endpoint_def distinct_map_filter split: option.splits if_splits)

lemma activate_ok: "registry_ok g \<Longrightarrow> activate h name g = Inr g' \<Longrightarrow> registry_ok g'"
  using find_endpoint_None [of g name]
  by (auto simp: registry_ok_def activate_def split: option.splits if_splits)

lemma seed_ok: "registry_ok g \<Longrightarrow> registry_ok (seed_default cfg g)"
  by (auto simp: registry_ok_def seed_default_def)

lemma ok_has_active: "registry_ok g \<Longrightarrow> get_active g = None \<longleftrightarrow> g_endpoints g = []"
  using find_endpoint_None [of g] by (auto simp: registry_ok_def get_active_def split: option.splits)

section \<open>Properties\<close>

text \<open>C34: A rate-limited call is retried a bounded number of times: whatever the provider answers, at most one call
  more than the configured retries is made, no wait is longer than two minutes, and what the caller receives is
  what the last call delivered, since every call before it delivered nothing.\<close>

lemma retries_are_bounded:
  "let r = generate_with_retry h world ov 0 m in
     length (r_called r) \<le> Suc (retry_count h) \<and> length (r_delays r) \<le> retry_count h
     \<and> list_all (\<lambda>d. d \<le> 120) (r_delays r)
     \<and> r_chunks r = concat (map (\<lambda>k. fst (w_call (world k) (r_called r ! k))) [0..<length (r_called r)])
     \<and> list_all (\<lambda>k. fst (w_call (world k) (r_called r ! k)) = []) [0..<length (r_called r) - 1]"
  using retry_bounds_from [of h world ov 0 m] delivered_once_from [of world 0 h ov m]
  by (simp add: delivered_once_def Let_def list_all_iff less_diff_conv)

text \<open>With a minimum interval set, the calls of a process start at least that interval apart, no call starts
  before it was made, and the first keeps the interval from the start claimed before it.\<close>

lemma paced_calls_keep_the_interval:
  assumes "0 < interval" "Suc k < length nows"
  shows "last_at + interval \<le> paced_starts interval last_at nows ! 0
    \<and> paced_starts interval last_at nows ! k + interval \<le> paced_starts interval last_at nows ! Suc k
    \<and> nows ! Suc k \<le> paced_starts interval last_at nows ! Suc k"
proof -
  have "nows \<noteq> []" using assms(2) by auto
  then show ?thesis using paced_starts_from [OF assms(1), of last_at nows] assms(2) by auto
qed

lemma paced_calls_keep_the_interval_witness:
  "paced_starts 2 0 [5, 6, 20] ! 0 + 2 \<le> paced_starts 2 0 [5, 6, 20] ! 1"
  using paced_calls_keep_the_interval [of 2 0 "[5, 6, 20]" 0] by simp

text \<open>The registry stays usable: endpoint names stay distinct and the active name stays that of an endpoint,
  through every add, replace, remove and activate; so a registry that has endpoints always has an active one, and the
  refused removals and activations change nothing.\<close>

lemma registry_always_has_an_active_endpoint:
  assumes "registry_ok g"
  shows "registry_ok (upsert cfg g) \<and> registry_ok (seed_default cfg g)
    \<and> pred_sum (\<lambda>_. True) registry_ok (remove_endpoint name g) \<and> pred_sum (\<lambda>_. True) registry_ok (activate h name g)
    \<and> (get_active g = None \<longleftrightarrow> g_endpoints g = []) \<and> get_active (upsert cfg g) \<noteq> None"
proof -
  have "g_endpoints (upsert cfg g) \<noteq> []" by (simp add: upsert_def)
  then have "get_active (upsert cfg g) \<noteq> None" using ok_has_active [OF upsert_ok [OF assms]] by blast
  moreover have "pred_sum (\<lambda>_. True) registry_ok (remove_endpoint name g)"
    using remove_ok [OF assms] by (cases "remove_endpoint name g") auto
  moreover have "pred_sum (\<lambda>_. True) registry_ok (activate h name g)"
    using activate_ok [OF assms] by (cases "activate h name g") auto
  ultimately show ?thesis using upsert_ok [OF assms] seed_ok [OF assms] ok_has_active [OF assms] by blast
qed

definition local_endpoint :: endpoint where
  "local_endpoint = \<lparr>n_name = ''local'', n_model = ''qwen'', n_api_base = ''http://127.0.0.1:8080/v1'', n_api_key = Some [],
     n_key_env = [], n_max_tokens = None, n_effort = None\<rparr>"

lemma registry_always_has_an_active_endpoint_witness:
  "get_active (upsert (local_endpoint\<lparr>n_name := ''b''\<rparr>) (upsert local_endpoint empty_registry)) \<noteq> None"
proof -
  have "registry_ok empty_registry" by (simp add: registry_ok_def empty_registry_def)
  then have "registry_ok (upsert local_endpoint empty_registry)" by (rule upsert_ok)
  then show ?thesis using registry_always_has_an_active_endpoint by blast
qed

text \<open>An endpoint that could be activated can be called: its delegate is built, or was built before.\<close>

lemma activated_endpoint_resolves:
  assumes "activate h name g = Inr g'" "session_override_cfg ov (Some g') = None"
  shows "\<exists>d m'. resolve_delegate h (Some g') ov m = Inr (d, m')"
proof -
  obtain e where e: "find_endpoint g name = Some e" "requires_key e \<longrightarrow> api_key_present h e" "g' = g\<lparr>g_active := Some name\<rparr>"
    using assms(1) by (auto simp: activate_def split: option.splits if_splits)
  then have "get_active g' = Some e" by (simp add: get_active_def find_endpoint_def)
  moreover have "\<exists>d. build_litellm h (l_floor m) e = Inr d"
    using e(2) by (auto simp: build_litellm_def Let_def api_key_present_def split: option.split)
  then obtain d where "build_litellm h (l_floor m) e = Inr d" by blast
  ultimately show ?thesis using assms(2) by (auto simp: resolve_delegate_def Let_def split: option.split sum.split)
qed

text \<open>Escalation never lowers a cap and never caps what is uncapped.\<close>

lemma effective_cap_keeps: "effective_cap f None = None" "effective_cap f (Some b) = Some c \<Longrightarrow> b \<le> c"
  by (auto simp: effective_cap_def split: option.splits if_splits)

text \<open>
  The cache of delegates is keyed by model, base and key only: after the endpoint's output cap is changed in the registry,
  a process that has used the endpoint keeps calling it with the old cap.
\<close>

definition fresh_llm :: llm where
  "fresh_llm = \<lparr>l_default = None, l_rebuild = (\<lambda>_. None), l_has_factory = False, l_cache = [], l_floor = None,
     l_escalated = None, l_model = []\<rparr>"

lemma changed_cap_is_not_used:
  "(case resolve_delegate plain_host (Some (upsert (local_endpoint\<lparr>n_max_tokens := Some 100\<rparr>) empty_registry)) None fresh_llm of
      Inr (d, m) \<Rightarrow>
        (case resolve_delegate plain_host (Some (upsert (local_endpoint\<lparr>n_max_tokens := Some 9000\<rparr>) empty_registry)) None m of
           Inr (d', _) \<Rightarrow> d' = LiteDelegate ''openai/qwen'' ''http://127.0.0.1:8080/v1'' None (Some 100)
         | Inl _ \<Rightarrow> False)
    | Inl _ \<Rightarrow> False)"
  by code_simp

end
