(* ===== verification/Turns.thy ===== *)
theory Turns
  imports Models
begin

text \<open>
  \<open>service/turns.py\<close>, \<open>service/turn_routes.py\<close> and \<open>plugins/midturn_messages.py\<close>: durable runs. A turn is a task
  that drives the agent to the end of a user's message, whether or not a client is listening; the broker keeps one
  running turn per session, queues the messages sent meanwhile, and starts a follow-up turn for those the agent never saw.

  Concurrency is that of asyncio: the code between two \<open>await\<close>s is one step. The phase of a turn's task is
  the \<open>await\<close> it stands at; \<open>task_step\<close> is a step of the task, \<open>broker_step\<close> a step of the whole. What the
  agent framework does (the events it yields, exceptions, the stored session) is the choice of the step, as are the
  clock and the fresh identifiers. The payload of an event is the event itself (JSON encoding and decoding keep the fields that
  are read). The task of a turn that was already collected, the log, and the framing text around a mid-turn message are
  outside the model.
\<close>

section \<open>Events\<close>

record fn_ref =
  f_id :: "string option"
  f_name :: "string option"

record part =
  pt_text :: "string option"
  pt_thought :: bool
  pt_call :: "fn_ref option"
  pt_response :: "fn_ref option"
  pt_blob :: "nat option"

definition text_part :: "string \<Rightarrow> part" where
  "text_part s = \<lparr>pt_text = Some s, pt_thought = False, pt_call = None, pt_response = None, pt_blob = None\<rparr>"

record event =
  ev_id :: string
  ev_invocation :: string
  ev_author :: string
  ev_partial :: bool
  ev_parts :: "part list"
  ev_long_running :: "string list"
  ev_error_code :: "string option"
  ev_error_message :: "string option"

definition has_name :: "string \<Rightarrow> fn_ref option \<Rightarrow> bool" where
  "has_name n f \<longleftrightarrow> (case f of None \<Rightarrow> False | Some r \<Rightarrow> f_name r = Some n)"

definition is_dangling_handback :: "event \<Rightarrow> bool" where
  "is_dangling_handback e \<longleftrightarrow> list_ex (\<lambda>p. has_name ''_handback_to_coordinator'' (pt_call p)) (ev_parts e)"

definition confirmation_names :: "string list" where
  "confirmation_names = [''adk_request_confirmation'', ''adk_cc_confirmation_form'', ''adk_cc_pending_confirmation'']"

definition is_confirmation_answer :: "part list \<Rightarrow> bool" where
  "is_confirmation_answer msg \<longleftrightarrow>
     msg \<noteq> [] \<and> list_all (\<lambda>p. case pt_response p of
                               None \<Rightarrow> False
                             | Some r \<Rightarrow> list_ex (\<lambda>n. f_name r = Some n) confirmation_names) msg"

text \<open>The runner's resolution of the invocation to resume, as replaced on the runner.\<close>

definition resolve_invocation :: "(part list \<Rightarrow> string option \<Rightarrow> string option) \<Rightarrow> part list \<Rightarrow> string option \<Rightarrow> string option" where
  "resolve_invocation original msg invocation = (if is_confirmation_answer msg then None else original msg invocation)"

definition undelivered_names :: "string list" where
  "undelivered_names = [''adk_cc_pending_confirmation'', ''adk_cc_confirmation_form'']"

definition answered_ids :: "event \<Rightarrow> string list" where
  "answered_ids e =
     concat (map (\<lambda>p. case pt_response p of
                        None \<Rightarrow> []
                      | Some r \<Rightarrow>
                          (case given (f_id r) of
                             None \<Rightarrow> []
                           | Some i \<Rightarrow> if list_ex (\<lambda>n. f_name r = Some n) undelivered_names then [] else [i]))
              (ev_parts e))"

definition visible_text :: "part \<Rightarrow> bool" where
  "visible_text p \<longleftrightarrow> given (pt_text p) \<noteq> None \<and> \<not> pt_thought p"

definition has_model_text :: "event \<Rightarrow> bool" where
  "has_model_text e \<longleftrightarrow> ev_author e \<noteq> ''user'' \<and> \<not> ev_partial e \<and> list_ex visible_text (ev_parts e)"

record error_info =
  er_type :: string
  er_message :: string
  er_rate_limited :: bool
  er_kind :: "limit_kind option"
  er_hint :: "rat option"

definition classify_error :: "rat \<Rightarrow> exn \<Rightarrow> error_info" where
  "classify_error now e =
     (let payload = \<lparr>er_type = x_type e, er_message = take 500 (x_text e), er_rate_limited = False, er_kind = None, er_hint = None\<rparr>;
          cause = (case x_cause e of None \<Rightarrow> e | Some c \<Rightarrow> c)
      in if is_rate_limited cause \<or> is_rate_limited e then
           (let (kind, hint) = classify_429 now cause
            in payload\<lparr>er_rate_limited := True, er_kind := Some kind, er_hint := hint\<rparr>)
         else if contains (x_text e) ''quota exhausted'' then payload\<lparr>er_rate_limited := True, er_kind := Some Quota\<rparr>
         else payload)"

section \<open>Turns\<close>

datatype status = Running | Done | Errored | Stopped

record signals =
  sg_dangling :: bool
  sg_any :: bool
  sg_error :: "error_info option"

definition no_signals :: signals where
  "no_signals = \<lparr>sg_dangling = False, sg_any = False, sg_error = None\<rparr>"

datatype phase = NotStarted | Starting | InRound nat signals | Probing nat | Sweeping "string list" | TaskOver

type_synonym session_key = "string \<times> string \<times> string"

type_synonym delta = "(string \<times> string) list option"

record turn =
  u_id :: string
  u_key :: session_key
  u_message :: "part list"
  u_delta :: delta
  u_status :: status
  u_error :: "error_info option"
  u_events :: "event list"
  u_model_events :: nat
  u_started :: rat
  u_finished :: "rat option"
  u_phase :: phase
  u_cancel :: bool
  u_prune :: "part list option"
  u_tool :: "(string \<times> rat) option"
  u_calls :: "(string \<times> string) list"
  u_authors :: "(string \<times> string) list"
  u_queue :: "(string \<times> string) list"
  u_accepting :: bool
  u_followup :: "string option"

definition new_turn :: "rat \<Rightarrow> string \<Rightarrow> session_key \<Rightarrow> part list \<Rightarrow> delta \<Rightarrow> turn" where
  "new_turn now tid key msg delta =
     \<lparr>u_id = tid, u_key = key, u_message = msg, u_delta = delta, u_status = Running, u_error = None, u_events = [],
      u_model_events = 0, u_started = now, u_finished = None, u_phase = NotStarted, u_cancel = False, u_prune = None,
      u_tool = None, u_calls = [], u_authors = [], u_queue = [], u_accepting = True, u_followup = None\<rparr>"

definition or_empty :: "string option \<Rightarrow> string" where
  "or_empty x = (case x of None \<Rightarrow> [] | Some s \<Rightarrow> s)"

definition track_call :: "rat \<Rightarrow> string \<Rightarrow> part \<Rightarrow> turn \<Rightarrow> turn" where
  "track_call now author p t =
     (case pt_call p of
        None \<Rightarrow> t
      | Some fc \<Rightarrow>
          (case given (f_name fc) of
             None \<Rightarrow> t
           | Some n \<Rightarrow>
               t\<lparr>u_calls := dict_put (or_empty (f_id fc)) n (u_calls t),
                 u_authors := dict_put (or_empty (f_id fc)) (if author = [] then ''coordinator'' else author) (u_authors t),
                 u_tool := Some (n, now)\<rparr>))"

definition track_response :: "rat \<Rightarrow> part \<Rightarrow> turn \<Rightarrow> turn" where
  "track_response now p t =
     (case pt_response p of
        None \<Rightarrow> t
      | Some fr \<Rightarrow>
          (case given (f_name fr) of
             None \<Rightarrow> t
           | Some _ \<Rightarrow>
               (let calls = dict_pop (or_empty (f_id fr)) (u_calls t)
                in t\<lparr>u_calls := calls, u_authors := dict_pop (or_empty (f_id fr)) (u_authors t),
                     u_tool := (case calls of
                                  [] \<Rightarrow> None
                                | (_, nxt) # _ \<Rightarrow> if map_option fst (u_tool t) \<noteq> Some nxt then Some (nxt, now) else u_tool t)\<rparr>)))"

definition track_tool :: "rat \<Rightarrow> event \<Rightarrow> turn \<Rightarrow> turn" where
  "track_tool now e t = fold (\<lambda>p t. track_response now p (track_call now (ev_author e) p t)) (ev_parts e) t"

definition push :: "rat \<Rightarrow> event \<Rightarrow> bool \<Rightarrow> turn \<Rightarrow> turn" where
  "push now e authored t =
     track_tool now e
       (t\<lparr>u_events := u_events t @ [e], u_model_events := u_model_events t + (if authored then 1 else 0)\<rparr>)"

definition finish :: "rat \<Rightarrow> status \<Rightarrow> error_info option \<Rightarrow> turn \<Rightarrow> turn" where
  "finish now st err t = t\<lparr>u_accepting := False, u_status := st, u_error := err, u_finished := Some now\<rparr>"

text \<open>
  A subscriber: \<open>obs\<close> lists, for each pass of the loop, the buffer and whether the turn is running when the lock is held, and the
  length of the buffer when the pass ends. The result is the payloads and keep-alives (\<open>None\<close>) yielded, and whether
  the stream ended.
\<close>

fun tail :: "nat \<Rightarrow> ('e list \<times> bool \<times> nat) list \<Rightarrow> 'e option list \<times> bool" where
  "tail i [] = ([], False)"
| "tail i ((events, running, later) # obs) =
     (let chunk = drop i events; i' = i + length chunk
      in if \<not> running \<and> i' \<ge> later then (map Some chunk, True)
         else (let (out, ended) = tail i' obs
               in (map Some chunk @ (if chunk = [] then [None] else []) @ out, ended)))"

record turn_snapshot =
  z_id :: string
  z_status :: status
  z_cursor :: nat
  z_model_events :: nat
  z_session :: string
  z_started :: rat
  z_finished :: "rat option"
  z_error :: "error_info option"
  z_queued :: "(string \<times> string) list"
  z_followup :: "string option"
  z_elapsed :: "rat option"
  z_tool :: "(string \<times> rat) option"
  z_model_status :: "(retry_info \<times> rat) option"

definition status_key :: "session_key \<Rightarrow> string" where
  "status_key k = (case k of (a, u, s) \<Rightarrow> a @ ''/'' @ u @ ''/'' @ s)"

definition snapshot :: "rat \<Rightarrow> status_table \<Rightarrow> turn \<Rightarrow> turn_snapshot" where
  "snapshot now tab t =
     (let live = (u_status t = Running)
      in \<lparr>z_id = u_id t, z_status = u_status t, z_cursor = length (u_events t), z_model_events = u_model_events t,
          z_session = snd (snd (u_key t)), z_started = u_started t, z_finished = u_finished t, z_error = u_error t,
          z_queued = u_queue t, z_followup = u_followup t,
          z_elapsed = (if live then Some (now - u_started t) else None),
          z_tool = (if live then map_option (\<lambda>(n, since). (n, now - since)) (u_tool t) else None),
          z_model_status = (if live then fst (get_status now (status_key (u_key t)) tab) else None)\<rparr>)"

section \<open>The broker\<close>

record broker =
  b_turns :: "(string \<times> turn) list"
  b_latest :: "(session_key \<times> string) list"

definition new_broker :: broker where
  "new_broker = \<lparr>b_turns = [], b_latest = []\<rparr>"

definition get_turn :: "broker \<Rightarrow> string \<Rightarrow> turn option" where
  "get_turn b tid = map_of (b_turns b) tid"

definition latest_for :: "broker \<Rightarrow> session_key \<Rightarrow> turn option" where
  "latest_for b key = (case given (map_of (b_latest b) key) of None \<Rightarrow> None | Some tid \<Rightarrow> get_turn b tid)"

definition put_turn :: "turn \<Rightarrow> broker \<Rightarrow> broker" where
  "put_turn t b = b\<lparr>b_turns := dict_put (u_id t) t (b_turns b)\<rparr>"

definition expired :: "rat \<Rightarrow> turn \<Rightarrow> bool" where
  "expired now t \<longleftrightarrow> (case u_finished t of None \<Rightarrow> False | Some f \<Rightarrow> f \<noteq> 0 \<and> now - f > 600)"

definition collect :: "string \<times> turn \<Rightarrow> broker \<Rightarrow> broker" where
  "collect dead b =
     (case dead of (tid, t) \<Rightarrow>
        b\<lparr>b_turns := dict_pop tid (b_turns b),
          b_latest := (if map_of (b_latest b) (u_key t) = Some tid then dict_pop (u_key t) (b_latest b) else b_latest b)\<rparr>)"

definition gc :: "rat \<Rightarrow> broker \<Rightarrow> broker" where
  "gc now b = fold collect (filter (\<lambda>(tid, t). expired now t) (b_turns b)) b"

datatype broker_error = SessionBusy string | NoPreviousTurn | NothingToRetry status | TurnDidNotClose

definition start ::
  "rat \<Rightarrow> string \<Rightarrow> session_key \<Rightarrow> part list \<Rightarrow> delta \<Rightarrow> broker \<Rightarrow> broker_error + (turn \<times> broker)" where
  "start now tid key msg delta b0 =
     (let b = gc now b0; cur = latest_for b key
      in case cur of
           Some c \<Rightarrow>
             if u_status c = Running then Inl (SessionBusy (u_id c))
             else (let t = (new_turn now tid key msg delta)
                             \<lparr>u_prune := if u_status c = Errored \<and> u_model_events c = 0 then Some (u_message c) else None\<rparr>
                   in Inr (t, b\<lparr>b_turns := dict_put tid t (b_turns b), b_latest := dict_put key tid (b_latest b)\<rparr>))
         | None \<Rightarrow>
             (let t = new_turn now tid key msg delta
              in Inr (t, b\<lparr>b_turns := dict_put tid t (b_turns b), b_latest := dict_put key tid (b_latest b)\<rparr>)))"

datatype enqueued = Queued turn "string \<times> string" | StartedTurn turn

definition add_to_queue :: "(string \<times> string) list \<Rightarrow> turn \<Rightarrow> turn" where
  "add_to_queue items t = t\<lparr>u_queue := u_queue t @ items\<rparr>"

text \<open>The loop of \<open>enqueue\<close>: \<open>idle k\<close> is what the other tasks do during the \<open>k\<close>-th sleep.\<close>

fun enqueue_go ::
  "nat \<Rightarrow> (nat \<Rightarrow> broker \<Rightarrow> broker) \<Rightarrow> rat \<Rightarrow> string \<Rightarrow> string \<Rightarrow> session_key \<Rightarrow> string \<Rightarrow> broker
    \<Rightarrow> broker_error + (enqueued \<times> broker)" where
  "enqueue_go 0 idle now tid qid key text b = Inl TurnDidNotClose"
| "enqueue_go (Suc n) idle now tid qid key text b =
     (case latest_for b key of
        Some cur \<Rightarrow>
          if u_status cur = Running \<and> u_accepting cur then
            (let cur' = add_to_queue [(qid, text)] cur in Inr (Queued cur' (qid, text), put_turn cur' b))
          else if u_status cur \<noteq> Running then
            (case start now tid key [text_part text] None b of
               Inl e \<Rightarrow> Inl e
             | Inr (t, b') \<Rightarrow> Inr (StartedTurn t, b'))
          else enqueue_go n idle now tid qid key text (idle n b)
      | None \<Rightarrow>
          (case start now tid key [text_part text] None b of
             Inl e \<Rightarrow> Inl e
           | Inr (t, b') \<Rightarrow> Inr (StartedTurn t, b')))"

definition enqueue_message ::
  "(nat \<Rightarrow> broker \<Rightarrow> broker) \<Rightarrow> rat \<Rightarrow> string \<Rightarrow> string \<Rightarrow> session_key \<Rightarrow> string \<Rightarrow> broker
    \<Rightarrow> broker_error + (enqueued \<times> broker)" where
  "enqueue_message idle = enqueue_go 100 idle"

definition request_cancel :: "turn \<Rightarrow> turn" where
  "request_cancel t = t\<lparr>u_cancel := True\<rparr>"

text \<open>\<open>start_interrupting\<close>: stop the running turn and take its queue; wait; start with what was taken in front.\<close>

definition interrupt :: "session_key \<Rightarrow> broker \<Rightarrow> (string option \<times> string list) \<times> broker" where
  "interrupt key b =
     (case latest_for b key of
        Some cur \<Rightarrow>
          if u_status cur = Running then
            ((Some (u_id cur), map snd (u_queue cur)),
             put_turn (request_cancel (cur\<lparr>u_accepting := False, u_queue := []\<rparr>)) b)
          else ((None, []), b)
      | None \<Rightarrow> ((None, []), b))"

definition mark_stopped :: "rat \<Rightarrow> string option \<Rightarrow> broker \<Rightarrow> broker" where
  "mark_stopped now stopped b =
     (case stopped of
        None \<Rightarrow> b
      | Some tid \<Rightarrow>
          (case get_turn b tid of
             None \<Rightarrow> b
           | Some t \<Rightarrow> if u_status t = Running then put_turn (finish now Stopped None t) b else b))"

definition start_interrupting ::
  "(broker \<Rightarrow> broker) \<Rightarrow> rat \<Rightarrow> string \<Rightarrow> session_key \<Rightarrow> part list \<Rightarrow> delta \<Rightarrow> broker
    \<Rightarrow> (broker_error + (turn \<times> broker))" where
  "start_interrupting waiting now tid key msg delta b =
     (let ((stopped, carried), b1) = interrupt key b;
          b2 = (if stopped = None then b1 else mark_stopped now stopped (waiting b1))
      in start now tid key (map text_part carried @ msg) delta b2)"

definition abort :: "string \<Rightarrow> broker \<Rightarrow> bool \<times> broker" where
  "abort tid b =
     (case get_turn b tid of
        None \<Rightarrow> (False, b)
      | Some t \<Rightarrow> if u_status t \<noteq> Running then (False, b) else (True, put_turn (request_cancel t) b))"

definition abort_session :: "session_key \<Rightarrow> broker \<Rightarrow> nat \<times> broker" where
  "abort_session key b =
     (let hit = (\<lambda>t. u_key t = key \<and> u_status t = Running)
      in (length (filter (\<lambda>(tid, t). hit t) (b_turns b)),
          b\<lparr>b_turns := map (\<lambda>(tid, t). (tid, if hit t then request_cancel t else t)) (b_turns b)\<rparr>))"

definition retry_last :: "rat \<Rightarrow> string \<Rightarrow> session_key \<Rightarrow> broker \<Rightarrow> broker_error + (turn \<times> broker)" where
  "retry_last now tid key b =
     (case latest_for b key of
        None \<Rightarrow> Inl NoPreviousTurn
      | Some t \<Rightarrow>
          if u_status t = Running then Inl (SessionBusy (u_id t))
          else if u_status t \<noteq> Errored then Inl (NothingToRetry (u_status t))
          else start now tid key (u_message t) (u_delta t) b)"

section \<open>The run of a turn\<close>

fun pending_after :: "event list \<Rightarrow> string list \<times> bool \<Rightarrow> string list \<times> bool" where
  "pending_after [] acc = acc"
| "pending_after (e # es) (pending, answered_last) =
     pending_after es
       (filter (\<lambda>i. \<not> List.member (answered_ids e) i) (pending @ ev_long_running e),
        if answered_ids e \<noteq> [] then True else if has_model_text e then False else answered_last)"

definition answer_needs_reply :: "event list option \<Rightarrow> bool" where
  "answer_needs_reply session =
     (case session of
        None \<Rightarrow> False
      | Some events \<Rightarrow> (let (pending, answered_last) = pending_after events ([], False) in answered_last \<and> pending = []))"

definition texts_of :: "part list \<Rightarrow> string list" where
  "texts_of ps = List.map_filter (\<lambda>p. given (pt_text p)) ps"

text \<open>The event to delete from the session, if the last one is the orphaned message of the failed turn.\<close>

definition prune_orphan :: "bool \<Rightarrow> event list option \<Rightarrow> turn \<Rightarrow> string option" where
  "prune_orphan can_delete session t =
     (case (u_prune t, session) of
        (Some prev, Some events) \<Rightarrow>
          if \<not> can_delete \<or> events = [] then None
          else if ev_author (last events) \<noteq> ''user'' then None
          else if texts_of (ev_parts (last events)) \<noteq> texts_of prev then None
          else Some (ev_id (last events))
      | _ \<Rightarrow> None)"

record interrupted_call =
  c_invocation :: string
  c_author :: string
  c_id :: string
  c_name :: string

definition open_calls :: "turn \<Rightarrow> (string \<times> string) list" where
  "open_calls t =
     filter (\<lambda>(cid, name). cid \<noteq> [] \<and> name \<noteq> ''adk_request_confirmation'' \<and> name \<noteq> ''adk_cc_confirmation_form'') (u_calls t)"

text \<open>The answers appended to the session for the calls an abort cut off, and the turn afterwards; the session is
  \<open>None\<close> when it is missing or cannot be read or written.\<close>

definition close_interrupted_calls :: "event list option \<Rightarrow> turn \<Rightarrow> interrupted_call list \<times> turn" where
  "close_interrupted_calls session t =
     (if open_calls t = [] then ([], t)
      else (case session of
              None \<Rightarrow> ([], t)
            | Some events \<Rightarrow>
                (let invocation = (case List.find (\<lambda>e. ev_invocation e \<noteq> []) (rev events) of None \<Rightarrow> [] | Some e \<Rightarrow> ev_invocation e)
                 in (map (\<lambda>(cid, name).
                            \<lparr>c_invocation = invocation,
                             c_author = (case map_of (u_authors t) cid of None \<Rightarrow> ''coordinator'' | Some a \<Rightarrow> a),
                             c_id = cid, c_name = name\<rparr>) (open_calls t),
                     t\<lparr>u_calls := [], u_authors := []\<rparr>))))"

definition max_continues :: nat where
  "max_continues = 2"

text \<open>What a round is run with: the message and the state change.\<close>

definition round_call :: "turn \<Rightarrow> nat \<Rightarrow> part list \<times> delta" where
  "round_call t r =
     (if r = 0 then (u_message t, u_delta t)
      else ([text_part ''Continue.''], Some [(''temp:adk_cc_auto_continue'', ''True'')]))"

definition signal :: "event \<Rightarrow> signals \<Rightarrow> signals" where
  "signal e sg =
     (let sg1 = sg\<lparr>sg_any := True\<rparr>;
          sg2 = (if is_dangling_handback e then sg1\<lparr>sg_dangling := True\<rparr>
                 else if has_model_text e then sg1\<lparr>sg_dangling := False, sg_error := None\<rparr> else sg1)
      in case given (ev_error_code e) of
           None \<Rightarrow> sg2
         | Some code \<Rightarrow>
             sg2\<lparr>sg_error := Some \<lparr>er_type = code, er_message = take 500 (or_empty (ev_error_message e)),
                                   er_rate_limited = False, er_kind = None, er_hint = None\<rparr>\<rparr>)"

definition sweep :: "turn \<Rightarrow> turn" where
  "sweep t = t\<lparr>u_accepting := False, u_queue := [], u_phase := Sweeping (map snd (u_queue t))\<rparr>"

definition next_round :: "nat \<Rightarrow> turn \<Rightarrow> turn" where
  "next_round r t = (if r < max_continues then t\<lparr>u_phase := InRound (Suc r) no_signals\<rparr> else sweep t)"

definition end_round :: "rat \<Rightarrow> nat \<Rightarrow> signals \<Rightarrow> turn \<Rightarrow> turn" where
  "end_round now r sg t =
     (case sg_error sg of
        Some err \<Rightarrow> (finish now Errored (Some err) t)\<lparr>u_phase := TaskOver\<rparr>
      | None \<Rightarrow>
          if sg_dangling sg then next_round r t
          else if sg_any sg then sweep t
          else t\<lparr>u_phase := Probing r\<rparr>)"

definition take_event :: "rat \<Rightarrow> event \<Rightarrow> nat \<Rightarrow> signals \<Rightarrow> turn \<Rightarrow> turn" where
  "take_event now e r sg t = push now e (ev_author e \<noteq> ''user'') (t\<lparr>u_phase := InRound r (signal e sg)\<rparr>)"

definition stop_task :: "rat \<Rightarrow> event list option \<Rightarrow> turn \<Rightarrow> turn" where
  "stop_task now session t = (finish now Stopped None (snd (close_interrupted_calls session t)))\<lparr>u_phase := TaskOver\<rparr>"

definition fail_task :: "rat \<Rightarrow> exn \<Rightarrow> turn \<Rightarrow> turn" where
  "fail_task now e t = (finish now Errored (Some (classify_error now e)) t)\<lparr>u_phase := TaskOver\<rparr>"

definition awaiting :: "phase \<Rightarrow> bool" where
  "awaiting ph \<longleftrightarrow> ph \<noteq> NotStarted \<and> ph \<noteq> TaskOver"

text \<open>The steps of a task before it closes. A cancellation can reach the task at every \<open>await\<close>, an exception too.\<close>

inductive task_step :: "turn \<Rightarrow> turn \<Rightarrow> bool" where
  begins: "u_phase t = NotStarted \<Longrightarrow> \<not> u_cancel t \<Longrightarrow> task_step t (t\<lparr>u_phase := Starting\<rparr>)"
| never_ran: "u_phase t = NotStarted \<Longrightarrow> u_cancel t \<Longrightarrow> task_step t ((finish now Stopped None t)\<lparr>u_phase := TaskOver\<rparr>)"
| first_round: "u_phase t = Starting \<Longrightarrow> task_step t (t\<lparr>u_phase := InRound 0 no_signals\<rparr>)"
| yields: "u_phase t = InRound r sg \<Longrightarrow> task_step t (take_event now e r sg t)"
| round_ends: "u_phase t = InRound r sg \<Longrightarrow> task_step t (end_round now r sg t)"
| owes_reply: "u_phase t = Probing r \<Longrightarrow> answer_needs_reply session \<Longrightarrow> task_step t (next_round r t)"
| parked: "u_phase t = Probing r \<Longrightarrow> \<not> answer_needs_reply session \<Longrightarrow> task_step t (sweep t)"
| cancelled: "awaiting (u_phase t) \<Longrightarrow> u_cancel t \<Longrightarrow> task_step t (stop_task now session t)"
| raises: "awaiting (u_phase t) \<Longrightarrow> task_step t (fail_task now e t)"

section \<open>Closing and the follow-up\<close>

definition start_followup ::
  "rat \<Rightarrow> string \<Rightarrow> string list \<Rightarrow> turn \<Rightarrow> string list \<Rightarrow> broker \<Rightarrow> broker" where
  "start_followup now tid qids t texts b =
     (case start now tid (u_key t) (map text_part texts) None b of
        Inr (nxt, b') \<Rightarrow> put_turn (t\<lparr>u_followup := Some (u_id nxt)\<rparr>) b'
      | Inl _ \<Rightarrow>
          (case latest_for b (u_key t) of
             None \<Rightarrow> b
           | Some cur \<Rightarrow>
               (let cur' = add_to_queue (zip qids texts) cur
                in if u_id cur = u_id t then put_turn (cur'\<lparr>u_followup := Some (u_id cur)\<rparr>) b
                   else put_turn (t\<lparr>u_followup := Some (u_id cur)\<rparr>) (put_turn cur' b))))"

definition close_turn :: "rat \<Rightarrow> string \<Rightarrow> string list \<Rightarrow> turn \<Rightarrow> string list \<Rightarrow> broker \<Rightarrow> broker" where
  "close_turn now tid qids t leftover b =
     (let t' = (finish now Done None t)\<lparr>u_phase := TaskOver\<rparr>; b' = put_turn t' b
      in if leftover = [] then b' else start_followup now tid qids t' leftover b')"

text \<open>The mid-turn plugin at a model step of the coordinator: the queue is delivered, one user event per message.\<close>

definition delivered_event :: "string \<Rightarrow> string \<Rightarrow> string \<times> string \<Rightarrow> event" where
  "delivered_event eid invocation item =
     \<lparr>ev_id = eid, ev_invocation = invocation, ev_author = ''user'', ev_partial = False, ev_parts = [text_part (snd item)],
      ev_long_running = [], ev_error_code = None, ev_error_message = None\<rparr>"

definition deliver_queue :: "rat \<Rightarrow> (string \<Rightarrow> string) \<Rightarrow> string \<Rightarrow> string \<Rightarrow> string \<Rightarrow> turn \<Rightarrow> turn" where
  "deliver_queue now eid invocation agent session t =
     (if u_queue t = [] \<or> agent \<noteq> ''coordinator'' \<or> session \<noteq> snd (snd (u_key t)) then t
      else fold (\<lambda>item t. push now (delivered_event (eid (fst item)) invocation item) False t) (u_queue t) (t\<lparr>u_queue := []\<rparr>))"

definition withdraw :: "string \<Rightarrow> turn \<Rightarrow> turn option" where
  "withdraw qid t =
     (let q = filter (\<lambda>item. fst item \<noteq> qid) (u_queue t)
      in if length q = length (u_queue t) then None else Some (t\<lparr>u_queue := q\<rparr>))"

section \<open>The HTTP surface\<close>

datatype if_busy = Refuse | JoinQueue | Interrupt

record turn_request =
  q_key :: session_key
  q_parts :: "part list option"
  q_if_busy :: if_busy
  q_delta :: delta

datatype reply = HttpError nat | TurnReply nat turn | QueuedReply turn "string \<times> string" | Withdrawn | AbortReply bool

definition truncate_rat :: "rat \<Rightarrow> int" where
  "truncate_rat r = (if r < 0 then - \<lfloor>- r\<rfloor> else \<lfloor>r\<rfloor>)"

definition inline_cap :: "host \<Rightarrow> int" where
  "inline_cap h =
     truncate_rat ((case environ h ''ADK_CC_TURN_INLINE_MAX_MB'' of
                      None \<Rightarrow> 1
                    | Some raw \<Rightarrow> (case py_float raw of None \<Rightarrow> 1 | Some mb \<Rightarrow> mb)) * 1024 * 1024)"

definition oversized_blobs :: "host \<Rightarrow> part list \<Rightarrow> bool" where
  "oversized_blobs h ps \<longleftrightarrow> int (sum_list (map (\<lambda>p. case pt_blob p of None \<Rightarrow> 0 | Some n \<Rightarrow> n) ps)) > inline_cap h"

definition plain_text :: "part list \<Rightarrow> string option" where
  "plain_text ps =
     (if ps = [] \<or> list_ex (\<lambda>p. pt_text p = None) ps then None
      else Some (join [CHR 0x0A] (map (\<lambda>p. or_empty (pt_text p)) ps)))"

text \<open>What the environment supplies to a request: the host, the other tasks while the request waits, the clock and fresh identifiers.\<close>

record request_env =
  v_host :: host
  v_idle :: "nat \<Rightarrow> broker \<Rightarrow> broker"
  v_waiting :: "broker \<Rightarrow> broker"
  v_now :: rat
  v_turn_id :: string
  v_queue_id :: string

definition start_turn_route :: "request_env \<Rightarrow> string option \<Rightarrow> bool \<Rightarrow> turn_request \<Rightarrow> broker \<Rightarrow> reply \<times> broker" where
  "start_turn_route v auth session_exists q b =
     (if given auth \<noteq> None \<and> auth \<noteq> Some (fst (snd (q_key q))) then (HttpError 403, b)
      else if \<not> session_exists then (HttpError 404, b)
      else (case q_parts q of
              None \<Rightarrow> (HttpError 400, b)
            | Some ps \<Rightarrow>
                if oversized_blobs (v_host v) ps then (HttpError 413, b)
                else (case q_if_busy q of
                        Interrupt \<Rightarrow>
                          (case start_interrupting (v_waiting v) (v_now v) (v_turn_id v) (q_key q) ps (q_delta q) b of
                             Inl _ \<Rightarrow> (HttpError 409, mark_stopped (v_now v) (fst (fst (interrupt (q_key q) b)))
                                                       (v_waiting v (snd (interrupt (q_key q) b))))
                           | Inr (t, b') \<Rightarrow> (TurnReply 201 t, b'))
                      | JoinQueue \<Rightarrow>
                          (case plain_text ps of
                             None \<Rightarrow> (HttpError 400, b)
                           | Some text \<Rightarrow>
                               (case enqueue_message (v_idle v) (v_now v) (v_turn_id v) (v_queue_id v) (q_key q) text b of
                                  Inl _ \<Rightarrow> (HttpError 409, b)
                                | Inr (Queued t item, b') \<Rightarrow> (QueuedReply t item, b')
                                | Inr (StartedTurn t, b') \<Rightarrow> (TurnReply 201 t, b')))
                      | Refuse \<Rightarrow>
                          (case start (v_now v) (v_turn_id v) (q_key q) ps (q_delta q) b of
                             Inl _ \<Rightarrow> (HttpError 409, b)
                           | Inr (t, b') \<Rightarrow> (TurnReply 201 t, b')))))"

text \<open>The other routes do not look at the authenticated user.\<close>

definition withdraw_route :: "string \<Rightarrow> string \<Rightarrow> broker \<Rightarrow> reply \<times> broker" where
  "withdraw_route tid qid b =
     (case get_turn b tid of
        None \<Rightarrow> (HttpError 404, b)
      | Some t \<Rightarrow> (case withdraw qid t of None \<Rightarrow> (HttpError 409, b) | Some t' \<Rightarrow> (Withdrawn, put_turn t' b)))"

definition abort_route :: "string \<Rightarrow> broker \<Rightarrow> reply \<times> broker" where
  "abort_route tid b =
     (case get_turn b tid of
        None \<Rightarrow> (HttpError 404, b)
      | Some t \<Rightarrow> (let (cancelled, b') = abort tid b in (AbortReply cancelled, b')))"

definition retry_route :: "request_env \<Rightarrow> session_key \<Rightarrow> broker \<Rightarrow> reply \<times> broker" where
  "retry_route v key b =
     (case retry_last (v_now v) (v_turn_id v) key b of
        Inl (SessionBusy _) \<Rightarrow> (HttpError 409, b)
      | Inl _ \<Rightarrow> (HttpError 404, b)
      | Inr (t, b') \<Rightarrow> (TurnReply 201 t, b'))"

text \<open>The middleware: a DELETE of \<open>/apps/a/users/u/sessions/s\<close>, with or without a closing slash, aborts the session's turns first.\<close>

definition deleted_session :: "string \<Rightarrow> string \<Rightarrow> session_key option" where
  "deleted_session http_method path =
     (if http_method \<noteq> ''DELETE'' then None
      else (case split_char (CHR ''/'') path of
              r # a # app # u # user # s # sid # rest \<Rightarrow>
                if r = [] \<and> a = ''apps'' \<and> u = ''users'' \<and> s = ''sessions'' \<and> app \<noteq> [] \<and> user \<noteq> [] \<and> sid \<noteq> []
                   \<and> (rest = [] \<or> rest = [[]])
                then Some (app, user, sid) else None
            | _ \<Rightarrow> None))"

definition abort_before_delete :: "string \<Rightarrow> string \<Rightarrow> broker \<Rightarrow> broker" where
  "abort_before_delete http_method path b =
     (case deleted_session http_method path of None \<Rightarrow> b | Some key \<Rightarrow> snd (abort_session key b))"

section \<open>The steps of the whole\<close>

definition fresh :: "string \<Rightarrow> broker \<Rightarrow> bool" where
  "fresh tid b \<longleftrightarrow> tid \<noteq> [] \<and> get_turn b tid = None"

inductive broker_step :: "broker \<Rightarrow> broker \<Rightarrow> bool" where
  starts: "fresh tid b \<Longrightarrow> start now tid key msg delta b = Inr (t, b') \<Longrightarrow> broker_step b b'"
| queues: "latest_for b key = Some t \<Longrightarrow> u_status t = Running \<Longrightarrow> u_accepting t \<Longrightarrow>
    broker_step b (put_turn (add_to_queue [item] t) b)"
| interrupts: "broker_step b (snd (interrupt key b))"
| marks: "get_turn b tid = Some t \<Longrightarrow> u_cancel t \<Longrightarrow> broker_step b (mark_stopped now (Some tid) b)"
| aborts: "broker_step b (snd (abort tid b))"
| aborts_session: "broker_step b (snd (abort_session key b))"
| withdraws: "get_turn b tid = Some t \<Longrightarrow> withdraw qid t = Some t' \<Longrightarrow> broker_step b (put_turn t' b)"
| delivers: "get_turn b tid = Some t \<Longrightarrow> u_phase t = InRound r sg \<Longrightarrow>
    broker_step b (put_turn (deliver_queue now eid invocation agent session t) b)"
| runs: "get_turn b tid = Some t \<Longrightarrow> task_step t t' \<Longrightarrow> broker_step b (put_turn t' b)"
| closes: "get_turn b tid = Some t \<Longrightarrow> u_phase t = Sweeping leftover \<Longrightarrow> fresh tid' b \<Longrightarrow>
    broker_step b (close_turn now tid' qids t leftover b)"

inductive reachable :: "broker \<Rightarrow> bool" where
  init: "reachable new_broker"
| step: "reachable b \<Longrightarrow> broker_step b b' \<Longrightarrow> reachable b'"

section \<open>What a step of a turn keeps\<close>

named_theorems turn_keeps "fields an operation leaves alone"

lemma track_call_keeps [turn_keeps]:
  "u_id (track_call now a p t) = u_id t" "u_key (track_call now a p t) = u_key t"
  "u_message (track_call now a p t) = u_message t" "u_status (track_call now a p t) = u_status t"
  "u_events (track_call now a p t) = u_events t" "u_model_events (track_call now a p t) = u_model_events t"
  "u_finished (track_call now a p t) = u_finished t" "u_phase (track_call now a p t) = u_phase t"
  "u_queue (track_call now a p t) = u_queue t" "u_accepting (track_call now a p t) = u_accepting t"
  "u_cancel (track_call now a p t) = u_cancel t"
  by (simp_all add: track_call_def split: option.split)

lemma track_response_keeps [turn_keeps]:
  "u_id (track_response now p t) = u_id t" "u_key (track_response now p t) = u_key t"
  "u_message (track_response now p t) = u_message t" "u_status (track_response now p t) = u_status t"
  "u_events (track_response now p t) = u_events t" "u_model_events (track_response now p t) = u_model_events t"
  "u_finished (track_response now p t) = u_finished t" "u_phase (track_response now p t) = u_phase t"
  "u_queue (track_response now p t) = u_queue t" "u_accepting (track_response now p t) = u_accepting t"
  "u_cancel (track_response now p t) = u_cancel t"
  by (simp_all add: track_response_def Let_def split: option.split)

lemma fold_keeps: "(\<And>p t. f (g p t) = f t) \<Longrightarrow> f (fold g ps t) = f t"
  by (induction ps arbitrary: t) simp_all

lemma push_keeps [turn_keeps]:
  "u_id (push now e m t) = u_id t" "u_key (push now e m t) = u_key t" "u_message (push now e m t) = u_message t"
  "u_status (push now e m t) = u_status t" "u_finished (push now e m t) = u_finished t"
  "u_phase (push now e m t) = u_phase t" "u_queue (push now e m t) = u_queue t"
  "u_accepting (push now e m t) = u_accepting t" "u_cancel (push now e m t) = u_cancel t"
  by (simp_all add: push_def track_tool_def fold_keeps turn_keeps)

lemma push_events [turn_keeps]:
  "u_events (push now e m t) = u_events t @ [e]"
  "u_model_events (push now e m t) = u_model_events t + (if m then 1 else 0)"
  by (simp_all add: push_def track_tool_def fold_keeps turn_keeps)

definition calls_ok :: "turn \<Rightarrow> bool" where
  "calls_ok t \<longleftrightarrow> distinct (map fst (u_calls t)) \<and> fst ` set (u_calls t) = fst ` set (u_authors t)"

lemma calls_ok_push: "calls_ok t \<Longrightarrow> calls_ok (push now e m t)"
proof -
  have step: "calls_ok (track_response now p (track_call now a p t))" if "calls_ok t" for a p t
    using that distinct_dict_put [of "u_calls t"]
    by (auto simp: calls_ok_def track_call_def track_response_def Let_def distinct_dict_put distinct_dict_pop split: option.split)
  have "calls_ok (fold (\<lambda>p t. track_response now p (track_call now a p t)) ps t)" if "calls_ok t" for a ps t
    using that by (induction ps arbitrary: t) (simp_all add: step)
  then show "calls_ok t \<Longrightarrow> calls_ok (push now e m t)" by (simp add: push_def track_tool_def calls_ok_def)
qed

definition authored :: "event list \<Rightarrow> nat" where
  "authored es = length (filter (\<lambda>e. ev_author e \<noteq> ''user'') es)"

definition rounds_ok :: "phase \<Rightarrow> bool" where
  "rounds_ok ph \<longleftrightarrow> (case ph of InRound r _ \<Rightarrow> r \<le> max_continues | Probing r \<Rightarrow> r \<le> max_continues | _ \<Rightarrow> True)"

definition turn_ok :: "turn \<Rightarrow> bool" where
  "turn_ok t \<longleftrightarrow>
     (u_accepting t \<longrightarrow> u_status t = Running) \<and> (u_status t = Running \<longleftrightarrow> u_finished t = None)
     \<and> (u_phase t = TaskOver \<longrightarrow> u_status t \<noteq> Running) \<and> rounds_ok (u_phase t)
     \<and> u_model_events t = authored (u_events t) \<and> calls_ok t"

text \<open>\<open>t'\<close> is a later state of \<open>t\<close>: events are only added, and an ended turn does not run again.\<close>

definition later :: "turn \<Rightarrow> turn \<Rightarrow> bool" where
  "later t t' \<longleftrightarrow>
     u_id t' = u_id t \<and> u_key t' = u_key t \<and> u_message t' = u_message t
     \<and> (\<exists>es. u_events t' = u_events t @ es) \<and> (u_status t \<noteq> Running \<longrightarrow> u_status t' \<noteq> Running)"

lemma later_refl: "later t t"
  by (simp add: later_def)

lemma later_trans: "later t u \<Longrightarrow> later u v \<Longrightarrow> later t v"
  by (auto simp: later_def)

named_theorems turn_defs "what the operations of a turn do to it"

lemmas turn_ops [turn_defs] =
  finish_def sweep_def next_round_def end_round_def take_event_def stop_task_def fail_task_def
  add_to_queue_def request_cancel_def close_interrupted_calls_def

lemma finish_ok: "turn_ok t \<Longrightarrow> st \<noteq> Running \<Longrightarrow> turn_ok (finish now st err t)"
  by (simp add: turn_ok_def finish_def calls_ok_def)

lemma over_ok: "turn_ok t \<Longrightarrow> st \<noteq> Running \<Longrightarrow> turn_ok ((finish now st err t)\<lparr>u_phase := TaskOver\<rparr>)"
  by (simp add: turn_ok_def finish_def rounds_ok_def calls_ok_def)

lemma phase_ok: "turn_ok t \<Longrightarrow> rounds_ok ph \<Longrightarrow> ph \<noteq> TaskOver \<Longrightarrow> turn_ok (t\<lparr>u_phase := ph\<rparr>)"
  by (simp add: turn_ok_def calls_ok_def)

lemma sweep_ok: "turn_ok t \<Longrightarrow> turn_ok (sweep t)"
  by (simp add: turn_ok_def sweep_def rounds_ok_def calls_ok_def)

lemma queue_ok: "turn_ok t \<Longrightarrow> turn_ok (t\<lparr>u_queue := q\<rparr>)"
  by (auto simp: turn_ok_def calls_ok_def)

lemma push_ok: "turn_ok t \<Longrightarrow> turn_ok (push now e (ev_author e \<noteq> ''user'') t)"
  using calls_ok_push [of t now e] by (auto simp: turn_ok_def turn_keeps authored_def)

lemma next_round_ok: "turn_ok t \<Longrightarrow> rounds_ok (Probing r) \<Longrightarrow> turn_ok (next_round r t)"
  by (simp add: next_round_def sweep_ok phase_ok rounds_ok_def)

lemma closed_calls_ok: "turn_ok t \<Longrightarrow> turn_ok (snd (close_interrupted_calls session t))"
  by (auto simp: close_interrupted_calls_def turn_ok_def calls_ok_def split: option.split)

lemma task_step_ok: "task_step t t' \<Longrightarrow> turn_ok t \<Longrightarrow> turn_ok t'"
proof (induction rule: task_step.induct)
  case (begins t)
  then show ?case by (simp add: phase_ok rounds_ok_def)
next
  case (never_ran t now)
  then show ?case by (simp add: over_ok)
next
  case (first_round t)
  then show ?case by (simp add: phase_ok rounds_ok_def)
next
  case (yields t r sg now e)
  then have "rounds_ok (InRound r sg)" by (simp add: turn_ok_def)
  then show ?case using yields(2) by (simp add: take_event_def push_ok phase_ok rounds_ok_def)
next
  case (round_ends t r sg now)
  then have r: "rounds_ok (Probing r)" by (simp add: turn_ok_def rounds_ok_def)
  then show ?case
    using round_ends(2) by (simp add: end_round_def over_ok next_round_ok sweep_ok phase_ok split: option.split)
next
  case (owes_reply t r session)
  then have "rounds_ok (Probing r)" by (simp add: turn_ok_def)
  then show ?case using owes_reply(3) by (simp add: next_round_ok)
next
  case (parked t r session)
  then show ?case by (simp add: sweep_ok)
next
  case (cancelled t now session)
  then show ?case by (simp add: stop_task_def over_ok closed_calls_ok)
next
  case (raises t now e)
  then show ?case by (simp add: fail_task_def over_ok)
qed

lemma task_step_later: "task_step t t' \<Longrightarrow> later t t'"
  by (induction rule: task_step.induct)
    (auto simp: later_def turn_ops turn_keeps split: option.split)

section \<open>The invariant of the broker\<close>

definition broker_ok :: "broker \<Rightarrow> bool" where
  "broker_ok b \<longleftrightarrow>
     distinct (map fst (b_turns b))
     \<and> (\<forall>tid t. get_turn b tid = Some t \<longrightarrow>
          u_id t = tid \<and> tid \<noteq> [] \<and> turn_ok t \<and> (u_status t = Running \<longrightarrow> map_of (b_latest b) (u_key t) = Some tid))
     \<and> (\<forall>key tid. map_of (b_latest b) key = Some tid \<longrightarrow> (\<exists>t. get_turn b tid = Some t \<and> u_key t = key))"

lemma broker_okD:
  assumes "broker_ok b" "get_turn b tid = Some t"
  shows "u_id t = tid" "tid \<noteq> []" "turn_ok t" "u_status t = Running \<Longrightarrow> map_of (b_latest b) (u_key t) = Some tid"
  using assms by (auto simp: broker_ok_def)

lemma broker_ok_latest:
  "broker_ok b \<Longrightarrow> map_of (b_latest b) key = Some tid \<Longrightarrow> \<exists>t. get_turn b tid = Some t \<and> u_key t = key"
  unfolding broker_ok_def by blast

lemma broker_okI:
  assumes "distinct (map fst (b_turns b))"
    and "\<And>tid t. get_turn b tid = Some t \<Longrightarrow>
        u_id t = tid \<and> tid \<noteq> [] \<and> turn_ok t \<and> (u_status t = Running \<longrightarrow> map_of (b_latest b) (u_key t) = Some tid)"
    and "\<And>key tid. map_of (b_latest b) key = Some tid \<Longrightarrow> \<exists>t. get_turn b tid = Some t \<and> u_key t = key"
  shows "broker_ok b"
  unfolding broker_ok_def using assms by blast

lemma latest_forD:
  assumes "broker_ok b" "latest_for b key = Some t"
  shows "get_turn b (u_id t) = Some t" "u_key t = key" "map_of (b_latest b) key = Some (u_id t)"
proof -
  obtain tid where tid: "map_of (b_latest b) key = Some tid" "get_turn b tid = Some t"
    using assms(2) by (auto simp: latest_for_def given_def split: option.splits if_splits)
  moreover have "u_id t = tid" using broker_okD(1) [OF assms(1) tid(2)] .
  moreover have "u_key t = key" using broker_ok_latest [OF assms(1) tid(1)] tid(2) by simp
  ultimately show "get_turn b (u_id t) = Some t" "u_key t = key" "map_of (b_latest b) key = Some (u_id t)" by simp_all
qed

lemma latest_for_running:
  assumes "broker_ok b" "get_turn b tid = Some t" "u_status t = Running"
  shows "latest_for b (u_key t) = Some t"
  using broker_okD [OF assms(1,2)] assms(2,3) by (simp add: latest_for_def given_def)

lemma get_put [simp]: "get_turn (put_turn t b) tid = (if tid = u_id t then Some t else get_turn b tid)"
  by (simp add: get_turn_def put_turn_def)

lemma latest_put [simp]: "b_latest (put_turn t b) = b_latest b"
  by (simp add: put_turn_def)

lemma put_ok:
  assumes "broker_ok b" "get_turn b (u_id t) = Some t" "turn_ok t'" "later t t'"
  shows "broker_ok (put_turn t' b)"
proof -
  have id: "u_id t' = u_id t" "u_key t' = u_key t" using assms(4) by (simp_all add: later_def)
  have run: "u_status t' = Running \<Longrightarrow> u_status t = Running" using assms(4) by (auto simp: later_def)
  show ?thesis
  proof (rule broker_okI)
    show "distinct (map fst (b_turns (put_turn t' b)))"
      using assms(1) by (simp add: broker_ok_def put_turn_def distinct_dict_put)
  next
    fix tid u assume u: "get_turn (put_turn t' b) tid = Some u"
    show "u_id u = tid \<and> tid \<noteq> [] \<and> turn_ok u \<and> (u_status u = Running \<longrightarrow> map_of (b_latest (put_turn t' b)) (u_key u) = Some tid)"
    proof (cases "tid = u_id t")
      case True
      then show ?thesis using u broker_okD [OF assms(1,2)] assms(3) id run by simp
    next
      case False
      then have "get_turn b tid = Some u" using u id by simp
      then show ?thesis using broker_okD [OF assms(1), of tid u] by simp
    qed
  next
    fix key tid assume "map_of (b_latest (put_turn t' b)) key = Some tid"
    then obtain u where "get_turn b tid = Some u" "u_key u = key" using broker_ok_latest [OF assms(1), of key tid] by auto
    then show "\<exists>u. get_turn (put_turn t' b) tid = Some u \<and> u_key u = key" using assms(2) id by (cases "tid = u_id t") auto
  qed
qed

lemma collect_get: "get_turn (collect (tid, t) b) k = (if k = tid then None else get_turn b k)"
  by (simp add: collect_def get_turn_def)

lemma collect_latest:
  "map_of (b_latest (collect (tid, t) b)) key =
     (if key = u_key t \<and> map_of (b_latest b) key = Some tid then None else map_of (b_latest b) key)"
  by (auto simp: collect_def)

lemma collect_ok:
  assumes "broker_ok b" "get_turn b tid = Some t" "u_status t \<noteq> Running"
  shows "broker_ok (collect (tid, t) b)"
proof (rule broker_okI)
  show "distinct (map fst (b_turns (collect (tid, t) b)))"
    using assms(1) by (simp add: broker_ok_def collect_def distinct_dict_pop)
next
  fix k u assume u: "get_turn (collect (tid, t) b) k = Some u"
  then have "k \<noteq> tid" "get_turn b k = Some u" by (simp_all add: collect_get split: if_splits)
  then show "u_id u = k \<and> k \<noteq> [] \<and> turn_ok u \<and> (u_status u = Running \<longrightarrow> map_of (b_latest (collect (tid, t) b)) (u_key u) = Some k)"
    using broker_okD [OF assms(1), of k u] by (simp add: collect_latest)
next
  fix key k assume k: "map_of (b_latest (collect (tid, t) b)) key = Some k"
  then have "map_of (b_latest b) key = Some k" by (auto simp: collect_latest split: if_splits)
  then obtain u where u: "get_turn b k = Some u" "u_key u = key" using broker_ok_latest [OF assms(1)] by blast
  then have "k \<noteq> tid" using k assms(2) by (auto simp: collect_latest split: if_splits)
  then show "\<exists>u. get_turn (collect (tid, t) b) k = Some u \<and> u_key u = key" using u by (simp add: collect_get)
qed

lemma expired_ended: "turn_ok t \<Longrightarrow> expired now t \<Longrightarrow> u_status t \<noteq> Running"
  by (auto simp: turn_ok_def expired_def split: option.splits)

lemma gc_list:
  assumes "broker_ok b" "distinct (map fst ds)" "\<forall>d \<in> set ds. get_turn b (fst d) = Some (snd d) \<and> u_status (snd d) \<noteq> Running"
  shows "broker_ok (fold collect ds b)
    \<and> (\<forall>k. get_turn (fold collect ds b) k = (if k \<in> fst ` set ds then None else get_turn b k))"
  using assms
proof (induction ds arbitrary: b)
  case (Cons d ds)
  obtain tid t where d: "d = (tid, t)" by fastforce
  let ?b = "collect (tid, t) b"
  have ok: "broker_ok ?b" using collect_ok [OF Cons.prems(1), of tid t] Cons.prems(3) d by simp
  have "distinct (map fst ds)" "\<forall>d \<in> set ds. get_turn ?b (fst d) = Some (snd d) \<and> u_status (snd d) \<noteq> Running"
    using Cons.prems(2,3) d by (auto simp: collect_get)
  then show ?case using Cons.IH [OF ok] d by (auto simp: collect_get)
qed simp

lemma gc_dead:
  assumes "broker_ok b"
  shows "\<forall>d \<in> set (filter (\<lambda>(tid, t). expired now t) (b_turns b)). get_turn b (fst d) = Some (snd d) \<and> u_status (snd d) \<noteq> Running"
proof
  fix d assume d: "d \<in> set (filter (\<lambda>(tid, t). expired now t) (b_turns b))"
  then have g: "get_turn b (fst d) = Some (snd d)" using assms by (auto simp: get_turn_def broker_ok_def)
  then show "get_turn b (fst d) = Some (snd d) \<and> u_status (snd d) \<noteq> Running"
    using d expired_ended [OF broker_okD(3) [OF assms g]] by auto
qed

lemma gc_ok:
  assumes "broker_ok b"
  shows "broker_ok (gc now b)"
    and "get_turn (gc now b) k = (case get_turn b k of None \<Rightarrow> None | Some t \<Rightarrow> if expired now t then None else Some t)"
proof -
  let ?ds = "filter (\<lambda>(tid, t). expired now t) (b_turns b)"
  have dist: "distinct (map fst (b_turns b))" using assms by (simp add: broker_ok_def)
  then have "distinct (map fst ?ds)" by (simp add: distinct_map_filter)
  note g = gc_list [OF assms this gc_dead [OF assms], folded gc_def]
  show "broker_ok (gc now b)" using g by blast
  have "k \<in> fst ` set ?ds \<longleftrightarrow> (\<exists>t. get_turn b k = Some t \<and> expired now t)"
    using dist by (force simp: get_turn_def)
  then show "get_turn (gc now b) k = (case get_turn b k of None \<Rightarrow> None | Some t \<Rightarrow> if expired now t then None else Some t)"
    using g by (auto split: option.split)
qed

lemma collected_latest: "map_of (b_latest (fold collect ds b)) key = Some i \<Longrightarrow> map_of (b_latest b) key = Some i"
proof (induction ds arbitrary: b)
  case (Cons d ds)
  then have "map_of (b_latest (collect (fst d, snd d) b)) key = Some i" by simp
  then show ?case unfolding collect_latest by (simp split: if_splits)
qed simp

text \<open>What \<open>start\<close> does, in terms of the broker it is called on.\<close>

lemma gc_latest:
  assumes "broker_ok b" "latest_for (gc now b) key = Some t"
  shows "latest_for b key = Some t"
proof -
  have g: "broker_ok (gc now b)" by (rule gc_ok(1) [OF assms(1)])
  have "get_turn (gc now b) (u_id t) = Some t" "u_key t = key" "map_of (b_latest (gc now b)) key = Some (u_id t)"
    using latest_forD [OF g assms(2)] by simp_all
  moreover have "get_turn b (u_id t) = Some t" using calculation(1) gc_ok(2) [OF assms(1)] by (simp split: option.splits if_splits)
  moreover have "map_of (b_latest b) key = Some (u_id t)" using calculation(3) collected_latest unfolding gc_def by blast
  ultimately show ?thesis using broker_okD(2) [OF assms(1)] by (simp add: latest_for_def given_def)
qed

lemma gc_running:
  assumes "broker_ok b" "get_turn b tid = Some t" "u_status t = Running"
  shows "get_turn (gc now b) tid = Some t" "latest_for (gc now b) (u_key t) = Some t"
proof -
  have "\<not> expired now t" using expired_ended [OF broker_okD(3) [OF assms(1,2)]] assms(3) by blast
  then show g: "get_turn (gc now b) tid = Some t" using gc_ok(2) [OF assms(1)] assms(2) by simp
  show "latest_for (gc now b) (u_key t) = Some t" by (rule latest_for_running [OF gc_ok(1) [OF assms(1)] g assms(3)])
qed

lemma start_busy:
  assumes "broker_ok b"
  shows "(\<exists>e. start now tid key msg delta b = Inl e) \<longleftrightarrow> (\<exists>t. latest_for b key = Some t \<and> u_status t = Running)"
proof
  assume "\<exists>e. start now tid key msg delta b = Inl e"
  then obtain c where "latest_for (gc now b) key = Some c" "u_status c = Running"
    by (auto simp: start_def Let_def split: option.splits if_splits)
  then show "\<exists>t. latest_for b key = Some t \<and> u_status t = Running" using gc_latest [OF assms] by blast
next
  assume "\<exists>t. latest_for b key = Some t \<and> u_status t = Running"
  then obtain t where t: "latest_for b key = Some t" "u_status t = Running" by blast
  then have "latest_for (gc now b) key = Some t"
    using gc_running(2) [OF assms latest_forD(1) [OF assms t(1)] t(2)] latest_forD(2) [OF assms t(1)] by simp
  then show "\<exists>e. start now tid key msg delta b = Inl e" using t(2) by (simp add: start_def)
qed

lemma start_turn:
  assumes "start now tid key msg delta b = Inr (t, b')"
  shows "u_id t = tid" "u_key t = key" "u_message t = msg" "u_status t = Running" "turn_ok t" "u_queue t = []" "u_accepting t"
    "get_turn b' tid = Some t" "map_of (b_latest b') key = Some tid"
    "k \<noteq> tid \<Longrightarrow> get_turn b' k = get_turn (gc now b) k"
    "key' \<noteq> key \<Longrightarrow> map_of (b_latest b') key' = map_of (b_latest (gc now b)) key'"
    "b_turns b' = dict_put tid t (b_turns (gc now b))"
  using assms
  by (auto simp: start_def Let_def new_turn_def get_turn_def turn_ok_def rounds_ok_def authored_def calls_ok_def
      split: option.splits if_splits)

lemma start_ok:
  assumes "broker_ok b" "fresh tid b" "start now tid key msg delta b = Inr (t, b')"
  shows "broker_ok b'"
proof -
  note g = gc_ok(1) [OF assms(1), of now] and t = start_turn [OF assms(3)]
  have idle: "u_status u \<noteq> Running" if "get_turn (gc now b) k = Some u" "u_key u = key" for k u
    using latest_for_running [OF g that(1)] that(2) assms(3) by (auto simp: start_def Let_def split: if_splits)
  have new: "get_turn (gc now b) tid = None" using assms(2) gc_ok(2) [OF assms(1)] by (simp add: fresh_def)
  show ?thesis
  proof (rule broker_okI)
    show "distinct (map fst (b_turns b'))" using g t(12) by (simp add: broker_ok_def distinct_dict_put)
  next
    fix k u assume k: "get_turn b' k = Some u"
    show "u_id u = k \<and> k \<noteq> [] \<and> turn_ok u \<and> (u_status u = Running \<longrightarrow> map_of (b_latest b') (u_key u) = Some k)"
    proof (cases "k = tid")
      case True
      then show ?thesis using t k assms(2) by (simp add: fresh_def)
    next
      case False
      then have u: "get_turn (gc now b) k = Some u" using t(10) k by simp
      show ?thesis using broker_okD [OF g u] idle [OF u] t(11) [of "u_key u"] by (cases "u_key u = key") auto
    qed
  next
    fix key' k assume k: "map_of (b_latest b') key' = Some k"
    show "\<exists>u. get_turn b' k = Some u \<and> u_key u = key'"
    proof (cases "key' = key")
      case True
      then show ?thesis using t k by simp
    next
      case False
      then have "map_of (b_latest (gc now b)) key' = Some k" using t(11) k by simp
      then obtain u where u: "get_turn (gc now b) k = Some u" "u_key u = key'" using broker_ok_latest [OF g] by blast
      then have "k \<noteq> tid" using new by auto
      then show ?thesis using t(10) [of k] u by simp
    qed
  qed
qed

section \<open>Every step keeps the invariant and the history\<close>

lemma small_steps_later:
  "later t (add_to_queue items t)" "later t (request_cancel t)" "st \<noteq> Running \<Longrightarrow> later t (finish now st err t)"
  "later t (t\<lparr>u_queue := q\<rparr>)" "later t (t\<lparr>u_followup := fu\<rparr>)" "later t (t\<lparr>u_accepting := False, u_queue := []\<rparr>)"
  "later t (push now e m t)"
  by (auto simp: later_def add_to_queue_def request_cancel_def finish_def turn_keeps)

lemma small_steps_ok:
  assumes "turn_ok t"
  shows "turn_ok (add_to_queue items t)" "turn_ok (request_cancel t)" "turn_ok (t\<lparr>u_followup := fu\<rparr>)"
    "turn_ok (t\<lparr>u_accepting := False, u_queue := []\<rparr>)"
  using assms by (auto simp: turn_ok_def add_to_queue_def request_cancel_def calls_ok_def)

definition push_all :: "rat \<Rightarrow> (string \<Rightarrow> string) \<Rightarrow> string \<Rightarrow> (string \<times> string) list \<Rightarrow> turn \<Rightarrow> turn" where
  "push_all now eid invocation items t =
     fold (\<lambda>item t. push now (delivered_event (eid (fst item)) invocation item) False t) items t"

lemma push_all_keeps:
  "turn_ok t \<Longrightarrow> turn_ok (push_all now eid invocation items t) \<and> later t (push_all now eid invocation items t)"
proof (induction items arbitrary: t)
  case (Cons item items)
  let ?e = "delivered_event (eid (fst item)) invocation item"
  have "turn_ok (push now ?e False t)" using push_ok [OF Cons.prems, of now ?e] by (simp add: delivered_event_def)
  then show ?case
    using Cons.IH [of "push now ?e False t"] later_trans [OF small_steps_later(7) [of t now ?e False]] by (simp add: push_all_def)
qed (simp add: push_all_def later_refl)

lemma deliver_keeps:
  assumes "turn_ok t"
  shows "turn_ok (deliver_queue now eid invocation agent session t) \<and> later t (deliver_queue now eid invocation agent session t)"
proof -
  note p = push_all_keeps [OF queue_ok [OF assms, of "[]"], of now eid invocation "u_queue t", unfolded push_all_def]
  show ?thesis
    using p later_trans [OF small_steps_later(4) [of t "[]"]] assms later_refl [of t] by (simp add: deliver_queue_def)
qed

lemma withdraw_keeps: "withdraw qid t = Some t' \<Longrightarrow> turn_ok t \<Longrightarrow> turn_ok t' \<and> later t t'"
  using queue_ok [of t] small_steps_later(4) [of t] by (auto simp: withdraw_def Let_def split: if_splits)

text \<open>\<open>b'\<close> is a later state of the broker: turns only move on, and only an ended turn is collected.\<close>

definition evolves :: "broker \<Rightarrow> broker \<Rightarrow> bool" where
  "evolves b b' \<longleftrightarrow>
     (\<forall>tid t. get_turn b tid = Some t \<longrightarrow>
        (case get_turn b' tid of Some t' \<Rightarrow> later t t' | None \<Rightarrow> u_status t \<noteq> Running))"

lemma evolves_refl: "evolves b b"
  by (simp add: evolves_def later_refl)

lemma evolves_put: "broker_ok b \<Longrightarrow> get_turn b (u_id t) = Some t \<Longrightarrow> later t t' \<Longrightarrow> evolves b (put_turn t' b)"
  by (auto simp: evolves_def later_refl dest: broker_okD(1) split: option.split) (auto simp: later_def)

lemma put_keeps:
  assumes "broker_ok b" "get_turn b tid = Some t" "turn_ok t'" "later t t'"
  shows "broker_ok (put_turn t' b) \<and> evolves b (put_turn t' b)"
proof -
  have "get_turn b (u_id t) = Some t" using broker_okD(1) [OF assms(1,2)] assms(2) by simp
  then show ?thesis using put_ok [OF assms(1) _ assms(3,4)] evolves_put [OF assms(1) _ assms(4)] by blast
qed

lemma start_evolves:
  assumes "broker_ok b" "fresh tid b" "start now tid key msg delta b = Inr (t, b')"
  shows "evolves b b'"
  unfolding evolves_def
proof (intro allI impI)
  fix k u assume u: "get_turn b k = Some u"
  then have "k \<noteq> tid" using assms(2) by (auto simp: fresh_def)
  then have g: "get_turn b' k = (if expired now u then None else Some u)"
    using start_turn(10) [OF assms(3)] gc_ok(2) [OF assms(1)] u by simp
  show "case get_turn b' k of None \<Rightarrow> u_status u \<noteq> Running | Some t' \<Rightarrow> later u t'"
    using g expired_ended [OF broker_okD(3) [OF assms(1) u]] by (simp add: later_refl split: option.split)
qed

lemma followup_start:
  assumes "broker_ok b" "get_turn b (u_id t) = Some t" "u_finished t = Some now" "fresh tid b"
    and "start now tid key msg delta b = Inr (nxt, b')"
  shows "get_turn b' (u_id t) = Some t" "u_id t \<noteq> tid"
proof -
  show "u_id t \<noteq> tid" using assms(2,4) by (auto simp: fresh_def)
  then show "get_turn b' (u_id t) = Some t"
    using start_turn(10) [OF assms(5)] gc_ok(2) [OF assms(1)] assms(2,3) by (simp add: expired_def)
qed

lemma evolves_trans:
  assumes "evolves b b1" "evolves b1 b2"
    and "\<And>k. get_turn b1 k = None \<Longrightarrow> get_turn b k = None \<or> get_turn b2 k = None"
    and "\<And>k t. get_turn b2 k = None \<Longrightarrow> get_turn b k = Some t \<Longrightarrow> get_turn b1 k \<noteq> None \<Longrightarrow> get_turn b1 k = Some t"
  shows "evolves b b2"
  unfolding evolves_def
proof (intro allI impI)
  fix k t assume t: "get_turn b k = Some t"
  have first: "case get_turn b1 k of None \<Rightarrow> u_status t \<noteq> Running | Some t' \<Rightarrow> later t t'"
    using t assms(1) by (simp add: evolves_def)
  show "case get_turn b2 k of None \<Rightarrow> u_status t \<noteq> Running | Some t' \<Rightarrow> later t t'"
  proof (cases "get_turn b1 k")
    case None
    then show ?thesis using t assms(3) [of k] first by simp
  next
    case (Some t1)
    then have "later t t1" using first by simp
    moreover have "case get_turn b2 k of None \<Rightarrow> u_status t1 \<noteq> Running | Some t' \<Rightarrow> later t1 t'"
      using Some assms(2) by (simp add: evolves_def)
    ultimately show ?thesis
      using assms(4) [OF _ t] Some by (auto split: option.splits intro: later_trans)
  qed
qed

lemma evolves_then_put:
  assumes "evolves b b1" "broker_ok b1" "get_turn b1 (u_id t) = Some t" "turn_ok t'" "later t t'"
  shows "broker_ok (put_turn t' b1) \<and> evolves b (put_turn t' b1)"
proof -
  have p: "broker_ok (put_turn t' b1)" "evolves b1 (put_turn t' b1)" using put_keeps [OF assms(2-5)] by blast+
  have id: "u_id t' = u_id t" using assms(5) by (simp add: later_def)
  have "evolves b (put_turn t' b1)"
    by (rule evolves_trans [OF assms(1) p(2)]) (use assms(3) id in \<open>auto split: if_splits\<close>)
  then show ?thesis using p(1) by blast
qed

lemma followup_keeps:
  assumes "broker_ok b" "get_turn b (u_id t) = Some t" "u_status t \<noteq> Running" "u_finished t = Some now" "fresh tid b"
  shows "broker_ok (start_followup now tid qids t texts b) \<and> evolves b (start_followup now tid qids t texts b)
    \<and> get_turn (start_followup now tid qids t texts b) (u_id t) \<noteq> None"
proof -
  have t: "turn_ok t" by (rule broker_okD(3) [OF assms(1,2)])
  show ?thesis
  proof (cases "start now tid (u_key t) (map text_part texts) None b")
    case (Inr p)
    obtain nxt b' where s: "start now tid (u_key t) (map text_part texts) None b = Inr (nxt, b')" using Inr by (cases p) simp
    have b': "broker_ok b'" "evolves b b'" "get_turn b' (u_id t) = Some t"
      using start_ok [OF assms(1,5) s] start_evolves [OF assms(1,5) s] followup_start(1) [OF assms(1,2,4,5) s] by blast+
    then show ?thesis
      using evolves_then_put [OF b'(2,1,3) small_steps_ok(3) [OF t] small_steps_later(5)] s by (simp add: start_followup_def)
  next
    case (Inl e)
    show ?thesis
    proof (cases "latest_for b (u_key t)")
      case None
      then show ?thesis using Inl assms(1,2) evolves_refl by (simp add: start_followup_def)
    next
      case (Some cur)
      have cur: "get_turn b (u_id cur) = Some cur" by (rule latest_forD(1) [OF assms(1) Some])
      have run: "u_status cur = Running" using start_busy [OF assms(1), of now tid "u_key t" "map text_part texts" None] Inl Some by auto
      have ne: "u_id cur \<noteq> u_id t"
      proof
        assume e: "u_id cur = u_id t"
        have "get_turn b (u_id t) = Some cur" using cur unfolding e .
        then show False using assms(2,3) run by simp
      qed
      let ?cur = "add_to_queue (zip qids texts) cur"
      have b1: "broker_ok (put_turn ?cur b)" "evolves b (put_turn ?cur b)"
        using put_keeps [OF assms(1) cur small_steps_ok(1) [OF broker_okD(3) [OF assms(1) cur]] small_steps_later(1)] by blast+
      have "get_turn (put_turn ?cur b) (u_id t) = Some t" using assms(2) ne by (simp add: add_to_queue_def)
      then show ?thesis
        using evolves_then_put [OF b1(2,1) _ small_steps_ok(3) [OF t] small_steps_later(5)] Inl Some ne
        by (simp add: start_followup_def Let_def)
    qed
  qed
qed

lemma close_keeps:
  assumes "broker_ok b" "get_turn b tid = Some t" "fresh tid' b"
  shows "broker_ok (close_turn now tid' qids t leftover b) \<and> evolves b (close_turn now tid' qids t leftover b)"
proof -
  let ?t = "(finish now Done None t)\<lparr>u_phase := TaskOver\<rparr>"
  let ?b = "put_turn ?t b"
  have id: "u_id t = tid" "u_id ?t = tid" using broker_okD(1) [OF assms(1,2)] by (simp_all add: finish_def)
  have put: "broker_ok ?b" "evolves b ?b"
    using put_keeps [OF assms(1,2), of ?t] over_ok [OF broker_okD(3) [OF assms(1,2)]] by (simp_all add: later_def finish_def)
  have t': "get_turn ?b (u_id ?t) = Some ?t" "u_status ?t \<noteq> Running" "u_finished ?t = Some now" "fresh tid' ?b"
    using assms(2,3) id by (auto simp: finish_def fresh_def)
  let ?c = "start_followup now tid' qids ?t leftover ?b"
  have c: "broker_ok ?c" "evolves ?b ?c" "get_turn ?c tid \<noteq> None"
    using followup_keeps [OF put(1) t', of qids leftover] id(2) by auto
  have "evolves b ?c"
    by (rule evolves_trans [OF put(2) c(2)]) (use c(3) id(2) in \<open>auto split: if_splits\<close>)
  then show ?thesis using put c by (simp add: close_turn_def Let_def)
qed

lemma cancel_all_keeps:
  assumes "broker_ok b"
  shows "broker_ok (b\<lparr>b_turns := map (\<lambda>(tid, t). (tid, if P t then request_cancel t else t)) (b_turns b)\<rparr>)"
    and "evolves b (b\<lparr>b_turns := map (\<lambda>(tid, t). (tid, if P t then request_cancel t else t)) (b_turns b)\<rparr>)"
proof -
  let ?f = "\<lambda>t. if P t then request_cancel t else t"
  let ?b = "b\<lparr>b_turns := map (\<lambda>(tid, t). (tid, ?f t)) (b_turns b)\<rparr>"
  have g: "get_turn ?b k = map_option ?f (get_turn b k)" for k
    by (simp add: get_turn_def map_of_map)
  have keys: "map fst (b_turns ?b) = map fst (b_turns b)" by (simp add: comp_def split_def)
  show "broker_ok ?b"
  proof (rule broker_okI)
    show "distinct (map fst (b_turns ?b))" using assms unfolding keys by (simp add: broker_ok_def)
  next
    fix k u assume "get_turn ?b k = Some u"
    then obtain t where "get_turn b k = Some t" "u = ?f t" unfolding g by blast
    then show "u_id u = k \<and> k \<noteq> [] \<and> turn_ok u \<and> (u_status u = Running \<longrightarrow> map_of (b_latest ?b) (u_key u) = Some k)"
      using broker_okD [OF assms, of k t] small_steps_ok(2) [of t] by (simp add: request_cancel_def)
  next
    fix key k assume "map_of (b_latest ?b) key = Some k"
    then obtain t where "get_turn b k = Some t" "u_key t = key" using broker_ok_latest [OF assms, of key k] by auto
    then show "\<exists>u. get_turn ?b k = Some u \<and> u_key u = key" unfolding g by (simp add: request_cancel_def)
  qed
  show "evolves b ?b" unfolding evolves_def g by (simp add: small_steps_later later_refl)
qed

lemma step_keeps:
  assumes "broker_step b b'" "broker_ok b"
  shows "broker_ok b' \<and> evolves b b'"
  using assms
proof (induction rule: broker_step.induct)
  case (starts tid b now key msg delta t b')
  then show ?case using start_ok start_evolves by blast
next
  case (queues b key t item)
  have g: "get_turn b (u_id t) = Some t" by (rule latest_forD(1) [OF queues(4,1)])
  show ?case by (rule put_keeps [OF queues(4) g small_steps_ok(1) [OF broker_okD(3) [OF queues(4) g]] small_steps_later(1)])
next
  case (interrupts b key)
  show ?case
  proof (cases "latest_for b key")
    case (Some t)
    have g: "get_turn b (u_id t) = Some t" by (rule latest_forD(1) [OF interrupts Some])
    let ?t = "request_cancel (t\<lparr>u_accepting := False, u_queue := []\<rparr>)"
    have "turn_ok ?t" "later t ?t"
      using small_steps_ok(2) [OF small_steps_ok(4) [OF broker_okD(3) [OF interrupts g]]] by (auto simp: later_def request_cancel_def)
    then show ?thesis using put_keeps [OF interrupts g] Some interrupts evolves_refl by (simp add: interrupt_def)
  qed (simp add: interrupt_def interrupts evolves_refl)
next
  case (marks b tid t now)
  have "turn_ok (finish now Stopped None t)" "later t (finish now Stopped None t)"
    using finish_ok [OF broker_okD(3) [OF marks(3,1)]] small_steps_later(3) by simp_all
  then show ?case using put_keeps [OF marks(3,1)] marks evolves_refl by (simp add: mark_stopped_def)
next
  case (aborts b tid)
  show ?case
  proof (cases "get_turn b tid")
    case (Some t)
    then show ?thesis
      using put_keeps [OF aborts Some small_steps_ok(2) [OF broker_okD(3) [OF aborts Some]] small_steps_later(2)] aborts evolves_refl
      by (simp add: abort_def)
  qed (simp add: abort_def aborts evolves_refl)
next
  case (aborts_session b key)
  then show ?case using cancel_all_keeps [of b "\<lambda>t. u_key t = key \<and> u_status t = Running"] by (simp add: abort_session_def Let_def)
next
  case (withdraws b tid t qid t')
  then show ?case using put_keeps [OF withdraws(3,1)] withdraw_keeps [OF withdraws(2) broker_okD(3) [OF withdraws(3,1)]] by blast
next
  case (delivers b tid t r sg now eid invocation agent session)
  then show ?case using put_keeps [OF delivers(3,1)] deliver_keeps [OF broker_okD(3) [OF delivers(3,1)]] by blast
next
  case (runs b tid t t')
  then show ?case
    using put_keeps [OF runs(3,1)] task_step_ok [OF runs(2) broker_okD(3) [OF runs(3,1)]] task_step_later [OF runs(2)] by blast
next
  case (closes b tid t leftover tid' now qids)
  then show ?case using close_keeps by blast
qed

lemma reachable_ok: "reachable b \<Longrightarrow> broker_ok b"
proof (induction rule: reachable.induct)
  case init
  then show ?case by (intro broker_okI) (simp_all add: new_broker_def get_turn_def)
next
  case (step b b')
  then show ?case using step_keeps by blast
qed

section \<open>The steps of a task run out\<close>

definition budget :: "phase \<Rightarrow> nat" where
  "budget ph =
     (case ph of
        NotStarted \<Rightarrow> 9 | Starting \<Rightarrow> 8
      | InRound r _ \<Rightarrow> 2 * (max_continues - r) + 3
      | Probing r \<Rightarrow> 2 * (max_continues - r) + 2
      | Sweeping _ \<Rightarrow> 1 | TaskOver \<Rightarrow> 0)"

lemma budget_sweep: "u_phase (sweep t) = Sweeping (map snd (u_queue t))" "u_events (sweep t) = u_events t"
  by (simp_all add: sweep_def)

lemma budget_next: "r \<le> max_continues \<Longrightarrow> budget (u_phase (next_round r t)) < budget (Probing r)"
  by (auto simp: next_round_def budget_sweep budget_def)

lemma task_step_budget:
  assumes "task_step t t'" "turn_ok t"
  shows "budget (u_phase t') < budget (u_phase t) \<and> u_events t' = u_events t
    \<or> budget (u_phase t') = budget (u_phase t) \<and> (\<exists>e. u_events t' = u_events t @ [e])"
  using assms
proof (induction rule: task_step.induct)
  case (round_ends t r sg now)
  then have "r \<le> max_continues" by (simp add: turn_ok_def rounds_ok_def)
  then show ?case
    using budget_next [of r t] round_ends(1)
    by (auto simp: end_round_def finish_def budget_sweep next_round_def budget_def split: option.split)
next
  case (owes_reply t r session)
  then have "r \<le> max_continues" by (simp add: turn_ok_def rounds_ok_def)
  then show ?case using budget_next [of r t] owes_reply(1) by (simp add: next_round_def budget_sweep)
next
  case (yields t r sg now e)
  then show ?case by (simp add: take_event_def turn_keeps budget_def)
next
  case (cancelled t now session)
  then show ?case
    by (auto simp: stop_task_def finish_def close_interrupted_calls_def awaiting_def budget_def split: phase.split option.split)
next
  case (raises t now e)
  then show ?case by (auto simp: fail_task_def finish_def awaiting_def budget_def split: phase.split)
qed (simp_all add: budget_def finish_def budget_sweep max_continues_def)

lemma task_trace_bound:
  "successively task_step (t # ts) \<Longrightarrow> turn_ok t \<Longrightarrow>
     length ts + length (u_events t) \<le> budget (u_phase t) + length (u_events (last (t # ts)))"
proof (induction ts arbitrary: t)
  case (Cons t' ts)
  then have step: "task_step t t'" and rest: "successively task_step (t' # ts)" by simp_all
  have "length ts + length (u_events t') \<le> budget (u_phase t') + length (u_events (last (t' # ts)))"
    by (rule Cons.IH [OF rest task_step_ok [OF step Cons.prems(2)]])
  then show ?case using task_step_budget [OF step Cons.prems(2)] by auto
qed simp

section \<open>Subscribers\<close>

definition payloads :: "'e option list \<Rightarrow> 'e list" where
  "payloads out = List.map_filter (\<lambda>x. x) out"

lemma payloads_simps [simp]:
  "payloads [] = []" "payloads (None # out) = payloads out" "payloads (Some e # out) = e # payloads out"
  "payloads (map Some es @ out) = es @ payloads out"
  by (induction es) (simp_all add: payloads_def)

text \<open>The buffer only grows from one pass of the loop to the next, also between the check of a pass and the next pass.\<close>

fun growing :: "('e list \<times> bool \<times> nat) list \<Rightarrow> bool" where
  "growing ((es, run, n) # (es', run', n') # obs) \<longleftrightarrow>
     length es \<le> n \<and> n \<le> length es' \<and> (\<exists>fs. es' = es @ fs) \<and> growing ((es', run', n') # obs)"
| "growing [(es, run, n)] \<longleftrightarrow> length es \<le> n"
| "growing [] \<longleftrightarrow> True"

lemma drop_grown: "drop i es @ drop (i + length (drop i es)) (es @ fs) = drop i (es @ fs)"
  by (cases "i \<le> length es") simp_all

lemma growing_prefix: "growing ((es, run, n) # obs) \<Longrightarrow> k < length obs \<Longrightarrow> \<exists>fs. fst (obs ! k) = es @ fs"
proof (induction obs arbitrary: es run n k)
  case (Cons ob obs)
  obtain es' run' n' where ob: "ob = (es', run', n')" by (cases ob) auto
  then obtain fs where fs: "es' = es @ fs" "growing ((es', run', n') # obs)" using Cons.prems(1) by auto
  show ?case
  proof (cases k)
    case 0
    then show ?thesis using fs ob by simp
  next
    case (Suc j)
    then obtain gs where "fst (obs ! j) = es' @ gs" using Cons.IH [OF fs(2), of j] Cons.prems(2) by auto
    then show ?thesis using fs Suc by simp
  qed
qed simp

definition stream_of :: "nat \<Rightarrow> ('e list \<times> bool \<times> nat) list \<Rightarrow> 'e option list \<times> bool \<Rightarrow> nat \<Rightarrow> bool" where
  "stream_of i obs r k \<longleftrightarrow>
     k < length obs \<and> payloads (fst r) = drop i (fst (obs ! k))
     \<and> (if snd r then \<not> fst (snd (obs ! k)) \<and> snd (snd (obs ! k)) \<le> max i (length (fst (obs ! k))) else k = length obs - 1)"

lemma tail_spec: "growing obs \<Longrightarrow> obs \<noteq> [] \<Longrightarrow> \<exists>k. stream_of i obs (tail i obs) k"
proof (induction i obs rule: tail.induct)
  case (2 i events running later obs)
  let ?i = "i + length (drop i events)"
  have i: "?i = max i (length events)" by simp
  show ?case
  proof (cases "\<not> running \<and> ?i \<ge> later")
    case True
    then show ?thesis
      using payloads_simps(4) [of "drop i events" "[]"] by (intro exI [of _ 0]) (auto simp: stream_of_def max_def)
  next
    case False
    obtain out ended where r: "tail ?i obs = (out, ended)" by fastforce
    have t: "tail i ((events, running, later) # obs) =
        (map Some (drop i events) @ (if drop i events = [] then [None] else []) @ out, ended)"
      by (simp only: tail.simps Let_def False r prod.case if_False)
    show ?thesis
    proof (cases obs)
      case Nil
      then show ?thesis using r unfolding t by (intro exI [of _ 0]) (simp add: stream_of_def)
    next
      case (Cons ob obs')
      obtain es' run' n' where "ob = (es', run', n')" by (cases ob) auto
      then have "growing obs" using 2(2) Cons by simp
      then obtain k where k: "stream_of ?i obs (out, ended) k" using 2(1) [OF refl refl False] Cons r by auto
      then obtain fs where fs: "fst (obs ! k) = events @ fs" using growing_prefix [OF 2(2)] by (auto simp: stream_of_def)
      have "payloads (map Some (drop i events) @ (if drop i events = [] then [None] else []) @ out) =
          drop i events @ drop ?i (events @ fs)"
        using k fs by (simp add: stream_of_def)
      also have "\<dots> = drop i (events @ fs)" by (rule drop_grown)
      finally show ?thesis
        using k fs unfolding t by (intro exI [of _ "Suc k"]) (auto simp: stream_of_def i split: if_splits)
    qed
  qed
qed simp

section \<open>When the user is owed a reply\<close>

definition parked_on :: "event list \<Rightarrow> string \<Rightarrow> bool" where
  "parked_on es i \<longleftrightarrow>
     (\<exists>k < length es. i \<in> set (ev_long_running (es ! k)) \<and> (\<forall>j < length es. k \<le> j \<longrightarrow> i \<notin> set (answered_ids (es ! j))))"

definition answered_unreplied :: "event list \<Rightarrow> bool" where
  "answered_unreplied es \<longleftrightarrow>
     (\<exists>k < length es. answered_ids (es ! k) \<noteq> []
        \<and> (\<forall>j < length es. k < j \<longrightarrow> answered_ids (es ! j) = [] \<longrightarrow> \<not> has_model_text (es ! j)))"

lemma pending_after_snoc:
  "pending_after (es @ [e]) acc =
     (case pending_after es acc of (pending, answered_last) \<Rightarrow> pending_after [e] (pending, answered_last))"
  by (induction es acc rule: pending_after.induct) (auto split: prod.split)

lemma pending_after_spec:
  "set (fst (pending_after es ([], False))) = {i. parked_on es i}
   \<and> snd (pending_after es ([], False)) = answered_unreplied es"
proof (induction es rule: rev_induct)
  case Nil
  then show ?case by (simp add: parked_on_def answered_unreplied_def)
next
  case (snoc e es)
  obtain pending answered where p: "pending_after es ([], False) = (pending, answered)" by fastforce
  have parked: "parked_on (es @ [e]) i \<longleftrightarrow> (parked_on es i \<or> i \<in> set (ev_long_running e)) \<and> i \<notin> set (answered_ids e)" for i
    by (simp add: parked_on_def All_less_Suc Ex_less_Suc nth_append cong: conj_cong imp_cong) (metis less_irrefl less_or_eq_imp_le)
  have unreplied: "answered_unreplied (es @ [e]) \<longleftrightarrow>
      answered_ids e \<noteq> [] \<or> answered_unreplied es \<and> \<not> has_model_text e"
    by (simp add: answered_unreplied_def All_less_Suc Ex_less_Suc nth_append cong: conj_cong imp_cong) blast
  show ?case using snoc p by (auto simp: pending_after_snoc parked unreplied)
qed

section \<open>Properties\<close>


definition demo_key :: session_key where
  "demo_key = (''app'', ''alice'', ''s1'')"

definition demo_turn :: turn where
  "demo_turn = new_turn 1 ''t1'' demo_key [text_part ''hello''] None"

definition demo_broker :: broker where
  "demo_broker = \<lparr>b_turns = [(''t1'', demo_turn)], b_latest = [(demo_key, ''t1'')]\<rparr>"

lemma demo_start: "start 1 ''t1'' demo_key [text_part ''hello''] None new_broker = Inr (demo_turn, demo_broker)"
  by code_simp

lemma demo_reachable: "reachable demo_broker"
proof -
  have "fresh ''t1'' new_broker" by (simp add: fresh_def get_turn_def new_broker_def)
  then show ?thesis using demo_start reachable.intros broker_step.starts by blast
qed

lemma demo_get: "get_turn demo_broker ''t1'' = Some demo_turn" "u_status demo_turn = Running" "u_key demo_turn = demo_key"
  by (simp_all add: demo_broker_def get_turn_def demo_turn_def new_turn_def)


text \<open>The record of a turn only grows: through every step of the system a turn keeps its id, session and message,
  its events are only appended to, an ended turn never runs again, and a turn still running is never collected.\<close>

lemma history_is_kept:
  assumes "reachable b" "broker_step b b'" "get_turn b tid = Some t"
  shows "case get_turn b' tid of
      None \<Rightarrow> u_status t \<noteq> Running
    | Some t' \<Rightarrow> u_id t' = u_id t \<and> u_key t' = u_key t \<and> u_message t' = u_message t
        \<and> take (length (u_events t)) (u_events t') = u_events t
        \<and> (u_status t \<noteq> Running \<longrightarrow> u_status t' \<noteq> Running)"
proof -
  have e: "case get_turn b' tid of None \<Rightarrow> u_status t \<noteq> Running | Some t' \<Rightarrow> later t t'"
    using step_keeps [OF assms(2) reachable_ok [OF assms(1)]] assms(3) by (simp add: evolves_def)
  show ?thesis
  proof (cases "get_turn b' tid")
    case (Some t')
    then have "later t t'" using e by simp
    then show ?thesis unfolding Some option.case later_def by auto
  qed (use e in simp)
qed

lemma history_is_kept_witness:
  "case get_turn (snd (abort ''t1'' demo_broker)) ''t1'' of None \<Rightarrow> False | Some t' \<Rightarrow> u_message t' = [text_part ''hello'']"
  using history_is_kept [OF demo_reachable broker_step.aborts [of demo_broker "''t1''"] demo_get(1)]
  by (simp add: demo_get split: option.splits) (simp add: demo_turn_def new_turn_def)

text \<open>C28: The task of a turn finishes: between the events the agent yields it takes at most nine steps in all, so a run with
  \<open>n\<close> events has at most \<open>n + 9\<close> steps; in particular the automatic continuations end.\<close>

lemma task_runs_out:
  assumes "successively task_step (t # ts)" "t = new_turn now tid key msg delta"
  shows "length ts \<le> length (u_events (last (t # ts))) + 9"
proof -
  have "turn_ok t" by (simp add: assms(2) new_turn_def turn_ok_def rounds_ok_def authored_def calls_ok_def)
  then have "length ts + length (u_events t) \<le> budget (u_phase t) + length (u_events (last (t # ts)))"
    by (rule task_trace_bound [OF assms(1)])
  then show ?thesis by (simp add: assms(2) new_turn_def budget_def)
qed

lemma task_runs_out_witness:
  "length [demo_turn\<lparr>u_phase := Starting\<rparr>] \<le> length (u_events (last [demo_turn, demo_turn\<lparr>u_phase := Starting\<rparr>])) + 9"
proof -
  have "task_step demo_turn (demo_turn\<lparr>u_phase := Starting\<rparr>)"
    by (rule task_step.begins) (simp_all add: demo_turn_def new_turn_def)
  then show ?thesis using task_runs_out [of demo_turn "[demo_turn\<lparr>u_phase := Starting\<rparr>]"] by (simp add: demo_turn_def)
qed

text \<open>C27: No message is left behind: when a running turn closes with messages the agent never saw, the session's next turn is
  running and its message is exactly those texts in order; the closed turn is done and names its follow-up.\<close>

lemma leftover_messages_get_a_turn:
  assumes "reachable b" "get_turn b tid = Some t" "u_status t = Running" "u_phase t = Sweeping leftover" "leftover \<noteq> []"
    and "fresh tid' b"
  shows "\<exists>nxt t'. latest_for (close_turn now tid' qids t leftover b) (u_key t) = Some nxt
    \<and> u_status nxt = Running \<and> u_message nxt = map text_part leftover
    \<and> get_turn (close_turn now tid' qids t leftover b) tid = Some t' \<and> u_status t' = Done \<and> u_followup t' = Some (u_id nxt)"
proof -
  note ok = reachable_ok [OF assms(1)]
  let ?t = "(finish now Done None t)\<lparr>u_phase := TaskOver\<rparr>"
  let ?b = "put_turn ?t b"
  have id: "u_id t = tid" "u_id ?t = tid" "u_key ?t = u_key t" using broker_okD(1) [OF ok assms(2)] by (simp_all add: finish_def)
  have put: "broker_ok ?b"
    using put_keeps [OF ok assms(2), of ?t] over_ok [OF broker_okD(3) [OF ok assms(2)]] by (simp add: later_def finish_def)
  have t': "get_turn ?b (u_id ?t) = Some ?t" "u_finished ?t = Some now" "fresh tid' ?b"
    using assms(2,6) id by (auto simp: finish_def fresh_def)
  have "map_of (b_latest b) (u_key t) = Some tid" by (rule broker_okD(4) [OF ok assms(2,3)])
  then have "latest_for ?b (u_key t) = Some ?t"
    using t'(1) id broker_okD(2) [OF ok assms(2)] by (simp add: latest_for_def given_def)
  then have "\<not> (\<exists>e. start now tid' (u_key t) (map text_part leftover) None ?b = Inl e)"
    using start_busy [OF put, of now tid' "u_key t"] by (simp add: finish_def)
  then obtain nxt b' where s: "start now tid' (u_key t) (map text_part leftover) None ?b = Inr (nxt, b')"
    by (metis old.sum.exhaust surj_pair)
  note new = start_turn [OF s]
  have ne: "tid' \<noteq> []" "u_id ?t \<noteq> tid'"
    using t'(3) followup_start(2) [OF put t'(1,2,3), of "u_key t"] s by (simp_all add: fresh_def)
  have r: "close_turn now tid' qids t leftover b = put_turn (?t\<lparr>u_followup := Some (u_id nxt)\<rparr>) b'"
    using assms(5) s id(3) by (simp add: close_turn_def start_followup_def Let_def)
  have "latest_for (close_turn now tid' qids t leftover b) (u_key t) = Some nxt"
    using new(1,8,9) ne id unfolding r by (simp add: latest_for_def given_def)
  moreover have "get_turn (close_turn now tid' qids t leftover b) tid = Some (?t\<lparr>u_followup := Some (u_id nxt)\<rparr>)"
    using id unfolding r by simp
  ultimately show ?thesis using new(3,4) by (simp add: finish_def)
qed

lemma run_step: "reachable b \<Longrightarrow> get_turn b tid = Some t \<Longrightarrow> task_step t t' \<Longrightarrow> reachable (put_turn t' b)"
  using reachable.step broker_step.runs by blast

definition waiting_turn :: turn where
  "waiting_turn = add_to_queue [(''q1'', ''also fix the tests'')] demo_turn"

definition waiting_broker :: broker where
  "waiting_broker = put_turn waiting_turn demo_broker"

definition closing_turn :: turn where
  "closing_turn = sweep (waiting_turn\<lparr>u_phase := Probing 0\<rparr>)"

lemma closing_reachable: "\<exists>b. reachable b \<and> get_turn b ''t1'' = Some closing_turn \<and> fresh ''t2'' b"
proof -
  have w: "u_id waiting_turn = ''t1''" "u_phase waiting_turn = NotStarted" "\<not> u_cancel waiting_turn"
    by (simp_all add: waiting_turn_def add_to_queue_def demo_turn_def new_turn_def)
  have lf: "latest_for demo_broker demo_key = Some demo_turn" "u_accepting demo_turn" by code_simp+
  have b0: "reachable waiting_broker"
    using reachable.step [OF demo_reachable broker_step.queues [OF lf(1) demo_get(2) lf(2)]]
    by (simp add: waiting_broker_def waiting_turn_def)
  let ?t1 = "waiting_turn\<lparr>u_phase := Starting\<rparr>" and ?t2 = "waiting_turn\<lparr>u_phase := InRound 0 no_signals\<rparr>"
    and ?t3 = "waiting_turn\<lparr>u_phase := Probing 0\<rparr>"
  have g0: "get_turn waiting_broker ''t1'' = Some waiting_turn" "get_turn waiting_broker ''t2'' = None"
    by (simp_all add: waiting_broker_def w demo_broker_def) (simp add: get_turn_def)
  have b1: "reachable (put_turn ?t1 waiting_broker)" by (rule run_step [OF b0 g0(1) task_step.begins]) (use w in simp_all)
  have s2: "task_step ?t1 ?t2" using task_step.first_round [of ?t1] by simp
  have b2: "reachable (put_turn ?t2 (put_turn ?t1 waiting_broker))" by (rule run_step [where tid = "''t1''", OF b1 _ s2]) (simp add: w)
  have s3: "task_step ?t2 ?t3"
    using task_step.round_ends [of ?t2 0 no_signals] by (simp add: end_round_def no_signals_def)
  have b3: "reachable (put_turn ?t3 (put_turn ?t2 (put_turn ?t1 waiting_broker)))" by (rule run_step [where tid = "''t1''", OF b2 _ s3]) (simp add: w)
  have s4: "task_step ?t3 closing_turn"
    unfolding closing_turn_def by (rule task_step.parked [of _ 0 None]) (simp_all add: answer_needs_reply_def)
  have b4: "reachable (put_turn closing_turn (put_turn ?t3 (put_turn ?t2 (put_turn ?t1 waiting_broker))))"
    by (rule run_step [where tid = "''t1''", OF b3 _ s4]) (simp add: w)
  have "u_id closing_turn = ''t1''" by (simp add: closing_turn_def sweep_def w)
  then show ?thesis using b4 w g0 by (intro exI [of _ "put_turn closing_turn (put_turn ?t3 (put_turn ?t2 (put_turn ?t1 waiting_broker)))"])
      (simp add: fresh_def)
qed

lemma leftover_messages_get_a_turn_witness:
  "\<exists>b nxt. latest_for (close_turn 5 ''t2'' [] closing_turn [''also fix the tests''] b) demo_key = Some nxt
    \<and> u_message nxt = [text_part ''also fix the tests'']"
proof -
  obtain b where b: "reachable b" "get_turn b ''t1'' = Some closing_turn" "fresh ''t2'' b" using closing_reachable by blast
  have t: "u_status closing_turn = Running" "u_phase closing_turn = Sweeping [''also fix the tests'']" "u_key closing_turn = demo_key"
    by code_simp+
  then show ?thesis using leftover_messages_get_a_turn [OF b(1,2) t(1,2) _ b(3), of 5 "[]"] by auto
qed

text \<open>C29: A subscriber that attaches at any cursor receives exactly the events from that cursor on, each once and in order,
  whatever happens between its reads; its stream ends only when the turn has ended and nothing is left to send.\<close>

lemma tail_delivers_each_event_once:
  assumes "growing obs" "obs \<noteq> []"
  shows "\<exists>k < length obs. payloads (fst (tail i obs)) = drop i (fst (obs ! k))
    \<and> (if snd (tail i obs) then \<not> fst (snd (obs ! k)) \<and> snd (snd (obs ! k)) \<le> max i (length (fst (obs ! k)))
       else k = length obs - 1)"
  using tail_spec [OF assms, of i] unfolding stream_of_def by blast

definition demo_obs :: "(nat list \<times> bool \<times> nat) list" where
  "demo_obs = [([10, 11], True, 2), ([10, 11], True, 3), ([10, 11, 12], False, 3)]"

lemma tail_delivers_each_event_once_witness: "payloads (fst (tail 1 demo_obs)) = [11, 12]"
proof -
  have g: "growing demo_obs" "demo_obs \<noteq> []" by (simp_all add: demo_obs_def)
  have "snd (tail 1 demo_obs)" by code_simp
  then obtain k where "k < length demo_obs" "payloads (fst (tail 1 demo_obs)) = drop 1 (fst (demo_obs ! k))" "\<not> fst (snd (demo_obs ! k))"
    using tail_delivers_each_event_once [OF g, of 1] by auto
  then have "k = 2" "payloads (fst (tail 1 demo_obs)) = drop 1 (fst (demo_obs ! k))"
    by (auto simp: demo_obs_def less_Suc_eq)
  then show ?thesis by (simp add: demo_obs_def)
qed

text \<open>A round without events is followed by a continuation exactly when the user is owed a reply: no long-running call is
  open, that is, started with no delivered answer at or after it, and some answer is followed by no visible text of the
  model; an answer under a confirmation name of the plugin does not count as delivered.\<close>

lemma owed_reply_spec:
  "answer_needs_reply (Some es) \<longleftrightarrow>
     \<not> (\<exists>i k. k < length es \<and> List.member (ev_long_running (es ! k)) i
          \<and> \<not> (\<exists>j. k \<le> j \<and> j < length es \<and> List.member (answered_ids (es ! j)) i))
     \<and> (\<exists>k. k < length es \<and> answered_ids (es ! k) \<noteq> []
          \<and> \<not> (\<exists>j. k < j \<and> j < length es \<and> answered_ids (es ! j) = [] \<and> has_model_text (es ! j)))"
proof -
  obtain pending answered where p: "pending_after es ([], False) = (pending, answered)" by fastforce
  have "pending = [] \<longleftrightarrow> (\<forall>i. \<not> parked_on es i)" "answered = answered_unreplied es"
    using pending_after_spec [of es] p by auto
  then have "answer_needs_reply (Some es) \<longleftrightarrow> answered_unreplied es \<and> (\<forall>i. \<not> parked_on es i)"
    using p by (simp add: answer_needs_reply_def)
  then show ?thesis unfolding parked_on_def answered_unreplied_def List.member_iff by blast
qed



text \<open>C33: A retry is refused with the reason exactly when it should be, and otherwise runs the failed turn's own message again:
  there is no previous turn, or it is running, or it did not end in an error; the orphaned message of the failed
  attempt is marked for removal only if the model had produced nothing.\<close>

lemma retry_only_after_an_error:
  assumes "reachable b"
  shows "(retry_last now tid key b = Inl NoPreviousTurn \<longleftrightarrow> latest_for b key = None)
    \<and> ((\<exists>i. retry_last now tid key b = Inl (SessionBusy i)) \<longleftrightarrow> (\<exists>t. latest_for b key = Some t \<and> u_status t = Running))
    \<and> ((\<exists>st. retry_last now tid key b = Inl (NothingToRetry st)) \<longleftrightarrow>
         (\<exists>t. latest_for b key = Some t \<and> (u_status t = Done \<or> u_status t = Stopped)))
    \<and> (\<forall>nxt b'. retry_last now tid key b = Inr (nxt, b') \<longrightarrow>
         (\<exists>t. latest_for b key = Some t \<and> u_status t = Errored \<and> u_message nxt = u_message t
            \<and> (u_prune nxt = None \<or> u_model_events t = 0 \<and> u_prune nxt = Some (u_message t))))"
proof -
  note ok = reachable_ok [OF assms]
  show ?thesis
  proof (cases "latest_for b key")
    case None
    then show ?thesis by (simp add: retry_last_def)
  next
    case (Some t)
    show ?thesis
    proof (cases "u_status t = Errored")
      case True
      have "\<not> (\<exists>e. start now tid key (u_message t) (u_delta t) b = Inl e)"
        using start_busy [OF ok, of now tid key] Some True by simp
      then obtain nxt b' where s: "start now tid key (u_message t) (u_delta t) b = Inr (nxt, b')"
        by (metis old.sum.exhaust surj_pair)
      have prune: "u_prune nxt = None \<or> u_model_events t = 0 \<and> u_prune nxt = Some (u_message t)"
      proof (cases "latest_for (gc now b) key")
        case None
        then show ?thesis using s by (auto simp: start_def Let_def new_turn_def)
      next
        case (Some c)
        then have "c = t" using gc_latest [OF ok Some] \<open>latest_for b key = Some t\<close> by simp
        then show ?thesis using s Some by (auto simp: start_def Let_def new_turn_def split: if_splits)
      qed
      then show ?thesis using Some True s start_turn(3) [OF s] by (simp add: retry_last_def)
    next
      case False
      then show ?thesis using Some by (cases "u_status t") (simp_all add: retry_last_def)
    qed
  qed
qed

lemma retry_only_after_an_error_witness: "\<exists>i. retry_last 2 ''t2'' demo_key demo_broker = Inl (SessionBusy i)"
proof -
  have "latest_for demo_broker demo_key = Some demo_turn" by code_simp
  then show ?thesis using retry_only_after_an_error [OF demo_reachable, of 2 "''t2''" demo_key] demo_get(2) by blast
qed

text \<open>
  Two states the code reaches that lose messages, and a route that lacks a check. \<open>start_interrupting\<close> takes the queue of the
  turn it stops and then waits; if another request starts a turn meanwhile, its own start is refused and the texts it took
  are in no queue and no turn.
\<close>

definition queued_broker :: broker where
  "queued_broker = put_turn (add_to_queue [(''q1'', ''also fix the tests'')] demo_turn) demo_broker"

definition other_request :: "broker \<Rightarrow> broker" where
  "other_request b =
     (case start 3 ''t2'' demo_key [text_part ''other''] None (mark_stopped 3 (Some ''t1'') b) of Inr (_, b') \<Rightarrow> b' | Inl _ \<Rightarrow> b)"

definition texts_in :: "broker \<Rightarrow> string list" where
  "texts_in b = concat (map (\<lambda>(tid, t). map snd (u_queue t) @ texts_of (u_message t)) (b_turns b))"

lemma interrupting_can_lose_the_queue:
  "start_interrupting other_request 4 ''t3'' demo_key [text_part ''now''] None queued_broker = Inl (SessionBusy ''t2'')
   \<and> List.member (texts_in queued_broker) ''also fix the tests''
   \<and> \<not> List.member (texts_in (other_request (snd (interrupt demo_key queued_broker)))) ''also fix the tests''"
  by code_simp

text \<open>A cancellation that reaches a closing turn while it waits for its condition drops the texts it had taken.\<close>

lemma cancel_while_closing_loses_texts:
  "u_queue (stop_task 4 None (sweep (add_to_queue [(''q1'', ''x'')] demo_turn))) = []
   \<and> u_followup (stop_task 4 None (sweep (add_to_queue [(''q1'', ''x'')] demo_turn))) = None"
  by code_simp

text \<open>Starting a turn for another user is refused; retrying that user's turn is not.\<close>

definition failed_broker :: broker where
  "failed_broker = put_turn ((finish 2 Errored None demo_turn)\<lparr>u_phase := TaskOver\<rparr>) demo_broker"

definition demo_env :: request_env where
  "demo_env = \<lparr>v_host = plain_host, v_idle = (\<lambda>k b. b), v_waiting = (\<lambda>b. b), v_now = 9, v_turn_id = ''t9'', v_queue_id = ''q9''\<rparr>"

lemma only_start_checks_the_user:
  "fst (start_turn_route demo_env (Some ''mallory'') True
     \<lparr>q_key = demo_key, q_parts = Some [text_part ''x''], q_if_busy = Refuse, q_delta = None\<rparr> failed_broker) = HttpError 403
   \<and> (case fst (retry_route demo_env demo_key failed_broker) of
        TurnReply c t \<Rightarrow> c = 201 \<and> u_message t = [text_part ''hello''] \<and> u_key t = demo_key | _ \<Rightarrow> False)"
  by code_simp

end
