(* ===== verification/Passwords.thy ===== *)
theory Passwords
  imports Settings "HOL-Library.Word"
begin

text \<open>
  \<open>identity/passwords.py\<close>: the stored form of a password, and its check.

  Bytes are words of eight bits. The base64 encoder and decoder of the standard library are written out
  (\<open>urlsafe_b64encode\<close>, and \<open>urlsafe_b64decode\<close> as \<open>binascii\<close> runs it when it is not strict: characters outside
  the alphabet are skipped, a complete padding ends the input). The key derivation \<open>hashlib.scrypt\<close> is a
  parameter \<open>kdf\<close>: password, salt, the three cost parameters and the length wanted, \<open>None\<close> for an exception.
  The salt, random in the code, is an argument.
\<close>

unbundle bit_operations_syntax

type_synonym byte = "8 word"
type_synonym kdf = "byte list \<Rightarrow> byte list \<Rightarrow> int \<Rightarrow> int \<Rightarrow> int \<Rightarrow> nat \<Rightarrow> byte list option"

section \<open>Text as bytes\<close>

text \<open>\<open>str.encode("utf-8")\<close> on Latin-1.\<close>

definition utf8_char :: "char \<Rightarrow> byte list" where
  "utf8_char c =
     (let b = of_char c :: byte
      in if b < 128 then [b] else [192 OR drop_bit 6 b, 128 OR (b AND 63)])"

definition utf8 :: "string \<Rightarrow> byte list" where
  "utf8 s = concat (map utf8_char s)"

section \<open>Base64\<close>

definition b64_alphabet :: string where
  "b64_alphabet = ''ABCDEFGHIJKLMNOPQRSTUVWXYZabcdefghijklmnopqrstuvwxyz0123456789-_''"

definition b64_char :: "byte \<Rightarrow> char" where
  "b64_char v = b64_alphabet ! unat v"

text \<open>The four groups of six bits of three bytes; at the end of the input a missing byte counts as zero.\<close>

definition sextet0 :: "byte \<Rightarrow> byte" where "sextet0 a = drop_bit 2 a"
definition sextet1 :: "byte \<Rightarrow> byte \<Rightarrow> byte" where "sextet1 a b = push_bit 4 (a AND 3) OR drop_bit 4 b"
definition sextet2 :: "byte \<Rightarrow> byte \<Rightarrow> byte" where "sextet2 b c = push_bit 2 (b AND 15) OR drop_bit 6 c"
definition sextet3 :: "byte \<Rightarrow> byte" where "sextet3 c = c AND 63"

fun b64_encode :: "byte list \<Rightarrow> string" where
  "b64_encode [] = []"
| "b64_encode [a] = [b64_char (sextet0 a), b64_char (sextet1 a 0), CHR ''='', CHR ''='']"
| "b64_encode [a, b] = [b64_char (sextet0 a), b64_char (sextet1 a b), b64_char (sextet2 b 0), CHR ''='']"
| "b64_encode (a # b # c # bs) =
     [b64_char (sextet0 a), b64_char (sextet1 a b), b64_char (sextet2 b c), b64_char (sextet3 c)] @ b64_encode bs"

definition rstrip_pad :: "string \<Rightarrow> string" where
  "rstrip_pad s = rev (dropWhile (\<lambda>c. c = CHR ''='') (rev s))"

definition b64 :: "byte list \<Rightarrow> string" where
  "b64 bs = rstrip_pad (b64_encode bs)"

text \<open>The value of a character, after \<open>-\<close> and \<open>_\<close> have been translated to \<open>+\<close> and \<open>/\<close>.\<close>

definition b64_value :: "char \<Rightarrow> byte option" where
  "b64_value c =
     (let n = of_char c :: nat
      in if 65 \<le> n \<and> n \<le> 90 then Some (of_nat (n - 65))
         else if 97 \<le> n \<and> n \<le> 122 then Some (of_nat (n - 71))
         else if 48 \<le> n \<and> n \<le> 57 then Some (of_nat (n + 4))
         else if n = 45 \<or> n = 43 then Some 62
         else if n = 95 \<or> n = 47 then Some 63
         else None)"

text \<open>The decoder: the position in the group of four, the padding seen, the bits left over.\<close>

fun b64_go :: "nat \<Rightarrow> nat \<Rightarrow> byte \<Rightarrow> string \<Rightarrow> byte list option" where
  "b64_go q pads left [] = (if q = 0 then Some [] else None)"
| "b64_go q pads left (c # cs) =
     (if c = CHR ''='' then (if q \<ge> 2 \<and> q + pads + 1 \<ge> 4 then Some [] else b64_go q (if q \<ge> 2 then pads + 1 else pads) left cs)
      else (case b64_value c of
        None \<Rightarrow> b64_go q pads left cs
      | Some v \<Rightarrow>
          if q = 0 then b64_go 1 0 v cs
          else if q = 1 then map_option (Cons (push_bit 2 left OR drop_bit 4 v)) (b64_go 2 0 (v AND 15) cs)
          else if q = 2 then map_option (Cons (push_bit 4 left OR drop_bit 2 v)) (b64_go 3 0 (v AND 3) cs)
          else map_option (Cons (push_bit 6 left OR v)) (b64_go 0 0 0 cs)))"

definition b64_decode :: "string \<Rightarrow> byte list option" where
  "b64_decode s = (if list_all (\<lambda>c. (of_char c :: nat) < 128) s then b64_go 0 0 0 s else None)"

definition unb64 :: "string \<Rightarrow> byte list option" where
  "unb64 s = b64_decode (s @ replicate ((4 - length s mod 4) mod 4) CHR ''='')"

section \<open>Hashing and checking\<close>

definition scrypt_len :: nat where
  "scrypt_len = 32"

definition hash_password :: "kdf \<Rightarrow> byte list \<Rightarrow> int \<Rightarrow> int \<Rightarrow> int \<Rightarrow> string \<Rightarrow> string option" where
  "hash_password kdf salt n r p password =
     (if password = [] then None
      else (case kdf (utf8 password) salt n r p scrypt_len of
        None \<Rightarrow> None
      | Some dk \<Rightarrow> Some (join ''$'' [''scrypt'', decimal_int n, decimal_int r, decimal_int p, b64 salt, b64 dk])))"

definition verify_password :: "kdf \<Rightarrow> string \<Rightarrow> string \<Rightarrow> bool" where
  "verify_password kdf password encoded =
     (case split_char CHR ''$'' encoded of
        [scheme, n, r, p, salt_b64, hash_b64] \<Rightarrow>
          scheme = ''scrypt'' \<and>
          (case (unb64 salt_b64, unb64 hash_b64) of
             (Some salt, Some expected) \<Rightarrow>
               (case (py_int n, py_int r, py_int p) of
                  (Some n, Some r, Some p) \<Rightarrow> kdf (utf8 password) salt n r p (length expected) = Some expected
                | _ \<Rightarrow> False)
           | _ \<Rightarrow> False)
      | _ \<Rightarrow> False)"

section \<open>Base64 is read back\<close>

lemma alphabet_codes: "b64_alphabet = map char_of ([65..<91] @ [97..<123] @ [48..<58] @ [45, 95 :: nat])"
proof -
  have "map of_char b64_alphabet = [65..<91] @ [97..<123] @ [48..<58] @ [45, 95 :: nat]"
    by (simp add: b64_alphabet_def upt_rec)
  then have "map char_of (map (of_char :: char \<Rightarrow> nat) b64_alphabet)
      = map char_of ([65..<91] @ [97..<123] @ [48..<58] @ [45, 95 :: nat])" by (rule arg_cong)
  then show ?thesis by (simp add: comp_def)
qed

lemma b64_char_code:
  assumes "(v :: byte) < 64"
  shows "(of_char (b64_char v) :: nat)
    = (if unat v < 26 then unat v + 65 else if unat v < 52 then unat v + 71
       else if unat v < 62 then unat v - 4 else if unat v = 62 then 45 else 95)"
proof -
  have "unat v < 64" using assms by (simp add: word_less_nat_alt)
  then consider "unat v < 26" | "26 \<le> unat v" "unat v < 52" | "52 \<le> unat v" "unat v < 62" | "unat v = 62" | "unat v = 63"
    by linarith
  then show ?thesis by cases (auto simp: b64_char_def alphabet_codes nth_append simp del: upt_rec_numeral)
qed

lemma b64_value_code: "(v :: byte) < 64 \<Longrightarrow> b64_value (b64_char v) = Some v"
proof -
  assume v: "v < 64"
  then have "unat v < 64" by (simp add: word_less_nat_alt)
  then consider "unat v < 26" | "26 \<le> unat v" "unat v < 52" | "52 \<le> unat v" "unat v < 62" | "unat v = 62" | "unat v = 63"
    by linarith
  then show ?thesis
  proof cases
    case 3
    then obtain k where k: "unat v = 52 + k" "k < 10" using le_Suc_ex [of 52 "unat v"] by auto
    have "word_of_nat (unat v) = v" by simp
    then have w: "52 + word_of_nat k = v" by (simp add: k)
    have "of_char (b64_char v) = 48 + k" using k by (simp add: b64_char_code [OF v])
    then show ?thesis using k w by (simp add: b64_value_def)
  next
    case 4
    then have "v = 62" by (simp add: word_unat_eq_iff)
    then show ?thesis by (simp add: b64_value_def b64_char_code)
  next
    case 5
    then have "v = 63" by (simp add: word_unat_eq_iff)
    then show ?thesis by (simp add: b64_value_def b64_char_code)
  qed (simp_all add: b64_value_def b64_char_code [OF v] Let_def)
qed

lemma b64_char_apart:
  "(v :: byte) < 64 \<Longrightarrow> b64_char v \<noteq> CHR ''='' \<and> b64_char v \<noteq> CHR ''$'' \<and> (of_char (b64_char v) :: nat) < 128"
proof -
  assume v: "v < 64"
  then have n: "unat v < 64" by (simp add: word_less_nat_alt)
  have "of_char (b64_char v) \<noteq> (61 :: nat)" "of_char (b64_char v) \<noteq> (36 :: nat)" "of_char (b64_char v) < (128 :: nat)"
    using n by (auto simp: b64_char_code [OF v])
  then show ?thesis by auto
qed

lemma masks: "(3 :: byte) = mask 2" "(15 :: byte) = mask 4" "(63 :: byte) = mask 6"
  by (simp_all add: mask_eq_decr_exp)

lemmas sextet_defs = sextet0_def sextet1_def sextet2_def sextet3_def masks

lemma regroup:
  "push_bit 2 (sextet0 a) OR drop_bit 4 (sextet1 a b) = a"
  "push_bit 4 (sextet1 a b AND 15) OR drop_bit 2 (sextet2 b c) = b"
  "push_bit 6 (sextet2 b c AND 3) OR sextet3 c = c"
proof -
  have undo: "Suc (Suc (n - 2)) = (if n < 2 then 2 else n)" "4 + (n - 4) = (if n < 4 then 4 else n)"
    "6 + (n - 6) = (if n < 6 then 6 else n)" for n :: nat by arith+
  show "push_bit 2 (sextet0 a) OR drop_bit 4 (sextet1 a b) = a"
    "push_bit 4 (sextet1 a b AND 15) OR drop_bit 2 (sextet2 b c) = b"
    "push_bit 6 (sextet2 b c AND 3) OR sextet3 c = c"
    unfolding sextet_defs
    by - (rule bit_word_eqI, auto simp: bit_simps not_less undo dest: bit_imp_le_length)+
qed

lemma below_64: "take_bit 6 x = x \<Longrightarrow> (x :: byte) < 64"
proof -
  assume "take_bit 6 x = x"
  then have "take_bit 6 (unat x) = unat x" by (metis unsigned_take_bit_eq)
  then have "unat x < 2 ^ 6" by (metis take_bit_nat_less_exp)
  then show ?thesis by (simp add: word_less_nat_alt)
qed

lemma sextets [simp]: "sextet0 a < 64" "sextet1 a b < 64" "sextet2 b c < 64" "sextet3 c < 64"
  unfolding sextet_defs
  by - (rule below_64, rule bit_word_eqI, auto simp: bit_simps not_less dest: bit_imp_le_length)+

text \<open>What the encoder writes: characters of the alphabet, then at most two of padding.\<close>

definition b64_text :: "string \<Rightarrow> bool" where
  "b64_text s \<longleftrightarrow> list_all (\<lambda>c. c \<noteq> CHR ''='' \<and> c \<noteq> CHR ''$'' \<and> (of_char c :: nat) < 128) s"

lemma b64_text_simps [simp]:
  "b64_text []" "b64_text (s @ t) \<longleftrightarrow> b64_text s \<and> b64_text t"
  "(v :: byte) < 64 \<Longrightarrow> b64_text (b64_char v # s) \<longleftrightarrow> b64_text s"
  using b64_char_apart [of v] by (auto simp: b64_text_def)

lemma encoded_shape:
  "\<exists>body p. b64_encode bs = body @ replicate p CHR ''='' \<and> p \<le> 2 \<and> (length body + p) mod 4 = 0 \<and> b64_text body"
proof (induction bs rule: b64_encode.induct)
  case 1
  show ?case by (rule exI [of _ "[]"], rule exI [of _ 0]) simp
next
  case (2 a)
  show ?case
    by (rule exI [of _ "[b64_char (sextet0 a), b64_char (sextet1 a 0)]"], rule exI [of _ 2]) (simp add: numeral_2_eq_2)
next
  case (3 a b)
  show ?case
    by (rule exI [of _ "[b64_char (sextet0 a), b64_char (sextet1 a b), b64_char (sextet2 b 0)]"], rule exI [of _ 1]) simp
next
  case (4 a b c bs)
  then obtain body p where s: "b64_encode bs = body @ replicate p CHR ''=''" "p \<le> 2" "(length body + p) mod 4 = 0" "b64_text body"
    by (elim exE conjE)
  let ?g = "[b64_char (sextet0 a), b64_char (sextet1 a b), b64_char (sextet2 b c), b64_char (sextet3 c)]"
  have "(length (?g @ body) + p) mod 4 = 0" using s(3) by simp
  then show ?case using s
    by (intro exI [of _ "?g @ body"] exI [of _ p]) simp
qed

lemma go_char:
  "(v :: byte) < 64 \<Longrightarrow> b64_go 0 pads left (b64_char v # cs) = b64_go (Suc 0) 0 v cs"
  "(v :: byte) < 64 \<Longrightarrow> b64_go (Suc 0) pads left (b64_char v # cs) = map_option (Cons (push_bit 2 left OR drop_bit 4 v)) (b64_go 2 0 (v AND 15) cs)"
  "(v :: byte) < 64 \<Longrightarrow> b64_go 2 pads left (b64_char v # cs) = map_option (Cons (push_bit 4 left OR drop_bit 2 v)) (b64_go 3 0 (v AND 3) cs)"
  "(v :: byte) < 64 \<Longrightarrow> b64_go 3 pads left (b64_char v # cs) = map_option (Cons (push_bit 6 left OR v)) (b64_go 0 0 0 cs)"
  using b64_char_apart [of v] b64_value_code [of v] by simp_all

lemma go_pad: "b64_go 2 0 left ''=='' = Some []" "b64_go 3 0 left ''='' = Some []"
  by simp_all

lemma go_encoded: "b64_go 0 0 0 (b64_encode bs) = Some bs"
  by (induction bs rule: b64_encode.induct)
    (simp_all add: go_char go_pad regroup regroup(2) [of _ _ 0] regroup(1) [of _ 0] del: b64_go.simps(2) push_bit_and)

lemma rstrip_body: "b64_text body \<Longrightarrow> rstrip_pad (body @ replicate p CHR ''='') = body"
proof -
  assume b: "b64_text body"
  have "dropWhile (\<lambda>c. c = CHR ''='') (replicate p CHR ''='' @ rev body) = dropWhile (\<lambda>c. c = CHR ''='') (rev body)"
    by (induction p) simp_all
  moreover have "dropWhile (\<lambda>c. c = CHR ''='') (rev body) = rev body"
    using b by (cases "rev body") (auto simp: b64_text_def list_all_iff dest: arg_cong [of _ _ set])
  ultimately show ?thesis by (simp add: rstrip_pad_def)
qed

lemma missing_pads:
  assumes "p \<le> 2" "(n + p) mod 4 = (0 :: nat)"
  shows "(4 - n mod 4) mod 4 = p"
proof -
  have m: "(n mod 4 + p) mod 4 = 0" using assms(2) by (simp add: mod_add_left_eq)
  have "n mod 4 = 0 \<or> n mod 4 = 1 \<or> n mod 4 = 2 \<or> n mod 4 = 3" by linarith
  moreover have "p = 0 \<or> p = 1 \<or> p = 2" using assms(1) by linarith
  ultimately show ?thesis using m by (elim disjE) simp_all
qed

lemma unb64_b64: "unb64 (b64 bs) = Some bs"
proof -
  obtain body p where s: "b64_encode bs = body @ replicate p CHR ''=''" "p \<le> 2" "(length body + p) mod 4 = 0" "b64_text body"
    using encoded_shape [of bs] by (elim exE conjE)
  have "(4 - length body mod 4) mod 4 = p" using s(2,3) by (rule missing_pads)
  then have "unb64 (b64 bs) = b64_decode (b64_encode bs)"
    using s by (simp add: unb64_def b64_def rstrip_body)
  moreover have "list_all (\<lambda>c. (of_char c :: nat) < 128) (replicate p CHR ''='')"
    by (induction p) simp_all
  moreover have "list_all (\<lambda>c. (of_char c :: nat) < 128) body"
    using s(4) by (simp add: b64_text_def list_all_iff)
  ultimately have "unb64 (b64 bs) = b64_decode (b64_encode bs)" "list_all (\<lambda>c. (of_char c :: nat) < 128) (b64_encode bs)"
    by (simp_all only: s(1) list_all_append simp_thms)
  then show ?thesis by (simp add: b64_decode_def go_encoded)
qed

lemma b64_no_dollar: "CHR ''$'' \<notin> set (b64 bs)"
proof -
  obtain body p where "b64_encode bs = body @ replicate p CHR ''=''" "b64_text body"
    using encoded_shape [of bs] by (elim exE conjE)
  then show ?thesis by (auto simp: b64_def rstrip_body b64_text_def list_all_iff)
qed

section \<open>A password verifies against its own hash\<close>

lemma decimal_no_dollar: "CHR ''$'' \<notin> set (decimal_int i)"
  using decimal_chars [of "nat i"] decimal_chars [of "nat (- i)"] by (auto simp: decimal_int_def)

lemma hashed_fields:
  assumes "hash_password kdf salt n r p password = Some encoded"
  obtains dk where "kdf (utf8 password) salt n r p scrypt_len = Some dk" "password \<noteq> []"
    "split_char CHR ''$'' encoded = [''scrypt'', decimal_int n, decimal_int r, decimal_int p, b64 salt, b64 dk]"
proof -
  obtain dk where dk: "kdf (utf8 password) salt n r p scrypt_len = Some dk" "password \<noteq> []"
    "encoded = join ''$'' [''scrypt'', decimal_int n, decimal_int r, decimal_int p, b64 salt, b64 dk]"
    using assms by (auto simp: hash_password_def split: if_splits option.splits)
  have "split_char CHR ''$'' encoded = [''scrypt'', decimal_int n, decimal_int r, decimal_int p, b64 salt, b64 dk]"
    unfolding dk(3) by (intro split_char_join) (auto simp: decimal_no_dollar b64_no_dollar)
  then show thesis using that dk by blast
qed

text \<open>C22: A stored password is checked exactly: the text \<open>hash_password\<close> stores verifies a candidate if and only
  if the key derivation gives the candidate the same key under the same salt and costs; so the password itself
  verifies, and whatever else verifies is a collision of the derivation. The derivation is a parameter, of which it is
  assumed that it returns the number of bytes asked for.\<close>

lemma stored_password_checks_exactly:
  assumes "hash_password kdf salt n r p password = Some encoded"
    and "\<And>pw s n r p k dk. kdf pw s n r p k = Some dk \<Longrightarrow> length dk = k"
  shows "verify_password kdf candidate encoded
    \<longleftrightarrow> kdf (utf8 candidate) salt n r p scrypt_len = kdf (utf8 password) salt n r p scrypt_len"
proof -
  from assms(1) obtain dk where dk: "kdf (utf8 password) salt n r p scrypt_len = Some dk"
    "split_char CHR ''$'' encoded = [''scrypt'', decimal_int n, decimal_int r, decimal_int p, b64 salt, b64 dk]"
    by (rule hashed_fields)
  then show ?thesis using assms(2) [OF dk(1)] by (simp add: verify_password_def unb64_b64 py_int_decimal)
qed

definition toy_kdf :: kdf where
  "toy_kdf pw salt n r p k = (if pw = [] then None else Some (replicate k (last pw)))"

lemma stored_password_checks_exactly_witness:
  "\<exists>encoded. hash_password toy_kdf [1, 255, 3, 4] 16384 8 1 ''secret-word'' = Some encoded
     \<and> verify_password toy_kdf ''secret-word'' encoded \<and> \<not> verify_password toy_kdf ''secret-work'' encoded"
proof -
  have len: "\<And>pw s n r p k dk. toy_kdf pw s n r p k = Some dk \<Longrightarrow> length dk = k"
    by (auto simp: toy_kdf_def split: if_splits)
  have some: "toy_kdf (utf8 ''secret-word'') s n r p k = Some (replicate k 100)"
    "toy_kdf (utf8 ''secret-work'') s n r p k = Some (replicate k 107)" for s n r p k
    by (simp_all add: toy_kdf_def utf8_def utf8_char_def)
  have "\<exists>encoded. hash_password toy_kdf [1, 255, 3, 4] 16384 8 1 ''secret-word'' = Some encoded"
    by (simp only: hash_password_def some) simp
  then obtain encoded where e: "hash_password toy_kdf [1, 255, 3, 4] 16384 8 1 ''secret-word'' = Some encoded" ..
  have "replicate scrypt_len (107 :: byte) \<noteq> replicate scrypt_len 100" by (simp add: scrypt_len_def)
  then have "\<not> verify_password toy_kdf ''secret-work'' encoded"
    by (simp only: stored_password_checks_exactly [OF e len] some option.inject) simp
  moreover have "verify_password toy_kdf ''secret-word'' encoded"
    by (simp only: stored_password_checks_exactly [OF e len])
  ultimately show ?thesis using e by (intro exI conjI)
qed

end
