(* ===== verification/AuthLimits.thy ===== *)
theory AuthLimits
  imports Prelude Complex_Main
begin

text \<open>
  \<open>identity/ratelimit.py\<close>: the request budget per key and the lockout after failed logins.

  Both keep, for each key, the times of the hits of the last window. Time is a rational number of seconds
  read once per call. The per-process lock makes a call one step. The locale \<open>window_guard\<close> states what both
  classes promise, and its lemma bounds the admitted calls of any window; it is interpreted on both.
\<close>

section \<open>Deques of times\<close>

type_synonym time_table = "(string \<times> rat list) list"

definition prune_at :: nat where
  "prune_at = 4096"

definition times_of :: "string \<Rightarrow> time_table \<Rightarrow> rat list" where
  "times_of key tab = (case map_of tab key of None \<Rightarrow> [] | Some q \<Rightarrow> q)"

text \<open>The cleanup of both classes: keys whose last hit is out of the window go.\<close>

definition prune_times :: "rat \<Rightarrow> time_table \<Rightarrow> time_table" where
  "prune_times cutoff tab =
     (if length tab < prune_at then tab
      else filter (\<lambda>(k, q). \<not> (q = [] \<or> last q \<le> cutoff)) tab)"

definition drop_old :: "rat \<Rightarrow> rat list \<Rightarrow> rat list" where
  "drop_old cutoff q = dropWhile (\<lambda>t. t \<le> cutoff) q"

section \<open>The request budget\<close>

record limiter =
  l_limit :: int
  l_window :: rat

definition allow_hit :: "limiter \<Rightarrow> string \<Rightarrow> rat \<Rightarrow> time_table \<Rightarrow> bool \<times> time_table" where
  "allow_hit l key now tab =
     (let tab = prune_times (now - l_window l) tab;
          q = drop_old (now - l_window l) (times_of key tab)
      in if int (length q) \<ge> l_limit l then (False, dict_put key q tab)
         else (True, dict_put key (q @ [now]) tab))"

section \<open>The lockout after failures\<close>

record lockout_cfg =
  k_threshold :: int
  k_lockout :: rat

text \<open>Seconds until the key unlocks, zero when it is not locked.\<close>

definition locked_for :: "lockout_cfg \<Rightarrow> string \<Rightarrow> rat \<Rightarrow> time_table \<Rightarrow> rat \<times> time_table" where
  "locked_for c key now tab =
     (case times_of key tab of
        [] \<Rightarrow> (0, tab)
      | q0 # q \<Rightarrow>
          (case drop_old (now - k_lockout c) (q0 # q) of
             [] \<Rightarrow> (0, dict_pop key tab)
           | r0 # r \<Rightarrow>
               (if int (length (r0 # r)) \<ge> k_threshold c then r0 + k_lockout c - now else 0,
                dict_put key (r0 # r) tab)))"

definition record_failure :: "lockout_cfg \<Rightarrow> string \<Rightarrow> rat \<Rightarrow> time_table \<Rightarrow> time_table" where
  "record_failure c key now tab =
     (let tab = prune_times (now - k_lockout c) tab in dict_put key (times_of key tab @ [now]) tab)"

definition clear_failures :: "string \<Rightarrow> time_table \<Rightarrow> time_table" where
  "clear_failures key tab = dict_pop key tab"

section \<open>The windows as filters\<close>

named_theorems time_simps "the part of a table that is inside the window"

definition live :: "rat \<Rightarrow> rat list \<Rightarrow> rat list" where
  "live cutoff q = filter (\<lambda>t. t > cutoff) q"

lemma drop_old_live: "sorted q \<Longrightarrow> drop_old cutoff q = live cutoff q"
proof (induction q)
  case (Cons t q)
  have "live cutoff (t # q) = t # q" if "\<not> t \<le> cutoff"
    using that Cons.prems by (fastforce simp: live_def intro!: filter_True)
  then show ?case using Cons by (auto simp: drop_old_def live_def)
qed (simp add: drop_old_def live_def)

lemma live_append [time_simps]: "live c (p @ q) = live c p @ live c q"
  by (simp add: live_def)

lemma live_single [time_simps]: "live c [t] = (if t > c then [t] else [])"
  by (simp add: live_def)

lemma live_live [time_simps]: "live c (live c q) = live c q"
  by (simp add: live_def)

lemma live_Nil [simp, time_simps]: "live c [] = []"
  by (simp add: live_def)

lemma live_mono: "c \<le> d \<Longrightarrow> live d (live c q) = live d q"
  by (simp add: live_def) (metis (mono_tags, lifting) filter_cong order_le_less_trans)

lemma sorted_live: "sorted q \<Longrightarrow> sorted (live c q)"
  by (simp add: live_def sorted_filter [where f = id, simplified])

lemma set_live: "set (live c q) \<subseteq> set q"
  by (auto simp: live_def)

lemma times_of_put [time_simps]: "times_of k (dict_put k' q tab) = (if k = k' then q else times_of k tab)"
  by (simp add: times_of_def)

lemma times_of_pop [time_simps]: "times_of k (dict_pop k' tab) = (if k = k' then [] else times_of k tab)"
  by (simp add: times_of_def)

text \<open>The tables a run builds: one entry per key, and each deque is sorted and not in the future.\<close>

definition table_ok :: "rat \<Rightarrow> time_table \<Rightarrow> bool" where
  "table_ok now tab \<longleftrightarrow> distinct (map fst tab) \<and> (\<forall>k. sorted (times_of k tab) \<and> (\<forall>t \<in> set (times_of k tab). t \<le> now))"

lemma map_of_filter_keep:
  "distinct (map fst ps) \<Longrightarrow>
   map_of (filter P ps) k = (case map_of ps k of None \<Rightarrow> None | Some v \<Rightarrow> if P (k, v) then Some v else None)"
proof (induction ps)
  case (Cons p ps)
  obtain a b where p: "p = (a, b)" by (cases p)
  have "map_of ps a = None" using Cons.prems p by (simp add: map_of_eq_None_iff)
  then show ?case using Cons p by (auto split: option.splits)
qed simp

lemma times_of_prune:
  assumes "distinct (map fst tab)"
  shows "times_of k (prune_times cutoff tab)
    = (if length tab < prune_at \<or> times_of k tab = [] \<or> last (times_of k tab) > cutoff then times_of k tab else [])"
  using assms by (auto simp: prune_times_def times_of_def map_of_filter_keep split: option.splits)

lemma live_prune:
  assumes ok: "table_ok now tab"
  shows "live cutoff (times_of k (prune_times cutoff tab)) = live cutoff (times_of k tab)"
proof -
  have d: "distinct (map fst tab)" and s: "sorted (times_of k tab)"
    using ok by (auto simp: table_ok_def)
  have "live cutoff (times_of k tab) = []" if "times_of k tab \<noteq> []" "last (times_of k tab) \<le> cutoff"
  proof -
    have "\<forall>t \<in> set (times_of k tab). t \<le> last (times_of k tab)"
      using s that(1) by (metis in_set_conv_nth last_conv_nth diff_less length_greater_0_conv less_numeral_extra(1)
          less_Suc_eq_le Suc_diff_1 sorted_nth_mono)
    then show ?thesis using that(2) by (force simp: live_def filter_empty_conv)
  qed
  then show ?thesis by (auto simp: times_of_prune [OF d] not_less)
qed

lemma table_ok_prune: "table_ok now tab \<Longrightarrow> table_ok now (prune_times cutoff tab)"
  by (auto simp: table_ok_def times_of_prune) (simp add: prune_times_def distinct_map_filter)

lemma table_ok_later: "table_ok t tab \<Longrightarrow> t \<le> now \<Longrightarrow> table_ok now tab"
  by (meson order_trans table_ok_def)

lemma table_ok_put:
  "table_ok now tab \<Longrightarrow> sorted q \<Longrightarrow> \<forall>t \<in> set q. t \<le> now \<Longrightarrow> table_ok now (dict_put k q tab)"
  by (auto simp: table_ok_def time_simps distinct_dict_put)

lemma table_ok_pop: "table_ok now tab \<Longrightarrow> table_ok now (dict_pop k tab)"
  by (auto simp: table_ok_def time_simps distinct_dict_pop)

lemma table_ok_times: "table_ok now tab \<Longrightarrow> sorted (times_of k tab) \<and> (\<forall>t \<in> set (times_of k tab). t \<le> now)"
  by (simp add: table_ok_def)

lemma sorted_snoc_now: "sorted q \<Longrightarrow> \<forall>t \<in> set q. t \<le> now \<Longrightarrow> sorted (q @ [now])"
  by (simp add: sorted_append)

section \<open>What both classes promise\<close>

text \<open>The admitted calls of a sequence of calls, each a key and a time.\<close>

fun admitted :: "(string \<Rightarrow> rat \<Rightarrow> 's \<Rightarrow> bool \<times> 's) \<Rightarrow> (string \<times> rat) list \<Rightarrow> 's \<Rightarrow> (string \<times> rat) list" where
  "admitted attempt [] s = []"
| "admitted attempt ((k, now) # calls) s =
     (let (b, s') = attempt k now s in (if b then [(k, now)] else []) @ admitted attempt calls s')"

definition calls_of :: "string \<Rightarrow> (string \<times> rat) list \<Rightarrow> rat list" where
  "calls_of k cs = map snd (filter (\<lambda>c. fst c = k) cs)"

definition in_window :: "rat \<Rightarrow> rat \<Rightarrow> rat list \<Rightarrow> nat" where
  "in_window w t ts = length (filter (\<lambda>u. t - w < u \<and> u \<le> t) ts)"

lemma in_window_append [time_simps]: "in_window w t (p @ q) = in_window w t p + in_window w t q"
  by (simp add: in_window_def)

lemma in_window_live: "in_window w t h \<le> length (live (t - w) h)"
  by (induction h) (auto simp: in_window_def live_def)

lemma calls_of_append [time_simps]: "calls_of k (p @ q) = calls_of k p @ calls_of k q"
  by (simp add: calls_of_def)

lemma live_shorter: "c \<le> d \<Longrightarrow> length (live d q) \<le> length (live c q)"
  by (metis live_def live_mono length_filter_le)

locale window_guard =
  fixes attempt :: "string \<Rightarrow> rat \<Rightarrow> 's \<Rightarrow> bool \<times> 's"
    and held :: "string \<Rightarrow> 's \<Rightarrow> rat list"
    and ok :: "rat \<Rightarrow> 's \<Rightarrow> bool"
    and window :: rat
    and limit :: int
  assumes ok_step: "ok t s \<Longrightarrow> t \<le> now \<Longrightarrow> ok now (snd (attempt k now s))"
    and room: "ok t s \<Longrightarrow> t \<le> now \<Longrightarrow> fst (attempt k now s) \<Longrightarrow> int (length (live (now - window) (held k s))) < limit"
    and keeps: "ok t s \<Longrightarrow> t \<le> now \<Longrightarrow>
      live (now - window) (held k' (snd (attempt k now s)))
      = live (now - window) (held k' s) @ (if k = k' \<and> fst (attempt k now s) then live (now - window) [now] else [])"
begin

lemma window_step:
  fixes k k' :: string and h :: "rat list"
  assumes ok: "ok T s" and T: "T \<le> now"
    and h: "\<forall>u \<in> set h. u \<le> T" "live (T - window) h = live (T - window) (held k s)"
      "\<forall>t. in_window window t h \<le> nat limit"
  defines "h' \<equiv> h @ (if k' = k \<and> fst (attempt k' now s) then [now] else [])"
  shows "(\<forall>u \<in> set h'. u \<le> now)
    \<and> live (now - window) h' = live (now - window) (held k (snd (attempt k' now s)))
    \<and> (\<forall>t. in_window window t h' \<le> nat limit)"
proof (intro conjI allI)
  have c: "T - window \<le> now - window" using T by simp
  have same: "live (now - window) h = live (now - window) (held k s)"
    by (metis c h(2) live_mono)
  show "\<forall>u \<in> set h'. u \<le> now" using h(1) T by (auto simp: h'_def intro: order_trans)
  show "live (now - window) h' = live (now - window) (held k (snd (attempt k' now s)))"
    by (auto simp: h'_def live_append same keeps [OF ok T])
  fix t
  show "in_window window t h' \<le> nat limit"
  proof (cases "k' = k \<and> fst (attempt k' now s) \<and> t - window < now \<and> now \<le> t")
    case True
    then have room': "int (length (live (now - window) (held k s))) < limit" using room [OF ok T] by blast
    have "in_window window t h \<le> length (live (t - window) h)" by (rule in_window_live)
    also have "\<dots> \<le> length (live (now - window) (held k s))"
      using live_shorter [of "now - window" "t - window" h] True same by simp
    finally have "int (in_window window t h) < limit" using room' by linarith
    then show ?thesis using True by (auto simp: h'_def in_window_def)
  next
    case False
    then show ?thesis using h(3) by (auto simp: h'_def in_window_def)
  qed
qed

lemma window_run:
  assumes "ok T s" "sorted (T # map snd calls)"
    and "\<forall>u \<in> set h. u \<le> T" "live (T - window) h = live (T - window) (held k s)"
      "\<forall>t. in_window window t h \<le> nat limit"
  shows "in_window window t (h @ calls_of k (admitted attempt calls s)) \<le> nat limit"
  using assms
proof (induction calls arbitrary: T s h)
  case Nil
  then show ?case by (simp add: calls_of_def)
next
  case (Cons call calls)
  obtain k' now where call: "call = (k', now)" by (cases call)
  have T: "T \<le> now" and srt: "sorted (now # map snd calls)" using Cons.prems(2) by (auto simp: call)
  note step = window_step [OF Cons.prems(1) T Cons.prems(3-5), of k']
  have "in_window window t ((h @ (if k' = k \<and> fst (attempt k' now s) then [now] else []))
      @ calls_of k (admitted attempt calls (snd (attempt k' now s)))) \<le> nat limit"
    using step by (intro Cons.IH [OF ok_step [OF Cons.prems(1) T] srt]) blast+
  moreover have "calls_of k (admitted attempt (call # calls) s)
      = (if k' = k \<and> fst (attempt k' now s) then [now] else [])
        @ calls_of k (admitted attempt calls (snd (attempt k' now s)))"
    by (auto simp: call calls_of_def split: prod.splits)
  ultimately show ?case by simp
qed

lemma window_bound:
  assumes "ok T s" "sorted (T # map snd calls)" "held k s = []"
  shows "in_window window t (calls_of k (admitted attempt calls s)) \<le> nat limit"
  using window_run [OF assms(1,2), of "[]"] assms(3) by (simp add: in_window_def)

end

section \<open>The request budget keeps its promise\<close>

lemma allow_hit_admits:
  "fst (allow_hit l k now tab) \<longleftrightarrow>
     int (length (drop_old (now - l_window l) (times_of k (prune_times (now - l_window l) tab)))) < l_limit l"
  by (auto simp: allow_hit_def Let_def)

lemma allow_hit_drop:
  "table_ok now tab \<Longrightarrow>
   drop_old (now - l_window l) (times_of k (prune_times (now - l_window l) tab)) = live (now - l_window l) (times_of k tab)"
  using table_ok_times [OF table_ok_prune] by (simp add: drop_old_live live_prune)

lemma allow_hit_ok: "table_ok now tab \<Longrightarrow> table_ok now (snd (allow_hit l k now tab))"
proof -
  assume ok: "table_ok now tab"
  have q: "sorted (live c (times_of k tab))" "\<forall>t \<in> set (live c (times_of k tab)). t \<le> now" for c
    using table_ok_times [OF ok, of k] set_live [of c] sorted_live by fastforce+
  show ?thesis
    unfolding allow_hit_def Let_def allow_hit_drop [OF ok]
    using q by (auto intro!: table_ok_put table_ok_prune ok sorted_snoc_now)
qed

lemma allow_hit_keeps:
  assumes "table_ok now tab"
  shows "live (now - l_window l) (times_of k' (snd (allow_hit l k now tab)))
    = live (now - l_window l) (times_of k' tab)
      @ (if k = k' \<and> fst (allow_hit l k now tab) then live (now - l_window l) [now] else [])"
  by (auto simp: allow_hit_def Let_def allow_hit_drop [OF assms] time_simps live_prune [OF assms])

interpretation budget: window_guard "allow_hit l" times_of table_ok "l_window l" "l_limit l" for l
proof
  fix t s now k k'
  assume ok: "table_ok t s" and t: "t \<le> now"
  note now = table_ok_later [OF ok t]
  show "table_ok now (snd (allow_hit l k now s))" by (rule allow_hit_ok [OF now])
  show "live (now - l_window l) (times_of k' (snd (allow_hit l k now s))) =
      live (now - l_window l) (times_of k' s)
      @ (if k = k' \<and> fst (allow_hit l k now s) then live (now - l_window l) [now] else [])"
    by (rule allow_hit_keeps [OF now])
  show "int (length (live (now - l_window l) (times_of k s))) < l_limit l" if "fst (allow_hit l k now s)"
    using that by (simp add: allow_hit_admits allow_hit_drop [OF now])
qed

section \<open>The lockout keeps its promise\<close>

text \<open>A login attempt that the password check refuses: \<open>_guard_lockout\<close>, then \<open>record_failure\<close>.\<close>

definition failed_guess :: "lockout_cfg \<Rightarrow> string \<Rightarrow> rat \<Rightarrow> time_table \<Rightarrow> bool \<times> time_table" where
  "failed_guess c key now tab =
     (let (wait, tab) = locked_for c key now tab
      in if wait > 0 then (False, tab) else (True, record_failure c key now tab))"

lemma locked_for_ok: "table_ok now tab \<Longrightarrow> table_ok now (snd (locked_for c k now tab))"
proof -
  assume ok: "table_ok now tab"
  note q = table_ok_times [OF ok, of k]
  have d: "drop_old (now - k_lockout c) (times_of k tab) = live (now - k_lockout c) (times_of k tab)"
    using q by (simp add: drop_old_live)
  have "sorted (live (now - k_lockout c) (times_of k tab))"
    "\<forall>t \<in> set (live (now - k_lockout c) (times_of k tab)). t \<le> now"
    using q set_live [of "now - k_lockout c"] sorted_live by fastforce+
  then show ?thesis using ok d
    by (auto simp: locked_for_def split: list.splits intro!: table_ok_put table_ok_pop)
qed

lemma locked_for_keeps:
  assumes "table_ok now tab"
  shows "live (now - k_lockout c) (times_of k' (snd (locked_for c k now tab)))
    = live (now - k_lockout c) (times_of k' tab)"
proof -
  have d: "drop_old (now - k_lockout c) (times_of k tab) = live (now - k_lockout c) (times_of k tab)"
    using table_ok_times [OF assms, of k] by (simp add: drop_old_live)
  show ?thesis
  proof (cases "times_of k tab")
    case Nil
    then show ?thesis by (simp add: locked_for_def)
  next
    case (Cons q0 q)
    have l: "live (now - k_lockout c) (live (now - k_lockout c) (times_of k tab)) = live (now - k_lockout c) (times_of k tab)"
      by (simp add: live_live)
    show ?thesis
      using d l unfolding Cons
      by (auto simp: locked_for_def Cons times_of_put times_of_pop split: list.splits)
  qed
qed

text \<open>The key is locked exactly when the failures of the window reach the threshold (one at least).\<close>

lemma locked_for_locks:
  assumes ok: "table_ok now tab"
  shows "fst (locked_for c k now tab) > 0
    \<longleftrightarrow> int (length (live (now - k_lockout c) (times_of k tab))) \<ge> max 1 (k_threshold c)"
proof -
  define L where "L = live (now - k_lockout c) (times_of k tab)"
  have d: "drop_old (now - k_lockout c) (times_of k tab) = L"
    using table_ok_times [OF ok, of k] by (simp add: drop_old_live L_def)
  have hd: "hd L + k_lockout c - now > 0" if "L \<noteq> []"
  proof -
    have "hd L \<in> set L" using that by simp
    then show ?thesis by (auto simp: L_def live_def)
  qed
  have "fst (locked_for c k now tab) > 0 \<longleftrightarrow> int (length L) \<ge> max 1 (k_threshold c)"
  proof (cases "times_of k tab")
    case Nil
    then have "L = []" by (simp add: L_def)
    then show ?thesis using Nil by (simp add: locked_for_def)
  next
    case (Cons q0 q)
    then show ?thesis using d hd by (cases L) (auto simp: locked_for_def)
  qed
  then show ?thesis by (simp add: L_def)
qed

lemma record_failure_ok: "table_ok now tab \<Longrightarrow> table_ok now (record_failure c k now tab)"
  using table_ok_times [OF table_ok_prune, of now tab k "now - k_lockout c"]
  by (auto simp: record_failure_def Let_def intro!: table_ok_put table_ok_prune sorted_snoc_now)

lemma record_failure_keeps:
  "table_ok now tab \<Longrightarrow>
   live (now - k_lockout c) (times_of k' (record_failure c k now tab))
   = live (now - k_lockout c) (times_of k' tab) @ (if k = k' then live (now - k_lockout c) [now] else [])"
  by (simp add: record_failure_def Let_def time_simps live_prune)

lemma failed_guess_admits: "fst (failed_guess c k now tab) \<longleftrightarrow> \<not> fst (locked_for c k now tab) > 0"
  by (auto simp: failed_guess_def split: prod.splits)

lemma failed_guess_table:
  "snd (failed_guess c k now tab)
   = (if fst (failed_guess c k now tab) then record_failure c k now (snd (locked_for c k now tab))
      else snd (locked_for c k now tab))"
  by (auto simp: failed_guess_def split: prod.splits)

interpretation lockout: window_guard "failed_guess c" times_of table_ok "k_lockout c" "max 1 (k_threshold c)" for c
proof
  fix t s now k k'
  assume ok: "table_ok t s" and t: "t \<le> now"
  note now = table_ok_later [OF ok t]
  show "table_ok now (snd (failed_guess c k now s))"
    unfolding failed_guess_table by (auto intro: locked_for_ok record_failure_ok now)
  show "live (now - k_lockout c) (times_of k' (snd (failed_guess c k now s))) =
      live (now - k_lockout c) (times_of k' s)
      @ (if k = k' \<and> fst (failed_guess c k now s) then live (now - k_lockout c) [now] else [])"
    unfolding failed_guess_table
    by (auto simp: record_failure_keeps [OF locked_for_ok [OF now]] locked_for_keeps [OF now])
  show "int (length (live (now - k_lockout c) (times_of k s))) < max 1 (k_threshold c)"
    if "fst (failed_guess c k now s)"
    using that unfolding failed_guess_admits locked_for_locks [OF now] by linarith
qed

lemma table_ok_Nil: "table_ok now []"
  by (simp add: table_ok_def times_of_def)



text \<open>The request budget of a key holds over every window of its length.\<close>

lemma requests_are_bounded:
  assumes "sorted (map snd hits)"
  shows "in_window (l_window l) now (calls_of key (admitted (allow_hit l) hits [])) \<le> nat (l_limit l)"
proof (cases hits)
  case Nil
  then show ?thesis by (simp add: calls_of_def in_window_def)
next
  case (Cons g gs)
  then show ?thesis
    using assms budget.window_bound [of "snd g" "[]" hits key l now] table_ok_Nil
    by (simp add: times_of_def)
qed

text \<open>A cleared key is not locked, and clearing leaves every other key as it was.\<close>

lemma cleared_key_is_open: "fst (locked_for c key now (clear_failures key tab)) = 0"
  by (simp add: locked_for_def clear_failures_def time_simps)

lemma clearing_keeps_the_others: "k \<noteq> key \<Longrightarrow> times_of k (clear_failures key tab) = times_of k tab"
  by (simp add: clear_failures_def time_simps)

end
