(* ===== verification/IdStore.thy ===== *)
theory IdStore
  imports Passwords AuthLimits
begin

text \<open>
  \<open>identity/models.py\<close> and \<open>identity/store.py\<close>: the records of the identity service and the JSON files that
  hold them.

  Each file is a JSON object whose keys are the identifiers of its records (every write is
  \<open>data[rec.id] = rec\<close>), so a store is the list of its records, in the order of the file. The lock of a store
  makes each of its operations one step; the file that is written beside and swapped in is left out.
  The locale \<open>record_store\<close> states what the record stores promise to the service.
\<close>

section \<open>Records\<close>

datatype user_status = Active | Disabled | Pending

record user_record =
  ur_id :: string
  ur_email :: string
  ur_hash :: string
  ur_name :: string
  ur_tenant :: string
  ur_roles :: "string list"
  ur_status :: user_status
  ur_created :: string
  ur_note :: string

record api_key =
  ak_id :: string
  ak_user :: string
  ak_name :: string
  ak_created :: string
  ak_last_used :: string
  ak_revoked :: bool

record refresh_token =
  rf_id :: string
  rf_user :: string
  rf_expires :: rat
  rf_revoked :: bool
  rf_rotated_to :: string
  rf_created :: string

record reset_token =
  rs_id :: string
  rs_user :: string
  rs_expires :: rat
  rs_used :: bool
  rs_created :: string

datatype invite_status = InvitePending | Accepted | Revoked

record invite =
  iv_token :: string
  iv_email :: string
  iv_tenant :: string
  iv_role :: string
  iv_created :: string
  iv_expires :: rat
  iv_status :: invite_status
  iv_accepted_by :: string

record audit_event =
  av_id :: string
  av_ts :: string
  av_tenant :: string
  av_actor :: string
  av_email :: string
  av_action :: string
  av_target :: string
  av_detail :: string

section \<open>Objects keyed by their identifier\<close>

definition rec_get :: "('r \<Rightarrow> string) \<Rightarrow> string \<Rightarrow> 'r list \<Rightarrow> 'r option" where
  "rec_get key k rs = List.find (\<lambda>r. key r = k) rs"

fun rec_put :: "('r \<Rightarrow> string) \<Rightarrow> 'r \<Rightarrow> 'r list \<Rightarrow> 'r list" where
  "rec_put key r [] = [r]"
| "rec_put key r (x # xs) = (if key x = key r then r # xs else x # rec_put key r xs)"

definition rec_del :: "('r \<Rightarrow> string) \<Rightarrow> string \<Rightarrow> 'r list \<Rightarrow> 'r list" where
  "rec_del key k rs = filter (\<lambda>r. key r \<noteq> k) rs"

definition rec_ok :: "('r \<Rightarrow> string) \<Rightarrow> 'r list \<Rightarrow> bool" where
  "rec_ok key rs \<longleftrightarrow> distinct (map key rs)"

named_theorems rec_simps "lookups in an object after a write"

lemma rec_ok_Nil [simp]: "rec_ok key []"
  by (simp add: rec_ok_def)

lemma rec_ok_Cons [simp]: "rec_ok key (x # xs) \<longleftrightarrow> (\<forall>y \<in> set xs. key y \<noteq> key x) \<and> rec_ok key xs"
  by (simp add: rec_ok_def image_iff) (metis (no_types))

lemma rec_get_put [rec_simps]: "rec_get key k (rec_put key r rs) = (if k = key r then Some r else rec_get key k rs)"
  by (induction rs) (auto simp: rec_get_def)

lemma rec_get_del [rec_simps]: "rec_get key k (rec_del key k' rs) = (if k = k' then None else rec_get key k rs)"
  by (induction rs) (auto simp: rec_get_def rec_del_def)

lemma rec_get_key: "rec_get key k rs = Some r \<Longrightarrow> key r = k \<and> r \<in> set rs"
  by (auto simp: rec_get_def dest: find_Some_D)

lemma rec_get_filter [rec_simps]:
  "rec_ok key rs \<Longrightarrow> rec_get key k (filter P rs) = (case rec_get key k rs of None \<Rightarrow> None | Some r \<Rightarrow> if P r then Some r else None)"
proof (induction rs)
  case (Cons x xs)
  have "rec_get key (key x) xs = None" using Cons.prems by (auto simp: rec_get_def find_None_iff)
  then show ?case using Cons by (auto simp: rec_get_def split: option.splits)
qed (simp add: rec_get_def)

lemma rec_get_map [rec_simps]:
  "(\<And>r. key (f r) = key r) \<Longrightarrow> rec_get key k (map f rs) = map_option f (rec_get key k rs)"
  by (induction rs) (auto simp: rec_get_def)

lemma rec_get_in: "rec_ok key rs \<Longrightarrow> r \<in> set rs \<Longrightarrow> rec_get key (key r) rs = Some r"
  by (induction rs) (auto simp: rec_get_def)

lemma keys_rec_put: "key ` set (rec_put key r rs) = insert (key r) (key ` set rs)"
  by (induction rs) auto

lemma rec_ok_put: "rec_ok key rs \<Longrightarrow> rec_ok key (rec_put key r rs)"
proof (induction rs)
  case (Cons x xs)
  then show ?case using keys_rec_put [of key r xs] by (auto simp: set_eq_iff image_iff) (metis (no_types))+
qed simp

lemma rec_ok_filter: "rec_ok key rs \<Longrightarrow> rec_ok key (filter P rs)"
  by (simp add: rec_ok_def distinct_map_filter)

lemma rec_ok_del: "rec_ok key rs \<Longrightarrow> rec_ok key (rec_del key k rs)"
  by (simp add: rec_del_def rec_ok_filter)

lemma rec_ok_map: "rec_ok key rs \<Longrightarrow> (\<And>r. key (f r) = key r) \<Longrightarrow> rec_ok key (map f rs)"
  by (simp add: rec_ok_def comp_def)

lemma set_rec_put: "rec_ok key rs \<Longrightarrow> set (rec_put key r rs) = insert r {x \<in> set rs. key x \<noteq> key r}"
  by (induction rs) auto

lemma set_rec_del: "set (rec_del key k rs) = {x \<in> set rs. key x \<noteq> k}"
  by (auto simp: rec_del_def)

section \<open>Accounts\<close>

datatype id_error =
    UserIdExists | EmailRegistered | UserGone | EmailInUse
  | InvalidEmail | ShortPassword | HashFailed
  | RegistrationDisabled | RequestsDisabled | AccountPending
  | InvalidRole | EmailRequired | AlreadyMember
  | InviteNotFound | InvalidInvite | AccountExists
  | NotPending | MemberNotFound | NotActive | RankTooLow
  | InvalidReset | InvalidRefresh
  | OwnerRoleFixed | LastAdmin | InvalidStatus | RequestPending | OwnerCannotBeDisabled
  | WrongPassword | OwnerCannotLeave | KeyNotFound

definition normalize_email :: "string \<Rightarrow> string" where
  "normalize_email e = lower (strip e)"

definition get_user :: "string \<Rightarrow> user_record list \<Rightarrow> user_record option" where
  "get_user uid us = rec_get ur_id uid us"

definition user_by_email :: "string \<Rightarrow> user_record list \<Rightarrow> user_record option" where
  "user_by_email e us = List.find (\<lambda>u. ur_email u = normalize_email e) us"

definition create_user :: "user_record \<Rightarrow> user_record list \<Rightarrow> id_error + user_record list" where
  "create_user r us =
     (let r = r\<lparr>ur_email := normalize_email (ur_email r)\<rparr>
      in if get_user (ur_id r) us \<noteq> None then Inl UserIdExists
         else if list_ex (\<lambda>u. ur_email u = ur_email r) us then Inl EmailRegistered
         else Inr (rec_put ur_id r us))"

definition update_user :: "user_record \<Rightarrow> user_record list \<Rightarrow> user_record list" where
  "update_user r us = rec_put ur_id (r\<lparr>ur_email := normalize_email (ur_email r)\<rparr>) us"

definition delete_user :: "string \<Rightarrow> user_record list \<Rightarrow> user_record list" where
  "delete_user uid us = rec_del ur_id uid us"

definition set_user_email :: "string \<Rightarrow> string \<Rightarrow> user_record list \<Rightarrow> id_error + user_record list" where
  "set_user_email uid new_email us =
     (let e = normalize_email new_email
      in case get_user uid us of
           None \<Rightarrow> Inl UserGone
         | Some u \<Rightarrow>
             if list_ex (\<lambda>x. ur_id x \<noteq> uid \<and> ur_email x = e) us then Inl EmailInUse
             else Inr (rec_put ur_id (u\<lparr>ur_email := e\<rparr>) us))"

definition users_of_tenant :: "string \<Rightarrow> user_record list \<Rightarrow> user_record list" where
  "users_of_tenant t us = filter (\<lambda>u. ur_tenant u = t) us"

section \<open>Tokens and invites\<close>

definition put_invite :: "rat \<Rightarrow> invite \<Rightarrow> invite list \<Rightarrow> invite list" where
  "put_invite now r rs = rec_put iv_token r rs"

definition put_api_key :: "rat \<Rightarrow> api_key \<Rightarrow> api_key list \<Rightarrow> api_key list" where
  "put_api_key now r rs = rec_put ak_id r rs"

text \<open>Every write of the token files drops the records that have expired.\<close>

definition prune_refresh :: "rat \<Rightarrow> refresh_token list \<Rightarrow> refresh_token list" where
  "prune_refresh now rs = filter (\<lambda>r. rf_expires r > now) rs"

definition put_refresh :: "rat \<Rightarrow> refresh_token \<Rightarrow> refresh_token list \<Rightarrow> refresh_token list" where
  "put_refresh now r rs = prune_refresh now (rec_put rf_id r rs)"

definition prune_resets :: "rat \<Rightarrow> reset_token list \<Rightarrow> reset_token list" where
  "prune_resets now rs = filter (\<lambda>r. rs_expires r > now) rs"

definition put_reset :: "rat \<Rightarrow> reset_token \<Rightarrow> reset_token list \<Rightarrow> reset_token list" where
  "put_reset now r rs = prune_resets now (rec_put rs_id r rs)"

datatype rotation = Rotated | Reuse | NoToken

text \<open>The compare-and-swap of a rotation: one of two presentations of a token wins it.\<close>

definition rotate_store ::
  "rat \<Rightarrow> string \<Rightarrow> refresh_token \<Rightarrow> refresh_token list \<Rightarrow> rotation \<times> refresh_token list" where
  "rotate_store now old_hash new_rec rs =
     (case rec_get rf_id old_hash rs of
        None \<Rightarrow> (NoToken, rs)
      | Some d \<Rightarrow>
          if rf_expires d \<le> now then (NoToken, rs)
          else if rf_revoked d then (Reuse, rs)
          else (Rotated,
            prune_refresh now
              (rec_put rf_id new_rec (rec_put rf_id (d\<lparr>rf_revoked := True, rf_rotated_to := rf_id new_rec\<rparr>) rs))))"

definition revoke_all_for_user :: "rat \<Rightarrow> string \<Rightarrow> refresh_token list \<Rightarrow> refresh_token list" where
  "revoke_all_for_user now uid rs =
     (if list_ex (\<lambda>r. rf_user r = uid \<and> \<not> rf_revoked r) rs
      then prune_refresh now (map (\<lambda>r. if rf_user r = uid \<and> \<not> rf_revoked r then r\<lparr>rf_revoked := True\<rparr> else r) rs)
      else rs)"

section \<open>The audit log\<close>

definition append_audit :: "nat \<Rightarrow> audit_event \<Rightarrow> audit_event list \<Rightarrow> audit_event list" where
  "append_audit cap e events =
     (let events = events @ [e] in if length events > cap then drop (length events - cap) events else events)"

definition audit_of_tenant :: "string \<Rightarrow> nat \<Rightarrow> audit_event list \<Rightarrow> audit_event list" where
  "audit_of_tenant t limit events = take limit (rev (filter (\<lambda>e. av_tenant e = t) events))"

section \<open>What the record stores promise\<close>

locale record_store =
  fixes find :: "string \<Rightarrow> 's \<Rightarrow> 'r option"
    and save :: "rat \<Rightarrow> 'r \<Rightarrow> 's \<Rightarrow> 's"
    and key :: "'r \<Rightarrow> string"
    and fresh :: "rat \<Rightarrow> 'r \<Rightarrow> bool"
    and ok :: "'s \<Rightarrow> bool"
  assumes find_save: "ok s \<Longrightarrow> find k (save now r s) =
      (if k = key r then if fresh now r then Some r else None
       else case find k s of None \<Rightarrow> None | Some x \<Rightarrow> if fresh now x then Some x else None)"
    and ok_save: "ok s \<Longrightarrow> ok (save now r s)"
    and find_key: "find k s = Some r \<Longrightarrow> key r = k"
begin

text \<open>A record that is found after a write was found before it, or is the one written.\<close>

lemma found_after_save:
  "ok s \<Longrightarrow> find k (save now r s) = Some x \<Longrightarrow> x = r \<and> k = key r \<or> k \<noteq> key r \<and> find k s = Some x"
  by (auto simp: find_save split: if_splits option.splits)

text \<open>A property of records that the written record has is not lost by the write.\<close>

lemma save_keeps:
  "ok s \<Longrightarrow> P r \<Longrightarrow> (\<And>x. find (key r) s = Some x \<Longrightarrow> P x) \<Longrightarrow>
   (\<forall>k x. find k s = Some x \<longrightarrow> P x) \<Longrightarrow> find k (save now r s) = Some x \<Longrightarrow> P x"
  by (auto dest: found_after_save)

lemma save_same: "ok s \<Longrightarrow> fresh now r \<Longrightarrow> find (key r) (save now r s) = Some r"
  by (simp add: find_save)

end

interpretation invites: record_store "rec_get iv_token" put_invite iv_token "\<lambda>_ _. True" "rec_ok iv_token"
  by unfold_locales (auto simp: put_invite_def rec_simps rec_ok_put dest: rec_get_key split: option.splits)

interpretation api_keys: record_store "rec_get ak_id" put_api_key ak_id "\<lambda>_ _. True" "rec_ok ak_id"
  by unfold_locales (auto simp: put_api_key_def rec_simps rec_ok_put dest: rec_get_key split: option.splits)

interpretation refresh: record_store "rec_get rf_id" put_refresh rf_id "\<lambda>now r. rf_expires r > now" "rec_ok rf_id"
  by unfold_locales
    (auto simp: put_refresh_def prune_refresh_def rec_simps rec_ok_put rec_ok_filter dest: rec_get_key split: option.splits)

interpretation resets: record_store "rec_get rs_id" put_reset rs_id "\<lambda>now r. rs_expires r > now" "rec_ok rs_id"
  by unfold_locales
    (auto simp: put_reset_def prune_resets_def rec_simps rec_ok_put rec_ok_filter dest: rec_get_key split: option.splits)

end
