(* ===== verification/Identity.thy ===== *)
theory Identity
  imports IdStore
begin

text \<open>
  \<open>identity/provider.py\<close>, \<open>identity/service.py\<close> and \<open>identity/tokens.py\<close>, with the token validation of
  \<open>service/auth.py\<close>: logins, accounts, refresh tokens, invites, access requests, password resets, members, personal
  access tokens, the audit log.

  Every operation takes the configuration, what the environment supplies (the time, its ISO form, a new identifier, a
  new salt, a new secret), its arguments and the state of the stores, and returns its result or error with the new
  state; an error may come after a change of the state. An operation is one step: it reads and writes the stores without
  another one between. All stores are configured, as \<open>build_from_env\<close> does. The hash \<open>sha256\<close> and the key derivation
  are parameters. A signed token is its claims: who does not hold the key cannot make one.
\<close>

section \<open>State and configuration\<close>

record id_state =
  s_users :: "user_record list"
  s_invites :: "invite list"
  s_keys :: "api_key list"
  s_refresh :: "refresh_token list"
  s_resets :: "reset_token list"
  s_audit :: "audit_event list"

record id_config =
  g_multi :: bool
  g_global_tenant :: string
  g_admin_role :: string
  g_owner_role :: string
  g_access_requests :: bool
  g_refresh_ttl :: rat
  g_reset_ttl :: rat
  g_kdf :: kdf
  g_sha256 :: "string \<Rightarrow> string"

record supplied =
  e_now :: rat
  e_stamp :: string
  e_uid :: string
  e_salt :: "byte list"
  e_secret :: string

record identity =
  id_user :: string
  id_tenant :: string
  id_roles :: "string list"
  id_email :: string
  id_name :: string

type_synonym 'a outcome = "(id_error + 'a) \<times> id_state"

definition member_role :: string where "member_role = ''member''"
definition owner_role :: string where "owner_role = ''owner''"
definition invite_ttl :: rat where "invite_ttl = 7 * 24 * 3600"
definition min_password :: nat where "min_password = 8"

definition identity_of :: "user_record \<Rightarrow> identity" where
  "identity_of u = \<lparr>id_user = ur_id u, id_tenant = ur_tenant u, id_roles = ur_roles u, id_email = ur_email u, id_name = ur_name u\<rparr>"

definition save_user :: "user_record \<Rightarrow> id_state \<Rightarrow> id_state" where
  "save_user u s = s\<lparr>s_users := update_user u (s_users s)\<rparr>"

section \<open>The password provider\<close>

text \<open>\<open>_EMAIL_RE\<close> on a normalised address.\<close>

definition is_email :: "string \<Rightarrow> bool" where
  "is_email e \<longleftrightarrow>
     list_all (\<lambda>c. \<not> py_space c) e
     \<and> (case split_char CHR ''@'' e of
          [l, d] \<Rightarrow> l \<noteq> [] \<and> List.member (butlast (tl d)) CHR ''.''
        | _ \<Rightarrow> False)"

definition slug_char :: "char \<Rightarrow> bool" where
  "slug_char c \<longleftrightarrow> in_range 97 122 c \<or> in_range 48 57 c"

fun dash_runs :: "bool \<Rightarrow> string \<Rightarrow> string" where
  "dash_runs prev [] = []"
| "dash_runs prev (c # s) =
     (if slug_char c then c # dash_runs False s
      else if prev then dash_runs True s else CHR ''-'' # dash_runs True s)"

definition slug :: "string \<Rightarrow> string" where
  "slug org =
     (let is_dash = (\<lambda>c. c = CHR ''-'')
      in rev (dropWhile is_dash (rev (dropWhile is_dash (dash_runs False (lower org))))))"

definition login_password :: "id_config \<Rightarrow> string \<Rightarrow> string \<Rightarrow> id_state \<Rightarrow> id_error + identity option" where
  "login_password c email password s =
     (case user_by_email email (s_users s) of
        None \<Rightarrow> Inr None
      | Some u \<Rightarrow>
          if \<not> verify_password (g_kdf c) password (ur_hash u) then Inr None
          else (case ur_status u of
            Pending \<Rightarrow> Inl AccountPending
          | Disabled \<Rightarrow> Inr None
          | Active \<Rightarrow> Inr (Some (identity_of u))))"

definition create_account ::
  "id_config \<Rightarrow> supplied \<Rightarrow> string \<Rightarrow> string \<Rightarrow> string \<Rightarrow> string \<Rightarrow> string option \<Rightarrow> string list option
    \<Rightarrow> user_status \<Rightarrow> string \<Rightarrow> id_state \<Rightarrow> identity outcome" where
  "create_account c ev email password name org tenant roles status note s =
     (let email = normalize_email email
      in if \<not> is_email email then (Inl InvalidEmail, s)
         else if length password < min_password then (Inl ShortPassword, s)
         else
           (let own = (if slug org = [] then e_uid ev else slug org);
                (tenant', roles') =
                  (case tenant of
                     Some t \<Rightarrow> (t, roles)
                   | None \<Rightarrow>
                       if g_multi c then (own, Some (case roles of Some rs \<Rightarrow> rs | None \<Rightarrow> [g_owner_role c, g_admin_role c]))
                       else (g_global_tenant c, Some (case roles of Some rs \<Rightarrow> rs | None \<Rightarrow> [])))
            in case hash_password (g_kdf c) (e_salt ev) 16384 8 1 password of
                 None \<Rightarrow> (Inl HashFailed, s)
               | Some h \<Rightarrow>
                   (let u = \<lparr>ur_id = e_uid ev, ur_email = email, ur_hash = h, ur_name = name, ur_tenant = tenant',
                       ur_roles = (case roles' of None \<Rightarrow> [] | Some rs \<Rightarrow> rs), ur_status = status,
                       ur_created = e_stamp ev, ur_note = note\<rparr>
                    in case create_user u (s_users s) of
                         Inl e \<Rightarrow> (Inl e, s)
                       | Inr us \<Rightarrow> (Inr (identity_of u), s\<lparr>s_users := us\<rparr>))))"

definition register :: "id_config \<Rightarrow> supplied \<Rightarrow> string \<Rightarrow> string \<Rightarrow> string \<Rightarrow> string \<Rightarrow> id_state \<Rightarrow> identity outcome" where
  "register c ev email password name org s =
     (if \<not> g_multi c then (Inl RegistrationDisabled, s)
      else create_account c ev email password name org None None Active [] s)"

text \<open>\<open>None\<close>: the address is taken, which the route does not tell.\<close>

definition request_access ::
  "id_config \<Rightarrow> supplied \<Rightarrow> string \<Rightarrow> string \<Rightarrow> string \<Rightarrow> string \<Rightarrow> id_state \<Rightarrow> identity option outcome" where
  "request_access c ev email password name note s =
     (if \<not> (g_access_requests c \<and> \<not> g_multi c) then (Inl RequestsDisabled, s)
      else if \<not> is_email (normalize_email email) then (Inl InvalidEmail, s)
      else if length password < min_password then (Inl ShortPassword, s)
      else if user_by_email (normalize_email email) (s_users s) \<noteq> None then (Inr None, s)
      else (case create_account c ev email password name [] (Some (g_global_tenant c)) (Some []) Pending note s of
              (Inl e, s') \<Rightarrow> (Inr None, s')
            | (Inr ident, s') \<Rightarrow> (Inr (Some ident), s')))"

definition provision ::
  "id_config \<Rightarrow> supplied \<Rightarrow> string \<Rightarrow> string \<Rightarrow> string \<Rightarrow> string option \<Rightarrow> string list option \<Rightarrow> id_state \<Rightarrow> identity outcome" where
  "provision c ev email password name tenant roles s =
     create_account c ev email password name [] tenant roles Active [] s"

definition bootstrap_admin ::
  "id_config \<Rightarrow> supplied \<Rightarrow> string option \<Rightarrow> string option \<Rightarrow> id_state \<Rightarrow> id_error option \<times> id_state" where
  "bootstrap_admin c ev email password s =
     (case (given email, given password) of
        (Some e, Some p) \<Rightarrow>
          if user_by_email e (s_users s) \<noteq> None then (None, s)
          else (case provision c ev e p ''admin'' (Some (g_global_tenant c)) (Some [g_admin_role c]) s of
                  (Inl err, s') \<Rightarrow> (Some err, s')
                | (Inr _, s') \<Rightarrow> (None, s'))
      | _ \<Rightarrow> (None, s))"

section \<open>Refresh tokens\<close>

definition new_refresh_record :: "id_config \<Rightarrow> supplied \<Rightarrow> string \<Rightarrow> refresh_token" where
  "new_refresh_record c ev uid =
     \<lparr>rf_id = g_sha256 c (e_secret ev), rf_user = uid, rf_expires = e_now ev + g_refresh_ttl c, rf_revoked = False,
      rf_rotated_to = [], rf_created = e_stamp ev\<rparr>"

definition issue_refresh_token :: "id_config \<Rightarrow> supplied \<Rightarrow> string \<Rightarrow> id_state \<Rightarrow> string \<times> id_state" where
  "issue_refresh_token c ev uid s =
     (e_secret ev, s\<lparr>s_refresh := put_refresh (e_now ev) (new_refresh_record c ev uid) (s_refresh s)\<rparr>)"

text \<open>The walk along the successors of a token that was presented twice.\<close>

definition unseen :: "string list \<Rightarrow> refresh_token list \<Rightarrow> nat" where
  "unseen seen rs = length (filter (\<lambda>r. \<not> List.member seen (rf_id r)) rs)"

lemma length_filter_mono: "(\<And>x. P x \<Longrightarrow> Q x) \<Longrightarrow> length (filter P xs) \<le> length (filter Q xs)"
  by (induction xs) (auto intro: le_SucI)

lemma filter_rec_put: "(\<And>x. key x = key r \<Longrightarrow> \<not> P x) \<Longrightarrow> filter P (rec_put key r rs) = filter P rs"
  by (induction rs) auto

lemma unseen_found:
  "rec_get rf_id k rs = Some x \<Longrightarrow> \<not> List.member seen k \<Longrightarrow> unseen (k # seen) rs < unseen seen rs"
proof (induction rs)
  case (Cons a rs)
  have "unseen (k # seen) rs \<le> unseen seen rs"
    by (simp add: unseen_def) (rule length_filter_mono, simp)
  then show ?case using Cons by (auto simp: unseen_def rec_get_def split: if_splits)
qed (simp add: rec_get_def)

lemma unseen_put:
  assumes "rec_get rf_id k rs = Some x" "rf_id r = k" "\<not> List.member seen k"
  shows "unseen (k # seen) (put_refresh now r rs) < unseen seen rs"
proof -
  have "unseen (k # seen) (put_refresh now r rs) \<le> unseen (k # seen) (rec_put rf_id r rs)"
    by (simp add: unseen_def put_refresh_def prune_refresh_def) (rule length_filter_mono, simp)
  also have "\<dots> = unseen (k # seen) rs"
    using assms(2) by (simp add: unseen_def filter_rec_put)
  finally show ?thesis using unseen_found [OF assms(1,3)] by simp
qed

function revoke_chain :: "rat \<Rightarrow> string list \<Rightarrow> refresh_token \<Rightarrow> refresh_token list \<Rightarrow> refresh_token list" where
  "revoke_chain now seen cur rs =
     (if rf_rotated_to cur = [] \<or> List.member seen (rf_rotated_to cur) then rs
      else (case rec_get rf_id (rf_rotated_to cur) rs of
        None \<Rightarrow> rs
      | Some nxt \<Rightarrow>
          (if rf_revoked nxt then revoke_chain now (rf_rotated_to cur # seen) nxt rs
           else revoke_chain now (rf_rotated_to cur # seen) (nxt\<lparr>rf_revoked := True\<rparr>)
             (put_refresh now (nxt\<lparr>rf_revoked := True\<rparr>) rs))))"
  by pat_completeness auto
termination
  by (relation "measure (\<lambda>(now, seen, cur, rs). unseen seen rs)")
    (auto intro!: unseen_found unseen_put dest: rec_get_key)

declare revoke_chain.simps [simp del]

definition chain_from :: "rat \<Rightarrow> refresh_token \<Rightarrow> refresh_token list \<Rightarrow> refresh_token list" where
  "chain_from now rec rs = revoke_chain now [rf_id rec] rec rs"

definition with_refresh :: "(refresh_token list \<Rightarrow> refresh_token list) \<Rightarrow> id_state \<Rightarrow> id_state" where
  "with_refresh f s = s\<lparr>s_refresh := f (s_refresh s)\<rparr>"

text \<open>The swap, after the token \<open>rec\<close> of the account \<open>u\<close> has been read; another rotation may have come between.\<close>

definition rotate_swap ::
  "id_config \<Rightarrow> supplied \<Rightarrow> string \<Rightarrow> refresh_token \<Rightarrow> user_record \<Rightarrow> id_state \<Rightarrow> (identity \<times> string) outcome" where
  "rotate_swap c ev old_hash rec u s =
     (case rotate_store (e_now ev) old_hash (new_refresh_record c ev (ur_id u)) (s_refresh s) of
        (Rotated, rs) \<Rightarrow> (Inr (identity_of u, e_secret ev), s\<lparr>s_refresh := rs\<rparr>)
      | (Reuse, rs) \<Rightarrow> (Inl InvalidRefresh, s\<lparr>s_refresh := chain_from (e_now ev) rec rs\<rparr>)
      | (NoToken, rs) \<Rightarrow> (Inl InvalidRefresh, s\<lparr>s_refresh := rs\<rparr>))"

definition rotate_refresh_token :: "id_config \<Rightarrow> supplied \<Rightarrow> string \<Rightarrow> id_state \<Rightarrow> (identity \<times> string) outcome" where
  "rotate_refresh_token c ev raw s =
     (let old_hash = g_sha256 c raw
      in case (if raw = [] then None else rec_get rf_id old_hash (s_refresh s)) of
           None \<Rightarrow> (Inl InvalidRefresh, s)
         | Some rec \<Rightarrow>
             if e_now ev > rf_expires rec then (Inl InvalidRefresh, s)
             else if rf_revoked rec then
               (Inl InvalidRefresh, if rf_rotated_to rec \<noteq> [] then with_refresh (chain_from (e_now ev) rec) s else s)
             else (case get_user (rf_user rec) (s_users s) of
               None \<Rightarrow> (Inl InvalidRefresh, with_refresh (put_refresh (e_now ev) (rec\<lparr>rf_revoked := True\<rparr>)) s)
             | Some u \<Rightarrow>
                 if ur_status u \<noteq> Active then
                   (Inl InvalidRefresh, with_refresh (put_refresh (e_now ev) (rec\<lparr>rf_revoked := True\<rparr>)) s)
                 else rotate_swap c ev old_hash rec u s))"

definition revoke_refresh_token :: "id_config \<Rightarrow> supplied \<Rightarrow> string \<Rightarrow> id_state \<Rightarrow> id_state" where
  "revoke_refresh_token c ev raw s =
     (case (if raw = [] then None else rec_get rf_id (g_sha256 c raw) (s_refresh s)) of
        None \<Rightarrow> s
      | Some rec \<Rightarrow>
          if rf_revoked rec then s else with_refresh (put_refresh (e_now ev) (rec\<lparr>rf_revoked := True\<rparr>)) s)"

definition revoke_all_refresh :: "supplied \<Rightarrow> string \<Rightarrow> id_state \<Rightarrow> id_state" where
  "revoke_all_refresh ev uid s = with_refresh (revoke_all_for_user (e_now ev) uid) s"

section \<open>Members, invites and access requests\<close>

definition allowed_roles :: "id_config \<Rightarrow> string list" where
  "allowed_roles c = [g_admin_role c, member_role]"

definition role_or_member :: "string \<Rightarrow> string" where
  "role_or_member role = (if role = [] then member_role else role)"

definition list_members :: "string \<Rightarrow> id_state \<Rightarrow> user_record list" where
  "list_members t s = filter (\<lambda>u. ur_status u \<noteq> Pending) (users_of_tenant t (s_users s))"

definition supersede_pending :: "string \<Rightarrow> string \<Rightarrow> id_state \<Rightarrow> id_state" where
  "supersede_pending t email s =
     (case user_by_email email (s_users s) of
        None \<Rightarrow> s
      | Some u \<Rightarrow>
          if ur_tenant u = t \<and> ur_status u = Pending then s\<lparr>s_users := delete_user (ur_id u) (s_users s)\<rparr> else s)"

definition provision_member ::
  "id_config \<Rightarrow> supplied \<Rightarrow> string \<Rightarrow> string \<Rightarrow> string \<Rightarrow> string \<Rightarrow> string \<Rightarrow> id_state \<Rightarrow> user_record option outcome" where
  "provision_member c ev t email password name role s =
     (let role = role_or_member role
      in if \<not> List.member (allowed_roles c) role then (Inl InvalidRole, s)
         else (case provision c ev email password name (Some t) (Some [role])
                      (supersede_pending t (normalize_email email) s) of
                 (Inl e, s') \<Rightarrow> (Inl e, s')
               | (Inr ident, s') \<Rightarrow> (Inr (get_user (id_user ident) (s_users s')), s')))"

definition create_invite ::
  "id_config \<Rightarrow> supplied \<Rightarrow> string \<Rightarrow> string \<Rightarrow> string \<Rightarrow> rat \<Rightarrow> id_state \<Rightarrow> invite outcome" where
  "create_invite c ev t email role ttl s =
     (let role = role_or_member role; email = normalize_email email
      in if \<not> List.member (allowed_roles c) role then (Inl InvalidRole, s)
         else if email = [] then (Inl EmailRequired, s)
         else if (case user_by_email email (s_users s) of
                    None \<Rightarrow> False | Some u \<Rightarrow> ur_tenant u = t \<and> ur_status u \<noteq> Pending) then (Inl AlreadyMember, s)
         else (let s = supersede_pending t email s;
                   i = \<lparr>iv_token = e_secret ev, iv_email = email, iv_tenant = t, iv_role = role, iv_created = e_stamp ev,
                     iv_expires = (if ttl \<noteq> 0 then e_now ev + ttl else 0), iv_status = InvitePending, iv_accepted_by = []\<rparr>
               in (Inr i, s\<lparr>s_invites := put_invite (e_now ev) i (s_invites s)\<rparr>)))"

definition invite_expired :: "rat \<Rightarrow> invite \<Rightarrow> bool" where
  "invite_expired now i \<longleftrightarrow> iv_expires i \<noteq> 0 \<and> now > iv_expires i"

definition list_invites :: "rat \<Rightarrow> string \<Rightarrow> id_state \<Rightarrow> invite list" where
  "list_invites now t s =
     filter (\<lambda>i. iv_tenant i = t \<and> iv_status i = InvitePending \<and> \<not> invite_expired now i) (s_invites s)"

definition revoke_invite :: "supplied \<Rightarrow> string \<Rightarrow> string \<Rightarrow> id_state \<Rightarrow> unit outcome" where
  "revoke_invite ev t token s =
     (case rec_get iv_token token (s_invites s) of
        None \<Rightarrow> (Inl InviteNotFound, s)
      | Some i \<Rightarrow>
          if iv_tenant i \<noteq> t then (Inl InviteNotFound, s)
          else (Inr (), s\<lparr>s_invites := put_invite (e_now ev) (i\<lparr>iv_status := Revoked\<rparr>) (s_invites s)\<rparr>))"

definition open_invite :: "rat \<Rightarrow> string \<Rightarrow> id_state \<Rightarrow> invite option" where
  "open_invite now token s =
     (case rec_get iv_token token (s_invites s) of
        None \<Rightarrow> None
      | Some i \<Rightarrow> if iv_status i \<noteq> InvitePending \<or> invite_expired now i then None else Some i)"

definition invite_public :: "rat \<Rightarrow> string \<Rightarrow> id_state \<Rightarrow> (string \<times> string \<times> string) option" where
  "invite_public now token s = map_option (\<lambda>i. (iv_email i, iv_tenant i, iv_role i)) (open_invite now token s)"

definition accept_invite ::
  "id_config \<Rightarrow> supplied \<Rightarrow> string \<Rightarrow> string \<Rightarrow> string \<Rightarrow> id_state \<Rightarrow> identity outcome" where
  "accept_invite c ev token password name s =
     (case open_invite (e_now ev) token s of
        None \<Rightarrow> (Inl InvalidInvite, s)
      | Some i \<Rightarrow>
          (let s = supersede_pending (iv_tenant i) (iv_email i) s
           in if user_by_email (iv_email i) (s_users s) \<noteq> None then (Inl AccountExists, s)
              else (case provision c ev (iv_email i) password name (Some (iv_tenant i)) (Some [iv_role i]) s of
                      (Inl e, s') \<Rightarrow> (Inl e, s')
                    | (Inr ident, s') \<Rightarrow>
                        (Inr ident,
                         s'\<lparr>s_invites := put_invite (e_now ev)
                              (i\<lparr>iv_status := Accepted, iv_accepted_by := id_user ident\<rparr>) (s_invites s')\<rparr>))))"

definition list_access_requests :: "string \<Rightarrow> id_state \<Rightarrow> user_record list" where
  "list_access_requests t s = filter (\<lambda>u. ur_status u = Pending) (users_of_tenant t (s_users s))"

definition member_in_tenant :: "string \<Rightarrow> string \<Rightarrow> id_state \<Rightarrow> user_record option" where
  "member_in_tenant t uid s =
     (case get_user uid (s_users s) of None \<Rightarrow> None | Some u \<Rightarrow> if ur_tenant u \<noteq> t then None else Some u)"

definition approve_access_request ::
  "id_config \<Rightarrow> string \<Rightarrow> string \<Rightarrow> string \<Rightarrow> id_state \<Rightarrow> user_record outcome" where
  "approve_access_request c t uid role s =
     (let role = role_or_member role
      in if \<not> List.member (allowed_roles c) role then (Inl InvalidRole, s)
         else (case member_in_tenant t uid s of
                 None \<Rightarrow> (Inl MemberNotFound, s)
               | Some u \<Rightarrow>
                   if ur_status u \<noteq> Pending then (Inl NotPending, s)
                   else (let u = u\<lparr>ur_status := Active, ur_roles := [role]\<rparr> in (Inr u, save_user u s))))"

definition reject_access_request :: "string \<Rightarrow> string \<Rightarrow> id_state \<Rightarrow> user_record outcome" where
  "reject_access_request t uid s =
     (case member_in_tenant t uid s of
        None \<Rightarrow> (Inl MemberNotFound, s)
      | Some u \<Rightarrow>
          if ur_status u \<noteq> Pending then (Inl NotPending, s)
          else (Inr u, s\<lparr>s_users := delete_user (ur_id u) (s_users s)\<rparr>))"

section \<open>Password resets\<close>

definition rank :: "id_config \<Rightarrow> string list \<Rightarrow> nat" where
  "rank c roles = (if List.member roles owner_role then 3 else if List.member roles (g_admin_role c) then 2 else 1)"

definition create_password_reset ::
  "id_config \<Rightarrow> supplied \<Rightarrow> string \<Rightarrow> string \<Rightarrow> string \<Rightarrow> id_state \<Rightarrow> string outcome" where
  "create_password_reset c ev t actor uid s =
     (case member_in_tenant t uid s of
        None \<Rightarrow> (Inl MemberNotFound, s)
      | Some u \<Rightarrow>
          if ur_status u \<noteq> Active then (Inl NotActive, s)
          else if (case get_user actor (s_users s) of None \<Rightarrow> True | Some a \<Rightarrow> rank c (ur_roles a) \<le> rank c (ur_roles u))
          then (Inl RankTooLow, s)
          else (Inr (e_secret ev),
            s\<lparr>s_resets := put_reset (e_now ev)
                \<lparr>rs_id = g_sha256 c (e_secret ev), rs_user = ur_id u, rs_expires = e_now ev + g_reset_ttl c,
                 rs_used = False, rs_created = e_stamp ev\<rparr> (s_resets s)\<rparr>))"

text \<open>The token of a link and its account, when the link is usable.\<close>

definition usable_reset :: "id_config \<Rightarrow> rat \<Rightarrow> string \<Rightarrow> id_state \<Rightarrow> (reset_token \<times> user_record) option" where
  "usable_reset c now raw s =
     (case (if raw = [] then None else rec_get rs_id (g_sha256 c raw) (s_resets s)) of
        None \<Rightarrow> None
      | Some rec \<Rightarrow>
          if rs_used rec \<or> now > rs_expires rec then None
          else (case get_user (rs_user rec) (s_users s) of
            None \<Rightarrow> None
          | Some u \<Rightarrow> if ur_status u \<noteq> Active then None else Some (rec, u)))"

definition reset_public :: "id_config \<Rightarrow> rat \<Rightarrow> string \<Rightarrow> id_state \<Rightarrow> (string \<times> string) option" where
  "reset_public c now raw s = map_option (\<lambda>(rec, u). (ur_email u, ur_name u)) (usable_reset c now raw s)"

definition complete_password_reset ::
  "id_config \<Rightarrow> supplied \<Rightarrow> string \<Rightarrow> string \<Rightarrow> id_state \<Rightarrow> identity outcome" where
  "complete_password_reset c ev raw new_password s =
     (case usable_reset c (e_now ev) raw s of
        None \<Rightarrow> (Inl InvalidReset, s)
      | Some (rec, u) \<Rightarrow>
          if length new_password < min_password then (Inl ShortPassword, s)
          else (case hash_password (g_kdf c) (e_salt ev) 16384 8 1 new_password of
            None \<Rightarrow> (Inl HashFailed, s)
          | Some h \<Rightarrow>
              (let s = save_user (u\<lparr>ur_hash := h\<rparr>) s;
                   s = s\<lparr>s_resets := put_reset (e_now ev) (rec\<lparr>rs_used := True\<rparr>) (s_resets s)\<rparr>
               in (Inr (identity_of u), revoke_all_refresh ev (ur_id u) s))))"

section \<open>Roles and status of members\<close>

definition org_admins :: "id_config \<Rightarrow> string \<Rightarrow> id_state \<Rightarrow> user_record list" where
  "org_admins c t s =
     filter (\<lambda>m. List.member (ur_roles m) (g_admin_role c) \<and> ur_status m = Active) (users_of_tenant t (s_users s))"

text \<open>\<open>_guard_last_admin\<close>: the change of this account is refused.\<close>

definition is_last_admin :: "id_config \<Rightarrow> string \<Rightarrow> string \<Rightarrow> id_state \<Rightarrow> bool" where
  "is_last_admin c t uid s \<longleftrightarrow>
     length (org_admins c t s) \<le> 1 \<and> list_ex (\<lambda>m. ur_id m = uid) (org_admins c t s)"

definition set_member_role ::
  "id_config \<Rightarrow> string \<Rightarrow> string \<Rightarrow> string \<Rightarrow> id_state \<Rightarrow> user_record outcome" where
  "set_member_role c t uid role s =
     (if \<not> List.member (allowed_roles c) role then (Inl InvalidRole, s)
      else (case member_in_tenant t uid s of
        None \<Rightarrow> (Inl MemberNotFound, s)
      | Some u \<Rightarrow>
          if List.member (ur_roles u) owner_role then (Inl OwnerRoleFixed, s)
          else if List.member (ur_roles u) (g_admin_role c) \<and> role \<noteq> g_admin_role c \<and> is_last_admin c t uid s
          then (Inl LastAdmin, s)
          else (let u = u\<lparr>ur_roles := [role]\<rparr> in (Inr u, save_user u s))))"

definition set_member_status ::
  "id_config \<Rightarrow> supplied \<Rightarrow> string \<Rightarrow> string \<Rightarrow> user_status \<Rightarrow> id_state \<Rightarrow> user_record outcome" where
  "set_member_status c ev t uid status s =
     (if status = Pending then (Inl InvalidStatus, s)
      else (case member_in_tenant t uid s of
        None \<Rightarrow> (Inl MemberNotFound, s)
      | Some u \<Rightarrow>
          if ur_status u = Pending then (Inl RequestPending, s)
          else if status = Disabled \<and> List.member (ur_roles u) owner_role then (Inl OwnerCannotBeDisabled, s)
          else if status = Disabled \<and> List.member (ur_roles u) (g_admin_role c) \<and> is_last_admin c t uid s
          then (Inl LastAdmin, s)
          else (let u = u\<lparr>ur_status := status\<rparr>; s = save_user u s
                in (Inr u, if status = Disabled then revoke_all_refresh ev uid s else s))))"

section \<open>One's own account\<close>

definition profile :: "string \<Rightarrow> id_state \<Rightarrow> id_error + identity" where
  "profile uid s = (case get_user uid (s_users s) of None \<Rightarrow> Inl UserGone | Some u \<Rightarrow> Inr (identity_of u))"

definition update_profile :: "string \<Rightarrow> string \<Rightarrow> id_state \<Rightarrow> identity outcome" where
  "update_profile uid name s =
     (case get_user uid (s_users s) of
        None \<Rightarrow> (Inl UserGone, s)
      | Some u \<Rightarrow> (let s = save_user (u\<lparr>ur_name := strip name\<rparr>) s in (profile uid s, s)))"

definition change_password ::
  "id_config \<Rightarrow> supplied \<Rightarrow> string \<Rightarrow> string \<Rightarrow> string \<Rightarrow> id_state \<Rightarrow> identity outcome" where
  "change_password c ev uid current new s =
     (case get_user uid (s_users s) of
        None \<Rightarrow> (Inl UserGone, s)
      | Some u \<Rightarrow>
          if \<not> verify_password (g_kdf c) current (ur_hash u) then (Inl WrongPassword, s)
          else if length new < min_password then (Inl ShortPassword, s)
          else (case hash_password (g_kdf c) (e_salt ev) 16384 8 1 new of
            None \<Rightarrow> (Inl HashFailed, s)
          | Some h \<Rightarrow> (Inr (identity_of u), revoke_all_refresh ev uid (save_user (u\<lparr>ur_hash := h\<rparr>) s))))"

definition verify_own_password :: "id_config \<Rightarrow> string \<Rightarrow> string \<Rightarrow> id_state \<Rightarrow> id_error + user_record" where
  "verify_own_password c uid password s =
     (case get_user uid (s_users s) of
        None \<Rightarrow> Inl UserGone
      | Some u \<Rightarrow> if \<not> verify_password (g_kdf c) password (ur_hash u) then Inl WrongPassword else Inr u)"

definition change_email :: "id_config \<Rightarrow> string \<Rightarrow> string \<Rightarrow> string \<Rightarrow> id_state \<Rightarrow> identity outcome" where
  "change_email c uid new_email password s =
     (case verify_own_password c uid password s of
        Inl e \<Rightarrow> (Inl e, s)
      | Inr _ \<Rightarrow>
          if \<not> is_email (normalize_email new_email) then (Inl InvalidEmail, s)
          else (case set_user_email uid (normalize_email new_email) (s_users s) of
            Inl e \<Rightarrow> (Inl e, s)
          | Inr us \<Rightarrow> (let s = s\<lparr>s_users := us\<rparr> in (profile uid s, s))))"

definition guard_removable :: "id_config \<Rightarrow> user_record \<Rightarrow> id_state \<Rightarrow> id_error option" where
  "guard_removable c u s =
     (if List.member (ur_roles u) owner_role then Some OwnerCannotLeave
      else if List.member (ur_roles u) (g_admin_role c) \<and> is_last_admin c (ur_tenant u) (ur_id u) s then Some LastAdmin
      else None)"

definition deactivate_account :: "id_config \<Rightarrow> supplied \<Rightarrow> string \<Rightarrow> string \<Rightarrow> id_state \<Rightarrow> unit outcome" where
  "deactivate_account c ev uid password s =
     (case verify_own_password c uid password s of
        Inl e \<Rightarrow> (Inl e, s)
      | Inr u \<Rightarrow>
          (case guard_removable c u s of
             Some e \<Rightarrow> (Inl e, s)
           | None \<Rightarrow> (Inr (), revoke_all_refresh ev uid (save_user (u\<lparr>ur_status := Disabled\<rparr>) s))))"

definition revoke_keys_of :: "rat \<Rightarrow> string \<Rightarrow> api_key list \<Rightarrow> api_key list" where
  "revoke_keys_of now uid ks =
     fold (\<lambda>k. put_api_key now (k\<lparr>ak_revoked := True\<rparr>)) (filter (\<lambda>k. ak_user k = uid \<and> \<not> ak_revoked k) ks) ks"

definition delete_account :: "id_config \<Rightarrow> supplied \<Rightarrow> string \<Rightarrow> string \<Rightarrow> id_state \<Rightarrow> user_record outcome" where
  "delete_account c ev uid password s =
     (case verify_own_password c uid password s of
        Inl e \<Rightarrow> (Inl e, s)
      | Inr u \<Rightarrow>
          (case guard_removable c u s of
             Some e \<Rightarrow> (Inl e, s)
           | None \<Rightarrow>
               (let s = revoke_all_refresh ev uid (s\<lparr>s_keys := revoke_keys_of (e_now ev) uid (s_keys s)\<rparr>)
                in (Inr u, s\<lparr>s_users := delete_user uid (s_users s)\<rparr>))))"

section \<open>Access tokens\<close>

record issuer =
  j_issuer :: string
  j_audience :: "string option"
  j_ttl :: int

record claims =
  cl_iss :: string
  cl_user :: string
  cl_tenant :: string
  cl_roles :: "string list"
  cl_scope :: string
  cl_iat :: int
  cl_nbf :: int
  cl_exp :: int
  cl_aud :: "string option"
  cl_email :: "string option"
  cl_name :: "string option"
  cl_jti :: "string option"
  cl_pat :: bool

definition issue :: "issuer \<Rightarrow> rat \<Rightarrow> identity \<Rightarrow> int option \<Rightarrow> string option \<Rightarrow> bool \<Rightarrow> claims" where
  "issue j now ident ttl jti pat =
     \<lparr>cl_iss = j_issuer j, cl_user = id_user ident, cl_tenant = id_tenant ident, cl_roles = id_roles ident,
      cl_scope = [], cl_iat = \<lfloor>now\<rfloor>, cl_nbf = \<lfloor>now\<rfloor>,
      cl_exp = \<lfloor>now\<rfloor> + (case ttl of None \<Rightarrow> j_ttl j | Some t \<Rightarrow> t),
      cl_aud = given (j_audience j), cl_email = given (Some (id_email ident)), cl_name = given (Some (id_name ident)),
      cl_jti = given jti, cl_pat = pat\<rparr>"

definition token_for :: "issuer \<Rightarrow> rat \<Rightarrow> identity \<Rightarrow> claims" where
  "token_for j now ident = issue j now ident None None False"

definition pat_ttl :: int where
  "pat_ttl = 365 * 24 * 3600"

definition create_api_key ::
  "issuer \<Rightarrow> supplied \<Rightarrow> string \<Rightarrow> string \<Rightarrow> id_state \<Rightarrow> (api_key \<times> claims) outcome" where
  "create_api_key j ev uid name s =
     (case get_user uid (s_users s) of
        None \<Rightarrow> (Inl UserGone, s)
      | Some u \<Rightarrow>
          if ur_status u \<noteq> Active then (Inl NotActive, s)
          else (let k = \<lparr>ak_id = e_secret ev, ak_user = uid,
                    ak_name = (if strip name = [] then ''api key'' else strip name),
                    ak_created = e_stamp ev, ak_last_used = [], ak_revoked = False\<rparr>
                in (Inr (k, issue j (e_now ev) (identity_of u) (Some pat_ttl) (Some (e_secret ev)) True),
                    s\<lparr>s_keys := put_api_key (e_now ev) k (s_keys s)\<rparr>)))"

definition list_api_keys :: "string \<Rightarrow> id_state \<Rightarrow> api_key list" where
  "list_api_keys uid s = filter (\<lambda>k. \<not> ak_revoked k) (filter (\<lambda>k. ak_user k = uid) (s_keys s))"

definition revoke_api_key :: "supplied \<Rightarrow> string \<Rightarrow> string \<Rightarrow> id_state \<Rightarrow> unit outcome" where
  "revoke_api_key ev uid key_id s =
     (case rec_get ak_id key_id (s_keys s) of
        None \<Rightarrow> (Inl KeyNotFound, s)
      | Some k \<Rightarrow>
          if ak_user k \<noteq> uid then (Inl KeyNotFound, s)
          else (Inr (), s\<lparr>s_keys := put_api_key (e_now ev) (k\<lparr>ak_revoked := True\<rparr>) (s_keys s)\<rparr>))"

text \<open>The hook after the validation of a token: a personal token needs its live handle, whose last use is stamped.\<close>

definition validate_pat :: "supplied \<Rightarrow> claims \<Rightarrow> id_state \<Rightarrow> bool \<times> id_state" where
  "validate_pat ev cl s =
     (if \<not> cl_pat cl then (True, s)
      else (case (case given (cl_jti cl) of None \<Rightarrow> None | Some jti \<Rightarrow> rec_get ak_id jti (s_keys s)) of
        None \<Rightarrow> (False, s)
      | Some k \<Rightarrow>
          if ak_revoked k then (False, s)
          else (True, s\<lparr>s_keys := put_api_key (e_now ev) (k\<lparr>ak_last_used := e_stamp ev\<rparr>) (s_keys s)\<rparr>)))"

record authenticated =
  au_user :: string
  au_tenant :: string
  au_roles :: "string list"
  au_scopes :: "string list"

datatype auth_error = WrongTime | WrongIssuer | WrongAudience | MissingUser | MissingTenant | KeyRevoked

text \<open>
  The validation of a bearer token whose signature is good. \<open>in_time\<close> is the check of \<open>exp\<close>, \<open>nbf\<close> and \<open>iat\<close> by the
  token library. \<open>str.split()\<close> of the scope claim is \<open>scope_words\<close>.
\<close>

fun scope_words_go :: "string \<Rightarrow> string \<Rightarrow> string list" where
  "scope_words_go cur [] = (if cur = [] then [] else [rev cur])"
| "scope_words_go cur (c # s) =
     (if py_space c then (if cur = [] then scope_words_go [] s else rev cur # scope_words_go [] s) else scope_words_go (c # cur) s)"

definition scope_words :: "string \<Rightarrow> string list" where
  "scope_words s = scope_words_go [] s"

definition authenticate ::
  "(rat \<Rightarrow> claims \<Rightarrow> bool) \<Rightarrow> issuer \<Rightarrow> supplied \<Rightarrow> claims \<Rightarrow> id_state \<Rightarrow> (auth_error + authenticated) \<times> id_state" where
  "authenticate in_time j ev cl s =
     (if \<not> in_time (e_now ev) cl then (Inl WrongTime, s)
      else if j_issuer j \<noteq> [] \<and> cl_iss cl \<noteq> j_issuer j then (Inl WrongIssuer, s)
      else if (case given (j_audience j) of None \<Rightarrow> False | Some a \<Rightarrow> given (cl_aud cl) \<noteq> Some a) then (Inl WrongAudience, s)
      else if cl_user cl = [] then (Inl MissingUser, s)
      else if cl_tenant cl = [] then (Inl MissingTenant, s)
      else (case validate_pat ev cl s of
        (False, s') \<Rightarrow> (Inl KeyRevoked, s')
      | (True, s') \<Rightarrow>
          (Inr \<lparr>au_user = cl_user cl, au_tenant = cl_tenant cl, au_roles = cl_roles cl, au_scopes = scope_words (cl_scope cl)\<rparr>, s')))"

section \<open>The audit log and the usage summary\<close>

definition audit_cap :: nat where
  "audit_cap = 5000"

definition record_audit ::
  "supplied \<Rightarrow> string \<Rightarrow> string \<Rightarrow> string \<Rightarrow> string \<Rightarrow> string \<Rightarrow> string \<Rightarrow> id_state \<Rightarrow> id_state" where
  "record_audit ev t actor action target detail email s =
     (let email = (if email \<noteq> [] then email
                   else case get_user actor (s_users s) of None \<Rightarrow> [] | Some u \<Rightarrow> ur_email u);
          e = \<lparr>av_id = e_uid ev, av_ts = e_stamp ev, av_tenant = t, av_actor = actor, av_email = email,
            av_action = action, av_target = target, av_detail = detail\<rparr>
      in s\<lparr>s_audit := append_audit audit_cap e (s_audit s)\<rparr>)"

record audit_view =
  aw_ts :: string
  aw_actor :: string
  aw_action :: string
  aw_target :: string
  aw_detail :: string

definition recent_audit :: "string \<Rightarrow> nat \<Rightarrow> id_state \<Rightarrow> audit_view list" where
  "recent_audit t limit s =
     map (\<lambda>e. \<lparr>aw_ts = av_ts e, aw_actor = (if av_email e \<noteq> [] then av_email e else av_actor e), aw_action = av_action e,
                aw_target = av_target e, aw_detail = av_detail e\<rparr>)
       (audit_of_tenant t limit (s_audit s))"

text \<open>\<open>a > b\<close> on strings.\<close>

fun str_greater :: "string \<Rightarrow> string \<Rightarrow> bool" where
  "str_greater [] b = False"
| "str_greater (x # a) [] = True"
| "str_greater (x # a) (y # b) =
     ((of_char x :: nat) > of_char y \<or> x = y \<and> str_greater a b)"

record usage =
  us_events :: nat
  us_last :: string
  us_email :: string

definition count_event :: "audit_event \<Rightarrow> (string \<times> usage) list \<Rightarrow> (string \<times> usage) list" where
  "count_event e agg =
     (let a = (case map_of agg (av_actor e) of Some a \<Rightarrow> a | None \<Rightarrow> \<lparr>us_events = 0, us_last = [], us_email = av_email e\<rparr>)
      in dict_put (av_actor e)
           \<lparr>us_events = us_events a + 1,
            us_last = (if str_greater (av_ts e) (us_last a) then av_ts e else us_last a),
            us_email = (if av_email e \<noteq> [] then av_email e else us_email a)\<rparr> agg)"

record usage_row =
  ux_id :: string
  ux_email :: string
  ux_roles :: "string list"
  ux_status :: user_status
  ux_events :: nat
  ux_last :: string

definition usage_row_of :: "(string \<times> usage) list \<Rightarrow> user_record \<Rightarrow> usage_row" where
  "usage_row_of agg m =
     (let a = (case map_of agg (ur_id m) of Some a \<Rightarrow> a | None \<Rightarrow> \<lparr>us_events = 0, us_last = [], us_email = ur_email m\<rparr>)
      in \<lparr>ux_id = ur_id m, ux_email = (if ur_email m \<noteq> [] then ur_email m else us_email a), ux_roles = ur_roles m,
          ux_status = ur_status m, ux_events = us_events a, ux_last = us_last a\<rparr>)"

definition usage_summary :: "string \<Rightarrow> id_state \<Rightarrow> usage_row list" where
  "usage_summary t s =
     (let agg = fold count_event (audit_of_tenant t 10000 (s_audit s)) []
      in sort_key (\<lambda>r. - int (ux_events r))
           (map (usage_row_of agg) (filter (\<lambda>m. ur_status m \<noteq> Pending) (users_of_tenant t (s_users s)))))"

end
