(* ===== verification/Accounts.thy ===== *)
theory Accounts
  imports Identity
begin

text \<open>
  What the identity service guarantees of its accounts: every operation is a sequence of account transitions of one
  organisation; addresses stay unique; an organisation that has an active administrator keeps one; an administrator
  changes no other organisation.
\<close>

section \<open>The operations as one type\<close>

text \<open>The operations an administrator of an organisation may call, with the organisation of the caller.\<close>

datatype org_op =
    ProvisionMember string string string string
  | CreateInvite string string rat
  | RevokeInvite string
  | ApproveRequest string string
  | RejectRequest string
  | CreateReset string string
  | SetRole string string
  | SetStatus string user_status

datatype id_op =
    Org string org_op
  | Register string string string string
  | RequestAccess string string string string
  | Bootstrap "string option" "string option"
  | AcceptInvite string string string
  | CompleteReset string string
  | UpdateProfile string string
  | ChangePassword string string string
  | ChangeEmail string string string
  | Deactivate string string
  | DeleteAccount string string
  | IssueRefresh string
  | Rotate string
  | Logout string
  | CreateKey string string
  | RevokeKey string string
  | UseToken claims
  | RecordAudit string string string string string string

fun run_org :: "id_config \<Rightarrow> supplied \<Rightarrow> string \<Rightarrow> org_op \<Rightarrow> id_state \<Rightarrow> id_state" where
  "run_org c ev t (ProvisionMember email password name role) s = snd (provision_member c ev t email password name role s)"
| "run_org c ev t (CreateInvite email role ttl) s = snd (create_invite c ev t email role ttl s)"
| "run_org c ev t (RevokeInvite token) s = snd (revoke_invite ev t token s)"
| "run_org c ev t (ApproveRequest uid role) s = snd (approve_access_request c t uid role s)"
| "run_org c ev t (RejectRequest uid) s = snd (reject_access_request t uid s)"
| "run_org c ev t (CreateReset actor uid) s = snd (create_password_reset c ev t actor uid s)"
| "run_org c ev t (SetRole uid role) s = snd (set_member_role c t uid role s)"
| "run_org c ev t (SetStatus uid status) s = snd (set_member_status c ev t uid status s)"

fun run_op :: "id_config \<Rightarrow> issuer \<Rightarrow> supplied \<Rightarrow> id_op \<Rightarrow> id_state \<Rightarrow> id_state" where
  "run_op c j ev (Org t oper) s = run_org c ev t oper s"
| "run_op c j ev (Register email password name org) s = snd (register c ev email password name org s)"
| "run_op c j ev (RequestAccess email password name note) s = snd (request_access c ev email password name note s)"
| "run_op c j ev (Bootstrap email password) s = snd (bootstrap_admin c ev email password s)"
| "run_op c j ev (AcceptInvite token password name) s = snd (accept_invite c ev token password name s)"
| "run_op c j ev (CompleteReset raw password) s = snd (complete_password_reset c ev raw password s)"
| "run_op c j ev (UpdateProfile uid name) s = snd (update_profile uid name s)"
| "run_op c j ev (ChangePassword uid current new) s = snd (change_password c ev uid current new s)"
| "run_op c j ev (ChangeEmail uid email password) s = snd (change_email c uid email password s)"
| "run_op c j ev (Deactivate uid password) s = snd (deactivate_account c ev uid password s)"
| "run_op c j ev (DeleteAccount uid password) s = snd (delete_account c ev uid password s)"
| "run_op c j ev (IssueRefresh uid) s = snd (issue_refresh_token c ev uid s)"
| "run_op c j ev (Rotate raw) s = snd (rotate_refresh_token c ev raw s)"
| "run_op c j ev (Logout raw) s = revoke_refresh_token c ev raw s"
| "run_op c j ev (CreateKey uid name) s = snd (create_api_key j ev uid name s)"
| "run_op c j ev (RevokeKey uid key) s = snd (revoke_api_key ev uid key s)"
| "run_op c j ev (UseToken cl) s = snd (validate_pat ev cl s)"
| "run_op c j ev (RecordAudit t actor action target detail email) s = record_audit ev t actor action target detail email s"

section \<open>Transitions of accounts\<close>

definition active_admin :: "id_config \<Rightarrow> user_record \<Rightarrow> bool" where
  "active_admin c u \<longleftrightarrow> List.member (ur_roles u) (g_admin_role c) \<and> ur_status u = Active"

text \<open>Another active administrator of the same organisation remains.\<close>

definition replaceable :: "id_config \<Rightarrow> user_record \<Rightarrow> user_record list \<Rightarrow> bool" where
  "replaceable c u us \<longleftrightarrow> list_ex (\<lambda>v. ur_id v \<noteq> ur_id u \<and> ur_tenant v = ur_tenant u \<and> active_admin c v) us"

inductive user_step :: "id_config \<Rightarrow> string \<Rightarrow> user_record list \<Rightarrow> user_record list \<Rightarrow> bool" for c t where
  added: "create_user u us = Inr us' \<Longrightarrow> ur_tenant u = t \<Longrightarrow> user_step c t us us'"
| changed: "get_user (ur_id u) us = Some u \<Longrightarrow> ur_tenant u = t \<Longrightarrow>
    ur_id u' = ur_id u \<Longrightarrow> ur_email u' = ur_email u \<Longrightarrow> ur_tenant u' = t \<Longrightarrow>
    (active_admin c u \<and> \<not> active_admin c u' \<Longrightarrow> replaceable c u us) \<Longrightarrow> user_step c t us (update_user u' us)"
| removed: "get_user uid us = Some u \<Longrightarrow> ur_tenant u = t \<Longrightarrow> (active_admin c u \<Longrightarrow> replaceable c u us) \<Longrightarrow>
    user_step c t us (delete_user uid us)"
| renamed: "set_user_email uid e us = Inr us' \<Longrightarrow> get_user uid us = Some u \<Longrightarrow> ur_tenant u = t \<Longrightarrow> user_step c t us us'"

abbreviation user_steps :: "id_config \<Rightarrow> string \<Rightarrow> user_record list \<Rightarrow> user_record list \<Rightarrow> bool" where
  "user_steps c t \<equiv> (user_step c t)\<^sup>*\<^sup>*"

text \<open>The accounts as the service keeps them: one per identifier, one per address, addresses in normal form.\<close>

definition users_ok :: "user_record list \<Rightarrow> bool" where
  "users_ok us \<longleftrightarrow> rec_ok ur_id us \<and> distinct (map ur_email us) \<and> (\<forall>u \<in> set us. normalize_email (ur_email u) = ur_email u)"

lemma lower_char_codes:
  "(of_char (lower_char c) :: nat)
   = (let n = of_char c in if 65 \<le> n \<and> n \<le> 90 \<or> 192 \<le> n \<and> n \<le> 222 \<and> n \<noteq> 215 then n + 32 else n)"
  by (auto simp: lower_char_def Let_def)

lemma lower_char_twice: "lower_char (lower_char c) = lower_char c"
proof -
  have "(of_char (lower_char (lower_char c)) :: nat) = of_char (lower_char c)"
    by (auto simp: lower_char_codes Let_def)
  then show ?thesis by simp
qed

lemma py_space_lower: "py_space (lower_char c) \<longleftrightarrow> py_space c"
  by (auto simp: py_space_def space_codes_def lower_char_codes Let_def)

lemma dropWhile_lower: "dropWhile py_space (map lower_char s) = map lower_char (dropWhile py_space s)"
  by (induction s) (simp_all add: py_space_lower)

lemma normalize_twice [simp]: "normalize_email (normalize_email e) = normalize_email e"
proof -
  have "strip (lower s) = lower (strip s)" for s
    by (simp add: strip_def lstrip_def rstrip_def lower_def dropWhile_lower rev_map)
  moreover have "lower (lower s) = lower s" for s
    by (simp add: lower_def lower_char_twice)
  ultimately show ?thesis by (simp add: normalize_email_def)
qed

section \<open>Transitions keep the accounts well formed\<close>

lemma users_ok_put_new:
  "users_ok us \<Longrightarrow> rec_get ur_id (ur_id u) us = None \<Longrightarrow> \<not> list_ex (\<lambda>x. ur_email x = ur_email u) us \<Longrightarrow>
   normalize_email (ur_email u) = ur_email u \<Longrightarrow> users_ok (rec_put ur_id u us)"
proof -
  assume ok: "users_ok us" and new: "rec_get ur_id (ur_id u) us = None" "\<not> list_ex (\<lambda>x. ur_email x = ur_email u) us"
    "normalize_email (ur_email u) = ur_email u"
  have "rec_put ur_id u us = us @ [u]"
    using new(1) by (induction us) (auto simp: rec_get_def)
  moreover have "\<forall>x \<in> set us. ur_id x \<noteq> ur_id u" using new(1) by (auto simp: rec_get_def find_None_iff)
  ultimately show ?thesis using ok new(2,3)
    by (auto simp: users_ok_def rec_ok_def list_ex_iff)
qed

lemma emails_put:
  "rec_ok ur_id us \<Longrightarrow> distinct (map ur_email us) \<Longrightarrow> \<not> list_ex (\<lambda>x. ur_id x \<noteq> ur_id u \<and> ur_email x = ur_email u) us \<Longrightarrow>
   distinct (map ur_email (rec_put ur_id u us))"
proof (induction us)
  case (Cons x us)
  show ?case
  proof (cases "ur_id x = ur_id u")
    case True
    then have "\<forall>y \<in> set us. ur_id y \<noteq> ur_id u" using Cons.prems(1) by auto
    then show ?thesis using True Cons.prems(2,3) by (auto simp: list_ex_iff)
  next
    case False
    then have "distinct (map ur_email (rec_put ur_id u us))" using Cons by auto
    moreover have "ur_email x \<notin> ur_email ` set (rec_put ur_id u us)"
      using Cons.prems False by (auto simp: set_rec_put list_ex_iff)
    ultimately show ?thesis using False by simp
  qed
qed simp

lemma users_ok_put:
  "users_ok us \<Longrightarrow> \<not> list_ex (\<lambda>x. ur_id x \<noteq> ur_id u \<and> ur_email x = ur_email u) us \<Longrightarrow>
   normalize_email (ur_email u) = ur_email u \<Longrightarrow> users_ok (rec_put ur_id u us)"
  by (auto simp: users_ok_def rec_ok_put emails_put set_rec_put)

lemma users_ok_email:
  "users_ok us \<Longrightarrow> u \<in> set us \<Longrightarrow> x \<in> set us \<Longrightarrow> ur_email x = ur_email u \<Longrightarrow> x = u"
  by (auto simp: users_ok_def distinct_map inj_on_def)

lemma get_user_in: "get_user uid us = Some u \<Longrightarrow> u \<in> set us \<and> ur_id u = uid"
  by (auto simp: get_user_def dest: rec_get_key)

lemma users_ok_update:
  assumes "users_ok us" "get_user (ur_id u') us = Some u" "ur_email u' = ur_email u"
  shows "users_ok (update_user u' us) \<and> update_user u' us = rec_put ur_id u' us"
proof -
  have u: "u \<in> set us" "ur_id u = ur_id u'" using get_user_in [OF assms(2)] by auto
  then have n: "normalize_email (ur_email u') = ur_email u'" using assms(1,3) by (simp add: users_ok_def)
  then have e: "update_user u' us = rec_put ur_id u' us" by (simp add: update_user_def)
  have "\<not> list_ex (\<lambda>x. ur_id x \<noteq> ur_id u' \<and> ur_email x = ur_email u') us"
    using users_ok_email [OF assms(1) u(1)] u(2) assms(3) by (auto simp: list_ex_iff)
  then show ?thesis using users_ok_put [OF assms(1) _ n] e by simp
qed

lemma users_ok_delete: "users_ok us \<Longrightarrow> users_ok (delete_user uid us)"
  by (auto simp: users_ok_def delete_user_def rec_del_def rec_ok_filter distinct_map_filter)

lemma create_user_cases:
  assumes "create_user u us = Inr us'"
  defines "v \<equiv> u\<lparr>ur_email := normalize_email (ur_email u)\<rparr>"
  shows "us' = rec_put ur_id v us" "rec_get ur_id (ur_id v) us = None" "\<not> list_ex (\<lambda>x. ur_email x = ur_email v) us"
    "normalize_email (ur_email v) = ur_email v"
  using assms by (auto simp: create_user_def get_user_def Let_def split: if_splits)

lemma set_user_email_cases:
  assumes "set_user_email uid e us = Inr us'" "get_user uid us = Some u"
  shows "us' = rec_put ur_id (u\<lparr>ur_email := normalize_email e\<rparr>) us"
    "\<not> list_ex (\<lambda>x. ur_id x \<noteq> ur_id u \<and> ur_email x = normalize_email e) us"
  using assms get_user_in [OF assms(2)] by (auto simp: set_user_email_def Let_def split: if_splits)

lemma user_step_ok: "user_step c t us us' \<Longrightarrow> users_ok us \<Longrightarrow> users_ok us'"
proof (induction rule: user_step.induct)
  case (added u us us')
  show ?case using create_user_cases [OF added(1)] users_ok_put_new [OF added(3)] by simp
next
  case (changed u us u')
  have "get_user (ur_id u') us = Some u" using changed by simp
  from users_ok_update [OF changed(7) this changed(4)] show ?case by blast
next
  case (removed uid us u)
  then show ?case by (simp add: users_ok_delete)
next
  case (renamed uid e us us' u)
  then show ?case
    using set_user_email_cases [OF renamed(1,2)] users_ok_put [OF renamed(4), of "u\<lparr>ur_email := normalize_email e\<rparr>"]
    by simp
qed

section \<open>Transitions stay in their organisation\<close>

lemma tenant_put:
  "rec_ok ur_id us \<Longrightarrow> ur_tenant u \<noteq> t' \<Longrightarrow> (\<forall>x \<in> set us. ur_id x = ur_id u \<longrightarrow> ur_tenant x \<noteq> t') \<Longrightarrow>
   users_of_tenant t' (rec_put ur_id u us) = users_of_tenant t' us"
  by (induction us) (auto simp: users_of_tenant_def)

lemma rec_ok_unique: "rec_ok key rs \<Longrightarrow> rec_get key k rs = Some r \<Longrightarrow> x \<in> set rs \<Longrightarrow> key x = k \<Longrightarrow> x = r"
  using rec_get_in by fastforce

lemma users_ok_unique: "users_ok us \<Longrightarrow> get_user uid us = Some u \<Longrightarrow> x \<in> set us \<Longrightarrow> ur_id x = uid \<Longrightarrow> x = u"
  by (auto simp: users_ok_def get_user_def dest: rec_ok_unique)

lemma user_step_tenant:
  "user_step c t us us' \<Longrightarrow> users_ok us \<Longrightarrow> t' \<noteq> t \<Longrightarrow> users_of_tenant t' us' = users_of_tenant t' us"
proof (induction rule: user_step.induct)
  case (added u us us')
  note c = create_user_cases [OF added(1)]
  have "\<forall>x \<in> set us. ur_id x \<noteq> ur_id u" using c(2) by (auto simp: rec_get_def find_None_iff)
  then show ?case unfolding c(1) using added by (intro tenant_put) (auto simp: users_ok_def)
next
  case (changed u us u')
  have "update_user u' us = rec_put ur_id u' us" using users_ok_update [of us u' u] changed by simp
  moreover have "ur_tenant x \<noteq> t'" if "x \<in> set us" "ur_id x = ur_id u'" for x
    using users_ok_unique [OF changed(7,1) that(1)] that(2) changed by auto
  moreover have "rec_ok ur_id us" using changed(7) by (simp add: users_ok_def)
  ultimately show ?case using changed tenant_put [of us u' t'] by simp
next
  case (removed uid us u)
  have "x \<in> set us \<Longrightarrow> ur_tenant x = t' \<Longrightarrow> ur_id x \<noteq> uid" for x
    using users_ok_unique [OF removed(4,1), of x] removed by auto
  then show ?case by (auto simp: users_of_tenant_def delete_user_def rec_del_def intro: filter_cong)
next
  case (renamed uid e us us' u)
  have "ur_tenant x \<noteq> t'" if "x \<in> set us" "ur_id x = ur_id u" for x
    using users_ok_unique [OF renamed(4,2) that(1)] get_user_in [OF renamed(2)] that(2) renamed(3,5) by auto
  moreover have "rec_ok ur_id us" using renamed(4) by (simp add: users_ok_def)
  ultimately show ?case unfolding set_user_email_cases(1) [OF renamed(1,2)]
    using renamed(3,5) by (intro tenant_put) auto
qed

section \<open>Transitions keep an administrator\<close>

definition has_admin :: "id_config \<Rightarrow> string \<Rightarrow> user_record list \<Rightarrow> bool" where
  "has_admin c t us \<longleftrightarrow> list_ex (\<lambda>u. ur_tenant u = t \<and> active_admin c u) us"

lemma has_admin_put:
  "rec_ok ur_id us \<Longrightarrow> list_ex (\<lambda>v. ur_id v \<noteq> ur_id u \<and> ur_tenant v = t \<and> active_admin c v) us \<or> ur_tenant u = t \<and> active_admin c u \<Longrightarrow>
   has_admin c t (rec_put ur_id u us)"
  by (auto simp: has_admin_def list_ex_iff set_rec_put)

lemma user_step_admin:
  "user_step c t us us' \<Longrightarrow> users_ok us \<Longrightarrow> has_admin c t' us \<Longrightarrow> has_admin c t' us'"
proof (induction rule: user_step.induct)
  case (added u us us')
  note put = create_user_cases [OF added(1)]
  have "\<forall>x \<in> set us. ur_id x \<noteq> ur_id u" using put(2) by (auto simp: rec_get_def find_None_iff)
  then show ?case unfolding put(1) using added by (intro has_admin_put) (auto simp: users_ok_def has_admin_def list_ex_iff)
next
  case (changed u us u')
  have e: "update_user u' us = rec_put ur_id u' us" using users_ok_update [of us u' u] changed by simp
  obtain w where w: "w \<in> set us" "ur_tenant w = t'" "active_admin c w"
    using changed(8) by (auto simp: has_admin_def list_ex_iff)
  have "w = u" if "ur_id w = ur_id u" using users_ok_unique [OF changed(7,1) w(1) that] .
  then show ?case unfolding e using changed w
    by (intro has_admin_put) (auto simp: users_ok_def replaceable_def list_ex_iff)
next
  case (removed uid us u)
  obtain w where w: "w \<in> set us" "ur_tenant w = t'" "active_admin c w"
    using removed(5) by (auto simp: has_admin_def list_ex_iff)
  have u: "ur_id u = uid" using get_user_in [OF removed(1)] by simp
  have "\<exists>v \<in> set us. ur_id v \<noteq> uid \<and> ur_tenant v = t' \<and> active_admin c v"
  proof (cases "ur_id w = uid")
    case True
    then have "w = u" using users_ok_unique [OF removed(4,1) w(1)] by simp
    then show ?thesis using removed(3) w u by (auto simp: replaceable_def list_ex_iff)
  qed (use w in blast)
  then show ?case by (auto simp: has_admin_def list_ex_iff delete_user_def rec_del_def)
next
  case (renamed uid e us us' u)
  note put = set_user_email_cases [OF renamed(1,2)]
  obtain w where w: "w \<in> set us" "ur_tenant w = t'" "active_admin c w"
    using renamed(5) by (auto simp: has_admin_def list_ex_iff)
  have "w = u" if "ur_id w = ur_id u"
    using users_ok_unique [OF renamed(4,2) w(1)] that get_user_in [OF renamed(2)] by simp
  then show ?case unfolding put(1) using renamed w
    by (intro has_admin_put) (auto simp: users_ok_def list_ex_iff active_admin_def)
qed

lemma user_steps_keep:
  assumes "user_steps c t us us'" "users_ok us"
  shows "users_ok us' \<and> (has_admin c t' us \<longrightarrow> has_admin c t' us')
    \<and> (t' \<noteq> t \<longrightarrow> users_of_tenant t' us' = users_of_tenant t' us)"
  using assms
proof (induction rule: rtranclp_induct)
  case (step vs ws)
  then show ?case using user_step_ok user_step_admin user_step_tenant by metis
qed simp

section \<open>Every operation is a sequence of transitions of one organisation\<close>

lemma one_step: "user_step c t us us' \<Longrightarrow> user_steps c t us us'"
  by (rule r_into_rtranclp)

lemma last_admin_replaceable:
  assumes ok: "users_ok (s_users s)" and u: "get_user uid (s_users s) = Some u" "active_admin c u"
    and guard: "\<not> is_last_admin c (ur_tenant u) uid s"
  shows "replaceable c u (s_users s)"
proof -
  let ?A = "org_admins c (ur_tenant u) s"
  have in_A: "x \<in> set ?A \<longleftrightarrow> x \<in> set (s_users s) \<and> ur_tenant x = ur_tenant u \<and> active_admin c x" for x
    by (auto simp: org_admins_def users_of_tenant_def active_admin_def)
  have uA: "u \<in> set ?A" "ur_id u = uid" using get_user_in [OF u(1)] u(2) in_A by auto
  then have two: "length ?A > 1" using guard by (auto simp: is_last_admin_def list_ex_iff)
  have dist: "distinct (map ur_id ?A)"
    using ok by (simp add: org_admins_def users_of_tenant_def users_ok_def rec_ok_def distinct_map_filter)
  have "\<exists>v \<in> set ?A. ur_id v \<noteq> ur_id u"
  proof (rule ccontr)
    assume "\<not> ?thesis"
    then have "set (map ur_id ?A) \<subseteq> {ur_id u}" by auto
    then have "card (set (map ur_id ?A)) \<le> 1" by (metis card.empty card_insert_le_m1 card_mono finite.intros empty_iff
        finite_insert is_singletonI is_singleton_altdef order_refl)
    then show False using distinct_card [OF dist] two by simp
  qed
  then show ?thesis using in_A by (auto simp: replaceable_def list_ex_iff)
qed

lemma create_account_users:
  "s_users (snd (create_account c ev email password name org tenant roles status nt s)) = s_users s
   \<or> (\<exists>u. create_user u (s_users s) = Inr (s_users (snd (create_account c ev email password name org tenant roles status nt s)))
        \<and> (\<forall>t. tenant = Some t \<longrightarrow> ur_tenant u = t))"
  by (auto simp: create_account_def Let_def split: option.splits sum.splits)

lemma create_account_steps:
  "user_steps c t (s_users s) (s_users (snd (create_account c ev email password name org (Some t) roles status nt s)))"
  "\<exists>t. user_steps c t (s_users s) (s_users (snd (create_account c ev email password name org tenant roles status nt s)))"
  using create_account_users [of c ev email password name org "Some t" roles status nt s]
    create_account_users [of c ev email password name org tenant roles status nt s]
  by (metis one_step rtranclp.rtrancl_refl user_step.added)+

text \<open>The state of an operation that goes on from another one.\<close>

lemma snd_outcome:
  "snd (case p of (Inl e, s') \<Rightarrow> (f e s', s') | (Inr x, s') \<Rightarrow> (g x s', s')) = snd p"
  by (auto split: prod.split sum.split)

lemma supersede_step: "users_ok (s_users s) \<Longrightarrow> user_steps c t (s_users s) (s_users (supersede_pending t email s))"
proof -
  assume ok: "users_ok (s_users s)"
  have "user_step c t (s_users s) (delete_user (ur_id u) (s_users s))"
    if "user_by_email email (s_users s) = Some u" "ur_tenant u = t" "ur_status u = Pending" for u
  proof (rule user_step.removed)
    have "u \<in> set (s_users s)" using that(1) by (auto simp: user_by_email_def dest: find_Some_D)
    then show "get_user (ur_id u) (s_users s) = Some u"
      using ok rec_get_in [of ur_id "s_users s" u] by (simp add: users_ok_def get_user_def)
    show "ur_tenant u = t" by (rule that(2))
    show "replaceable c u (s_users s)" if "active_admin c u" using that \<open>ur_status u = Pending\<close> by (simp add: active_admin_def)
  qed
  then show ?thesis by (auto simp: supersede_pending_def split: option.splits)
qed

lemma save_user_step:
  assumes "get_user uid (s_users s) = Some u" "ur_tenant u = t" "ur_id u' = ur_id u" "ur_email u' = ur_email u" "ur_tenant u' = t"
    "active_admin c u \<and> \<not> active_admin c u' \<Longrightarrow> replaceable c u (s_users s)"
  shows "user_steps c t (s_users s) (s_users (save_user u' s))"
proof -
  have "ur_id u = uid" using get_user_in [OF assms(1)] by simp
  then show ?thesis using assms user_step.changed [of u "s_users s" t u' c] by (auto simp: save_user_def intro!: one_step)
qed

lemma member_in_tenantD: "member_in_tenant t uid s = Some u \<Longrightarrow> get_user uid (s_users s) = Some u \<and> ur_tenant u = t \<and> ur_id u = uid"
  by (auto simp: member_in_tenant_def split: option.splits if_splits dest: get_user_in)

lemma s_users_revoke [simp]: "s_users (revoke_all_refresh ev uid s) = s_users s" "s_users (with_refresh f s) = s_users s"
  by (simp_all add: revoke_all_refresh_def with_refresh_def)

lemma provision_member_steps:
  assumes "users_ok (s_users s)"
  shows "user_steps c t (s_users s) (s_users (snd (provision_member c ev t email password name role s)))"
proof -
  have "user_steps c t (s_users s) (s_users (snd (create_account c ev email password name [] (Some t) (Some [role']) Active []
      (supersede_pending t (normalize_email email) s))))" for role'
    by (rule rtranclp_trans [OF supersede_step [OF assms] create_account_steps(1)])
  then show ?thesis by (auto simp: provision_member_def provision_def Let_def snd_outcome)
qed

lemma set_member_role_steps:
  assumes "users_ok (s_users s)"
  shows "user_steps c t (s_users s) (s_users (snd (set_member_role c t uid role s)))"
proof -
  have "user_steps c t (s_users s) (s_users (save_user (u\<lparr>ur_roles := [role]\<rparr>) s))"
    if m: "member_in_tenant t uid s = Some u"
      and g: "\<not> (List.member (ur_roles u) (g_admin_role c) \<and> role \<noteq> g_admin_role c \<and> is_last_admin c t uid s)" for u
  proof (rule save_user_step)
    note u = member_in_tenantD [OF m]
    show "get_user uid (s_users s) = Some u" "ur_tenant u = t" using u by auto
    assume "active_admin c u \<and> \<not> active_admin c (u\<lparr>ur_roles := [role]\<rparr>)"
    then show "replaceable c u (s_users s)" using g u last_admin_replaceable [OF assms, of uid u c]
      by (auto simp: active_admin_def)
  qed (use member_in_tenantD [OF m] in auto)
  then show ?thesis by (auto simp: set_member_role_def Let_def split: option.split)
qed

lemma disable_steps:
  assumes "users_ok (s_users s)" "get_user uid (s_users s) = Some u" "ur_tenant u = t"
    "status = Active \<or> \<not> (List.member (ur_roles u) (g_admin_role c) \<and> is_last_admin c t uid s)"
  shows "user_steps c t (s_users s) (s_users (save_user (u\<lparr>ur_status := status\<rparr>) s))"
proof (rule save_user_step [OF assms(2,3)])
  assume "active_admin c u \<and> \<not> active_admin c (u\<lparr>ur_status := status\<rparr>)"
  then show "replaceable c u (s_users s)" using assms(3,4) last_admin_replaceable [OF assms(1,2), of c]
    by (auto simp: active_admin_def)
qed (use assms in auto)

lemma set_member_status_steps:
  assumes "users_ok (s_users s)"
  shows "user_steps c t (s_users s) (s_users (snd (set_member_status c ev t uid status s)))"
proof -
  have "user_steps c t (s_users s) (s_users (save_user (u\<lparr>ur_status := status\<rparr>) s))"
    if "member_in_tenant t uid s = Some u" "status \<noteq> Pending"
      "\<not> (status = Disabled \<and> List.member (ur_roles u) (g_admin_role c) \<and> is_last_admin c t uid s)" for u
    using that member_in_tenantD [OF that(1)] disable_steps [OF assms, of uid u t status c] by (cases status) auto
  then show ?thesis by (auto simp: set_member_status_def Let_def split: option.split)
qed

lemma approve_steps: "user_steps c t (s_users s) (s_users (snd (approve_access_request c t uid role s)))"
proof -
  have "user_steps c t (s_users s) (s_users (save_user (u\<lparr>ur_status := Active, ur_roles := [r]\<rparr>) s))"
    if m: "member_in_tenant t uid s = Some u" and "ur_status u = Pending" for u r
  proof (rule save_user_step)
    show "get_user uid (s_users s) = Some u" "ur_tenant u = t" using member_in_tenantD [OF m] by auto
  qed (use that member_in_tenantD [OF m] in \<open>auto simp: active_admin_def\<close>)
  then show ?thesis by (auto simp: approve_access_request_def Let_def split: option.split)
qed

lemma reject_steps: "user_steps c t (s_users s) (s_users (snd (reject_access_request t uid s)))"
proof -
  have "user_steps c t (s_users s) (delete_user (ur_id u) (s_users s))"
    if "member_in_tenant t uid s = Some u" "ur_status u = Pending" for u
    using that member_in_tenantD [OF that(1)] by (auto intro!: one_step user_step.removed simp: active_admin_def)
  then show ?thesis by (auto simp: reject_access_request_def split: option.split)
qed

lemma create_invite_steps:
  "users_ok (s_users s) \<Longrightarrow> user_steps c t (s_users s) (s_users (snd (create_invite c ev t email role ttl s)))"
  using supersede_step [of s c t "normalize_email email"] by (auto simp: create_invite_def Let_def split: option.split)

lemma create_reset_users [simp]: "s_users (snd (create_password_reset c ev t actor uid s)) = s_users s"
  by (auto simp: create_password_reset_def split: option.split)

lemma revoke_invite_users [simp]: "s_users (snd (revoke_invite ev t token s)) = s_users s"
  by (auto simp: revoke_invite_def split: option.split)

lemma run_org_steps:
  assumes ok: "users_ok (s_users s)"
  shows "user_steps c t (s_users s) (s_users (run_org c ev t oper s))"
  by (cases oper) (simp_all add: provision_member_steps set_member_role_steps set_member_status_steps approve_steps
      reject_steps create_invite_steps ok)

lemma accept_invite_steps:
  assumes "users_ok (s_users s)"
  shows "\<exists>t. user_steps c t (s_users s) (s_users (snd (accept_invite c ev token password name s)))"
proof (cases "open_invite (e_now ev) token s")
  case (Some i)
  let ?s = "supersede_pending (iv_tenant i) (iv_email i) s"
  have 1: "user_steps c (iv_tenant i) (s_users s) (s_users ?s)" by (rule supersede_step [OF assms])
  have 2: "user_steps c (iv_tenant i) (s_users ?s) (s_users (snd (create_account c ev (iv_email i) password name []
      (Some (iv_tenant i)) (Some [iv_role i]) Active [] ?s)))" by (rule create_account_steps(1))
  have "user_steps c (iv_tenant i) (s_users s) (s_users (snd (accept_invite c ev token password name s)))"
    using 1 rtranclp_trans [OF 1 2] Some
    by (auto simp: accept_invite_def provision_def Let_def split: prod.split sum.split)
  then show ?thesis ..
qed (auto simp: accept_invite_def)

lemma same_identity_step:
  "get_user uid (s_users s) = Some u \<Longrightarrow> ur_id u' = ur_id u \<Longrightarrow> ur_email u' = ur_email u \<Longrightarrow> ur_tenant u' = ur_tenant u \<Longrightarrow>
   ur_roles u' = ur_roles u \<Longrightarrow> ur_status u' = ur_status u \<Longrightarrow>
   user_steps c (ur_tenant u) (s_users s) (s_users (save_user u' s))"
  by (rule save_user_step) (auto simp: active_admin_def)

lemma complete_reset_steps: "\<exists>t. user_steps c t (s_users s) (s_users (snd (complete_password_reset c ev raw password s)))"
proof -
  have "user_steps c (ur_tenant u) (s_users s) (s_users (save_user (u\<lparr>ur_hash := h\<rparr>) s))"
    if "usable_reset c now raw s = Some (rec, u)" for rec u h now
  proof (rule same_identity_step)
    show "get_user (rs_user rec) (s_users s) = Some u"
      using that by (auto simp: usable_reset_def split: option.splits if_splits)
  qed simp_all
  then show ?thesis by (auto simp: complete_password_reset_def Let_def split: option.split) (metis rtranclp.rtrancl_refl)+
qed

lemma verify_own_passwordD: "verify_own_password c uid password s = Inr u \<Longrightarrow> get_user uid (s_users s) = Some u"
  by (auto simp: verify_own_password_def split: option.splits if_splits)

lemma update_profile_steps: "\<exists>t. user_steps c t (s_users s) (s_users (snd (update_profile uid name s)))"
proof (cases "get_user uid (s_users s)")
  case (Some u)
  show ?thesis using same_identity_step [OF Some, of "u\<lparr>ur_name := strip name\<rparr>" c] Some
    by (auto simp: update_profile_def Let_def)
qed (auto simp: update_profile_def)

lemma change_password_steps: "\<exists>t. user_steps c t (s_users s) (s_users (snd (change_password c ev uid current new s)))"
proof (cases "get_user uid (s_users s)")
  case (Some u)
  show ?thesis using same_identity_step [OF Some, of "u\<lparr>ur_hash := h\<rparr>" c for h] Some
    by (auto simp: change_password_def split: option.split)
qed (auto simp: change_password_def)

lemma change_email_steps: "\<exists>t. user_steps c t (s_users s) (s_users (snd (change_email c uid email password s)))"
proof -
  have "user_steps c (ur_tenant u) (s_users s) us"
    if "verify_own_password c uid password s = Inr u" "set_user_email uid e (s_users s) = Inr us" for u e us
    using user_step.renamed [OF that(2) verify_own_passwordD [OF that(1)] refl] by (rule one_step)
  then show ?thesis by (auto simp: change_email_def Let_def split: sum.split)
qed

lemma leaving_steps:
  assumes "users_ok (s_users s)" "verify_own_password c uid password s = Inr u" "guard_removable c u s = None"
  shows "user_steps c (ur_tenant u) (s_users s) (s_users (save_user (u\<lparr>ur_status := Disabled\<rparr>) s))"
    "user_steps c (ur_tenant u) (s_users s) (delete_user uid (s_users s))"
proof -
  note g = verify_own_passwordD [OF assms(2)]
  have u: "ur_id u = uid" using get_user_in [OF g] by simp
  have n: "\<not> (List.member (ur_roles u) (g_admin_role c) \<and> is_last_admin c (ur_tenant u) uid s)"
    using assms(3) u by (auto simp: guard_removable_def split: if_splits)
  then show "user_steps c (ur_tenant u) (s_users s) (s_users (save_user (u\<lparr>ur_status := Disabled\<rparr>) s))"
    by (intro disable_steps [OF assms(1) g refl]) simp
  have "active_admin c u \<Longrightarrow> replaceable c u (s_users s)"
    using n last_admin_replaceable [OF assms(1) g, of c] by (auto simp: active_admin_def)
  then show "user_steps c (ur_tenant u) (s_users s) (delete_user uid (s_users s))"
    by (intro one_step user_step.removed [OF g refl])
qed

lemma deactivate_steps:
  "users_ok (s_users s) \<Longrightarrow> \<exists>t. user_steps c t (s_users s) (s_users (snd (deactivate_account c ev uid password s)))"
  using leaving_steps(1) [of s c uid password] by (fastforce simp: deactivate_account_def split: sum.split option.split)

lemma delete_steps:
  "users_ok (s_users s) \<Longrightarrow> \<exists>t. user_steps c t (s_users s) (s_users (snd (delete_account c ev uid password s)))"
proof -
  assume ok: "users_ok (s_users s)"
  have [simp]: "s_users (revoke_all_refresh ev uid (s\<lparr>s_keys := ks\<rparr>)) = s_users s" for ks by simp
  show ?thesis using leaving_steps(2) [OF ok, of c uid password]
    by (fastforce simp: delete_account_def Let_def split: sum.split option.split)
qed

lemma request_access_steps: "\<exists>t. user_steps c t (s_users s) (s_users (snd (request_access c ev email password name note s)))"
  by (rule exI [of _ "g_global_tenant c"])
    (simp add: request_access_def snd_outcome create_account_steps(1) split: option.split)

lemma bootstrap_steps: "\<exists>t. user_steps c t (s_users s) (s_users (snd (bootstrap_admin c ev email password s)))"
  by (rule exI [of _ "g_global_tenant c"])
    (simp add: bootstrap_admin_def provision_def snd_outcome create_account_steps(1) split: option.split)

lemma rotate_users: "s_users (snd (rotate_refresh_token c ev raw s)) = s_users s"
  by (auto simp: rotate_refresh_token_def rotate_swap_def Let_def split: option.split prod.split rotation.split)

lemma other_ops_users:
  "s_users (snd (issue_refresh_token c ev uid s)) = s_users s"
  "s_users (snd (rotate_refresh_token c ev raw s)) = s_users s"
  "s_users (revoke_refresh_token c ev raw s) = s_users s"
  "s_users (snd (create_api_key j ev uid name s)) = s_users s"
  "s_users (snd (revoke_api_key ev uid key s)) = s_users s"
  "s_users (snd (validate_pat ev cl s)) = s_users s"
  "s_users (record_audit ev t actor action target detail email s) = s_users s"
  by (simp_all add: rotate_users issue_refresh_token_def revoke_refresh_token_def create_api_key_def revoke_api_key_def
      validate_pat_def record_audit_def Let_def split: option.split)

lemma run_op_steps:
  assumes ok: "users_ok (s_users s)"
  shows "\<exists>t. user_steps c t (s_users s) (s_users (run_op c j ev oper s))"
proof (cases oper)
  case (Org t o')
  then show ?thesis using run_org_steps [OF ok, of c t ev o'] by auto
next
  case (Register email password name org)
  then show ?thesis using create_account_steps(2) by (auto simp: register_def)
next
  case (RequestAccess email password name nt)
  then show ?thesis by (simp add: request_access_steps)
next
  case (Bootstrap email password)
  then show ?thesis by (simp add: bootstrap_steps)
next
  case (AcceptInvite token password name)
  then show ?thesis by (simp add: accept_invite_steps ok)
next
  case (CompleteReset raw password)
  then show ?thesis by (simp add: complete_reset_steps)
next
  case (UpdateProfile uid name)
  then show ?thesis by (simp add: update_profile_steps)
next
  case (ChangePassword uid current new)
  then show ?thesis by (simp add: change_password_steps)
next
  case (ChangeEmail uid email password)
  then show ?thesis by (simp add: change_email_steps)
next
  case (Deactivate uid password)
  then show ?thesis by (simp add: deactivate_steps ok)
next
  case (DeleteAccount uid password)
  then show ?thesis by (simp add: delete_steps ok)
qed (auto simp: other_ops_users)

section \<open>Properties of the accounts\<close>

text \<open>A run of the service: operations, each with what the environment supplies to it.\<close>

fun run_ops :: "id_config \<Rightarrow> issuer \<Rightarrow> (supplied \<times> id_op) list \<Rightarrow> id_state \<Rightarrow> id_state" where
  "run_ops c j [] s = s"
| "run_ops c j ((ev, oper) # rest) s = run_ops c j rest (run_op c j ev oper s)"

lemma run_ops_users_ok: "users_ok (s_users s) \<Longrightarrow> users_ok (s_users (run_ops c j ops s))"
proof (induction c j ops s rule: run_ops.induct)
  case (2 c j ev oper rest s)
  then show ?case using run_op_steps [OF 2(2), of c j ev oper] user_steps_keep by fastforce
qed simp

text \<open>C16: Addresses identify accounts. Whatever operations run, in any order and on any accounts, no two accounts
  have the same identifier or the same address (addresses compared in lower case and without surrounding blanks), so the
  account that a login finds is the only one it can be for.\<close>

lemma addresses_stay_unique:
  assumes "users_ok (s_users s)"
  shows "distinct (map ur_id (s_users (run_ops c j ops s)))
    \<and> distinct (map (\<lambda>u. normalize_email (ur_email u)) (s_users (run_ops c j ops s)))"
proof -
  have ok: "users_ok (s_users (run_ops c j ops s))" by (rule run_ops_users_ok [OF assms])
  then have e: "map (\<lambda>u. normalize_email (ur_email u)) (s_users (run_ops c j ops s)) = map ur_email (s_users (run_ops c j ops s))"
    using ok by (simp add: users_ok_def)
  show ?thesis unfolding e using ok by (simp add: users_ok_def rec_ok_def)
qed

text \<open>C19: An organisation that has an active administrator keeps one: no sequence of operations - demoting, disabling,
  approving and rejecting members, resetting passwords, leaving or deleting accounts, in this or another organisation -
  leaves it without.\<close>

lemma an_organisation_keeps_an_admin:
  assumes "users_ok (s_users s)" "org_admins c t s \<noteq> []"
  shows "org_admins c t (run_ops c j ops s) \<noteq> []"
proof -
  have admins: "org_admins c t s \<noteq> [] \<longleftrightarrow> has_admin c t (s_users s)" for s
    by (auto simp: org_admins_def users_of_tenant_def has_admin_def active_admin_def list_ex_iff filter_empty_conv)
  have "users_ok (s_users s) \<Longrightarrow> has_admin c t (s_users s) \<Longrightarrow> has_admin c t (s_users (run_ops c j ops s))"
  proof (induction c j ops s rule: run_ops.induct)
    case (2 c j ev oper rest s)
    then show ?case using run_op_steps [OF 2(2), of c j ev oper] user_steps_keep by fastforce
  qed simp
  then show ?thesis using assms by (simp add: admins)
qed

text \<open>C21: An administrator acts on one organisation: an operation called for the organisation of the caller leaves the
  accounts of every other one as they are - it creates none there, and changes, disables or deletes none.\<close>

lemma admins_act_on_their_own_organisation:
  assumes "users_ok (s_users s)" "t' \<noteq> t"
  shows "users_of_tenant t' (s_users (run_op c j ev (Org t oper) s)) = users_of_tenant t' (s_users s)"
  using user_steps_keep [OF run_org_steps [OF assms(1), of c t ev oper] assms(1), of t'] assms(2) by simp

section \<open>Concrete inputs\<close>

definition demo_config :: id_config where
  "demo_config = \<lparr>g_multi = False, g_global_tenant = ''acme'', g_admin_role = ''admin'', g_owner_role = ''owner'',
     g_access_requests = True, g_refresh_ttl = 100, g_reset_ttl = 50, g_kdf = toy_kdf, g_sha256 = (\<lambda>x. x)\<rparr>"

definition demo_issuer :: issuer where
  "demo_issuer = \<lparr>j_issuer = ''adk-cc'', j_audience = None, j_ttl = 30\<rparr>"

definition demo_env :: "rat \<Rightarrow> string \<Rightarrow> supplied" where
  "demo_env now fresh = \<lparr>e_now = now, e_stamp = ''t'', e_uid = fresh, e_salt = [1], e_secret = fresh\<rparr>"

definition demo_user :: "string \<Rightarrow> string \<Rightarrow> string \<Rightarrow> user_status \<Rightarrow> user_record" where
  "demo_user uid t role status = \<lparr>ur_id = uid, ur_email = uid @ ''@x.y'', ur_hash = [], ur_name = [], ur_tenant = t,
     ur_roles = [role], ur_status = status, ur_created = [], ur_note = []\<rparr>"

definition demo_state :: id_state where
  "demo_state = \<lparr>s_users = [demo_user ''a'' ''acme'' ''admin'' Active, demo_user ''b'' ''acme'' ''admin'' Active,
       demo_user ''c'' ''other'' ''admin'' Active, demo_user ''d'' ''acme'' [] Pending],
     s_invites = [], s_keys = [], s_refresh = [], s_resets = [], s_audit = []\<rparr>"

lemmas demo_defs = demo_config_def demo_issuer_def demo_env_def demo_user_def demo_state_def

lemma demo_users_ok: "users_ok (s_users demo_state)"
  by (simp add: users_ok_def demo_defs normalize_email_def strip_def lstrip_def rstrip_def py_space_def space_codes_def
      lower_def lower_char_def)

lemma addresses_stay_unique_witness:
  "let s = run_ops demo_config demo_issuer
        [(demo_env 1 ''n'', Org ''acme'' (SetRole ''a'' ''member'')), (demo_env 2 ''m'', UpdateProfile ''b'' ''Bo'')] demo_state in
   map ur_email (s_users s) = [''a@x.y'', ''b@x.y'', ''c@x.y'', ''d@x.y'']
   \<and> distinct (map ur_id (s_users s)) \<and> distinct (map (\<lambda>u. normalize_email (ur_email u)) (s_users s))"
  unfolding Let_def
proof
  show "map ur_email (s_users (run_ops demo_config demo_issuer
        [(demo_env 1 ''n'', Org ''acme'' (SetRole ''a'' ''member'')), (demo_env 2 ''m'', UpdateProfile ''b'' ''Bo'')] demo_state))
      = [''a@x.y'', ''b@x.y'', ''c@x.y'', ''d@x.y'']"
    by (simp add: demo_defs set_member_role_def allowed_roles_def member_role_def owner_role_def member_in_tenant_def
        get_user_def rec_get_def is_last_admin_def org_admins_def users_of_tenant_def save_user_def update_user_def
        update_profile_def Let_def normalize_email_def strip_def lstrip_def rstrip_def py_space_def space_codes_def
        lower_def lower_char_def)
qed (rule addresses_stay_unique [OF demo_users_ok])

lemma an_organisation_keeps_an_admin_witness:
  "let s = run_ops demo_config demo_issuer
        [(demo_env 1 ''n'', Org ''acme'' (SetRole ''a'' ''member'')), (demo_env 2 ''m'', Org ''acme'' (SetRole ''b'' ''member''))]
        demo_state in
   map ur_id (org_admins demo_config ''acme'' demo_state) = [''a'', ''b''] \<and> org_admins demo_config ''acme'' s \<noteq> []"
  unfolding Let_def
proof
  show a: "map ur_id (org_admins demo_config ''acme'' demo_state) = [''a'', ''b'']"
    by (simp add: org_admins_def users_of_tenant_def demo_defs)
  then have "org_admins demo_config ''acme'' demo_state \<noteq> []" by auto
  then show "org_admins demo_config ''acme'' (run_ops demo_config demo_issuer
      [(demo_env 1 ''n'', Org ''acme'' (SetRole ''a'' ''member'')), (demo_env 2 ''m'', Org ''acme'' (SetRole ''b'' ''member''))]
      demo_state) \<noteq> []"
    by (rule an_organisation_keeps_an_admin [OF demo_users_ok])
qed

lemma admins_act_on_their_own_organisation_witness:
  "users_of_tenant ''other''
     (s_users (run_op demo_config demo_issuer (demo_env 1 ''n'') (Org ''acme'' (SetStatus ''c'' Disabled)) demo_state))
   = [demo_user ''c'' ''other'' ''admin'' Active]"
proof -
  have "users_of_tenant ''other'' (s_users demo_state) = [demo_user ''c'' ''other'' ''admin'' Active]"
    by (simp add: users_of_tenant_def demo_defs)
  moreover have "''other'' \<noteq> ''acme''" by simp
  ultimately show ?thesis using admins_act_on_their_own_organisation [OF demo_users_ok] by metis
qed

end
