(* ===== verification/Sessions.thy ===== *)
theory Sessions
  imports Accounts
begin

text \<open>
  What the identity service guarantees of its credentials: a refresh token is exchanged once, a second presentation ends
  every token that descends from it, a change of the password or of the status ends the sessions, a reset link works
  once, a revoked key is refused, and a token that was issued authenticates as the account it was issued to.
\<close>

section \<open>What an operation does to the refresh tokens\<close>

inductive revoking :: "rat \<Rightarrow> refresh_token list \<Rightarrow> refresh_token list \<Rightarrow> bool" for now where
  marked: "rec_get rf_id k rs = Some r \<Longrightarrow> revoking now rs (put_refresh now (r\<lparr>rf_revoked := True\<rparr>) rs)"
| all_of_user: "revoking now rs (revoke_all_for_user now uid rs)"

text \<open>A token file changes by revocations only, by one new token, or by one rotation.\<close>

definition refresh_effect :: "id_config \<Rightarrow> supplied \<Rightarrow> refresh_token list \<Rightarrow> refresh_token list \<Rightarrow> bool" where
  "refresh_effect c ev rs rs' \<longleftrightarrow>
     (revoking (e_now ev))\<^sup>*\<^sup>* rs rs'
     \<or> (\<exists>uid. rs' = put_refresh (e_now ev) (new_refresh_record c ev uid) rs)
     \<or> (\<exists>h uid. rotate_store (e_now ev) h (new_refresh_record c ev uid) rs = (Rotated, rs'))"

lemma revoke_chain_revokes: "(revoking now)\<^sup>*\<^sup>* rs (revoke_chain now seen cur rs)"
proof (induction now seen cur rs rule: revoke_chain.induct)
  case (1 now seen cur rs)
  show ?case
  proof (cases "rf_rotated_to cur = [] \<or> List.member seen (rf_rotated_to cur) \<or> rec_get rf_id (rf_rotated_to cur) rs = None")
    case True
    then show ?thesis by (subst revoke_chain.simps) auto
  next
    case False
    then obtain nxt where nxt: "rec_get rf_id (rf_rotated_to cur) rs = Some nxt" by auto
    show ?thesis
    proof (cases "rf_revoked nxt")
      case True
      then show ?thesis using 1(1) False nxt by (subst revoke_chain.simps) simp
    next
      case live: False
      have "(revoking now)\<^sup>*\<^sup>* (put_refresh now (nxt\<lparr>rf_revoked := True\<rparr>) rs)
          (revoke_chain now (rf_rotated_to cur # seen) (nxt\<lparr>rf_revoked := True\<rparr>) (put_refresh now (nxt\<lparr>rf_revoked := True\<rparr>) rs))"
        using 1(2) False nxt live by simp
      then show ?thesis using False nxt live revoking.marked [OF nxt, of now]
        by (subst revoke_chain.simps) (simp add: converse_rtranclp_into_rtranclp)
    qed
  qed
qed

lemma effect_same [simp]: "refresh_effect c ev rs rs"
  by (simp add: refresh_effect_def)

lemma effect_all [simp]: "refresh_effect c ev rs (revoke_all_for_user (e_now ev) uid rs)"
  by (auto simp: refresh_effect_def intro: revoking.all_of_user)

lemma effect_marked [simp]:
  "rec_get rf_id k rs = Some r \<Longrightarrow> refresh_effect c ev rs (put_refresh (e_now ev) (r\<lparr>rf_revoked := True\<rparr>) rs)"
  by (auto simp: refresh_effect_def intro: revoking.marked)

lemma effect_chain [simp]: "refresh_effect c ev rs (chain_from (e_now ev) rec rs)"
  by (simp add: refresh_effect_def chain_from_def revoke_chain_revokes)

lemma effect_issued [simp]: "refresh_effect c ev rs (put_refresh (e_now ev) (new_refresh_record c ev uid) rs)"
  by (auto simp: refresh_effect_def)

lemma rotate_store_cases:
  "fst (rotate_store now h new_rec rs) \<noteq> Rotated \<Longrightarrow> snd (rotate_store now h new_rec rs) = rs"
  by (auto simp: rotate_store_def split: option.splits if_splits)

lemma rotate_swap_effect: "refresh_effect c ev (s_refresh s) (s_refresh (snd (rotate_swap c ev h rec u s)))"
proof -
  obtain o' rs where r: "rotate_store (e_now ev) h (new_refresh_record c ev (ur_id u)) (s_refresh s) = (o', rs)"
    by (cases "rotate_store (e_now ev) h (new_refresh_record c ev (ur_id u)) (s_refresh s)")
  show ?thesis
  proof (cases o')
    case Rotated
    then show ?thesis using r by (auto simp: rotate_swap_def refresh_effect_def)
  next
    case Reuse
    then have "rs = s_refresh s" using r rotate_store_cases [of "e_now ev" h "new_refresh_record c ev (ur_id u)" "s_refresh s"] by simp
    then show ?thesis using r Reuse by (simp add: rotate_swap_def)
  next
    case NoToken
    then have "rs = s_refresh s" using r rotate_store_cases [of "e_now ev" h "new_refresh_record c ev (ur_id u)" "s_refresh s"] by simp
    then show ?thesis using r NoToken by (simp add: rotate_swap_def)
  qed
qed

lemma rotate_effect: "refresh_effect c ev (s_refresh s) (s_refresh (snd (rotate_refresh_token c ev raw s)))"
  by (auto simp: rotate_refresh_token_def with_refresh_def Let_def rotate_swap_effect split: option.split)

lemma create_account_refresh [simp]:
  "s_refresh (snd (create_account c ev email password name org tenant roles status nt s)) = s_refresh s"
  by (auto simp: create_account_def Let_def split: option.split sum.split)

lemma supersede_refresh [simp]: "s_refresh (supersede_pending t email s) = s_refresh s"
  by (auto simp: supersede_pending_def split: option.split)

lemma save_user_refresh [simp]: "s_refresh (save_user u s) = s_refresh s"
  by (simp add: save_user_def)

lemma revoke_all_refresh_tokens [simp]:
  "s_refresh (revoke_all_refresh ev uid s) = revoke_all_for_user (e_now ev) uid (s_refresh s)"
  by (simp add: revoke_all_refresh_def with_refresh_def)

lemma refresh_outcome:
  "(\<And>x s. s_refresh (h x s) = s_refresh s) \<Longrightarrow>
   s_refresh (snd (case p of (Inl e, s') \<Rightarrow> (f e s', s') | (Inr x, s') \<Rightarrow> (g x s', h x s'))) = s_refresh (snd p)"
  by (auto split: prod.split sum.split)

lemma run_op_refresh: "refresh_effect c ev (s_refresh s) (s_refresh (run_op c j ev oper s))"
proof (cases oper)
  case (Org t o')
  then show ?thesis
    by (cases o') (auto simp: provision_member_def provision_def create_invite_def revoke_invite_def
        approve_access_request_def reject_access_request_def create_password_reset_def set_member_role_def
        set_member_status_def snd_outcome Let_def split: option.split)
next
  case (AcceptInvite token password name)
  have "s_refresh (snd (accept_invite c ev token password name s)) = s_refresh s"
    by (simp add: accept_invite_def provision_def Let_def refresh_outcome split: option.split)
  then show ?thesis using AcceptInvite by simp
qed (auto simp: register_def request_access_def bootstrap_admin_def provision_def snd_outcome rotate_effect
    complete_password_reset_def update_profile_def change_password_def change_email_def deactivate_account_def
    delete_account_def issue_refresh_token_def revoke_refresh_token_def with_refresh_def create_api_key_def
    revoke_api_key_def validate_pat_def record_audit_def Let_def split: option.split sum.split)

section \<open>A refresh token is exchanged once\<close>

definition spent :: "string \<Rightarrow> refresh_token list \<Rightarrow> bool" where
  "spent h rs \<longleftrightarrow> (case rec_get rf_id h rs of None \<Rightarrow> True | Some r \<Rightarrow> rf_revoked r)"

lemma spent_put:
  "rec_ok rf_id rs \<Longrightarrow> (h = rf_id r \<Longrightarrow> rf_revoked r) \<Longrightarrow> spent h rs \<or> h = rf_id r \<Longrightarrow> spent h (put_refresh now r rs)"
  by (auto simp: spent_def refresh.find_save split: option.splits)

lemma revoke_all_lookup:
  "rec_ok rf_id rs \<Longrightarrow> rec_get rf_id h (revoke_all_for_user now uid rs) = Some r \<Longrightarrow>
   \<exists>x. rec_get rf_id h rs = Some x \<and> (r = x \<and> (rf_user x = uid \<longrightarrow> rf_revoked x) \<or> rf_user x = uid \<and> r = x\<lparr>rf_revoked := True\<rparr>)"
  by (auto simp: revoke_all_for_user_def prune_refresh_def rec_simps rec_ok_map split: if_splits option.splits)
    (auto simp: list_ex_iff dest: rec_get_key)

lemma revoke_all_ok: "rec_ok rf_id rs \<Longrightarrow> rec_ok rf_id (revoke_all_for_user now uid rs)"
  by (auto simp: revoke_all_for_user_def prune_refresh_def intro!: rec_ok_filter rec_ok_map)

lemma revoking_keeps: "revoking now rs rs' \<Longrightarrow> rec_ok rf_id rs \<Longrightarrow> rec_ok rf_id rs' \<and> (spent h rs \<longrightarrow> spent h rs')"
proof (induction rule: revoking.induct)
  case (marked k rs r)
  then show ?case using refresh.ok_save spent_put [of rs h "r\<lparr>rf_revoked := True\<rparr>" now] rec_get_key [OF marked(1)] by auto
next
  case (all_of_user rs uid)
  then show ?case using revoke_all_ok revoke_all_lookup [of rs h now uid]
    by (auto simp: spent_def split: option.splits)
qed

lemma revokings_keep: "(revoking now)\<^sup>*\<^sup>* rs rs' \<Longrightarrow> rec_ok rf_id rs \<Longrightarrow> rec_ok rf_id rs' \<and> (spent h rs \<longrightarrow> spent h rs')"
  by (induction rule: rtranclp_induct) (use revoking_keeps in blast)+

lemma rotated_lookup:
  assumes "rotate_store now h n rs = (Rotated, rs')" "rec_ok rf_id rs"
  shows "\<exists>d. rec_get rf_id h rs = Some d \<and> \<not> rf_revoked d \<and> now < rf_expires d
    \<and> rs' = prune_refresh now (rec_put rf_id n (rec_put rf_id (d\<lparr>rf_revoked := True, rf_rotated_to := rf_id n\<rparr>) rs))
    \<and> rf_id d = h \<and> rec_ok rf_id rs'"
  using assms by (auto simp: rotate_store_def prune_refresh_def rec_ok_put rec_ok_filter dest: rec_get_key split: option.splits if_splits)

lemma effect_keeps:
  assumes "refresh_effect c ev rs rs'" "rec_ok rf_id rs" "g_sha256 c (e_secret ev) \<noteq> h"
  shows "rec_ok rf_id rs' \<and> (spent h rs \<longrightarrow> spent h rs')"
proof -
  consider "(revoking (e_now ev))\<^sup>*\<^sup>* rs rs'"
    | uid where "rs' = put_refresh (e_now ev) (new_refresh_record c ev uid) rs"
    | k uid where "rotate_store (e_now ev) k (new_refresh_record c ev uid) rs = (Rotated, rs')"
    using assms(1) by (auto simp: refresh_effect_def)
  then show ?thesis
  proof cases
    case 1
    then show ?thesis using revokings_keep assms(2) by blast
  next
    case 2
    then show ?thesis using refresh.ok_save assms(2,3) spent_put [OF assms(2), of h "new_refresh_record c ev uid" "e_now ev"]
      by (auto simp: new_refresh_record_def)
  next
    case 3
    from rotated_lookup [OF 3 assms(2)] obtain d where d: "rec_get rf_id k rs = Some d" "rf_id d = k" "rec_ok rf_id rs'"
      "rs' = prune_refresh (e_now ev) (rec_put rf_id (new_refresh_record c ev uid)
         (rec_put rf_id (d\<lparr>rf_revoked := True, rf_rotated_to := rf_id (new_refresh_record c ev uid)\<rparr>) rs))"
      by blast
    then show ?thesis using assms(2,3)
      by (auto simp: spent_def prune_refresh_def rec_simps rec_ok_put new_refresh_record_def split: option.splits)
  qed
qed

lemma run_ops_spent:
  "rec_ok rf_id (s_refresh s) \<Longrightarrow> spent h (s_refresh s) \<Longrightarrow> list_all (\<lambda>(ev, oper). g_sha256 c (e_secret ev) \<noteq> h) ops \<Longrightarrow>
   spent h (s_refresh (run_ops c j ops s))"
proof (induction c j ops s rule: run_ops.induct)
  case (2 c j ev oper rest s)
  then show ?case using effect_keeps [OF run_op_refresh 2(2), of c ev h j oper] by simp
qed simp

lemma spent_is_refused: "spent (g_sha256 c raw) (s_refresh s) \<Longrightarrow> fst (rotate_refresh_token c ev raw s) = Inl InvalidRefresh"
  by (auto simp: rotate_refresh_token_def spent_def Let_def split: option.splits)

lemma rotation_spends:
  assumes "fst (rotate_refresh_token c ev raw s) = Inr x" "rec_ok rf_id (s_refresh s)" "g_sha256 c (e_secret ev) \<noteq> g_sha256 c raw"
  shows "spent (g_sha256 c raw) (s_refresh (snd (rotate_refresh_token c ev raw s)))"
    "rec_ok rf_id (s_refresh (snd (rotate_refresh_token c ev raw s)))"
proof -
  obtain rec u where swap: "rotate_refresh_token c ev raw s = rotate_swap c ev (g_sha256 c raw) rec u s"
    using assms(1) by (auto simp: rotate_refresh_token_def Let_def split: option.splits if_splits)
  obtain rs where r: "rotate_store (e_now ev) (g_sha256 c raw) (new_refresh_record c ev (ur_id u)) (s_refresh s) = (Rotated, rs)"
    "s_refresh (snd (rotate_refresh_token c ev raw s)) = rs"
    using assms(1) unfolding swap by (auto simp: rotate_swap_def split: prod.splits rotation.splits)
  from rotated_lookup [OF r(1) assms(2)] show "spent (g_sha256 c raw) (s_refresh (snd (rotate_refresh_token c ev raw s)))"
    using assms(2,3) unfolding r(2) by (auto simp: spent_def prune_refresh_def rec_simps rec_ok_put new_refresh_record_def)
  from rotated_lookup [OF r(1) assms(2)] show "rec_ok rf_id (s_refresh (snd (rotate_refresh_token c ev raw s)))"
    unfolding r(2) by blast
qed

text \<open>C15: A refresh token is exchanged at most once: after a presentation that succeeded, whatever operations run
  between, every later presentation of the same token is refused. Secrets are assumed not to repeat: the hash of a new
  one is not the hash of this one.\<close>

lemma refresh_token_is_exchanged_once:
  assumes "fst (rotate_refresh_token c ev raw s) = Inr x" "rec_ok rf_id (s_refresh s)"
    and "list_all (\<lambda>(ev, oper). g_sha256 c (e_secret ev) \<noteq> g_sha256 c raw) ((ev, Rotate raw) # ops)"
  shows "fst (rotate_refresh_token c ev' raw (run_ops c j ((ev, Rotate raw) # ops) s)) = Inl InvalidRefresh"
proof (rule spent_is_refused)
  have "g_sha256 c (e_secret ev) \<noteq> g_sha256 c raw" using assms(3) by simp
  note first = rotation_spends [OF assms(1,2) this]
  show "spent (g_sha256 c raw) (s_refresh (run_ops c j ((ev, Rotate raw) # ops) s))"
    using run_ops_spent [OF first(2,1), of c ops j] assms(3) by simp
qed

section \<open>Ends of sessions\<close>

definition no_live_session :: "string \<Rightarrow> id_state \<Rightarrow> bool" where
  "no_live_session uid s \<longleftrightarrow> list_all (\<lambda>r. rf_user r \<noteq> uid \<or> rf_revoked r) (s_refresh s)"

lemma revoke_all_ends: "no_live_session uid (revoke_all_refresh ev uid s)"
  by (auto simp: no_live_session_def revoke_all_refresh_def with_refresh_def revoke_all_for_user_def prune_refresh_def
      list_all_iff list_ex_iff)

text \<open>The operations after which the sessions of an account are over, with the account.\<close>

fun ends_sessions :: "id_config \<Rightarrow> supplied \<Rightarrow> id_op \<Rightarrow> id_state \<Rightarrow> string option" where
  "ends_sessions c ev (ChangePassword uid current new) s =
     (case fst (change_password c ev uid current new s) of Inl _ \<Rightarrow> None | Inr _ \<Rightarrow> Some uid)"
| "ends_sessions c ev (CompleteReset raw password) s =
     (case fst (complete_password_reset c ev raw password s) of Inl _ \<Rightarrow> None | Inr i \<Rightarrow> Some (id_user i))"
| "ends_sessions c ev (Org t (SetStatus uid Disabled)) s =
     (case fst (set_member_status c ev t uid Disabled s) of Inl _ \<Rightarrow> None | Inr _ \<Rightarrow> Some uid)"
| "ends_sessions c ev (Deactivate uid password) s =
     (case fst (deactivate_account c ev uid password s) of Inl _ \<Rightarrow> None | Inr _ \<Rightarrow> Some uid)"
| "ends_sessions c ev (DeleteAccount uid password) s =
     (case fst (delete_account c ev uid password s) of Inl _ \<Rightarrow> None | Inr _ \<Rightarrow> Some uid)"
| "ends_sessions c ev oper s = None"

lemma no_live_users [simp]: "no_live_session uid (s\<lparr>s_users := us\<rparr>) = no_live_session uid s"
  by (simp add: no_live_session_def)

text \<open>A new password, a completed reset, a disabled, deactivated or deleted account: after each of them, when it
  succeeds, no refresh token of the account is live, so every session of it ends when its access token runs out.\<close>

lemma sessions_end:
  assumes "ends_sessions c ev oper s = Some uid"
  shows "no_live_session uid (run_op c j ev oper s)"
  using assms revoke_all_ends
  by (cases "(c, ev, oper, s)" rule: ends_sessions.cases)
    (auto simp: change_password_def complete_password_reset_def set_member_status_def deactivate_account_def
      delete_account_def identity_of_def Let_def split: option.splits sum.splits if_splits)

section \<open>A second presentation ends the descendants\<close>

definition link :: "refresh_token list \<Rightarrow> string \<Rightarrow> string \<Rightarrow> bool" where
  "link rs h h' \<longleftrightarrow> (case rec_get rf_id h rs of None \<Rightarrow> False | Some r \<Rightarrow> rf_rotated_to r = h' \<and> h' \<noteq> [])"

abbreviation links :: "refresh_token list \<Rightarrow> string \<Rightarrow> string \<Rightarrow> bool" where
  "links rs \<equiv> (link rs)\<^sup>*\<^sup>*"

definition unexpired_from :: "rat \<Rightarrow> string \<Rightarrow> refresh_token list \<Rightarrow> bool" where
  "unexpired_from now x rs \<longleftrightarrow> (\<forall>h r. links rs x h \<and> rec_get rf_id h rs = Some r \<longrightarrow> now < rf_expires r)"

lemma link_unique: "link rs h a \<Longrightarrow> rec_get rf_id h rs = Some r \<Longrightarrow> a = rf_rotated_to r \<and> a \<noteq> []"
  by (auto simp: link_def)

lemma links_next: "links rs x h \<Longrightarrow> h \<noteq> x \<Longrightarrow> rec_get rf_id x rs = Some r \<Longrightarrow> rf_rotated_to r \<noteq> [] \<and> links rs (rf_rotated_to r) h"
  by (erule converse_rtranclpE) (auto dest: link_unique)

lemma links_absent: "links rs x h \<Longrightarrow> rec_get rf_id x rs = None \<Longrightarrow> h = x"
  by (erule converse_rtranclpE) (auto simp: link_def)

text \<open>Marking a token keeps the links among the tokens that have not expired.\<close>

lemma marked_lookup:
  assumes "rec_ok rf_id rs" "rec_get rf_id x rs = Some n" "rec_get rf_id h (put_refresh now (n\<lparr>rf_revoked := True\<rparr>) rs) = Some r"
  shows "\<exists>r0. rec_get rf_id h rs = Some r0 \<and> rf_expires r = rf_expires r0 \<and> rf_rotated_to r = rf_rotated_to r0"
  using assms rec_get_key [OF assms(2)] by (auto simp: refresh.find_save split: if_splits option.splits)

lemma marked_link:
  assumes "rec_ok rf_id rs" "rec_get rf_id x rs = Some n"
  shows "link (put_refresh now (n\<lparr>rf_revoked := True\<rparr>) rs) h h' \<Longrightarrow> link rs h h'"
  using marked_lookup [OF assms] by (fastforce simp: link_def split: option.splits)

lemma marked_links:
  assumes "rec_ok rf_id rs" "rec_get rf_id x rs = Some n" "unexpired_from now a rs"
  shows "links rs a h \<Longrightarrow> links (put_refresh now (n\<lparr>rf_revoked := True\<rparr>) rs) a h"
proof (induction rule: rtranclp_induct)
  case (step h h')
  have x: "rf_id n = x" using rec_get_key [OF assms(2)] by simp
  obtain r where r: "rec_get rf_id h rs = Some r" "rf_rotated_to r = h'" "h' \<noteq> []"
    using step(2) by (auto simp: link_def split: option.splits)
  have "now < rf_expires r" using step(1) r(1) assms(3) unfolding unexpired_from_def by blast
  then have "link (put_refresh now (n\<lparr>rf_revoked := True\<rparr>) rs) h h'"
    using r assms(2) x by (cases "h = x") (simp_all add: link_def refresh.find_save [OF assms(1)])
  with step(3) show ?case by (rule rtranclp.rtrancl_into_rtrancl)
qed simp

lemma marked_unexpired:
  assumes "rec_ok rf_id rs" "rec_get rf_id x rs = Some n" "unexpired_from now a rs"
  shows "unexpired_from now a (put_refresh now (n\<lparr>rf_revoked := True\<rparr>) rs)"
proof -
  have "links (put_refresh now (n\<lparr>rf_revoked := True\<rparr>) rs) a h \<Longrightarrow> links rs a h" for h
    by (erule rtranclp_mono [THEN predicate2D, rotated]) (use marked_link [OF assms(1,2)] in blast)
  then show ?thesis using assms(3) marked_lookup [OF assms(1,2)] unfolding unexpired_from_def by metis
qed

lemma unexpired_next:
  "unexpired_from now x rs \<Longrightarrow> rec_get rf_id x rs = Some n \<Longrightarrow> rf_rotated_to n \<noteq> [] \<Longrightarrow> unexpired_from now (rf_rotated_to n) rs"
proof -
  assume u: "unexpired_from now x rs" and n: "rec_get rf_id x rs = Some n" "rf_rotated_to n \<noteq> []"
  then have "link rs x (rf_rotated_to n)" by (simp add: link_def)
  then show ?thesis using u unfolding unexpired_from_def by (meson converse_rtranclp_into_rtranclp)
qed

text \<open>The state of the walk: the tokens seen are revoked, and their successors are seen too, but for the current one.\<close>

definition walk_ok :: "string list \<Rightarrow> refresh_token \<Rightarrow> refresh_token list \<Rightarrow> bool" where
  "walk_ok seen cur rs \<longleftrightarrow> rec_ok rf_id rs
     \<and> (\<forall>h \<in> set seen. spent h rs)
     \<and> (\<forall>h \<in> set seen. \<forall>h'. link rs h h' \<longrightarrow> h' \<in> set seen \<or> h = rf_id cur \<and> h' = rf_rotated_to cur)"

lemma walk_next:
  assumes "walk_ok seen cur rs" "rec_get rf_id (rf_rotated_to cur) rs = Some n" "rf_revoked n"
  shows "walk_ok (rf_rotated_to cur # seen) n rs"
  using assms rec_get_key [OF assms(2)] by (auto simp: walk_ok_def spent_def dest: link_unique)

lemma walk_marked:
  assumes "walk_ok seen cur rs" "rec_get rf_id (rf_rotated_to cur) rs = Some n"
  shows "walk_ok seen cur (put_refresh now (n\<lparr>rf_revoked := True\<rparr>) rs)"
proof -
  have ok: "rec_ok rf_id rs" using assms(1) by (simp add: walk_ok_def)
  show ?thesis
    using assms(1) marked_link [OF ok assms(2)] revoking_keeps [OF revoking.marked [OF assms(2)] ok]
    unfolding walk_ok_def by metis
qed

lemma walk_revokes:
  assumes "walk_ok seen cur rs" "rf_rotated_to cur \<noteq> []" "unexpired_from now (rf_rotated_to cur) rs" "links rs (rf_rotated_to cur) h"
  shows "spent h (revoke_chain now seen cur rs)"
  using assms
proof (induction now seen cur rs rule: revoke_chain.induct)
  case (1 now seen cur rs)
  let ?x = "rf_rotated_to cur"
  have ok: "rec_ok rf_id rs" using 1(3) by (simp add: walk_ok_def)
  consider "List.member seen ?x" | "\<not> List.member seen ?x" "rec_get rf_id ?x rs = None"
    | n where "\<not> List.member seen ?x" "rec_get rf_id ?x rs = Some n" by fastforce
  then show ?case
  proof cases
    case 1
    have "h \<in> set seen" using \<open>links rs ?x h\<close>
    proof (induction rule: rtranclp_induct)
      case (step a b)
      then show ?case using 1 \<open>walk_ok seen cur rs\<close> unfolding walk_ok_def by auto
    qed (use 1 in simp)
    then show ?thesis using 1 \<open>walk_ok seen cur rs\<close> by (subst revoke_chain.simps) (simp add: walk_ok_def)
  next
    case 2
    then show ?thesis using links_absent [OF \<open>links rs ?x h\<close>] \<open>rf_rotated_to cur \<noteq> []\<close>
      by (subst revoke_chain.simps) (simp add: spent_def)
  next
    case (3 n)
    define n' where "n' = n\<lparr>rf_revoked := True\<rparr>"
    define rs' where "rs' = (if rf_revoked n then rs else put_refresh now n' rs)"
    have live: "now < rf_expires n" using 1(5) 3(2) unfolding unexpired_from_def by blast
    have idn: "rf_id n = ?x" using rec_get_key [OF 3(2)] by simp
    have eq: "revoke_chain now seen cur rs = revoke_chain now (?x # seen) (if rf_revoked n then n else n') rs'"
      using 3 1(4) by (subst revoke_chain.simps) (simp add: rs'_def n'_def)
    have get': "rec_get rf_id ?x rs' = Some (if rf_revoked n then n else n')"
      using 3(2) live idn ok by (simp add: rs'_def n'_def refresh.find_save)
    have walk': "walk_ok (?x # seen) (if rf_revoked n then n else n') rs'"
      using walk_next [OF 1(3) 3(2)] walk_next [OF walk_marked [OF 1(3) 3(2), of now]] get'
      by (auto simp: rs'_def n'_def)
    have un': "unexpired_from now ?x rs'"
      using 1(5) marked_unexpired [OF ok 3(2) 1(5)] by (simp add: rs'_def n'_def)
    have ln': "links rs' ?x h"
      using 1(6) marked_links [OF ok 3(2) 1(5) 1(6)] by (simp add: rs'_def n'_def)
    show ?thesis
    proof (cases "h = ?x")
      case True
      have "rec_ok rf_id rs'" using walk' by (simp add: walk_ok_def)
      moreover have "spent h rs'" using True get' by (auto simp: spent_def n'_def)
      ultimately show ?thesis unfolding eq using revokings_keep [OF revoke_chain_revokes] by blast
    next
      case False
      have tail: "rf_rotated_to n \<noteq> [] \<and> links rs' (rf_rotated_to n) h"
        using links_next [OF ln' False get'] by (simp add: n'_def split: if_splits)
      then have "unexpired_from now (rf_rotated_to n) rs'"
        using unexpired_next [OF un' get'] by (cases "rf_revoked n") (simp_all add: n'_def)
      then show ?thesis unfolding eq
        using 1(1,2) 3 1(4) walk' tail by (auto simp: rs'_def n'_def)
    qed
  qed
qed

text \<open>In a run whose clock does not go back and whose secrets are new, a successor lives at least as long.\<close>

definition tokens_ok :: "id_config \<Rightarrow> rat \<Rightarrow> refresh_token list \<Rightarrow> bool" where
  "tokens_ok c T rs \<longleftrightarrow> rec_ok rf_id rs
     \<and> (\<forall>h r. rec_get rf_id h rs = Some r \<longrightarrow> rf_expires r \<le> T + g_refresh_ttl c)
     \<and> (\<forall>h h' r r'. link rs h h' \<longrightarrow> rec_get rf_id h rs = Some r \<longrightarrow> rec_get rf_id h' rs = Some r' \<longrightarrow> rf_expires r \<le> rf_expires r')"

definition unlinked :: "string \<Rightarrow> refresh_token list \<Rightarrow> bool" where
  "unlinked h rs \<longleftrightarrow> list_all (\<lambda>r. rf_rotated_to r \<noteq> h) rs"

fun fresh_run :: "id_config \<Rightarrow> issuer \<Rightarrow> rat \<Rightarrow> (supplied \<times> id_op) list \<Rightarrow> id_state \<Rightarrow> bool" where
  "fresh_run c j T [] s = True"
| "fresh_run c j T ((ev, oper) # rest) s =
     (T \<le> e_now ev \<and> unlinked (g_sha256 c (e_secret ev)) (s_refresh s)
      \<and> fresh_run c j (e_now ev) rest (run_op c j ev oper s))"

fun last_time :: "rat \<Rightarrow> (supplied \<times> id_op) list \<Rightarrow> rat" where
  "last_time T [] = T"
| "last_time T ((ev, oper) # rest) = last_time (e_now ev) rest"

text \<open>A change that only revokes or removes tokens.\<close>

definition thins :: "refresh_token list \<Rightarrow> refresh_token list \<Rightarrow> bool" where
  "thins rs rs' \<longleftrightarrow> (\<forall>h r. rec_get rf_id h rs' = Some r \<longrightarrow>
     (\<exists>r0. rec_get rf_id h rs = Some r0 \<and> rf_expires r = rf_expires r0 \<and> rf_rotated_to r = rf_rotated_to r0))"

lemma revoking_thins: "revoking now rs rs' \<Longrightarrow> rec_ok rf_id rs \<Longrightarrow> thins rs rs'"
proof (induction rule: revoking.induct)
  case (marked k rs r)
  then show ?case using marked_lookup [of rs k r _ now] by (simp add: thins_def)
next
  case (all_of_user rs uid)
  then show ?case using revoke_all_lookup [of rs _ now uid] unfolding thins_def by fastforce
qed

lemma thins_ok: "thins rs rs' \<Longrightarrow> rec_ok rf_id rs' \<Longrightarrow> tokens_ok c T rs \<Longrightarrow> tokens_ok c T rs'"
proof -
  assume t: "thins rs rs'" "rec_ok rf_id rs'" "tokens_ok c T rs"
  have l: "link rs' h h' \<Longrightarrow> link rs h h'" for h h'
    using t(1) by (fastforce simp: thins_def link_def split: option.splits)
  show ?thesis unfolding tokens_ok_def
  proof (intro conjI allI impI)
    fix h r assume "rec_get rf_id h rs' = Some r"
    then show "rf_expires r \<le> T + g_refresh_ttl c" using t by (fastforce simp: thins_def tokens_ok_def)
  next
    fix h h' r r' assume "link rs' h h'" "rec_get rf_id h rs' = Some r" "rec_get rf_id h' rs' = Some r'"
    moreover from this obtain x x' where "rec_get rf_id h rs = Some x" "rf_expires r = rf_expires x"
      "rec_get rf_id h' rs = Some x'" "rf_expires r' = rf_expires x'"
      using t(1) unfolding thins_def by metis
    ultimately show "rf_expires r \<le> rf_expires r'" using t(3) l unfolding tokens_ok_def by metis
  qed (rule t(2))
qed

lemma tokens_ok_rec: "tokens_ok c T rs \<Longrightarrow> rec_ok rf_id rs"
  unfolding tokens_ok_def by (rule conjunct1)

lemma revokings_tokens: "(revoking now)\<^sup>*\<^sup>* rs rs' \<Longrightarrow> tokens_ok c T rs \<Longrightarrow> tokens_ok c T rs'"
proof (induction rule: rtranclp_induct)
  case (step a b)
  then have t: "tokens_ok c T a" by blast
  note ok = tokens_ok_rec [OF t]
  show ?case using revoking_keeps [OF step(2) ok] by (intro thins_ok [OF revoking_thins [OF step(2) ok] _ t]) blast
qed

lemma tokens_later: "tokens_ok c T rs \<Longrightarrow> T \<le> now \<Longrightarrow> tokens_ok c now rs"
  unfolding tokens_ok_def by (meson add_le_cancel_right order_trans)

lemma unlinkedD: "unlinked n rs \<Longrightarrow> rec_get rf_id h rs = Some r \<Longrightarrow> rf_rotated_to r \<noteq> n"
  using rec_get_key [of rf_id h rs r] by (auto simp: unlinked_def list_all_iff)

lemma issued_tokens:
  assumes "tokens_ok c now rs" "unlinked n rs" "rf_id x = n" "rf_rotated_to x = []" "rf_expires x = now + g_refresh_ttl c"
  shows "tokens_ok c now (put_refresh now x rs)"
proof -
  have ok: "rec_ok rf_id rs" by (rule tokens_ok_rec [OF assms(1)])
  note found = refresh.found_after_save [OF ok, of _ now x]
  show ?thesis unfolding tokens_ok_def
  proof (intro conjI allI impI)
    show "rec_ok rf_id (put_refresh now x rs)" by (rule refresh.ok_save [OF ok])
    fix h r assume "rec_get rf_id h (put_refresh now x rs) = Some r"
    from found [OF this] show "rf_expires r \<le> now + g_refresh_ttl c" using assms(1,5) by (auto simp: tokens_ok_def)
  next
    fix h h' r r'
    assume l: "link (put_refresh now x rs) h h'" and r: "rec_get rf_id h (put_refresh now x rs) = Some r"
      and r': "rec_get rf_id h' (put_refresh now x rs) = Some r'"
    have to: "rf_rotated_to r = h'" "h' \<noteq> []" using link_unique [OF l r] by auto
    have old: "rec_get rf_id h rs = Some r" using found [OF r] to assms(4) by auto
    have "h' \<noteq> n" using unlinkedD [OF assms(2) old] to by auto
    then have "rec_get rf_id h' rs = Some r'" using found [OF r'] assms(3) by auto
    moreover have "link rs h h'" using old to by (simp add: link_def)
    ultimately show "rf_expires r \<le> rf_expires r'" using assms(1) old unfolding tokens_ok_def by blast
  qed
qed

lemma effect_tokens:
  assumes "refresh_effect c ev rs rs'" "tokens_ok c T rs" "T \<le> e_now ev" "unlinked (g_sha256 c (e_secret ev)) rs"
  shows "tokens_ok c (e_now ev) rs'"
proof -
  let ?n = "g_sha256 c (e_secret ev)"
  have now: "tokens_ok c (e_now ev) rs" by (rule tokens_later [OF assms(2,3)])
  then have ok: "rec_ok rf_id rs" by (rule tokens_ok_rec)
  consider "(revoking (e_now ev))\<^sup>*\<^sup>* rs rs'"
    | uid where "rs' = put_refresh (e_now ev) (new_refresh_record c ev uid) rs"
    | k uid where "rotate_store (e_now ev) k (new_refresh_record c ev uid) rs = (Rotated, rs')"
    using assms(1) by (auto simp: refresh_effect_def)
  then show ?thesis
  proof cases
    case 1
    then show ?thesis by (rule revokings_tokens [OF _ now])
  next
    case 2
    then show ?thesis using issued_tokens [OF now assms(4), of "new_refresh_record c ev uid"]
      by (simp add: new_refresh_record_def)
  next
    case 3
    define x where "x = new_refresh_record c ev uid"
    have x: "rf_id x = ?n" "rf_rotated_to x = []" "rf_expires x = e_now ev + g_refresh_ttl c"
      by (simp_all add: x_def new_refresh_record_def)
    from rotated_lookup [OF 3 ok] obtain d where d: "rec_get rf_id k rs = Some d" "rf_id d = k" "rec_ok rf_id rs'"
      "rs' = prune_refresh (e_now ev) (rec_put rf_id x (rec_put rf_id (d\<lparr>rf_revoked := True, rf_rotated_to := ?n\<rparr>) rs))"
      unfolding x_def [symmetric] x(1) by blast
    have found: "rec_get rf_id h rs' = Some r \<Longrightarrow> r = x \<and> h = ?n
        \<or> h \<noteq> ?n \<and> h = k \<and> r = d\<lparr>rf_revoked := True, rf_rotated_to := ?n\<rparr> \<or> h \<noteq> ?n \<and> h \<noteq> k \<and> rec_get rf_id h rs = Some r" for h r
      unfolding d(4) prune_refresh_def using ok d(2) x(1)
      by (auto simp: rec_simps rec_ok_put split: if_splits option.splits)
    have bound: "rec_get rf_id h rs = Some r \<Longrightarrow> rf_expires r \<le> e_now ev + g_refresh_ttl c" for h r
      using now by (simp add: tokens_ok_def)
    show ?thesis unfolding tokens_ok_def
    proof (intro conjI allI impI)
      show "rec_ok rf_id rs'" by (rule d(3))
      fix h r assume "rec_get rf_id h rs' = Some r"
      from found [OF this] show "rf_expires r \<le> e_now ev + g_refresh_ttl c" using bound x(3) d(1) by auto
    next
      fix h h' r r'
      assume l: "link rs' h h'" and r: "rec_get rf_id h rs' = Some r" and r': "rec_get rf_id h' rs' = Some r'"
      have to: "rf_rotated_to r = h'" "h' \<noteq> []" using link_unique [OF l r] by auto
      show "rf_expires r \<le> rf_expires r'"
      proof (cases "h = k")
        case True
        then have "r = d\<lparr>rf_revoked := True, rf_rotated_to := ?n\<rparr>" using found [OF r] to x(2) by auto
        then show ?thesis using to found [OF r'] x(3) bound [OF d(1)] by auto
      next
        case False
        then have old: "rec_get rf_id h rs = Some r" using found [OF r] to x(2) by auto
        have "h' \<noteq> ?n" using unlinkedD [OF assms(4) old] to by auto
        then obtain r0 where "rec_get rf_id h' rs = Some r0" "rf_expires r' = rf_expires r0"
          using found [OF r'] d(1) by auto
        moreover have "link rs h h'" using old to by (simp add: link_def)
        ultimately show ?thesis using now old unfolding tokens_ok_def by metis
      qed
    qed
  qed
qed

lemma run_ops_tokens:
  "fresh_run c j T ops s \<Longrightarrow> tokens_ok c T (s_refresh s) \<Longrightarrow> tokens_ok c (last_time T ops) (s_refresh (run_ops c j ops s))"
proof (induction c j T ops s rule: fresh_run.induct)
  case (2 c j T ev oper rest s)
  have "tokens_ok c (e_now ev) (s_refresh (run_op c j ev oper s))"
    by (rule effect_tokens [OF run_op_refresh 2(3)]) (use 2(2) in auto)
  then show ?case using 2(1,2) by simp
qed simp

lemma tokens_unexpired:
  assumes "tokens_ok c T rs" "rec_get rf_id h rs = Some r" "link rs h x" "now < rf_expires r"
  shows "unexpired_from now x rs"
proof -
  have "\<forall>r'. rec_get rf_id y rs = Some r' \<longrightarrow> rf_expires r \<le> rf_expires r'" if "links rs x y" for y
    using that
  proof (induction rule: rtranclp_induct)
    case base
    then show ?case using assms unfolding tokens_ok_def by blast
  next
    case (step y z)
    from step(2) obtain ry where "rec_get rf_id y rs = Some ry" by (auto simp: link_def split: option.splits)
    then show ?case using step assms(1) unfolding tokens_ok_def by (meson order_trans)
  qed
  then show ?thesis using assms(4) unfolding unexpired_from_def by (meson less_le_trans)
qed

text \<open>C17: Reuse is answered by ending the family. In a run that starts without tokens, with a clock that does not go
  back and new secrets, presenting a token that was already exchanged and has not expired is refused, and afterwards no
  token that descends from it through rotations is live: neither the thief nor the owner can go on with theirs.\<close>

lemma reuse_ends_the_family:
  assumes "s_refresh s0 = []" "fresh_run c j T ops s0" "s = run_ops c j ops s0" "last_time T ops \<le> e_now ev"
    and "raw \<noteq> []" "rec_get rf_id (g_sha256 c raw) (s_refresh s) = Some rec" "rf_revoked rec" "e_now ev < rf_expires rec"
    and "link (s_refresh s) (g_sha256 c raw) h" "links (s_refresh s) h h'"
  shows "fst (rotate_refresh_token c ev raw s) = Inl InvalidRefresh
    \<and> spent h' (s_refresh (snd (rotate_refresh_token c ev raw s)))"
proof -
  have "tokens_ok c T (s_refresh s0)" using assms(1) by (simp add: tokens_ok_def rec_get_def)
  then have t: "tokens_ok c (last_time T ops) (s_refresh s)" unfolding assms(3) by (rule run_ops_tokens [OF assms(2)])
  then have ok: "rec_ok rf_id (s_refresh s)" by (rule tokens_ok_rec)
  have to: "rf_rotated_to rec = h" "h \<noteq> []" using link_unique [OF assms(9,6)] by auto
  have idr: "rf_id rec = g_sha256 c raw" using rec_get_key [OF assms(6)] by simp
  have "rotate_refresh_token c ev raw s
      = (Inl InvalidRefresh, s\<lparr>s_refresh := chain_from (e_now ev) rec (s_refresh s)\<rparr>)"
    using assms(5-8) to by (simp add: rotate_refresh_token_def with_refresh_def)
  moreover have "walk_ok [rf_id rec] rec (s_refresh s)"
    using assms(6,7) ok idr by (auto simp: walk_ok_def spent_def dest: link_unique)
  then have "spent h' (chain_from (e_now ev) rec (s_refresh s))"
    unfolding chain_from_def using to assms(10) tokens_unexpired [OF t assms(6,9,8)]
    by (intro walk_revokes) simp_all
  ultimately show ?thesis by simp
qed

text \<open>When the token is lost between its reading and its swap, the walk starts at the record as it was read, which has no
  successor: nothing is revoked.\<close>

lemma lost_race_revokes_nothing:
  "rf_rotated_to rec = [] \<Longrightarrow> snd (rotate_swap c ev h rec u s) = s \<or> (\<exists>x. fst (rotate_swap c ev h rec u s) = Inr x)"
  using rotate_store_cases [of "e_now ev" h "new_refresh_record c ev (ur_id u)" "s_refresh s"]
  by (auto simp: rotate_swap_def chain_from_def revoke_chain.simps split: prod.splits rotation.splits)

section \<open>Reset links and personal tokens\<close>

definition used_reset :: "string \<Rightarrow> reset_token list \<Rightarrow> bool" where
  "used_reset h rs \<longleftrightarrow> (case rec_get rs_id h rs of None \<Rightarrow> True | Some r \<Rightarrow> rs_used r)"

lemma used_reset_put:
  "rec_ok rs_id rs \<Longrightarrow> used_reset h rs \<or> h = rs_id r \<Longrightarrow> (h = rs_id r \<Longrightarrow> rs_used r) \<Longrightarrow> used_reset h (put_reset now r rs)"
  by (auto simp: used_reset_def resets.find_save split: option.splits)

definition reset_effect :: "id_config \<Rightarrow> supplied \<Rightarrow> reset_token list \<Rightarrow> reset_token list \<Rightarrow> bool" where
  "reset_effect c ev rs rs' \<longleftrightarrow> rs' = rs
     \<or> (\<exists>r. rs' = put_reset (e_now ev) r rs \<and> (rs_used r \<or> rs_id r = g_sha256 c (e_secret ev)))"

lemma create_account_resets [simp]:
  "s_resets (snd (create_account c ev email password name org tenant roles status nt s)) = s_resets s"
  "s_keys (snd (create_account c ev email password name org tenant roles status nt s)) = s_keys s"
  by (auto simp: create_account_def Let_def split: option.split sum.split)

lemma small_changes [simp]:
  "s_resets (supersede_pending t email s) = s_resets s" "s_keys (supersede_pending t email s) = s_keys s"
  "s_resets (save_user u s) = s_resets s" "s_keys (save_user u s) = s_keys s"
  "s_resets (revoke_all_refresh ev uid s) = s_resets s" "s_keys (revoke_all_refresh ev uid s) = s_keys s"
  "s_resets (snd (rotate_refresh_token c ev raw s)) = s_resets s" "s_keys (snd (rotate_refresh_token c ev raw s)) = s_keys s"
  by (auto simp: supersede_pending_def save_user_def revoke_all_refresh_def with_refresh_def rotate_refresh_token_def
      rotate_swap_def Let_def split: option.split prod.split rotation.split)

lemma other_outcome:
  "(\<And>x s. s_resets (h x s) = s_resets s) \<Longrightarrow>
   s_resets (snd (case p of (Inl e, s') \<Rightarrow> (f e s', s') | (Inr x, s') \<Rightarrow> (g x s', h x s'))) = s_resets (snd p)"
  "(\<And>x s. s_keys (h x s) = s_keys s) \<Longrightarrow>
   s_keys (snd (case p of (Inl e, s') \<Rightarrow> (f e s', s') | (Inr x, s') \<Rightarrow> (g x s', h x s'))) = s_keys (snd p)"
  by (auto split: prod.split sum.split)

lemma complete_reset_effect: "reset_effect c ev (s_resets s) (s_resets (snd (complete_password_reset c ev raw password s)))"
  by (auto simp: complete_password_reset_def reset_effect_def Let_def split: option.split)

lemma run_op_resets: "reset_effect c ev (s_resets s) (s_resets (run_op c j ev oper s))"
proof (cases oper)
  case (Org t o')
  show ?thesis
  proof (cases o')
    case (CreateReset actor uid)
    then show ?thesis using Org by (auto simp: create_password_reset_def reset_effect_def split: option.split)
  qed (use Org in \<open>auto simp: reset_effect_def provision_member_def provision_def create_invite_def revoke_invite_def
        approve_access_request_def reject_access_request_def set_member_role_def
        set_member_status_def snd_outcome Let_def split: option.split\<close>)
next
  case (AcceptInvite token password name)
  have "s_resets (snd (accept_invite c ev token password name s)) = s_resets s"
    by (simp add: accept_invite_def provision_def Let_def other_outcome split: option.split)
  then show ?thesis using AcceptInvite by (simp add: reset_effect_def)
next
  case (CompleteReset raw password)
  then show ?thesis by (simp add: complete_reset_effect)
qed (auto simp: reset_effect_def register_def request_access_def bootstrap_admin_def provision_def snd_outcome
    update_profile_def change_password_def change_email_def deactivate_account_def
    delete_account_def issue_refresh_token_def revoke_refresh_token_def with_refresh_def create_api_key_def
    revoke_api_key_def validate_pat_def record_audit_def Let_def split: option.split sum.split)

lemma run_ops_resets:
  "rec_ok rs_id (s_resets s) \<Longrightarrow> used_reset h (s_resets s) \<Longrightarrow> list_all (\<lambda>(ev, oper). g_sha256 c (e_secret ev) \<noteq> h) ops \<Longrightarrow>
   used_reset h (s_resets (run_ops c j ops s))"
proof (induction c j ops s rule: run_ops.induct)
  case (2 c j ev oper rest s)
  let ?s = "run_op c j ev oper s"
  have fresh: "g_sha256 c (e_secret ev) \<noteq> h" using 2(4) by simp
  have "reset_effect c ev (s_resets s) (s_resets ?s)" by (rule run_op_resets)
  then consider "s_resets ?s = s_resets s"
    | r where "s_resets ?s = put_reset (e_now ev) r (s_resets s)" "rs_used r \<or> rs_id r \<noteq> h"
    using fresh by (auto simp: reset_effect_def)
  then have "rec_ok rs_id (s_resets ?s) \<and> used_reset h (s_resets ?s)"
  proof cases
    case (2 r)
    then show ?thesis using resets.ok_save used_reset_put \<open>rec_ok rs_id (s_resets s)\<close> \<open>used_reset h (s_resets s)\<close> by metis
  qed (use 2(2,3) in simp)
  then show ?case using 2(1,4) by simp
qed simp

lemma used_reset_refused: "used_reset (g_sha256 c raw) (s_resets s) \<Longrightarrow> usable_reset c now raw s = None"
  by (auto simp: usable_reset_def used_reset_def split: option.splits)

text \<open>A reset link works once: after it set a password, whatever operations run between, it sets none again and shows
  no account. Secrets are assumed not to repeat.\<close>

lemma reset_link_works_once:
  assumes "fst (complete_password_reset c ev raw password s) = Inr x" "rec_ok rs_id (s_resets s)"
    and "list_all (\<lambda>(ev, oper). g_sha256 c (e_secret ev) \<noteq> g_sha256 c raw) ops"
  shows "fst (complete_password_reset c ev' raw password' (run_ops c j ((ev, CompleteReset raw password) # ops) s)) = Inl InvalidReset
    \<and> reset_public c now raw (run_ops c j ((ev, CompleteReset raw password) # ops) s) = None"
proof -
  obtain rec u where u: "usable_reset c (e_now ev) raw s = Some (rec, u)"
    using assms(1) by (auto simp: complete_password_reset_def split: option.splits)
  have idr: "rs_id rec = g_sha256 c raw"
    using u by (auto simp: usable_reset_def dest: rec_get_key split: option.splits if_splits)
  have "s_resets (snd (complete_password_reset c ev raw password s)) = put_reset (e_now ev) (rec\<lparr>rs_used := True\<rparr>) (s_resets s)"
    using assms(1) u by (auto simp: complete_password_reset_def Let_def split: option.splits if_splits)
  then have "rec_ok rs_id (s_resets (snd (complete_password_reset c ev raw password s)))
      \<and> used_reset (g_sha256 c raw) (s_resets (snd (complete_password_reset c ev raw password s)))"
    using resets.ok_save [OF assms(2)] used_reset_put [OF assms(2), of "g_sha256 c raw" "rec\<lparr>rs_used := True\<rparr>" "e_now ev"] idr
    by simp
  then have "used_reset (g_sha256 c raw) (s_resets (run_ops c j ((ev, CompleteReset raw password) # ops) s))"
    using run_ops_resets [OF _ _ assms(3)] by simp
  from used_reset_refused [OF this] show ?thesis by (simp add: complete_password_reset_def reset_public_def)
qed

text \<open>A reset link is given only for an active member of the caller's organisation of strictly lower rank than the
  caller (owner above administrator above member), and an operation that is refused stores no token.\<close>

lemma reset_links_go_down_the_ranks:
  "case create_password_reset c ev t actor uid s of
     (Inl _, s') \<Rightarrow> s' = s
   | (Inr raw, s') \<Rightarrow>
       (case (get_user actor (s_users s), get_user uid (s_users s)) of
          (Some a, Some u) \<Rightarrow> rank c (ur_roles u) < rank c (ur_roles a) \<and> ur_tenant u = t \<and> ur_status u = Active
            \<and> rank c (ur_roles u) < 3
        | _ \<Rightarrow> False)"
proof -
  have "rank c roles \<le> 3" for roles by (simp add: rank_def)
  then show ?thesis
    by (auto simp: create_password_reset_def member_in_tenant_def not_le split: option.splits intro: less_le_trans)
qed

definition dead_key :: "string \<Rightarrow> api_key list \<Rightarrow> bool" where
  "dead_key k ks \<longleftrightarrow> (case rec_get ak_id k ks of None \<Rightarrow> True | Some r \<Rightarrow> ak_revoked r)"

inductive key_step :: "string \<Rightarrow> api_key list \<Rightarrow> api_key list \<Rightarrow> bool" for fresh where
  "ak_id r = fresh \<Longrightarrow> key_step fresh ks (put_api_key now r ks)"
| "ak_revoked r \<Longrightarrow> key_step fresh ks (put_api_key now r ks)"
| "rec_get ak_id k ks = Some r \<Longrightarrow> \<not> ak_revoked r \<Longrightarrow> ak_id r' = k \<Longrightarrow> key_step fresh ks (put_api_key now r' ks)"

lemma key_step_dead: "key_step fresh ks ks' \<Longrightarrow> dead_key k ks \<Longrightarrow> k \<noteq> fresh \<Longrightarrow> dead_key k ks'"
  by (induction rule: key_step.induct) (auto simp: dead_key_def put_api_key_def rec_simps split: if_splits option.splits)

lemma key_steps_dead: "(key_step fresh)\<^sup>*\<^sup>* ks ks' \<Longrightarrow> dead_key k ks \<Longrightarrow> k \<noteq> fresh \<Longrightarrow> dead_key k ks'"
  by (induction rule: rtranclp_induct) (auto dest: key_step_dead)

lemma fold_revoke_steps: "(key_step fresh)\<^sup>*\<^sup>* ks (fold (\<lambda>k. put_api_key now (k\<lparr>ak_revoked := True\<rparr>)) xs ks)"
proof (induction xs arbitrary: ks)
  case (Cons x xs)
  have "key_step fresh ks (put_api_key now (x\<lparr>ak_revoked := True\<rparr>) ks)" by (rule key_step.intros(2)) simp
  then show ?case using Cons by (simp add: converse_rtranclp_into_rtranclp)
qed simp

lemma run_op_keys: "(key_step (e_secret ev))\<^sup>*\<^sup>* (s_keys s) (s_keys (run_op c j ev oper s))"
proof (cases oper)
  case (Org t o')
  then show ?thesis
    by (cases o') (auto simp: provision_member_def provision_def create_invite_def revoke_invite_def
        approve_access_request_def reject_access_request_def create_password_reset_def set_member_role_def
        set_member_status_def snd_outcome Let_def split: option.split)
next
  case (AcceptInvite token password name)
  have "s_keys (snd (accept_invite c ev token password name s)) = s_keys s"
    by (simp add: accept_invite_def provision_def Let_def other_outcome split: option.split)
  then show ?thesis using AcceptInvite by simp
next
  case (UseToken cl)
  have "key_step (e_secret ev) (s_keys s) (put_api_key (e_now ev) (k\<lparr>ak_last_used := e_stamp ev\<rparr>) (s_keys s))"
    if "rec_get ak_id jti (s_keys s) = Some k" "\<not> ak_revoked k" for jti k
    using that rec_get_key [OF that(1)] by (auto intro: key_step.intros(3))
  then show ?thesis using UseToken by (auto simp: validate_pat_def split: option.split)
next
  case (DeleteAccount uid password)
  then show ?thesis
    by (auto simp: delete_account_def revoke_keys_of_def fold_revoke_steps Let_def split: option.split sum.split)
qed (auto simp: register_def request_access_def bootstrap_admin_def provision_def snd_outcome
    complete_password_reset_def update_profile_def change_password_def change_email_def deactivate_account_def
    issue_refresh_token_def revoke_refresh_token_def with_refresh_def create_api_key_def
    revoke_api_key_def validate_pat_def record_audit_def Let_def
    intro!: r_into_rtranclp intro: key_step.intros dest: rec_get_key split: option.split sum.split)

lemma run_ops_keys:
  "dead_key k (s_keys s) \<Longrightarrow> list_all (\<lambda>(ev, oper). e_secret ev \<noteq> k) ops \<Longrightarrow> dead_key k (s_keys (run_ops c j ops s))"
proof (induction c j ops s rule: run_ops.induct)
  case (2 c j ev oper rest s)
  then show ?case using key_steps_dead [OF run_op_keys, of k s ev c j oper] by auto
qed simp

text \<open>A revoked personal token stays revoked: after its owner revoked it, whatever operations run between, a request
  that carries it is not authenticated. Identifiers of new tokens are assumed not to repeat.\<close>

lemma revoked_key_stays_refused:
  assumes "fst (revoke_api_key ev uid k s) = Inr ()" "list_all (\<lambda>(ev, oper). e_secret ev \<noteq> k) ops"
    and "cl_pat cl" "cl_jti cl = Some k"
  shows "\<exists>e. fst (authenticate in_time j' ev' cl (run_ops c j ((ev, RevokeKey uid k) # ops) s)) = Inl e"
proof -
  have "dead_key k (s_keys (snd (revoke_api_key ev uid k s)))"
    using assms(1) by (auto simp: revoke_api_key_def dead_key_def put_api_key_def rec_simps dest: rec_get_key split: option.splits if_splits)
  then have "dead_key k (s_keys (run_ops c j ((ev, RevokeKey uid k) # ops) s))"
    using run_ops_keys assms(2) by simp
  then have "fst (validate_pat ev' cl (run_ops c j ((ev, RevokeKey uid k) # ops) s)) = False"
    using assms(3,4) by (auto simp: validate_pat_def dead_key_def given_def split: option.splits)
  then show ?thesis by (auto simp: authenticate_def split: prod.split bool.split)
qed

text \<open>A token authenticates as the account it was issued to: the claims issued for an identity pass the validation of
  the same issuer while they are in time, and give back the user, the organisation and the roles, with no scope.\<close>

lemma issued_token_authenticates:
  assumes "in_time (e_now ev) (token_for j now ident)" "id_user ident \<noteq> []" "id_tenant ident \<noteq> []"
  shows "authenticate in_time j ev (token_for j now ident) s
    = (Inr \<lparr>au_user = id_user ident, au_tenant = id_tenant ident, au_roles = id_roles ident, au_scopes = []\<rparr>, s)"
  using assms by (auto simp: authenticate_def token_for_def issue_def validate_pat_def scope_words_def given_def split: option.split)

section \<open>Concrete inputs\<close>

lemmas token_evals = issue_refresh_token_def new_refresh_record_def put_refresh_def prune_refresh_def Let_def
  rotate_refresh_token_def rotate_swap_def rotate_store_def get_user_def rec_get_def demo_defs

definition demo_session :: id_state where
  "demo_session = snd (issue_refresh_token demo_config (demo_env 1 ''r'') ''a'' demo_state)"

lemma refresh_token_is_exchanged_once_witness:
  "(\<exists>x. fst (rotate_refresh_token demo_config (demo_env 2 ''p'') ''r'' demo_session) = Inr x)
   \<and> fst (rotate_refresh_token demo_config (demo_env 4 ''q'') ''r''
        (run_ops demo_config demo_issuer [(demo_env 2 ''p'', Rotate ''r''), (demo_env 3 ''o'', Rotate ''p'')] demo_session))
     = Inl InvalidRefresh"
proof -
  have "\<exists>x. fst (rotate_refresh_token demo_config (demo_env 2 ''p'') ''r'' demo_session) = Inr x"
    by (simp add: demo_session_def token_evals)
  then obtain x where x: "fst (rotate_refresh_token demo_config (demo_env 2 ''p'') ''r'' demo_session) = Inr x" ..
  have ok: "rec_ok rf_id (s_refresh demo_session)" by (simp add: demo_session_def token_evals)
  have "list_all (\<lambda>(ev, oper). g_sha256 demo_config (e_secret ev) \<noteq> g_sha256 demo_config ''r'')
      ((demo_env 2 ''p'', Rotate ''r'') # [(demo_env 3 ''o'', Rotate ''p'')])"
    by (simp add: demo_defs)
  from refresh_token_is_exchanged_once [OF x ok this, of "demo_env 4 ''q''" demo_issuer] x show ?thesis by blast
qed

lemma reuse_ends_the_family_witness:
  "let s = run_ops demo_config demo_issuer [(demo_env 1 ''r'', IssueRefresh ''a''), (demo_env 2 ''p'', Rotate ''r'')] demo_state in
   map rf_revoked (s_refresh s) = [True, False]
   \<and> fst (rotate_refresh_token demo_config (demo_env 3 ''q'') ''r'' s) = Inl InvalidRefresh
   \<and> spent ''p'' (s_refresh (snd (rotate_refresh_token demo_config (demo_env 3 ''q'') ''r'' s)))"
proof -
  let ?ops = "[(demo_env 1 ''r'', IssueRefresh ''a''), (demo_env 2 ''p'', Rotate ''r'')]"
  define s where "s = run_ops demo_config demo_issuer ?ops demo_state"
  have tokens: "s_refresh s =
      [\<lparr>rf_id = ''r'', rf_user = ''a'', rf_expires = 101, rf_revoked = True, rf_rotated_to = ''p'', rf_created = ''t''\<rparr>,
       \<lparr>rf_id = ''p'', rf_user = ''a'', rf_expires = 102, rf_revoked = False, rf_rotated_to = [], rf_created = ''t''\<rparr>]"
    by (simp add: s_def token_evals)
  have fresh: "fresh_run demo_config demo_issuer 0 ?ops demo_state"
    by (simp add: token_evals unlinked_def)
  have none: "s_refresh demo_state = []" and time: "last_time 0 ?ops \<le> e_now (demo_env 3 ''q'')" and raw: "''r'' \<noteq> []"
    by (simp_all add: demo_defs)
  have rec: "rec_get rf_id (g_sha256 demo_config ''r'') (s_refresh s) = Some
      \<lparr>rf_id = ''r'', rf_user = ''a'', rf_expires = 101, rf_revoked = True, rf_rotated_to = ''p'', rf_created = ''t''\<rparr>"
    by (simp add: tokens rec_get_def demo_config_def)
  have child: "link (s_refresh s) (g_sha256 demo_config ''r'') ''p''" by (simp add: link_def rec)
  have "fst (rotate_refresh_token demo_config (demo_env 3 ''q'') ''r'' s) = Inl InvalidRefresh
      \<and> spent ''p'' (s_refresh (snd (rotate_refresh_token demo_config (demo_env 3 ''q'') ''r'' s)))"
    by (rule reuse_ends_the_family [OF none fresh s_def time raw rec _ _ child rtranclp.rtrancl_refl])
      (simp_all add: demo_env_def)
  moreover have "map rf_revoked (s_refresh s) = [True, False]" by (simp add: tokens)
  ultimately show ?thesis by (simp only: s_def [symmetric] Let_def)
qed

lemma sessions_end_witness:
  "ends_sessions demo_config (demo_env 2 ''n'') (Org ''acme'' (SetStatus ''a'' Disabled)) demo_session = Some ''a''
   \<and> no_live_session ''a'' (run_op demo_config demo_issuer (demo_env 2 ''n'') (Org ''acme'' (SetStatus ''a'' Disabled)) demo_session)"
proof -
  have e: "ends_sessions demo_config (demo_env 2 ''n'') (Org ''acme'' (SetStatus ''a'' Disabled)) demo_session = Some ''a''"
    by (simp add: demo_session_def token_evals set_member_status_def member_in_tenant_def owner_role_def is_last_admin_def
        org_admins_def users_of_tenant_def Let_def)
  from sessions_end [OF e] e show ?thesis by blast
qed

definition demo_reset :: id_state where
  "demo_reset = demo_state\<lparr>s_resets := [\<lparr>rs_id = ''x'', rs_user = ''b'', rs_expires = 9, rs_used = False, rs_created = []\<rparr>]\<rparr>"

lemma reset_link_works_once_witness:
  "(\<exists>x. fst (complete_password_reset demo_config (demo_env 2 ''n'') ''x'' ''new-secret'' demo_reset) = Inr x)
   \<and> fst (complete_password_reset demo_config (demo_env 4 ''q'') ''x'' ''other-secret''
        (run_ops demo_config demo_issuer [(demo_env 2 ''n'', CompleteReset ''x'' ''new-secret'')] demo_reset)) = Inl InvalidReset"
proof -
  have u: "usable_reset demo_config 2 ''x'' demo_reset = Some
      (\<lparr>rs_id = ''x'', rs_user = ''b'', rs_expires = 9, rs_used = False, rs_created = []\<rparr>, demo_user ''b'' ''acme'' ''admin'' Active)"
    by (simp add: usable_reset_def demo_reset_def get_user_def rec_get_def demo_defs)
  have h: "\<exists>h. hash_password toy_kdf [1] 16384 8 1 ''new-secret'' = Some h"
    by (simp add: hash_password_def toy_kdf_def utf8_def utf8_char_def del: join.simps)
  have "\<exists>x. fst (complete_password_reset demo_config (demo_env 2 ''n'') ''x'' ''new-secret'' demo_reset) = Inr x"
    using h u by (auto simp: complete_password_reset_def demo_env_def demo_config_def min_password_def Let_def)
  then obtain x where x: "fst (complete_password_reset demo_config (demo_env 2 ''n'') ''x'' ''new-secret'' demo_reset) = Inr x" ..
  have ok: "rec_ok rs_id (s_resets demo_reset)" by (simp add: demo_reset_def)
  have fresh: "list_all (\<lambda>(ev, oper). g_sha256 demo_config (e_secret ev) \<noteq> g_sha256 demo_config ''x'') []" by simp
  from reset_link_works_once [OF x ok fresh] x show ?thesis by blast
qed

definition demo_key :: id_state where
  "demo_key = demo_state\<lparr>s_keys := [\<lparr>ak_id = ''k'', ak_user = ''b'', ak_name = ''ci'', ak_created = [], ak_last_used = [], ak_revoked = False\<rparr>]\<rparr>"

definition demo_claims :: claims where
  "demo_claims = issue demo_issuer 1 (identity_of (demo_user ''b'' ''acme'' ''admin'' Active)) None (Some ''k'') True"

lemma revoked_key_stays_refused_witness:
  "fst (authenticate (\<lambda>_ _. True) demo_issuer (demo_env 1 ''n'') demo_claims demo_key)
     = Inr \<lparr>au_user = ''b'', au_tenant = ''acme'', au_roles = [''admin''], au_scopes = []\<rparr>
   \<and> (\<exists>e. fst (authenticate (\<lambda>_ _. True) demo_issuer (demo_env 3 ''n'') demo_claims
        (run_ops demo_config demo_issuer [(demo_env 2 ''n'', RevokeKey ''b'' ''k'')] demo_key)) = Inl e)"
proof
  show "fst (authenticate (\<lambda>_ _. True) demo_issuer (demo_env 1 ''n'') demo_claims demo_key)
     = Inr \<lparr>au_user = ''b'', au_tenant = ''acme'', au_roles = [''admin''], au_scopes = []\<rparr>"
    by (simp add: authenticate_def demo_claims_def issue_def identity_of_def validate_pat_def demo_key_def rec_get_def
        given_def scope_words_def demo_defs)
  have "fst (revoke_api_key (demo_env 2 ''n'') ''b'' ''k'' demo_key) = Inr ()"
    by (simp add: revoke_api_key_def demo_key_def rec_get_def)
  moreover have "list_all (\<lambda>(ev, oper). e_secret ev \<noteq> ''k'') []" by simp
  moreover have "cl_pat demo_claims" "cl_jti demo_claims = Some ''k''" by (simp_all add: demo_claims_def issue_def given_def)
  ultimately show "\<exists>e. fst (authenticate (\<lambda>_ _. True) demo_issuer (demo_env 3 ''n'') demo_claims
        (run_ops demo_config demo_issuer [(demo_env 2 ''n'', RevokeKey ''b'' ''k'')] demo_key)) = Inl e"
    by (rule revoked_key_stays_refused)
qed

lemma issued_token_authenticates_witness:
  "let ident = identity_of (demo_user ''b'' ''acme'' ''admin'' Active); in_time = (\<lambda>now cl. of_int (cl_nbf cl) \<le> now \<and> now \<le> of_int (cl_exp cl))
   in in_time 1 (token_for demo_issuer 1 ident)
      \<and> authenticate in_time demo_issuer (demo_env 1 ''n'') (token_for demo_issuer 1 ident) demo_state
        = (Inr \<lparr>au_user = ''b'', au_tenant = ''acme'', au_roles = [''admin''], au_scopes = []\<rparr>, demo_state)"
proof -
  let ?ident = "identity_of (demo_user ''b'' ''acme'' ''admin'' Active)"
  let ?in_time = "\<lambda>now cl. of_int (cl_nbf cl) \<le> now \<and> now \<le> of_int (cl_exp cl)"
  have t: "?in_time (e_now (demo_env 1 ''n'')) (token_for demo_issuer 1 ?ident)"
    by (simp add: token_for_def issue_def demo_env_def demo_issuer_def)
  have i: "id_user ?ident = ''b''" "id_tenant ?ident = ''acme''" "id_roles ?ident = [''admin'']"
    by (simp_all add: identity_of_def demo_user_def)
  show ?thesis
    using t issued_token_authenticates [of ?in_time "demo_env 1 ''n''" demo_issuer 1 ?ident demo_state] i
    by (simp add: demo_env_def)
qed

section \<open>What the code also does\<close>

text \<open>A personal token of a disabled member still authenticates: disabling ends the refresh tokens only.\<close>

lemma disabled_member_keeps_the_key:
  "fst (authenticate (\<lambda>_ _. True) demo_issuer (demo_env 3 ''n'') demo_claims
     (run_op demo_config demo_issuer (demo_env 2 ''n'') (Org ''acme'' (SetStatus ''b'' Disabled)) demo_key))
   = Inr \<lparr>au_user = ''b'', au_tenant = ''acme'', au_roles = [''admin''], au_scopes = []\<rparr>"
  by (simp add: authenticate_def demo_claims_def issue_def identity_of_def validate_pat_def demo_key_def rec_get_def
      given_def scope_words_def set_member_status_def member_in_tenant_def get_user_def owner_role_def is_last_admin_def
      org_admins_def users_of_tenant_def save_user_def revoke_all_refresh_def with_refresh_def revoke_all_for_user_def
      Let_def demo_defs)

text \<open>A direct add that fails on the length of the password has already deleted the pending request of the address.\<close>

lemma failed_add_drops_the_request:
  "fst (provision_member demo_config (demo_env 2 ''n'') ''acme'' ''d@x.y'' ''short'' [] ''member'' demo_state) = Inl ShortPassword
   \<and> map ur_id (s_users (snd (provision_member demo_config (demo_env 2 ''n'') ''acme'' ''d@x.y'' ''short'' [] ''member'' demo_state)))
     = [''a'', ''b'', ''c'']"
  by (simp add: provision_member_def provision_def create_account_def supersede_pending_def role_or_member_def
      allowed_roles_def member_role_def user_by_email_def delete_user_def rec_del_def normalize_email_def strip_def
      lstrip_def rstrip_def py_space_def space_codes_def lower_def lower_char_def is_email_def min_password_def
      Let_def demo_defs)

end
