(* ===== verification/PlanMode.thy ===== *)
theory PlanMode
  imports PermissionPlugin Identity
begin

text \<open>
  Plan mode: the tools \<open>enter_plan_mode\<close>, \<open>exit_plan_mode\<close>, \<open>write_plan\<close> and \<open>read_current_plan\<close>
  (\<open>tools/\<close>), the approval they share (\<open>permissions/plan_approval.py\<close>), the two-call confirmation of
  every tool (\<open>tools/base.py\<close>: \<open>AdkCcTool.run_async\<close>), the filter of the tools the model sees
  (\<open>plugins/plan_mode.py\<close>), and the session they make together with the permission plugin.

  The session is the record \<open>plan_session\<close>: the permission layer's state, the state keys of the plan
  tools and the files the sandbox backend reads and writes, as the local backend does it (the guard
  first, \<open>os.path.abspath\<close> taken as a parameter of the host). Times are arguments; the wording of
  prompts and messages, logging, audit events and the schema check of the arguments are left out.
\<close>

record plan_entry =
  pe_path :: string
  pe_title :: string
  pe_slug :: string
  pe_written :: string

record plan_session =
  q_perm :: session_state
  q_marker :: "string option"
  q_path :: "string option"
  q_title :: "string option"
  q_history :: "plan_entry list"
  q_files :: "string \<Rightarrow> string option"
  q_skip :: bool

text \<open>What one call brings: the permission layer's context with the answer of the user, the comment
  of that answer when it is a text, and the two clock readings of \<open>write_plan\<close>.\<close>

record plan_call =
  k_ctx :: call_ctx
  k_comment :: "string option"
  k_stamp :: string
  k_iso :: string

datatype exit_status = NotPlanning string | Left string string

datatype plan_result =
    Awaiting
  | CannotAsk
  | DeclinedPlan "string option"
  | RevisionRequested string "string option"
  | AlreadyPlanning
  | Entered string string
  | ExitNoop string
  | Approved string string string "string option"
  | OutsideSandbox string
  | Written plan_entry nat "exit_status option"
  | NoPlan "plan_entry list"
  | PlanGone string "plan_entry list"
  | CurrentPlan string "string option" string "plan_entry list"
  | OtherResult

section \<open>The confirmation of a tool call\<close>

text \<open>\<open>_extract_user_comment\<close>.\<close>

definition user_comment :: "plan_call \<Rightarrow> string option" where
  "user_comment ev =
     (case c_confirmation (k_ctx ev) of None \<Rightarrow> None | Some f \<Rightarrow> given (map_option strip (k_comment ev)))"

text \<open>\<open>chose_id\<close>: the option the user picked, empty without a confirmation.\<close>

definition chose_id :: "plan_call \<Rightarrow> string" where
  "chose_id ev =
     (case c_confirmation (k_ctx ev) of
        None \<Rightarrow> []
      | Some f \<Rightarrow> (case f_chose f of None \<Rightarrow> [] | Some i \<Rightarrow> i))"

definition revise :: string where "revise = ''revise''"

text \<open>\<open>AdkCcTool.run_async\<close> once the arguments are valid: a call that needs approval asks first, and runs its
  body when it comes back with a confirmation.\<close>

definition run_async ::
  "bool \<Rightarrow> bool \<Rightarrow> (plan_session \<Rightarrow> plan_result \<times> plan_session) \<Rightarrow> plan_call \<Rightarrow> plan_session \<Rightarrow> plan_result \<times> plan_session" where
  "run_async needs_approval long_running body ev q =
     (let execute = (case body q of (r, q') \<Rightarrow> (r, if long_running then q'\<lparr>q_skip := True\<rparr> else q'))
      in if needs_approval then
           (case c_confirmation (k_ctx ev) of
              None \<Rightarrow>
                if c_call_id (k_ctx ev) then (Awaiting, q\<lparr>q_skip := True\<rparr>) else (CannotAsk, q)
            | Some f \<Rightarrow> if f_confirmed f then execute else (DeclinedPlan (user_comment ev), q))
         else execute)"

section \<open>Entering and leaving\<close>

abbreviation q_mode :: "plan_session \<Rightarrow> string option" where
  "q_mode q \<equiv> st_mode (q_perm q)"

definition set_mode :: "string \<Rightarrow> plan_session \<Rightarrow> plan_session" where
  "set_mode m q = q\<lparr>q_perm := (q_perm q)\<lparr>st_mode := Some m\<rparr>\<rparr>"

definition canonical_default :: "string \<Rightarrow> string" where
  "canonical_default dflt = (if dflt = [] then ''default'' else dflt)"

definition mode_or :: "string \<Rightarrow> string option \<Rightarrow> string" where
  "mode_or fallback stored = (case given stored of None \<Rightarrow> fallback | Some m \<Rightarrow> m)"

abbreviation current_mode :: "string \<Rightarrow> plan_session \<Rightarrow> string" where
  "current_mode fallback q \<equiv> mode_or fallback (q_mode q)"

definition enter_plan_mode :: "string \<Rightarrow> string \<Rightarrow> plan_session \<Rightarrow> plan_result \<times> plan_session" where
  "enter_plan_mode dflt why q =
     (let previous = current_mode (canonical_default dflt) q
      in if previous = ''plan'' then (AlreadyPlanning, q)
         else (Entered previous why, (set_mode ''plan'' q)\<lparr>q_marker := Some previous\<rparr>))"

definition exit_plan_mode :: "string \<Rightarrow> plan_call \<Rightarrow> string \<Rightarrow> plan_session \<Rightarrow> plan_result \<times> plan_session" where
  "exit_plan_mode dflt ev summary q =
     (if chose_id ev = revise then (RevisionRequested summary (user_comment ev), q)
      else (let canonical = canonical_default dflt; previous = current_mode (lower canonical) q
            in if previous \<noteq> ''plan'' then (ExitNoop previous, q)
               else (let restored = (case given (q_marker q) of
                           Some m \<Rightarrow> if m = ''plan'' then (if lower canonical \<noteq> ''plan'' then canonical else ''default'') else m
                         | None \<Rightarrow> if lower canonical \<noteq> ''plan'' then canonical else ''default'')
                     in (Approved previous restored summary (user_comment ev), (set_mode restored q)\<lparr>q_marker := None\<rparr>))))"

text \<open>\<open>exit_plan_mode_state\<close>, the exit taken from an approved \<open>write_plan\<close>; its argument is the default that
  \<open>WritePlanTool\<close> keeps in lower case.\<close>

definition exit_plan_mode_state :: "string \<Rightarrow> plan_session \<Rightarrow> exit_status \<times> plan_session" where
  "exit_plan_mode_state dflt q =
     (let previous = current_mode (lower (canonical_default dflt)) q
      in if previous \<noteq> ''plan'' then (NotPlanning previous, q)
         else (let restored = (case given (q_marker q) of
                     Some m \<Rightarrow> if m = ''plan'' then ''default'' else m
                   | None \<Rightarrow> ''default'')
               in (Left previous restored, (set_mode restored q)\<lparr>q_marker := None\<rparr>)))"

section \<open>Writing and reading a plan\<close>

text \<open>\<open>str.splitlines\<close> on Latin-1 text.\<close>

definition line_break :: "char \<Rightarrow> bool" where
  "line_break c \<longleftrightarrow> List.member [10, 11, 12, 13, 28, 29, 30, 133] (of_char c :: nat)"

definition after_break :: "char \<Rightarrow> string \<Rightarrow> string" where
  "after_break c s = (if c = CHR 0x0D \<and> take 1 s = [CHR 0x0A] then drop 1 s else s)"

lemma after_break_shorter [termination_simp]: "length (after_break c s) \<le> length s"
  by (simp add: after_break_def)

fun splitlines :: "string \<Rightarrow> string \<Rightarrow> string list" where
  "splitlines line [] = (if line = [] then [] else [line])"
| "splitlines line (c # s) =
     (if line_break c then line # splitlines [] (after_break c s) else splitlines (line @ [c]) s)"

fun heading :: "string list \<Rightarrow> string" where
  "heading [] = ''Untitled plan''"
| "heading (l # ls) =
     (if startswith (strip l) ''# '' then strip (drop 2 (strip l)) else heading ls)"

definition extract_title :: "string \<Rightarrow> string" where
  "extract_title content = heading (splitlines [] content)"

definition trim_dashes :: "string \<Rightarrow> string" where
  "trim_dashes s = rev (dropWhile (\<lambda>c. c = CHR ''-'') (rev (dropWhile (\<lambda>c. c = CHR ''-'') s)))"

definition slugify :: "string \<Rightarrow> string" where
  "slugify t =
     (let s = take 40 (trim_dashes (dash_runs False (lower t)));
          s = trim_dashes (if s = [] then ''plan'' else s)
      in if s = [] then ''plan'' else s)"

definition plans_dir :: "workspace \<Rightarrow> string" where
  "plans_dir ws = path_div (ws_path ws) ''.adk-cc/plans''"

definition plan_workspace :: "host \<Rightarrow> plan_call \<Rightarrow> plan_session \<Rightarrow> workspace" where
  "plan_workspace h ev q = get_workspace h (c_seeded (k_ctx ev)) (q_perm q)"

definition plan_entry_of :: "host \<Rightarrow> plan_call \<Rightarrow> string \<Rightarrow> string option \<Rightarrow> plan_session \<Rightarrow> plan_entry" where
  "plan_entry_of h ev content wanted q =
     (let title = extract_title content;
          s = slugify (case given wanted of None \<Rightarrow> title | Some w \<Rightarrow> w)
      in \<lparr>pe_path = path_div (plans_dir (plan_workspace h ev q)) (k_stamp ev @ ''-'' @ s @ ''.md''),
          pe_title = title, pe_slug = s, pe_written = k_iso ev\<rparr>)"

text \<open>\<open>NoopBackend.write_text\<close> and \<open>read_text\<close>: the guard, then the file.\<close>

definition write_text :: "host \<Rightarrow> workspace \<Rightarrow> string \<Rightarrow> string \<Rightarrow> (string \<Rightarrow> string option) \<Rightarrow> (string \<Rightarrow> string option) option" where
  "write_text h ws path content files =
     (let p = os_abspath h path
      in if fs_allows (allow_paths h ws) p then Some (files(p \<mapsto> content)) else None)"

definition read_text :: "host \<Rightarrow> workspace \<Rightarrow> string \<Rightarrow> (string \<Rightarrow> string option) \<Rightarrow> string option option" where
  "read_text h ws path files =
     (let p = os_abspath h path in if fs_allows (allow_paths h ws) p then Some (files p) else None)"

definition write_plan ::
  "host \<Rightarrow> string \<Rightarrow> plan_call \<Rightarrow> string \<Rightarrow> string option \<Rightarrow> bool \<Rightarrow> plan_session \<Rightarrow> plan_result \<times> plan_session" where
  "write_plan h dflt ev content wanted request_approval q =
     (if request_approval \<and> chose_id ev = revise then (RevisionRequested content (user_comment ev), q)
      else (let entry = plan_entry_of h ev content wanted q
            in case write_text h (plan_workspace h ev q) (pe_path entry) content (q_files q) of
                 None \<Rightarrow> (OutsideSandbox (pe_path entry), q)
               | Some files \<Rightarrow>
                   (let q = q\<lparr>q_files := files, q_path := Some (pe_path entry), q_title := Some (pe_title entry),
                              q_history := q_history q @ [entry]\<rparr>;
                        bytes = length (utf8 content)
                    in if request_approval then
                         (case exit_plan_mode_state (lower (canonical_default dflt)) q of
                            (exited, q') \<Rightarrow> (Written entry bytes (Some exited), q'))
                       else (Written entry bytes None, q))))"

text \<open>The \<open>status\<close> of the reply: \<open>out |= exited\<close> puts the exit's status in, and only an approval is looked at
  after that.\<close>

fun plan_status :: "plan_result \<Rightarrow> string option" where
  "plan_status (Written e b None) = Some ''ok''"
| "plan_status (Written e b (Some (Left p r))) = Some ''approved''"
| "plan_status (Written e b (Some (NotPlanning m))) = Some ''noop''"
| "plan_status _ = None"

definition read_current_plan :: "host \<Rightarrow> plan_call \<Rightarrow> plan_session \<Rightarrow> plan_result" where
  "read_current_plan h ev q =
     (case given (q_path q) of
        None \<Rightarrow> NoPlan (q_history q)
      | Some path \<Rightarrow>
          (case read_text h (plan_workspace h ev q) path (q_files q) of
             None \<Rightarrow> OutsideSandbox path
           | Some None \<Rightarrow> PlanGone path (q_history q)
           | Some (Some content) \<Rightarrow> CurrentPlan path (q_title q) content (q_history q)))"

section \<open>The tools the model sees\<close>

definition specialist_agents :: "string list" where
  "specialist_agents = [''Explore'', ''verification'']"

definition plan_mode_hidden :: "string list" where
  "plan_mode_hidden = [''write_file'', ''edit_file'', ''task_create'', ''task_update'', ''enter_plan_mode'']"

definition normal_mode_hidden :: "string list" where
  "normal_mode_hidden = [''exit_plan_mode'']"

text \<open>A tool of the request carries its declarations, or none of them.\<close>

datatype instruction = NoInstruction | InstrText string | InstrParts "string list"

record llm_request =
  l_tools :: "string list"
  l_config_tools :: "string option list option list"
  l_instruction :: instruction

definition visible_mode :: "string \<Rightarrow> string option \<Rightarrow> string option \<Rightarrow> string" where
  "visible_mode dflt current snapshot =
     (case given current of
        Some m \<Rightarrow> m
      | None \<Rightarrow> (case given snapshot of Some m \<Rightarrow> m | None \<Rightarrow> lower (canonical_default dflt)))"

fun add_reminder :: "string \<Rightarrow> instruction \<Rightarrow> instruction" where
  "add_reminder r NoInstruction = InstrText r"
| "add_reminder r (InstrText t) = InstrText (t @ [CHR 0x0A, CHR 0x0A] @ r)"
| "add_reminder r (InstrParts ps) = InstrParts (ps @ [r])"

definition before_model ::
  "string \<Rightarrow> string \<Rightarrow> string option \<Rightarrow> string option \<Rightarrow> string \<Rightarrow> llm_request \<Rightarrow> llm_request" where
  "before_model reminder dflt current snapshot agent req =
     (let mode = visible_mode dflt current snapshot
      in if List.member specialist_agents agent then req
         else (let hidden = (if mode = ''plan'' then plan_mode_hidden else normal_mode_hidden);
                   req = req\<lparr>l_tools := filter (\<lambda>n. \<not> List.member hidden n) (l_tools req),
                     l_config_tools := map (map_option (filter (\<lambda>n. case n of None \<Rightarrow> True | Some n \<Rightarrow> \<not> List.member hidden n)))
                       (l_config_tools req)\<rparr>
               in if mode \<noteq> ''plan'' then req else req\<lparr>l_instruction := add_reminder reminder (l_instruction req)\<rparr>))"

section \<open>A session of calls\<close>

text \<open>\<open>PermissionMode\<close>'s values; \<open>agent.py\<close> builds the plugin and the tools from the same mode.\<close>

fun mode_value :: "permission_mode \<Rightarrow> string" where
  "mode_value Default = ''default''"
| "mode_value Plan = ''plan''"
| "mode_value AcceptEdits = ''acceptEdits''"
| "mode_value BypassPermissions = ''bypassPermissions''"
| "mode_value DontAsk = ''dontAsk''"

datatype plan_op =
    EnterPlan string
  | ExitPlan string
  | WritePlan string "string option" bool
  | ReadPlan
  | UseTool tool_meta tool_args "(string \<Rightarrow> string option) \<Rightarrow> string \<Rightarrow> string option"

fun op_meta :: "plan_op \<Rightarrow> tool_meta" where
  "op_meta (EnterPlan why) = \<lparr>t_name = ''enter_plan_mode'', t_read_only = True, t_destructive = False\<rparr>"
| "op_meta (ExitPlan summary) = \<lparr>t_name = ''exit_plan_mode'', t_read_only = True, t_destructive = False\<rparr>"
| "op_meta (WritePlan content wanted req) = \<lparr>t_name = ''write_plan'', t_read_only = True, t_destructive = False\<rparr>"
| "op_meta ReadPlan = \<lparr>t_name = ''read_current_plan'', t_read_only = True, t_destructive = False\<rparr>"
| "op_meta (UseTool t as eff) = t"

fun op_args :: "plan_op \<Rightarrow> tool_args" where
  "op_args (EnterPlan why) = [''reason'' \<mapsto> why]"
| "op_args (ExitPlan summary) = [''plan_summary'' \<mapsto> summary]"
| "op_args (WritePlan content wanted req) = [''content'' \<mapsto> content]"
| "op_args ReadPlan = Map.empty"
| "op_args (UseTool t as eff) = as"

text \<open>The body of each tool under \<open>run_async\<close>; another tool only changes files here, by a function the call
  brings.\<close>

fun perform :: "host \<Rightarrow> string \<Rightarrow> plan_call \<Rightarrow> plan_op \<Rightarrow> plan_session \<Rightarrow> plan_result \<times> plan_session" where
  "perform h dflt ev (EnterPlan why) q = run_async False False (enter_plan_mode dflt why) ev q"
| "perform h dflt ev (ExitPlan summary) q = run_async True False (exit_plan_mode dflt ev summary) ev q"
| "perform h dflt ev (WritePlan content wanted req) q = run_async req False (write_plan h dflt ev content wanted req) ev q"
| "perform h dflt ev ReadPlan q = run_async False False (\<lambda>q. (read_current_plan h ev q, q)) ev q"
| "perform h dflt ev (UseTool t as eff) q = (OtherResult, q\<lparr>q_files := eff (q_files q)\<rparr>)"

text \<open>A tool call as the framework makes it: the permission plugin before, the tool if it may run, the plugin after.\<close>

definition tool_call :: "host \<Rightarrow> plugin \<Rightarrow> plan_call \<Rightarrow> plan_op \<Rightarrow> plan_session \<Rightarrow> plan_result option \<times> plan_session" where
  "tool_call h plug ev oper q =
     (case before_tool_callback h plug (k_ctx ev) (AdkTool (op_meta oper)) (op_args oper) (q_perm q) of
        (gate, st) \<Rightarrow>
          if gate = Run then
            (case perform h (mode_value (p_default_mode plug)) ev oper (q\<lparr>q_perm := st, q_skip := False\<rparr>) of
               (r, q') \<Rightarrow> (Some r, q'\<lparr>q_perm := after_tool_callback h (k_ctx ev) (AdkTool (op_meta oper)) (op_args oper) (q_perm q')\<rparr>))
          else (None, q\<lparr>q_perm := st, q_skip := False\<rparr>))"

fun session :: "host \<Rightarrow> plugin \<Rightarrow> (plan_call \<times> plan_op) list \<Rightarrow> plan_session \<Rightarrow> plan_session" where
  "session h plug [] q = q"
| "session h plug ((ev, oper) # ops) q = session h plug ops (snd (tool_call h plug ev oper q))"

section \<open>What the permission plugin leaves alone\<close>

lemma put_roots_mode [simp]: "st_mode (put_roots k rs st) = st_mode st"
  by (cases k; simp add: put_roots.simps)

lemma folder_grant_mode [simp]: "st_mode (apply_folder_grant h ctx n as persist st) = st_mode st"
  by (simp add: apply_folder_grant_def add_granted_root_def Let_def split: option.split)

lemma add_session_allow_mode [simp]: "st_mode (add_session_allow h n as persist r st) = st_mode st"
  by (simp add: add_session_allow_def)

lemma gate_skill_mode: "st_mode (snd (gate_skill_script h plug ctx as st)) = st_mode st"
  by (auto simp: gate_skill_script_def split: option.split)

lemma answer_ask_mode: "st_mode (snd (answer_ask h ctx t as d st)) = st_mode st"
  by (auto simp: answer_ask_def split: option.split)

lemma scope_gate_mode: "scope_gate h plug ctx t as mode r st = Some res \<Longrightarrow> st_mode (snd res) = st_mode st"
  by (auto simp: scope_gate_def grant_once_def Let_def split: if_splits option.splits)

lemma decide_and_answer_mode: "st_mode (snd (decide_and_answer h plug ctx t as st)) = st_mode st"
  using scope_gate_mode answer_ask_mode
  by (auto simp: decide_and_answer_def Let_def split: option.split behavior.split)

lemma before_mode: "st_mode (snd (before_tool_callback h plug ctx tool as st)) = st_mode st"
  using gate_skill_mode [of h plug ctx _ st] decide_and_answer_mode [of h plug ctx]
  by (auto simp: before_tool_callback_def split: option.split prod.split any_tool.split callback.split)
    (metis snd_conv)+

lemma after_mode: "st_mode (after_tool_callback h ctx tool as st) = st_mode st"
  by (auto simp: after_tool_callback_def discard_grant_once_def Let_def split: any_tool.split option.split)

section \<open>Leaving takes an approval\<close>

definition approves :: "plan_call \<Rightarrow> plan_op \<Rightarrow> bool" where
  "approves ev oper \<longleftrightarrow>
     (case c_confirmation (k_ctx ev) of None \<Rightarrow> False | Some f \<Rightarrow> f_confirmed f) \<and> chose_id ev \<noteq> revise
     \<and> (case oper of ExitPlan summary \<Rightarrow> True | WritePlan content wanted req \<Rightarrow> req | _ \<Rightarrow> False)"

definition planning :: "plugin \<Rightarrow> plan_session \<Rightarrow> bool" where
  "planning plug q \<longleftrightarrow> current_mode (mode_value (p_default_mode plug)) q = ''plan''"

text \<open>What a tool may do to the mode and the marker.\<close>

definition restores :: "string \<Rightarrow> string option \<Rightarrow> string \<Rightarrow> bool" where
  "restores dflt marker m \<longleftrightarrow>
     m \<noteq> ''plan''
     \<and> (case given marker of
          None \<Rightarrow> m = ''default'' \<or> m = dflt
        | Some n \<Rightarrow> if n = ''plan'' then m = ''default'' \<or> m = dflt else m = n)"

type_synonym posture = "string option \<times> string option"

definition posture_of :: "plan_session \<Rightarrow> posture" where
  "posture_of q = (q_mode q, q_marker q)"

inductive mode_step :: "string \<Rightarrow> bool \<Rightarrow> posture \<Rightarrow> posture \<Rightarrow> bool" for dflt where
  stay [intro!]: "mode_step dflt approved p p"
| entering [intro]: "mode_or dflt mo \<noteq> ''plan'' \<Longrightarrow> x = mode_or dflt mo \<Longrightarrow> mode_step dflt approved (mo, ma) (Some ''plan'', Some x)"
| leaving [intro]: "mode_or dflt mo = ''plan'' \<Longrightarrow> restores dflt ma m \<Longrightarrow> mode_step dflt True (mo, ma) (Some m, None)"

inductive_cases mode_stepE: "mode_step dflt approved p p'"

lemma posture_simps [simp]:
  "posture_of (q\<lparr>q_skip := b\<rparr>) = posture_of q" "posture_of (q\<lparr>q_files := fs\<rparr>) = posture_of q"
  "posture_of (q\<lparr>q_perm := st\<rparr>) = (st_mode st, q_marker q)"
  "posture_of (q\<lparr>q_marker := mk\<rparr>) = (q_mode q, mk)"
  "posture_of (q\<lparr>q_path := pa\<rparr>) = posture_of q" "posture_of (q\<lparr>q_title := ti\<rparr>) = posture_of q"
  "posture_of (q\<lparr>q_history := hi\<rparr>) = posture_of q"
  by (simp_all add: posture_of_def)

lemma set_mode_simps [simp]:
  "q_mode (set_mode m q) = Some m" "q_marker (set_mode m q) = q_marker q" "q_files (set_mode m q) = q_files q"
  by (simp_all add: set_mode_def)

lemma mode_value_facts [simp]:
  "mode_value m \<noteq> []" "canonical_default (mode_value m) = mode_value m" "mode_of_value (mode_value m) = Some m"
  "mode_value m = ''plan'' \<longleftrightarrow> m = Plan"
  by (cases m; simp add: canonical_default_def mode_of_value_def)+

lemma lower_mode_value [simp]: "lower (mode_value m) = ''plan'' \<longleftrightarrow> m = Plan"
  by (cases m; simp add: lower_def lower_char_def Let_def)

lemma current_lowered [simp]: "mode_or (lower (mode_value m)) x = ''plan'' \<longleftrightarrow> mode_or (mode_value m) x = ''plan''"
  by (simp add: mode_or_def split: option.split)

lemma enter_step: "mode_step (mode_value m) ok (posture_of q) (posture_of (snd (enter_plan_mode (mode_value m) why q)))"
  by (auto simp: enter_plan_mode_def posture_of_def Let_def)

lemma exit_state_step:
  "mode_step (mode_value m) True (posture_of q) (posture_of (snd (exit_plan_mode_state (mode_value m) q)))"
  by (auto simp: exit_plan_mode_state_def posture_of_def restores_def Let_def split: option.split)

lemma exit_step:
  "mode_step (mode_value m) (chose_id ev \<noteq> revise) (posture_of q)
     (posture_of (snd (exit_plan_mode (mode_value m) ev summary q)))"
  by (auto simp: exit_plan_mode_def posture_of_def restores_def Let_def split: option.split)

lemma exit_state_lower [simp]: "exit_plan_mode_state (lower (mode_value m)) = exit_plan_mode_state (mode_value m)"
  by (rule ext) (cases m; simp add: exit_plan_mode_state_def canonical_default_def lower_def lower_char_def Let_def)

lemma write_step:
  "mode_step (mode_value m) (req \<and> chose_id ev \<noteq> revise) (posture_of q)
     (posture_of (snd (write_plan h (mode_value m) ev content wanted req q)))"
proof (cases "write_text h (plan_workspace h ev q) (pe_path (plan_entry_of h ev content wanted q)) content (q_files q)")
  case None
  then show ?thesis by (auto simp: write_plan_def Let_def)
next
  case (Some files)
  let ?e = "plan_entry_of h ev content wanted q"
  have "mode_step (mode_value m) True (posture_of q) (posture_of (snd (exit_plan_mode_state (mode_value m)
      (q\<lparr>q_files := files, q_path := Some (pe_path ?e), q_title := Some (pe_title ?e), q_history := q_history q @ [?e]\<rparr>))))"
    using exit_state_step [of m "q\<lparr>q_files := files, q_path := Some (pe_path ?e), q_title := Some (pe_title ?e),
      q_history := q_history q @ [?e]\<rparr>"] by simp
  then show ?thesis using Some by (auto simp: write_plan_def Let_def split: prod.split)
qed

lemma mode_step_weaken: "mode_step dflt ok p p' \<Longrightarrow> (ok \<Longrightarrow> ok') \<Longrightarrow> mode_step dflt ok' p p'"
  by (cases ok; cases ok'; auto elim!: mode_stepE)

lemma run_async_posture:
  "posture_of (snd (run_async needs long_running body ev q)) = posture_of q
   \<or> (needs \<longrightarrow> (\<exists>f. c_confirmation (k_ctx ev) = Some f \<and> f_confirmed f))
     \<and> posture_of (snd (run_async needs long_running body ev q)) = posture_of (snd (body q))"
  by (auto simp: run_async_def Let_def split: option.split prod.split)

lemma run_async_step:
  assumes "mode_step dflt ok (posture_of q) (posture_of (snd (body q)))"
    and "ok \<Longrightarrow> needs \<longrightarrow> (\<exists>f. c_confirmation (k_ctx ev) = Some f \<and> f_confirmed f) \<Longrightarrow> ok'"
  shows "mode_step dflt ok' (posture_of q) (posture_of (snd (run_async needs long_running body ev q)))"
proof (cases "posture_of (snd (run_async needs long_running body ev q)) = posture_of q")
  case True
  then show ?thesis by (simp add: mode_step.stay)
next
  case False
  with run_async_posture [of needs long_running body ev q]
  have n: "needs \<longrightarrow> (\<exists>f. c_confirmation (k_ctx ev) = Some f \<and> f_confirmed f)"
    and p: "posture_of (snd (run_async needs long_running body ev q)) = posture_of (snd (body q))" by blast+
  show ?thesis unfolding p by (rule mode_step_weaken [OF assms(1)]) (rule assms(2) [OF _ n])
qed

lemma perform_step:
  "mode_step (mode_value m) (approves ev oper) (posture_of q) (posture_of (snd (perform h (mode_value m) ev oper q)))"
proof (cases oper)
  case (EnterPlan why)
  then show ?thesis
    by (auto intro!: run_async_step [where needs = False and ok = False] enter_step simp: approves_def split: option.split)
next
  case (ExitPlan summary)
  show ?thesis unfolding ExitPlan perform.simps
    by (rule run_async_step [OF exit_step]) (auto simp: approves_def)
next
  case (WritePlan content wanted req)
  show ?thesis unfolding WritePlan perform.simps
    by (rule run_async_step [OF write_step]) (auto simp: approves_def)
next
  case ReadPlan
  show ?thesis unfolding ReadPlan perform.simps
    by (rule run_async_step [where ok = False]) auto
qed auto

lemma tool_call_posture:
  "posture_of (snd (tool_call h plug ev oper q)) = posture_of q
   \<or> (\<exists>st. st_mode st = q_mode q
        \<and> fst (tool_call h plug ev oper q) = Some (fst (perform h (mode_value (p_default_mode plug)) ev oper (q\<lparr>q_perm := st, q_skip := False\<rparr>)))
        \<and> posture_of (snd (tool_call h plug ev oper q))
          = posture_of (snd (perform h (mode_value (p_default_mode plug)) ev oper (q\<lparr>q_perm := st, q_skip := False\<rparr>))))"
  using before_mode [of h plug "k_ctx ev" "AdkTool (op_meta oper)" "op_args oper" "q_perm q"]
  by (auto simp: tool_call_def after_mode posture_of_def split: prod.split)

lemma call_step:
  "mode_step (mode_value (p_default_mode plug)) (approves ev oper) (posture_of q) (posture_of (snd (tool_call h plug ev oper q)))"
  using tool_call_posture [of h plug ev oper q]
proof
  assume "\<exists>st. st_mode st = q_mode q
        \<and> fst (tool_call h plug ev oper q) = Some (fst (perform h (mode_value (p_default_mode plug)) ev oper (q\<lparr>q_perm := st, q_skip := False\<rparr>)))
        \<and> posture_of (snd (tool_call h plug ev oper q))
          = posture_of (snd (perform h (mode_value (p_default_mode plug)) ev oper (q\<lparr>q_perm := st, q_skip := False\<rparr>)))"
  then obtain st where "st_mode st = q_mode q" "posture_of (snd (tool_call h plug ev oper q))
      = posture_of (snd (perform h (mode_value (p_default_mode plug)) ev oper (q\<lparr>q_perm := st, q_skip := False\<rparr>)))" by blast
  then show ?thesis
    using perform_step [of "p_default_mode plug" ev oper "q\<lparr>q_perm := st, q_skip := False\<rparr>" h] by (simp add: posture_of_def)
qed auto

lemma planning_stays: "mode_step dflt False p p' \<Longrightarrow> mode_or dflt (fst p) = ''plan'' \<Longrightarrow> p' = p"
  by (auto elim: mode_stepE)

lemma planning_call:
  "planning plug q \<Longrightarrow> \<not> approves ev oper \<Longrightarrow> posture_of (snd (tool_call h plug ev oper q)) = posture_of q"
  using planning_stays call_step [of plug ev oper q h] by (fastforce simp: planning_def posture_of_def)

lemma planning_posture: "posture_of q' = posture_of q \<Longrightarrow> planning plug q' = planning plug q"
  by (simp add: planning_def posture_of_def)

abbreviation unapproved :: "(plan_call \<times> plan_op) list \<Rightarrow> bool" where
  "unapproved \<equiv> list_all (\<lambda>(ev, oper). \<not> approves ev oper)"

lemma planning_session:
  "planning plug q \<Longrightarrow> unapproved ops \<Longrightarrow> posture_of (session h plug ops q) = posture_of q"
proof (induction h plug ops q rule: session.induct)
  case (2 h plug ev oper ops q)
  then have e: "posture_of (snd (tool_call h plug ev oper q)) = posture_of q" by (simp add: planning_call)
  with 2 show ?case using planning_posture [OF e] by simp
qed simp

text \<open>C39: Plan mode ends only by an approval. In a session of tool calls, through the permission plugin and the
  confirmation of each tool, with whatever answers, a session that was planning and no longer is had a call of
  \<open>exit_plan_mode\<close>, or of \<open>write_plan\<close> that asked for approval, which the user confirmed without choosing to revise.\<close>

lemma only_an_approval_leaves_plan_mode:
  assumes "planning plug q" "\<not> planning plug (session h plug ops q)"
  shows "\<exists>ev oper. (ev, oper) \<in> set ops \<and> approves ev oper"
proof (rule ccontr)
  assume "\<nexists>ev oper. (ev, oper) \<in> set ops \<and> approves ev oper"
  then have "unapproved ops" by (auto simp: list_all_iff)
  then show False using assms planning_session planning_posture by blast
qed

section \<open>Only reading while planning\<close>

text \<open>The calls of a session whose tool ran.\<close>

fun ran :: "host \<Rightarrow> plugin \<Rightarrow> (plan_call \<times> plan_op) list \<Rightarrow> plan_session \<Rightarrow> plan_op list" where
  "ran h plug [] q = []"
| "ran h plug ((ev, oper) # ops) q =
     (case tool_call h plug ev oper q of
        (None, q') \<Rightarrow> ran h plug ops q'
      | (Some r, q') \<Rightarrow> oper # ran h plug ops q')"

lemma ran_from_calls: "set (ran h plug ops q) \<subseteq> snd ` set ops"
proof (induction h plug ops q rule: ran.induct)
  case (2 h plug ev oper ops q)
  obtain r q' where "tool_call h plug ev oper q = (r, q')" by fastforce
  with 2 show ?case by (cases r) (auto simp: subset_insertI2)
qed simp

lemma planning_mode: "planning plug q \<Longrightarrow> mode_from_context plug (q_perm q) = Plan"
  by (auto simp: planning_def mode_or_def mode_from_context_def mode_of_value_def split: option.splits)

lemma decide_and_answer_plan:
  assumes "fst (decide_and_answer h plug ctx t as st) = Run" "mode_from_context plug st = Plan" "\<not> t_read_only t"
  shows "t_name t = ''run_bash'' \<and>
    (\<exists>ps. split_statements (strip (arg as ''command'' [])) = Some ps \<and>
       (\<forall>p \<in> set ps. is_read_only_command (fst p) \<and> p_redirects (parse_segment (fst p)) = []))"
proof -
  have "\<exists>st root out home isolated. d_behavior (decide h t as Plan st root out home isolated) \<noteq> Deny"
  proof (cases "scope_gate h plug ctx t as (mode_from_context plug st) (plugin_root h ctx st) st")
    case None
    then have "d_behavior (plugin_decide h plug ctx t as st) \<noteq> Deny"
      using assms(1) by (auto simp: decide_and_answer_def Let_def)
    then show ?thesis unfolding plugin_decide_def assms(2) by blast
  next
    case (Some res)
    then have "scope_gate h plug ctx t as Plan (plugin_root h ctx st) st = Some (Run, snd res)"
      using assms(1,2) by (cases res) (auto simp: decide_and_answer_def)
    then have "\<exists>st'. d_behavior (scope_decide h plug ctx t as Plan (plugin_root h ctx st) st') \<noteq> Deny"
      by (auto simp: scope_gate_def Let_def split: if_splits option.splits)
    then show ?thesis unfolding scope_decide_def by blast
  qed
  then show ?thesis using assms(3) plan_mode_reads by blast
qed

lemma planning_run:
  assumes "planning plug q" "t_name t \<noteq> ''run_skill_script''" "\<not> t_read_only t"
    and "fst (tool_call h plug ev (UseTool t as eff) q) = Some r"
  shows "t_name t = ''run_bash'' \<and>
    (\<exists>ps. split_statements (strip (arg as ''command'' [])) = Some ps \<and>
       (\<forall>p \<in> set ps. is_read_only_command (fst p) \<and> p_redirects (parse_segment (fst p)) = []))"
proof -
  have run: "fst (before_tool_callback h plug (k_ctx ev) (AdkTool t) as (q_perm q)) = Run"
    using assms(4) by (auto simp: tool_call_def split: prod.splits if_splits)
  have m: "mode_from_context plug (q_perm q) = Plan" using assms(1) by (rule planning_mode)
  show ?thesis using assms(2)
  proof (cases rule: before_tool_cases [of t h plug "k_ctx ev" as "q_perm q"])
    case plain
    then show ?thesis using decide_and_answer_plan [of h plug "k_ctx ev" t as "q_perm q"] run m assms(3) by simp
  next
    case (skill skill_args st')
    have "mode_from_context plug st' = Plan"
      using m gate_skill_mode [of h plug "k_ctx ev" skill_args "q_perm q"] skill(1) by (simp add: mode_from_context_def)
    then show ?thesis using decide_and_answer_plan [of h plug "k_ctx ev" t as st'] run skill(2) assms(3) by simp
  next
    case (refused skill_args)
    then show ?thesis using run by auto
  qed
qed

text \<open>A planning session only reads. As long as no call is an approval, every tool that runs, whatever the user
  grants, is declared read-only or is a shell command all of whose statements pass the read-only allowlist and
  redirect nothing; the one exception is \<open>run_skill_script\<close>, which has a gate of its own.\<close>

lemma planning_session_only_reads:
  assumes "planning plug q" "unapproved ops" "UseTool t as eff \<in> set (ran h plug ops q)"
    and "t_name t \<noteq> ''run_skill_script''" "\<not> t_read_only t"
  shows "t_name t = ''run_bash'' \<and>
    (\<exists>ps. split_statements (strip (arg as ''command'' [])) = Some ps \<and>
       (\<forall>p \<in> set ps. is_read_only_command (fst p) \<and> p_redirects (parse_segment (fst p)) = []))"
  using assms(1-3)
proof (induction ops arbitrary: q)
  case Nil
  then show ?case by simp
next
  case (Cons c ops)
  obtain ev oper where c: "c = (ev, oper)" by fastforce
  obtain r q' where q': "tool_call h plug ev oper q = (r, q')" by fastforce
  have "\<not> approves ev oper" using Cons.prems(2) by (simp add: c)
  from planning_call [OF Cons.prems(1) this, of h] have "posture_of q' = posture_of q" by (simp add: q')
  from planning_posture [OF this] have p: "planning plug q'" using Cons.prems(1) by blast
  show ?case
  proof (cases "UseTool t as eff \<in> set (ran h plug ops q')")
    case True
    then show ?thesis using Cons.IH [OF p] Cons.prems(2) by (simp add: c)
  next
    case False
    then obtain r' where "oper = UseTool t as eff" "r = Some r'"
      using Cons.prems(3) by (cases r) (auto simp: c q')
    then show ?thesis using planning_run [OF Cons.prems(1) assms(4,5), of h ev as eff r'] q' by simp
  qed
qed

section \<open>A cycle of plan mode\<close>

text \<open>The mode a reply says the session was left with.\<close>

fun left_with :: "plan_result \<Rightarrow> string option" where
  "left_with (Approved p m summary comment) = Some m"
| "left_with (Written e bytes (Some (Left p m))) = Some m"
| "left_with _ = None"

lemma exit_left:
  "left_with (fst (exit_plan_mode (mode_value d) ev summary q)) = Some m \<Longrightarrow>
     restores (mode_value d) (q_marker q) m \<and> posture_of (snd (exit_plan_mode (mode_value d) ev summary q)) = (Some m, None)"
  by (auto simp: exit_plan_mode_def restores_def posture_of_def Let_def split: if_splits option.splits)

lemma exit_state_left:
  "fst (exit_plan_mode_state (mode_value d) q) = Left p m \<Longrightarrow>
     restores (mode_value d) (q_marker q) m \<and> posture_of (snd (exit_plan_mode_state (mode_value d) q)) = (Some m, None)"
  by (auto simp: exit_plan_mode_state_def restores_def posture_of_def Let_def split: if_splits option.splits)

lemma write_left:
  assumes "left_with (fst (write_plan h (mode_value d) ev content wanted req q)) = Some m"
  shows "restores (mode_value d) (q_marker q) m
    \<and> posture_of (snd (write_plan h (mode_value d) ev content wanted req q)) = (Some m, None)"
proof -
  let ?e = "plan_entry_of h ev content wanted q"
  from assms obtain files where files: "write_text h (plan_workspace h ev q) (pe_path ?e) content (q_files q) = Some files"
    and req: "req" "chose_id ev \<noteq> revise"
    by (auto simp: write_plan_def Let_def split: if_splits option.splits)
  let ?q = "q\<lparr>q_files := files, q_path := Some (pe_path ?e), q_title := Some (pe_title ?e), q_history := q_history q @ [?e]\<rparr>"
  have w: "write_plan h (mode_value d) ev content wanted req q
    = (case exit_plan_mode_state (mode_value d) ?q of (exited, q') \<Rightarrow> (Written ?e (length (utf8 content)) (Some exited), q'))"
    using files req by (simp add: write_plan_def Let_def)
  obtain exited q' where x: "exit_plan_mode_state (mode_value d) ?q = (exited, q')" by fastforce
  then obtain p where "exited = Left p m" using assms by (cases exited) (auto simp: w)
  then show ?thesis using exit_state_left [of d ?q p m] by (simp add: w x)
qed

lemma run_async_left:
  assumes "left_with (fst (run_async needs long_running body ev q)) = Some m"
  shows "left_with (fst (body q)) = Some m
    \<and> posture_of (snd (run_async needs long_running body ev q)) = posture_of (snd (body q))"
  using assms by (auto simp: run_async_def Let_def split: option.splits prod.splits if_splits)

lemma perform_left:
  assumes "left_with (fst (perform h (mode_value d) ev oper q)) = Some m"
  shows "restores (mode_value d) (q_marker q) m \<and> posture_of (snd (perform h (mode_value d) ev oper q)) = (Some m, None)"
proof (cases oper)
  case (EnterPlan why)
  from run_async_left [OF assms [unfolded EnterPlan perform.simps]] show ?thesis
    by (auto simp: enter_plan_mode_def Let_def split: if_splits)
next
  case (ExitPlan summary)
  from run_async_left [OF assms [unfolded ExitPlan perform.simps]] exit_left [of d ev summary q m]
  show ?thesis by (simp add: ExitPlan)
next
  case (WritePlan content wanted req)
  from run_async_left [OF assms [unfolded WritePlan perform.simps]] write_left [of h d ev content wanted req q m]
  show ?thesis by (simp add: WritePlan)
next
  case ReadPlan
  from run_async_left [OF assms [unfolded ReadPlan perform.simps]] show ?thesis
    by (auto simp: read_current_plan_def split: option.splits)
next
  case (UseTool t as eff)
  with assms show ?thesis by simp
qed

lemma call_left:
  assumes "fst (tool_call h plug ev oper q) = Some r" "left_with r = Some m"
  shows "restores (mode_value (p_default_mode plug)) (q_marker q) m \<and> posture_of (snd (tool_call h plug ev oper q)) = (Some m, None)"
proof -
  obtain st where "before_tool_callback h plug (k_ctx ev) (AdkTool (op_meta oper)) (op_args oper) (q_perm q) = (Run, st)"
    using assms(1) by (auto simp: tool_call_def split: prod.splits if_splits)
  then show ?thesis
    using perform_left [of h "p_default_mode plug" ev oper "q\<lparr>q_perm := st, q_skip := False\<rparr>" m] assms
    by (auto simp: tool_call_def after_mode posture_of_def split: prod.splits)
qed

lemma run_async_entered:
  "fst (run_async False long_running (enter_plan_mode d why) ev q) = Entered m why' \<Longrightarrow>
     m = current_mode (canonical_default d) q \<and> m \<noteq> ''plan''
     \<and> posture_of (snd (run_async False long_running (enter_plan_mode d why) ev q)) = (Some ''plan'', Some m)"
  by (auto simp: run_async_def enter_plan_mode_def posture_of_def Let_def split: if_splits)

lemma call_entered:
  assumes "fst (tool_call h plug ev (EnterPlan why) q) = Some (Entered m why')"
  shows "m = current_mode (mode_value (p_default_mode plug)) q \<and> m \<noteq> ''plan''
    \<and> posture_of (snd (tool_call h plug ev (EnterPlan why) q)) = (Some ''plan'', Some m)"
proof -
  obtain st where b: "before_tool_callback h plug (k_ctx ev) (AdkTool (op_meta (EnterPlan why))) (op_args (EnterPlan why)) (q_perm q) = (Run, st)"
    using assms by (auto simp: tool_call_def split: prod.splits if_splits)
  then have m: "st_mode st = q_mode q" using before_mode by (metis snd_conv)
  show ?thesis
    using assms b m run_async_entered [of False "mode_value (p_default_mode plug)" why ev "q\<lparr>q_perm := st, q_skip := False\<rparr>" m why']
    by (auto simp: tool_call_def after_mode posture_of_def split: prod.splits)
qed

lemma current_mode_given: "mode_or (mode_value d) x \<noteq> []"
  by (auto simp: mode_or_def given_def split: option.split)

text \<open>C12: A cycle of plan mode gives the session back its mode: it is the mode the reply of \<open>enter_plan_mode\<close> names,
  whatever calls that are no approval run in between, and whichever of the two approved calls ends it; the marker is
  consumed.\<close>

lemma plan_cycle_restores_the_mode:
  assumes "fst (tool_call h plug ev (EnterPlan why) q) = Some (Entered m why')"
    and "unapproved ops" "q1 = session h plug ops (snd (tool_call h plug ev (EnterPlan why) q))"
    and "fst (tool_call h plug ev' oper q1) = Some r" "left_with r = Some m'"
  shows "m' = m \<and> m = current_mode (mode_value (p_default_mode plug)) q
    \<and> q_mode (snd (tool_call h plug ev' oper q1)) = Some m \<and> q_marker (snd (tool_call h plug ev' oper q1)) = None"
proof -
  let ?q0 = "snd (tool_call h plug ev (EnterPlan why) q)"
  from call_entered [OF assms(1)] have m: "m = current_mode (mode_value (p_default_mode plug)) q" "m \<noteq> ''plan''"
    and p: "posture_of ?q0 = (Some ''plan'', Some m)" by auto
  then have "planning plug ?q0" by (simp add: planning_def posture_of_def mode_or_def given_def)
  from planning_session [OF this assms(2)] have p1: "posture_of q1 = (Some ''plan'', Some m)" using p assms(3) by simp
  have "m \<noteq> []" unfolding m(1) by (rule current_mode_given)
  moreover from call_left [OF assms(4,5)] p1 have "restores (mode_value (p_default_mode plug)) (Some m) m'"
    and p2: "posture_of (snd (tool_call h plug ev' oper q1)) = (Some m', None)" by (auto simp: posture_of_def)
  ultimately have "m' = m" using m(2) by (simp add: restores_def given_def)
  then show ?thesis using m(1) p2 by (simp add: posture_of_def)
qed

section \<open>The modes are modes\<close>

definition mode_ok :: "string option \<Rightarrow> bool" where
  "mode_ok x \<longleftrightarrow> (case given x of None \<Rightarrow> True | Some m \<Rightarrow> mode_of_value m \<noteq> None)"

lemma mode_ok_default [simp]: "mode_ok (Some ''default'')" "mode_ok (Some ''plan'')" "mode_ok None" "mode_ok (Some (mode_value d))"
  by (simp_all add: mode_ok_def mode_of_value_def given_def) (cases d; simp)

lemma mode_ok_current: "mode_ok x \<Longrightarrow> mode_ok (Some (mode_or (mode_value d) x))"
  by (auto simp: mode_ok_def mode_or_def given_def split: option.splits)

lemma mode_step_ok:
  "mode_step (mode_value d) ok p p' \<Longrightarrow> mode_ok (fst p) \<and> mode_ok (snd p) \<Longrightarrow> mode_ok (fst p') \<and> mode_ok (snd p')"
  by (induction rule: mode_step.induct)
    (auto simp: mode_ok_current restores_def given_def split: option.splits if_splits)

definition modes_ok :: "plan_session \<Rightarrow> bool" where
  "modes_ok q \<longleftrightarrow> mode_ok (q_mode q) \<and> mode_ok (q_marker q)"

lemma session_modes: "modes_ok q \<Longrightarrow> modes_ok (session h plug ops q)"
proof (induction h plug ops q rule: session.induct)
  case (2 h plug ev oper ops q)
  then show ?case using mode_step_ok [OF call_step [of plug ev oper q h]] by (simp add: modes_ok_def posture_of_def)
qed simp

text \<open>C31: The mode is always a mode. From a session whose stored mode and marker are values of \<open>PermissionMode\<close> or
  unset, every sequence of calls leads to such a session, and there the mode the tools compute from the state and
  their default is the mode the permission plugin decides with.\<close>

lemma stored_modes_are_modes:
  assumes "modes_ok q"
  shows "modes_ok (session h plug ops q)
    \<and> current_mode (mode_value (p_default_mode plug)) (session h plug ops q)
      = mode_value (mode_from_context plug (q_perm (session h plug ops q)))"
proof -
  have c: "current_mode (mode_value d) q' = mode_value (mode_from_context plug (q_perm q'))"
    if "mode_ok (q_mode q')" "d = p_default_mode plug" for q' d
    using that
    by (auto simp: mode_or_def mode_ok_def mode_from_context_def mode_of_value_def split: option.splits if_splits)
  show ?thesis using session_modes [OF assms] c by (simp add: modes_ok_def)
qed

section \<open>Plan files\<close>

lemma split_char_append: "split_char d (a @ d # b) = split_char d a @ split_char d b"
proof (induction a)
  case (Cons c a)
  have "split_char d a \<noteq> []" by (cases a) (auto split: list.split)
  then show ?case using Cons by (auto split: list.split)
qed simp

lemma split_char_parts: "x \<in> set (split_char d s) \<Longrightarrow> d \<notin> set x"
  by (induction s arbitrary: x) (auto split: if_splits list.splits)

lemma path_parts_slash [simp]: "path_parts (CHR ''/'' # s) = path_parts s"
  by (simp add: path_parts_def)

lemma path_parts_Nil [simp]: "path_parts [] = []" "path_parts ''.'' = []"
  by (simp_all add: path_parts_def)

lemma path_parts_append: "path_parts (a @ CHR ''/'' # b) = path_parts a @ path_parts b"
  by (simp add: path_parts_def split_char_append)

lemma path_parts_join_parts: "path_parts (join ''/'' (path_parts p)) = path_parts p"
proof (cases "path_parts p = []")
  case False
  have "\<forall>x \<in> set (path_parts p). CHR ''/'' \<notin> set x" by (auto simp: path_parts_def dest: split_char_parts)
  then have "split_char (CHR ''/'') (join ''/'' (path_parts p)) = path_parts p" by (rule split_char_join [OF False])
  then show ?thesis by (simp add: path_parts_def)
qed simp

lemma path_parts_str [simp]: "path_parts (path_str p) = path_parts p"
proof -
  have "path_parts (replicate k (CHR ''/'') @ s) = path_parts s" for k s by (induction k) simp_all
  then show ?thesis by (auto simp: path_str_def Let_def path_parts_join_parts dest: arg_cong [of _ _ path_parts])
qed

lemma path_parts_div: "\<not> is_abs b \<Longrightarrow> path_parts (path_div a b) = path_parts a @ path_parts b"
proof (cases "endswith a ''/''")
  case True
  assume n: "\<not> is_abs b"
  from True obtain u where "a = u @ ''/''" by (cases a rule: rev_cases) (auto simp: endswith_def)
  then show ?thesis using n True by (simp add: path_div_def posix_join_def path_parts_append)
qed (auto simp: path_div_def posix_join_def path_parts_append)

lemma path_div_nonempty [simp]: "path_div a b \<noteq> []"
  by (simp add: path_div_def path_str_def Let_def)

text \<open>What a slug is made of.\<close>

definition slug_ok :: "string \<Rightarrow> bool" where
  "slug_ok s \<longleftrightarrow> s \<noteq> [] \<and> length s \<le> 40 \<and> (\<forall>c \<in> set s. slug_char c \<or> c = CHR ''-'') \<and> hd s \<noteq> CHR ''-'' \<and> last s \<noteq> CHR ''-''"

lemma dash_runs_chars: "c \<in> set (dash_runs b s) \<Longrightarrow> slug_char c \<or> c = CHR ''-''"
  by (induction b s rule: dash_runs.induct) (auto split: if_splits)

lemma set_trim: "set (trim_dashes s) \<subseteq> set s"
  by (auto simp: trim_dashes_def dest!: set_dropWhileD)

lemma length_trim: "length (trim_dashes s) \<le> length s"
proof -
  have "length (dropWhile P t) \<le> length t" for P and t :: string by (induction t) auto
  from le_trans [OF this [of _ "rev (dropWhile _ s)"] ] this [of _ s] show ?thesis by (simp add: trim_dashes_def)
qed

lemma trim_ends:
  assumes "trim_dashes s \<noteq> []"
  shows "hd (trim_dashes s) \<noteq> CHR ''-'' \<and> last (trim_dashes s) \<noteq> CHR ''-''"
proof
  let ?d = "\<lambda>c. c = CHR ''-''"
  let ?a = "dropWhile ?d s"
  have "rev ?a = takeWhile ?d (rev ?a) @ dropWhile ?d (rev ?a)" by simp
  then have "?a = trim_dashes s @ rev (takeWhile ?d (rev ?a))" unfolding trim_dashes_def by (metis rev_append rev_rev_ident)
  then have "hd ?a = hd (trim_dashes s)" "?a \<noteq> []" using assms by (metis hd_append2, fastforce)
  then show "hd (trim_dashes s) \<noteq> CHR ''-''" using hd_dropWhile [of ?d s] by simp
  show "last (trim_dashes s) \<noteq> CHR ''-''"
    using assms hd_dropWhile [of ?d "rev ?a"] by (auto simp: trim_dashes_def last_rev)
qed

lemma slugify_ok: "slug_ok (slugify t)"
proof -
  define s0 where "s0 = take 40 (trim_dashes (dash_runs False (lower t)))"
  define s1 where "s1 = trim_dashes (if s0 = [] then ''plan'' else s0)"
  have s0: "length s0 \<le> 40" "\<forall>c \<in> set s0. slug_char c \<or> c = CHR ''-''"
    using set_trim dash_runs_chars by (fastforce simp: s0_def dest: in_set_takeD)+
  have plan: "\<forall>c \<in> set ''plan''. slug_char c" by (simp add: slug_char_def in_range_def)
  have "length s1 \<le> 40" using length_trim [of "if s0 = [] then ''plan'' else s0"] s0(1) by (auto simp: s1_def split: if_splits)
  moreover have "\<forall>c \<in> set s1. slug_char c \<or> c = CHR ''-''"
  proof
    fix c assume "c \<in> set s1"
    then have "c \<in> set (if s0 = [] then ''plan'' else s0)" using set_trim unfolding s1_def by blast
    then show "slug_char c \<or> c = CHR ''-''" using s0(2) plan by (auto split: if_splits)
  qed
  moreover have "slugify t = (if s1 = [] then ''plan'' else s1)" by (simp add: slugify_def s1_def s0_def Let_def)
  moreover have "s1 \<noteq> [] \<Longrightarrow> hd s1 \<noteq> CHR ''-'' \<and> last s1 \<noteq> CHR ''-''" unfolding s1_def by (rule trim_ends)
  ultimately show ?thesis using plan by (auto simp: slug_ok_def)
qed


text \<open>The workspace of a call does not change by a call of a tool that takes no path.\<close>

lemma decide_and_answer_roots:
  assumes "\<not> is_path_tool (t_name t)"
  shows "\<exists>p rs. snd (decide_and_answer h plug ctx t as st) = put_rules p rs st"
proof -
  have same: "st = put_rules False [] st" by (simp add: put_rules_def)
  have "scope_gate h plug ctx t as (mode_from_context plug st) (plugin_root h ctx st) st = None"
    using assms by (simp add: scope_gate_def)
  then show ?thesis using same
    by (auto simp: decide_and_answer_def answer_ask_def add_session_allow_def Let_def split: behavior.split option.split)
qed

lemma plan_tool_roots:
  assumes "t_name t \<notin> {''run_skill_script'', ''run_bash''}" "\<not> is_path_tool (t_name t)"
  shows "get_workspace h w (snd (before_tool_callback h plug ctx (AdkTool t) as st)) = get_workspace h w st"
proof -
  have "before_tool_callback h plug ctx (AdkTool t) as st = decide_and_answer h plug ctx t as st"
    using assms by (intro before_tool_no_route) (simp_all add: skill_route_def)
  then show ?thesis using decide_and_answer_roots [OF assms(2), of h plug ctx as st] by auto
qed

lemma after_no_path: "\<not> is_path_tool (t_name t) \<Longrightarrow> after_tool_callback h ctx (AdkTool t) as st = st"
  by (simp add: after_tool_callback_def)

lemma set_mode_workspace [simp]: "get_workspace h w (st\<lparr>st_mode := x\<rparr>) = get_workspace h w st"
proof -
  have "list_granted_roots (st\<lparr>st_mode := x\<rparr>) = list_granted_roots st"
    by (simp add: list_granted_roots_def read_roots_def roots_at.simps)
  then show ?thesis by (simp add: get_workspace_def)
qed

lemma exit_state_keeps:
  "q_files (snd (exit_plan_mode_state d q)) = q_files q \<and> q_path (snd (exit_plan_mode_state d q)) = q_path q
   \<and> q_title (snd (exit_plan_mode_state d q)) = q_title q \<and> q_history (snd (exit_plan_mode_state d q)) = q_history q
   \<and> get_workspace h w (q_perm (snd (exit_plan_mode_state d q))) = get_workspace h w (q_perm q)"
  by (auto simp: exit_plan_mode_state_def set_mode_def Let_def)

lemma write_plan_written:
  assumes "fst (write_plan h d ev content wanted req q) = Written e b x"
  shows "e = plan_entry_of h ev content wanted q" "b = length (utf8 content)"
    "fs_allows (allow_paths h (plan_workspace h ev q)) (os_abspath h (pe_path e))"
    "q_files (snd (write_plan h d ev content wanted req q)) = (q_files q)(os_abspath h (pe_path e) \<mapsto> content)"
    "q_path (snd (write_plan h d ev content wanted req q)) = Some (pe_path e)"
    "q_title (snd (write_plan h d ev content wanted req q)) = Some (pe_title e)"
    "q_history (snd (write_plan h d ev content wanted req q)) = q_history q @ [e]"
    "get_workspace h w (q_perm (snd (write_plan h d ev content wanted req q))) = get_workspace h w (q_perm q)"
proof -
  let ?e = "plan_entry_of h ev content wanted q"
  from assms obtain files where files: "write_text h (plan_workspace h ev q) (pe_path ?e) content (q_files q) = Some files"
    and asked: "\<not> (req \<and> chose_id ev = revise)"
    by (auto simp: write_plan_def Let_def split: if_splits option.splits)
  let ?q = "q\<lparr>q_files := files, q_path := Some (pe_path ?e), q_title := Some (pe_title ?e), q_history := q_history q @ [?e]\<rparr>"
  have guard: "fs_allows (allow_paths h (plan_workspace h ev q)) (os_abspath h (pe_path ?e))"
    "files = (q_files q)(os_abspath h (pe_path ?e) \<mapsto> content)"
    using files by (auto simp: write_text_def Let_def split: if_splits)
  obtain exited q2 where x: "exit_plan_mode_state (lower (canonical_default d)) ?q = (exited, q2)" by fastforce
  have w: "write_plan h d ev content wanted req q
      = (if req then (Written ?e (length (utf8 content)) (Some exited), q2) else (Written ?e (length (utf8 content)) None, ?q))"
    using files asked x by (simp add: write_plan_def Let_def)
  have e: "e = ?e" "b = length (utf8 content)" using assms unfolding w by (simp_all split: if_splits)
  have "q_files q2 = q_files ?q \<and> q_path q2 = q_path ?q \<and> q_title q2 = q_title ?q \<and> q_history q2 = q_history ?q
      \<and> get_workspace h w (q_perm q2) = get_workspace h w (q_perm ?q)"
    using exit_state_keeps [of "lower (canonical_default d)" ?q h w] unfolding x snd_conv .
  then show "q_files (snd (write_plan h d ev content wanted req q)) = (q_files q)(os_abspath h (pe_path e) \<mapsto> content)"
    "q_path (snd (write_plan h d ev content wanted req q)) = Some (pe_path e)"
    "q_title (snd (write_plan h d ev content wanted req q)) = Some (pe_title e)"
    "q_history (snd (write_plan h d ev content wanted req q)) = q_history q @ [e]"
    "get_workspace h w (q_perm (snd (write_plan h d ev content wanted req q))) = get_workspace h w (q_perm q)"
    unfolding w using e guard by simp_all
  show "e = ?e" "b = length (utf8 content)" by (fact e)+
  show "fs_allows (allow_paths h (plan_workspace h ev q)) (os_abspath h (pe_path e))" using guard(1) unfolding e .
qed



text \<open>A plan file is a direct child of the plans folder of the workspace, whatever title, slug or content the model
  sends: its name is the time stamp and a slug of one to forty characters, lower-case letters, digits and inner dashes.\<close>

lemma plan_files_stay_in_the_plans_folder:
  assumes "CHR ''/'' \<notin> set (k_stamp ev)" "q' = snd (write_plan h d ev content wanted req q)"
    and "fst (write_plan h d ev content wanted req q) = Written e bytes x"
  shows "slug_ok (pe_slug e)
    \<and> path_parts (pe_path e) = path_parts (ws_path (plan_workspace h ev q)) @ [''.adk-cc'', ''plans'', k_stamp ev @ ''-'' @ pe_slug e @ ''.md'']
    \<and> (\<forall>p. p \<noteq> os_abspath h (pe_path e) \<longrightarrow> q_files q' p = q_files q p)"
proof -
  from write_plan_written [OF assms(3)] have e: "e = plan_entry_of h ev content wanted q"
    and f: "q_files q' = (q_files q)(os_abspath h (pe_path e) \<mapsto> content)" unfolding assms(2) by blast+
  have s: "slug_ok (pe_slug e)" using slugify_ok by (simp add: e plan_entry_of_def Let_def)
  let ?n = "k_stamp ev @ ''-'' @ pe_slug e @ ''.md''"
  have no: "CHR ''/'' \<notin> set ?n"
    using assms(1) s by (auto simp: slug_ok_def slug_char_def in_range_def)
  have "\<not> is_abs ?n" using no by (cases "k_stamp ev") (auto simp: is_abs_def startswith_def)
  moreover have "path_parts ?n = [?n]" using no by (auto simp: path_parts_def split_char_no)
  moreover have "pe_path e = path_div (plans_dir (plan_workspace h ev q)) ?n" by (simp add: e plan_entry_of_def Let_def)
  moreover have "path_parts (plans_dir (plan_workspace h ev q)) = path_parts (ws_path (plan_workspace h ev q)) @ [''.adk-cc'', ''plans'']"
    unfolding plans_dir_def by (subst path_parts_div) (simp_all add: is_abs_def path_parts_def)
  ultimately show ?thesis using s f by (simp add: path_parts_div)
qed


section \<open>The tools offered\<close>

text \<open>The filter and the permission layer agree: an agent that owns the plan tools is offered the exit exactly while
  the session is planning, and the entry exactly while it is not.\<close>

lemma plan_tools_offered:
  assumes "\<not> List.member specialist_agents agent"
  shows "''exit_plan_mode'' \<in> set (l_tools (before_model reminder (mode_value (p_default_mode plug)) (q_mode q) (q_mode q) agent req))
      \<longleftrightarrow> ''exit_plan_mode'' \<in> set (l_tools req) \<and> planning plug q"
    "''enter_plan_mode'' \<in> set (l_tools (before_model reminder (mode_value (p_default_mode plug)) (q_mode q) (q_mode q) agent req))
      \<longleftrightarrow> ''enter_plan_mode'' \<in> set (l_tools req) \<and> \<not> planning plug q"
proof -
  have v: "visible_mode (mode_value (p_default_mode plug)) (q_mode q) (q_mode q) = ''plan'' \<longleftrightarrow> planning plug q"
    by (simp add: visible_mode_def planning_def mode_or_def split: option.split)
  show "''exit_plan_mode'' \<in> set (l_tools (before_model reminder (mode_value (p_default_mode plug)) (q_mode q) (q_mode q) agent req))
      \<longleftrightarrow> ''exit_plan_mode'' \<in> set (l_tools req) \<and> planning plug q"
    using assms v by (simp add: before_model_def plan_mode_hidden_def normal_mode_hidden_def Let_def)
  show "''enter_plan_mode'' \<in> set (l_tools (before_model reminder (mode_value (p_default_mode plug)) (q_mode q) (q_mode q) agent req))
      \<longleftrightarrow> ''enter_plan_mode'' \<in> set (l_tools req) \<and> \<not> planning plug q"
    using assms v by (simp add: before_model_def plan_mode_hidden_def normal_mode_hidden_def Let_def)
qed

section \<open>Concrete sessions\<close>

definition plain_call :: plan_call where
  "plain_call = \<lparr>k_ctx = demo_ctx, k_comment = None, k_stamp = ''20260101T000000Z'', k_iso = ''t''\<rparr>"

definition approving :: plan_call where
  "approving = plain_call\<lparr>k_ctx := answer_with ''approve''\<rparr>"

definition session_in :: "string option \<Rightarrow> string option \<Rightarrow> plan_session" where
  "session_in mode marker = \<lparr>q_perm = fresh_state\<lparr>st_mode := mode\<rparr>, q_marker = marker, q_path = None, q_title = None,
     q_history = [], q_files = Map.empty, q_skip = False\<rparr>"

definition log_op :: plan_op where
  "log_op = UseTool bash_tool [''command'' \<mapsto> ''git log | head''] (\<lambda>fs. fs)"

lemma only_an_approval_leaves_plan_mode_witness:
  "\<exists>ev oper. (ev, oper) \<in> set [(plain_call, ExitPlan ''do it''), (approving, ExitPlan ''do it'')] \<and> approves ev oper"
proof (rule only_an_approval_leaves_plan_mode)
  show "planning demo_plugin (session_in (Some ''plan'') None)" by code_simp
  show "\<not> planning demo_plugin (session plain_host demo_plugin [(plain_call, ExitPlan ''do it''), (approving, ExitPlan ''do it'')]
      (session_in (Some ''plan'') None))" by code_simp
qed

lemma planning_session_only_reads_witness:
  "UseTool bash_tool [''command'' \<mapsto> ''git log | head''] (\<lambda>fs. fs)
     \<in> set (ran plain_host demo_plugin [(plain_call, ExitPlan ''s''), (approving, UseTool bash_tool [''command'' \<mapsto> ''git log | head''] (\<lambda>fs. fs))]
         (session_in (Some ''plan'') None))
   \<and> (\<exists>ps. split_statements (strip ''git log | head'') = Some ps
      \<and> (\<forall>p \<in> set ps. is_read_only_command (fst p) \<and> p_redirects (parse_segment (fst p)) = []))"
proof -
  let ?t = "UseTool bash_tool [''command'' \<mapsto> ''git log | head''] (\<lambda>fs. fs)"
  let ?ops = "[(plain_call, ExitPlan ''s''), (approving, ?t)]"
  have p: "planning demo_plugin (session_in (Some ''plan'') None)" by code_simp
  have u: "unapproved ?ops" by code_simp
  have "map (t_name \<circ> op_meta) (ran plain_host demo_plugin ?ops (session_in (Some ''plan'') None)) = [''exit_plan_mode'', ''run_bash'']"
    by code_simp
  then have r: "?t \<in> set (ran plain_host demo_plugin ?ops (session_in (Some ''plan'') None))"
    using ran_from_calls [of plain_host demo_plugin ?ops "session_in (Some ''plan'') None"] by fastforce
  have n: "t_name bash_tool \<noteq> ''run_skill_script''" "\<not> t_read_only bash_tool" by (simp_all add: bash_tool_def)
  from planning_session_only_reads [OF p u r n] r show ?thesis by (simp add: arg_def)
qed

lemma plan_cycle_restores_the_mode_witness:
  "let q0 = session_in (Some ''acceptEdits'') None; q = snd (tool_call plain_host demo_plugin plain_call (EnterPlan ''w'') q0);
       q1 = session plain_host demo_plugin [(plain_call, WritePlan ''# T'' None False)] q in
   q_mode q = Some ''plan'' \<and> q_mode (snd (tool_call plain_host demo_plugin approving (WritePlan ''# T'' None True) q1)) = Some ''acceptEdits''"
proof -
  let ?start = "session_in (Some ''acceptEdits'') None"
  let ?q = "snd (tool_call plain_host demo_plugin plain_call (EnterPlan ''w'') ?start)"
  let ?ops = "[(plain_call, WritePlan ''# T'' None False)]"
  let ?q1 = "session plain_host demo_plugin ?ops ?q"
  have e: "fst (tool_call plain_host demo_plugin plain_call (EnterPlan ''w'') ?start) = Some (Entered ''acceptEdits'' ''w'')" by code_simp
  have u: "unapproved ?ops" by code_simp
  have l: "map_option left_with (fst (tool_call plain_host demo_plugin approving (WritePlan ''# T'' None True) ?q1)) = Some (Some ''acceptEdits'')"
    by code_simp
  then obtain r where r: "fst (tool_call plain_host demo_plugin approving (WritePlan ''# T'' None True) ?q1) = Some r"
    "left_with r = Some ''acceptEdits''" by auto
  have "q_mode ?q = Some ''plan''" by code_simp
  with plan_cycle_restores_the_mode [OF e u refl r] show ?thesis by (simp only: Let_def simp_thms)
qed

lemma stored_modes_are_modes_witness:
  "modes_ok (session plain_host demo_plugin [(plain_call, EnterPlan ''w''), (approving, ExitPlan ''s'')] (session_in None None))
   \<and> current_mode ''default'' (session plain_host demo_plugin [(plain_call, EnterPlan ''w''), (approving, ExitPlan ''s'')] (session_in None None))
     = ''default''"
proof -
  have ok: "modes_ok (session_in None None)" by code_simp
  let ?q = "session plain_host demo_plugin [(plain_call, EnterPlan ''w''), (approving, ExitPlan ''s'')] (session_in None None)"
  have m: "mode_from_context demo_plugin (q_perm ?q) = Default" by code_simp
  have d: "p_default_mode demo_plugin = Default" by (simp add: demo_plugin_def)
  show ?thesis
    using stored_modes_are_modes [OF ok, of plain_host demo_plugin "[(plain_call, EnterPlan ''w''), (approving, ExitPlan ''s'')]"]
    unfolding m d by simp
qed


lemma plan_files_stay_in_the_plans_folder_witness:
  "path_parts (pe_path (plan_entry_of plain_host plain_call ''x'' (Some ''../../etc/passwd'') (session_in None None)))
     = [''home'', ''u'', ''prj'', ''.adk-cc'', ''plans'', ''20260101T000000Z-etc-passwd.md'']"
proof -
  let ?q = "session_in None None" and ?w = "Some ''../../etc/passwd''"
  let ?e = "plan_entry_of plain_host plain_call ''x'' ?w ?q"
  have "(case fst (write_plan plain_host ''default'' plain_call ''x'' ?w False ?q) of Written e b x \<Rightarrow> e = ?e | _ \<Rightarrow> False)" by code_simp
  then obtain b x where w: "fst (write_plan plain_host ''default'' plain_call ''x'' ?w False ?q) = Written ?e b x"
    by (auto split: plan_result.splits)
  have n: "CHR ''/'' \<notin> set (k_stamp plain_call)" by (simp add: plain_call_def)
  have "path_parts (ws_path (plan_workspace plain_host plain_call ?q)) = [''home'', ''u'', ''prj'']"
    "k_stamp plain_call @ ''-'' @ pe_slug ?e @ ''.md'' = ''20260101T000000Z-etc-passwd.md''" by code_simp+
  with plan_files_stay_in_the_plans_folder [OF n refl w] show ?thesis by simp
qed

section \<open>What the code also does\<close>

definition bypass_plugin :: plugin where
  "bypass_plugin = demo_plugin\<lparr>p_default_mode := BypassPermissions\<rparr>"

text \<open>Without a marker, \<open>exit_plan_mode\<close> gives back the mode of the deployment and the approved \<open>write_plan\<close> does not.\<close>

lemma approvals_differ:
  "q_mode (snd (tool_call plain_host bypass_plugin approving (ExitPlan ''s'') (session_in (Some ''plan'') None))) = Some ''bypassPermissions''
   \<and> q_mode (snd (tool_call plain_host bypass_plugin approving (WritePlan ''# T'' None True) (session_in (Some ''plan'') None))) = Some ''default''"
  by code_simp

text \<open>Outside plan mode an approved \<open>write_plan\<close> writes the plan and replies \<open>noop\<close>.\<close>

lemma approved_plan_reported_as_noop:
  "(case tool_call plain_host demo_plugin approving (WritePlan ''# T'' None True) (session_in None None) of
      (r, q) \<Rightarrow> map_option plan_status r = Some (Some ''noop'') \<and> q_files q ''/home/u/prj/.adk-cc/plans/20260101T000000Z-t.md'' = Some ''# T'')"
  by code_simp

text \<open>Two plans of one second with one title share a file: the second replaces the first, and the history lists it twice.\<close>

lemma same_second_replaces_the_plan:
  "(case session plain_host demo_plugin [(plain_call, WritePlan [CHR ''#'', CHR '' '', CHR ''T'', CHR 0x0A, CHR ''1''] None False),
        (plain_call, WritePlan [CHR ''#'', CHR '' '', CHR ''T'', CHR 0x0A, CHR ''2''] None False)] (session_in None None) of
      q \<Rightarrow> map pe_path (q_history q) = replicate 2 ''/home/u/prj/.adk-cc/plans/20260101T000000Z-t.md''
        \<and> q_files q ''/home/u/prj/.adk-cc/plans/20260101T000000Z-t.md'' = Some [CHR ''#'', CHR '' '', CHR ''T'', CHR 0x0A, CHR ''2''])"
  by code_simp


text \<open>In an isolated sandbox whose deployment starts in plan mode, a script of a skill runs unasked.\<close>

lemma skill_script_runs_while_planning:
  "planning (demo_plugin\<lparr>p_default_mode := Plan\<rparr>) (session_in None None)
   \<and> fst (before_tool_callback plain_host (demo_plugin\<lparr>p_default_mode := Plan\<rparr>) (demo_ctx\<lparr>c_backend := Some ''docker''\<rparr>)
        (OtherTool ''run_skill_script'') [''skill_name'' \<mapsto> ''s'', ''file_path'' \<mapsto> ''scripts/x.py''] fresh_state) = Run"
  by code_simp

end
