(* ===== verification/ToolJson.thy ===== *)
theory ToolJson
  imports PyText
begin

text \<open>
  \<open>plugins/tolerant_tool_json.py\<close> and \<open>plugins/truncated_tool_call.py\<close>: the arguments of a tool call are
  JSON text the model wrote. The text is read as it is when it parses; otherwise a list of repairs is
  tried in order, and when none parses the call is marked, so that it is refused and asked for again.

  \<open>json.loads\<close> is the decoder of the standard library, with its flag \<open>strict\<close>: a text is a list of
  Latin-1 characters, a decoded string a list of code points, a number its lexeme. Its limits on the
  depth of nesting and on the digits of an integer, and the log lines, are left out.
\<close>

section \<open>The decoder of the standard library\<close>

datatype json =
    JNull
  | JBool bool
  | JNum string
  | JStr "nat list"
  | JArr "json list"
  | JObj "(nat list \<times> json) list"

definition json_ws :: "char \<Rightarrow> bool" where
  "json_ws c \<longleftrightarrow> c = CHR 0x20 \<or> c = CHR 0x09 \<or> c = CHR 0x0A \<or> c = CHR 0x0D"

abbreviation skip_ws :: "string \<Rightarrow> string" where
  "skip_ws \<equiv> dropWhile json_ws"

definition hex_value :: "char \<Rightarrow> nat option" where
  "hex_value c =
     (let n = of_char c :: nat
      in if 48 \<le> n \<and> n \<le> 57 then Some (n - 48)
         else if 65 \<le> n \<and> n \<le> 70 then Some (n - 55)
         else if 97 \<le> n \<and> n \<le> 102 then Some (n - 87)
         else None)"

fun hex4 :: "string \<Rightarrow> (nat \<times> string) option" where
  "hex4 (a # b # c # d # s) =
     (case (hex_value a, hex_value b, hex_value c, hex_value d) of
        (Some a, Some b, Some c, Some d) \<Rightarrow> Some (((a * 16 + b) * 16 + c) * 16 + d, s)
      | _ \<Rightarrow> None)"
| "hex4 _ = None"

definition simple_escape :: "char \<Rightarrow> nat option" where
  "simple_escape c =
     map_of [(CHR 0x22, 34), (CHR 0x5C, 92), (CHR ''/'', 47), (CHR ''b'', 8), (CHR ''f'', 12), (CHR ''n'', 10),
       (CHR ''r'', 13), (CHR ''t'', 9)] c"

text \<open>After a backslash: a surrogate pair written as two escapes is one code point.\<close>

fun json_escape :: "string \<Rightarrow> (nat \<times> string) option" where
  "json_escape [] = None"
| "json_escape (c # s) =
     (if c \<noteq> CHR ''u'' then (case simple_escape c of None \<Rightarrow> None | Some n \<Rightarrow> Some (n, s))
      else (case hex4 s of
        None \<Rightarrow> None
      | Some (n, r) \<Rightarrow>
          if 0xD800 \<le> n \<and> n \<le> 0xDBFF \<and> startswith r [CHR 0x5C, CHR ''u''] then
            (case hex4 (drop 2 r) of
               None \<Rightarrow> None
             | Some (m, t) \<Rightarrow>
                 if 0xDC00 \<le> m \<and> m \<le> 0xDFFF then Some (0x10000 + (n - 0xD800) * 1024 + (m - 0xDC00), t) else Some (n, r))
          else Some (n, r)))"

lemma hex4_length: "hex4 s = Some (n, r) \<Longrightarrow> length r < length s"
  by (cases s rule: hex4.cases) (auto split: option.splits)

lemma json_escape_length [termination_simp]: "json_escape s = Some (n, r) \<Longrightarrow> length r < length s"
  by (cases s) (auto split: if_splits option.splits dest!: hex4_length)

fun scan_string :: "bool \<Rightarrow> string \<Rightarrow> (nat list \<times> string) option" where
  "scan_string strict [] = None"
| "scan_string strict (c # s) =
     (if c = CHR 0x22 then Some ([], s)
      else if c = CHR 0x5C then
        (case json_escape s of
           None \<Rightarrow> None
         | Some (n, r) \<Rightarrow> map_option (\<lambda>(ns, t). (n # ns, t)) (scan_string strict r))
      else if strict \<and> (of_char c :: nat) < 32 then None
      else map_option (\<lambda>(ns, t). (of_char c # ns, t)) (scan_string strict s))"

definition is_digit :: "char \<Rightarrow> bool" where
  "is_digit c \<longleftrightarrow> in_range 48 57 c"

definition digits_at :: "string \<Rightarrow> string \<times> string" where
  "digits_at s = (takeWhile is_digit s, dropWhile is_digit s)"

text \<open>\<open>NUMBER_RE\<close>, part by part: the integer, and an optional fraction and exponent that have a digit.\<close>

definition int_part :: "string \<Rightarrow> (string \<times> string) option" where
  "int_part s =
     (case s of
        [] \<Rightarrow> None
      | c # r \<Rightarrow> if c = CHR ''0'' then Some ([c], r) else if is_digit c then Some (digits_at s) else None)"

definition number_fraction :: "string \<Rightarrow> string \<times> string" where
  "number_fraction s =
     (case s of
        [] \<Rightarrow> ([], s)
      | c # r \<Rightarrow>
          if c = CHR ''.'' \<and> fst (digits_at r) \<noteq> [] then (c # fst (digits_at r), snd (digits_at r)) else ([], s))"

definition exponent :: "string \<Rightarrow> string \<times> string" where
  "exponent s =
     (case s of
        [] \<Rightarrow> ([], s)
      | c # r \<Rightarrow>
          let (sign, d) = (case r of [] \<Rightarrow> ([], r) | x # y \<Rightarrow> if x = CHR ''-'' \<or> x = CHR ''+'' then ([x], y) else ([], r))
          in if (c = CHR ''e'' \<or> c = CHR ''E'') \<and> fst (digits_at d) \<noteq> []
             then (c # sign @ fst (digits_at d), snd (digits_at d)) else ([], s))"

definition json_number :: "string \<Rightarrow> (string \<times> string) option" where
  "json_number s =
     (let (sign, s) = (case s of [] \<Rightarrow> ([], s) | c # r \<Rightarrow> if c = CHR ''-'' then ([c], r) else ([], s))
      in case int_part s of
           None \<Rightarrow> None
         | Some (i, s) \<Rightarrow> (let (f, s) = number_fraction s; (e, s) = exponent s in Some (sign @ i @ f @ e, s)))"

definition json_words :: "(string \<times> json) list" where
  "json_words = [(''null'', JNull), (''true'', JBool True), (''false'', JBool False)]"

definition json_constants :: "(string \<times> json) list" where
  "json_constants = [(''NaN'', JNum ''NaN''), (''Infinity'', JNum ''Infinity''), (''-Infinity'', JNum ''-Infinity'')]"

definition word_at :: "(string \<times> json) list \<Rightarrow> string \<Rightarrow> (json \<times> string) option" where
  "word_at ws s =
     (case find (\<lambda>(w, v). startswith s w) ws of None \<Rightarrow> None | Some (w, v) \<Rightarrow> Some (v, drop (length w) s))"

definition json_atom :: "string \<Rightarrow> (json \<times> string) option" where
  "json_atom s =
     (case word_at json_words s of
        Some x \<Rightarrow> Some x
      | None \<Rightarrow> (case json_number s of Some (w, r) \<Rightarrow> Some (JNum w, r) | None \<Rightarrow> word_at json_constants s))"

text \<open>The recursive decoder, with fuel; \<open>json_fuel\<close> below shows that what \<open>json_loads\<close> gives it is enough.\<close>

fun json_value :: "nat \<Rightarrow> bool \<Rightarrow> string \<Rightarrow> (json \<times> string) option"
  and json_members :: "nat \<Rightarrow> bool \<Rightarrow> (nat list \<times> json) list \<Rightarrow> string \<Rightarrow> (json \<times> string) option"
  and json_elements :: "nat \<Rightarrow> bool \<Rightarrow> json list \<Rightarrow> string \<Rightarrow> (json \<times> string) option" where
  "json_value 0 strict s = None"
| "json_value (Suc n) strict [] = None"
| "json_value (Suc n) strict (c # s) =
     (if c = CHR 0x22 then map_option (\<lambda>(k, r). (JStr k, r)) (scan_string strict s)
      else if c = CHR 0x7B then
        (case skip_ws s of
           [] \<Rightarrow> None
         | d # r \<Rightarrow> if d = CHR 0x7D then Some (JObj [], r) else if d = CHR 0x22 then json_members n strict [] r else None)
      else if c = CHR 0x5B then
        (case skip_ws s of
           [] \<Rightarrow> None
         | d # r \<Rightarrow> if d = CHR 0x5D then Some (JArr [], r) else json_elements n strict [] (d # r))
      else json_atom (c # s))"
| "json_members 0 strict ps s = None"
| "json_members (Suc n) strict ps s =
     (case scan_string strict s of
        None \<Rightarrow> None
      | Some (k, s) \<Rightarrow>
          (case skip_ws s of
             [] \<Rightarrow> None
           | c # s \<Rightarrow>
               if c \<noteq> CHR '':'' then None
               else (case json_value n strict (skip_ws s) of
                 None \<Rightarrow> None
               | Some (v, s) \<Rightarrow>
                   (case skip_ws s of
                      [] \<Rightarrow> None
                    | c # s \<Rightarrow>
                        if c = CHR 0x7D then Some (JObj (dict_put k v ps), s)
                        else if c \<noteq> CHR '','' then None
                        else (case skip_ws s of
                          [] \<Rightarrow> None
                        | c # s \<Rightarrow> if c = CHR 0x22 then json_members n strict (dict_put k v ps) s else None)))))"
| "json_elements 0 strict vs s = None"
| "json_elements (Suc n) strict vs s =
     (case json_value n strict s of
        None \<Rightarrow> None
      | Some (v, s) \<Rightarrow>
          (case skip_ws s of
             [] \<Rightarrow> None
           | c # s \<Rightarrow>
               if c = CHR 0x5D then Some (JArr (vs @ [v]), s)
               else if c \<noteq> CHR '','' then None
               else json_elements n strict (vs @ [v]) (skip_ws s)))"

definition json_loads :: "bool \<Rightarrow> string \<Rightarrow> json option" where
  "json_loads strict s =
     (case json_value (2 * length s + 2) strict (skip_ws s) of
        None \<Rightarrow> None
      | Some (v, r) \<Rightarrow> if skip_ws r = [] then Some v else None)"

section \<open>The repairs\<close>

definition valid_escape :: "string \<Rightarrow> bool" where
  "valid_escape s \<longleftrightarrow>
     (case s of
        [] \<Rightarrow> False
      | c # r \<Rightarrow> simple_escape c \<noteq> None \<or> c = CHR ''u'' \<and> hex4 r \<noteq> None)"

fun repair_invalid_escapes :: "string \<Rightarrow> string" where
  "repair_invalid_escapes [] = []"
| "repair_invalid_escapes (c # s) =
     (if c = CHR 0x5C \<and> \<not> valid_escape s then c # c # repair_invalid_escapes s else c # repair_invalid_escapes s)"

definition next_is :: "(char \<Rightarrow> bool) \<Rightarrow> string \<Rightarrow> char list \<Rightarrow> bool" where
  "next_is sp s cs \<longleftrightarrow> (case dropWhile sp s of [] \<Rightarrow> False | c # r \<Rightarrow> List.member cs c)"

definition closers :: string where
  "closers = [CHR 0x7D, CHR 0x5D]"

fun strip_trailing_commas :: "string \<Rightarrow> string" where
  "strip_trailing_commas [] = []"
| "strip_trailing_commas (c # s) =
     (if c = CHR '','' \<and> next_is py_space s closers then strip_trailing_commas s else c # strip_trailing_commas s)"

fun fill_missing_values :: "string \<Rightarrow> string" where
  "fill_missing_values [] = []"
| "fill_missing_values (c # s) =
     (if c = CHR '':'' \<and> next_is py_space s (CHR '','' # closers) then '': null'' @ fill_missing_values s
      else c # fill_missing_values s)"

text \<open>\<open>prev\<close> is the last significant character outside strings; before the first it is the empty text, which Python
  finds in every text.\<close>

fun insert_commas :: "bool \<Rightarrow> bool \<Rightarrow> char option \<Rightarrow> string \<Rightarrow> string" where
  "insert_commas in_string escaped prev [] = []"
| "insert_commas in_string escaped prev (c # s) =
     (if in_string then
        c # (if escaped then insert_commas True False prev s
             else if c = CHR 0x5C then insert_commas True True prev s
             else if c = CHR 0x22 then insert_commas False False (Some c) s
             else insert_commas True False prev s)
      else if c = CHR 0x22 then
        (if case prev of None \<Rightarrow> True | Some p \<Rightarrow> List.member (CHR 0x22 # CHR 0x7D # ''0123456789]el'') p
         then [CHR '','', c] else [c]) @ insert_commas True escaped prev s
      else c # insert_commas False escaped (if py_space c then prev else Some c) s)"

definition insert_missing_commas :: "string \<Rightarrow> string" where
  "insert_missing_commas s = insert_commas False False None s"

datatype container = Obj | Arr
datatype place = Key | Val

definition quote_closes :: "place \<Rightarrow> string \<Rightarrow> bool" where
  "quote_closes kind s \<longleftrightarrow>
     (case skip_ws s of
        [] \<Rightarrow> kind = Val
      | c # r \<Rightarrow> if kind = Key then c = CHR '':'' else List.member (CHR '','' # closers) c)"

fun escape_quotes :: "bool \<Rightarrow> bool \<Rightarrow> place \<Rightarrow> container list \<Rightarrow> place \<Rightarrow> string \<Rightarrow> string" where
  "escape_quotes in_string escaped kind stack pos [] = []"
| "escape_quotes in_string escaped kind stack pos (c # s) =
     (if in_string then
        (if escaped then c # escape_quotes True False kind stack pos s
         else if c = CHR 0x5C then c # escape_quotes True True kind stack pos s
         else if c = CHR 0x22 then
           (if quote_closes kind s then c # escape_quotes False False kind stack pos s
            else CHR 0x5C # c # escape_quotes True False kind stack pos s)
         else c # escape_quotes True False kind stack pos s)
      else
        c # (if c = CHR 0x22 then
               escape_quotes True escaped (if stack \<noteq> [] \<and> hd stack = Obj \<and> pos = Key then Key else Val) stack pos s
             else if c = CHR 0x7B then escape_quotes False escaped kind (Obj # stack) Key s
             else if c = CHR 0x5B then escape_quotes False escaped kind (Arr # stack) Val s
             else if List.member closers c then escape_quotes False escaped kind (tl stack) pos s
             else if c = CHR '':'' then escape_quotes False escaped kind stack Val s
             else if c = CHR '','' then
               escape_quotes False escaped kind stack (if stack \<noteq> [] \<and> hd stack = Obj then Key else Val) s
             else escape_quotes False escaped kind stack pos s))"

definition escape_spurious_inner_quotes :: "string \<Rightarrow> string" where
  "escape_spurious_inner_quotes s = escape_quotes False False Val [] Val s"

text \<open>\<open>_json_scan\<close>; the stack holds the closers still needed, the innermost first.\<close>

fun json_scan_go :: "bool \<Rightarrow> bool \<Rightarrow> string \<Rightarrow> string \<Rightarrow> bool \<times> string" where
  "json_scan_go in_string escaped stack [] = (in_string, stack)"
| "json_scan_go in_string escaped stack (c # s) =
     (if in_string then
        (if escaped then json_scan_go True False stack s
         else if c = CHR 0x5C then json_scan_go True True stack s
         else if c = CHR 0x22 then json_scan_go False False stack s
         else json_scan_go True False stack s)
      else if c = CHR 0x22 then json_scan_go True escaped stack s
      else if c = CHR 0x7B then json_scan_go False escaped (CHR 0x7D # stack) s
      else if c = CHR 0x5B then json_scan_go False escaped (CHR 0x5D # stack) s
      else if List.member closers c then json_scan_go False escaped (tl stack) s
      else json_scan_go False escaped stack s)"

definition json_scan :: "string \<Rightarrow> bool \<times> string" where
  "json_scan s = json_scan_go False False [] s"

section \<open>Tolerant reading\<close>

definition truncated_key :: "nat list" where
  "truncated_key = map of_char ''__adk_cc_truncated_tool_call__''"

definition truncated_marker :: json where
  "truncated_marker = JObj [(truncated_key, JBool True)]"

text \<open>The texts tried, in order: each prefix of the repairs, the structural repairs on top of them, and, for a text
  cut outside a string, its completion by the missing closers.\<close>

definition completions :: "string \<Rightarrow> string list" where
  "completions text =
     (case json_scan text of
        (in_string, stack) \<Rightarrow>
          if in_string \<or> stack = [] then []
          else (let c0 = text @ stack; c1 = repair_invalid_escapes c0 in [c0, c1, strip_trailing_commas c1]))"

definition attempts :: "string \<Rightarrow> string list" where
  "attempts text =
     (let escaped = repair_invalid_escapes text; base = strip_trailing_commas escaped
      in [text, escaped, base, insert_missing_commas base, escape_spurious_inner_quotes base,
          escape_spurious_inner_quotes (insert_missing_commas base)]
         @ completions text)"

fun first_parsed :: "string list \<Rightarrow> json option" where
  "first_parsed [] = None"
| "first_parsed (t # ts) = (case json_loads False t of Some v \<Rightarrow> Some v | None \<Rightarrow> first_parsed ts)"

definition tolerant_loads :: "string \<Rightarrow> json" where
  "tolerant_loads s =
     (case json_loads True s of
        Some v \<Rightarrow> v
      | None \<Rightarrow> (case first_parsed (attempts s) of Some v \<Rightarrow> v | None \<Rightarrow> truncated_marker))"

text \<open>What the log says of a text that no repair parses.\<close>

datatype diagnosis = Truncated | EmptyValue | Unrecoverable

definition empty_value_recoverable :: "string \<Rightarrow> bool" where
  "empty_value_recoverable text =
     (let filled = fill_missing_values text; escaped = repair_invalid_escapes filled
      in filled \<noteq> text
         \<and> list_ex (\<lambda>t. json_loads False t \<noteq> None) [filled, escaped, strip_trailing_commas escaped])"

definition diagnose :: "string \<Rightarrow> diagnosis" where
  "diagnose text =
     (case json_scan text of
        (in_string, stack) \<Rightarrow>
          if in_string \<or> stack \<noteq> [] then Truncated
          else if empty_value_recoverable text then EmptyValue else Unrecoverable)"

text \<open>\<open>_gated_loads\<close>: recovery runs for the final parse of the arguments only.\<close>

definition gated_loads :: "bool \<Rightarrow> string \<Rightarrow> json option" where
  "gated_loads recovering s = (if recovering then Some (tolerant_loads s) else json_loads True s)"

text \<open>\<open>TruncatedToolCallPlugin.before_tool_callback\<close>: the call is refused when the marker is true in its arguments.\<close>

definition py_true :: "(string \<Rightarrow> bool) \<Rightarrow> json \<Rightarrow> bool" where
  "py_true nonzero v =
     (case v of
        JNull \<Rightarrow> False
      | JBool b \<Rightarrow> b
      | JNum w \<Rightarrow> nonzero w
      | JStr s \<Rightarrow> s \<noteq> []
      | JArr vs \<Rightarrow> vs \<noteq> []
      | JObj ps \<Rightarrow> ps \<noteq> [])"

definition refuse_call :: "(string \<Rightarrow> bool) \<Rightarrow> json \<Rightarrow> bool" where
  "refuse_call nonzero tool_args =
     (case tool_args of
        JObj ps \<Rightarrow> (case map_of ps truncated_key of None \<Rightarrow> False | Some v \<Rightarrow> py_true nonzero v)
      | _ \<Rightarrow> False)"

section \<open>The shape of a text that parses\<close>

text \<open>The grammar of the decoder with strings read loosely: a backslash and any character after it.\<close>

inductive str_body :: "string \<Rightarrow> bool" where
  body_Nil: "str_body []"
| body_char: "c \<noteq> CHR 0x22 \<Longrightarrow> c \<noteq> CHR 0x5C \<Longrightarrow> str_body b \<Longrightarrow> str_body (c # b)"
| body_escape: "str_body b \<Longrightarrow> str_body (CHR 0x5C # c # b)"

definition plain_char :: "char \<Rightarrow> bool" where
  "plain_char c \<longleftrightarrow> \<not> py_space c \<and> c \<noteq> CHR 0x22 \<and> c \<noteq> CHR 0x5C \<and> c \<noteq> CHR 0x7B \<and> c \<noteq> CHR 0x7D
     \<and> c \<noteq> CHR 0x5B \<and> c \<noteq> CHR 0x5D \<and> c \<noteq> CHR '','' \<and> c \<noteq> CHR '':''"

definition blank :: "string \<Rightarrow> bool" where
  "blank w \<longleftrightarrow> list_all json_ws w"

inductive val :: "string \<Rightarrow> bool" and mems :: "string \<Rightarrow> bool" and elems :: "string \<Rightarrow> bool" where
  val_str: "str_body b \<Longrightarrow> val (CHR 0x22 # b @ [CHR 0x22])"
| val_atom: "w \<noteq> [] \<Longrightarrow> list_all plain_char w \<Longrightarrow> val w"
| val_obj0: "blank w \<Longrightarrow> val (CHR 0x7B # w @ [CHR 0x7D])"
| val_obj: "mems m \<Longrightarrow> val (CHR 0x7B # m @ [CHR 0x7D])"
| val_arr0: "blank w \<Longrightarrow> val (CHR 0x5B # w @ [CHR 0x5D])"
| val_arr: "elems m \<Longrightarrow> val (CHR 0x5B # m @ [CHR 0x5D])"
| mem_one: "blank a \<Longrightarrow> str_body b \<Longrightarrow> blank x \<Longrightarrow> blank y \<Longrightarrow> val v \<Longrightarrow> blank z \<Longrightarrow>
    mems (a @ CHR 0x22 # b @ CHR 0x22 # x @ CHR '':'' # y @ v @ z)"
| mem_more: "blank a \<Longrightarrow> str_body b \<Longrightarrow> blank x \<Longrightarrow> blank y \<Longrightarrow> val v \<Longrightarrow> blank z \<Longrightarrow> mems m \<Longrightarrow>
    mems (a @ CHR 0x22 # b @ CHR 0x22 # x @ CHR '':'' # y @ v @ z @ CHR '','' # m)"
| elem_one: "blank y \<Longrightarrow> val v \<Longrightarrow> blank z \<Longrightarrow> elems (y @ v @ z)"
| elem_more: "blank y \<Longrightarrow> val v \<Longrightarrow> blank z \<Longrightarrow> elems m \<Longrightarrow> elems (y @ v @ z @ CHR '','' # m)"

definition document :: "string \<Rightarrow> bool" where
  "document s \<longleftrightarrow> (\<exists>y v z. s = y @ v @ z \<and> blank y \<and> val v \<and> blank z)"

lemma skip_ws_split: obtains w where "s = w @ skip_ws s" "blank w"
  using takeWhile_dropWhile_id [of json_ws s] by (metis blank_def list_all_iff set_takeWhileD)

lemma hex_value_plain: "hex_value c = Some n \<Longrightarrow> c \<noteq> CHR 0x22 \<and> c \<noteq> CHR 0x5C"
  by (auto simp: hex_value_def Let_def)

lemma hex4_split:
  assumes "hex4 s = Some (n, r)"
  obtains u where "s = u @ r" "length u = 4" "list_all (\<lambda>c. c \<noteq> CHR 0x22 \<and> c \<noteq> CHR 0x5C) u"
  using assms
proof (cases s rule: hex4.cases)
  case (1 a b c d t)
  then show ?thesis using assms that [of "[a, b, c, d]"] by (auto split: option.splits dest: hex_value_plain)
qed auto

lemma plain_body: "list_all (\<lambda>c. c \<noteq> CHR 0x22 \<and> c \<noteq> CHR 0x5C) u \<Longrightarrow> str_body b \<Longrightarrow> str_body (u @ b)"
  by (induction u) (auto intro: body_char)

lemma escape_split:
  assumes "json_escape s = Some (n, r)"
  shows "\<exists>u. s = u @ r \<and> (\<forall>b. str_body b \<longrightarrow> str_body (CHR 0x5C # u @ b))"
proof -
  obtain c t where s: "s = c # t" using assms by (cases s) auto
  show ?thesis
  proof (cases "c = CHR ''u''")
    case False
    then have "r = t" using assms s by (auto split: option.splits)
    then show ?thesis using s body_escape by (intro exI [of _ "[c]"]) simp
  next
    case True
    then obtain k t1 where h: "hex4 t = Some (k, t1)" using assms s by (auto split: option.splits)
    obtain u1 where u1: "t = u1 @ t1" "list_all (\<lambda>c. c \<noteq> CHR 0x22 \<and> c \<noteq> CHR 0x5C) u1" using hex4_split [OF h] by blast
    have one: "str_body b \<Longrightarrow> str_body (CHR 0x5C # CHR ''u'' # u1 @ b)" for b by (intro body_escape plain_body u1(2))
    show ?thesis
    proof (cases "r = t1")
      case True
      then show ?thesis using s u1(1) one \<open>c = CHR ''u''\<close> by (intro exI [of _ "CHR ''u'' # u1"]) simp
    next
      case False
      then obtain k2 where pair: "startswith t1 [CHR 0x5C, CHR ''u'']" "hex4 (drop 2 t1) = Some (k2, r)"
        using assms s h \<open>c = CHR ''u''\<close> by (auto split: option.splits if_splits)
      then obtain t2 where t1: "t1 = CHR 0x5C # CHR ''u'' # t2" by (auto simp: startswith_iff)
      obtain u2 where u2: "t2 = u2 @ r" "list_all (\<lambda>c. c \<noteq> CHR 0x22 \<and> c \<noteq> CHR 0x5C) u2"
        using hex4_split pair(2) t1 by (metis drop_Suc_Cons drop0 numeral_2_eq_2)
      have "str_body (CHR 0x5C # CHR ''u'' # u1 @ CHR 0x5C # CHR ''u'' # u2 @ b)" if "str_body b" for b
        using that by (intro one body_escape plain_body u2(2))
      then show ?thesis using s u1(1) t1 u2(1) \<open>c = CHR ''u''\<close>
        by (intro exI [of _ "CHR ''u'' # u1 @ CHR 0x5C # CHR ''u'' # u2"]) simp
    qed
  qed
qed

lemma scan_string_split: "scan_string strict s = Some (k, r) \<Longrightarrow> \<exists>b. s = b @ CHR 0x22 # r \<and> str_body b"
proof (induction strict s arbitrary: k r rule: scan_string.induct)
  case (2 strict c s)
  consider (close) "c = CHR 0x22" | (escape) "c = CHR 0x5C" | (plain) "c \<noteq> CHR 0x22" "c \<noteq> CHR 0x5C" by blast
  then show ?case
  proof cases
    case close
    then show ?thesis using 2(3) by (intro exI [of _ "[]"]) (simp add: body_Nil)
  next
    case escape
    then obtain n t ns where e: "json_escape s = Some (n, t)" and t: "scan_string strict t = Some (ns, r)"
      using 2(3) by (auto split: option.splits)
    from 2(1) [OF _ escape e _ t] escape obtain b where b: "t = b @ CHR 0x22 # r" "str_body b" by auto
    from escape_split [OF e] obtain u where u: "s = u @ t" "\<forall>b. str_body b \<longrightarrow> str_body (CHR 0x5C # u @ b)" by blast
    then show ?thesis using b escape by (intro exI [of _ "CHR 0x5C # u @ b"]) simp
  next
    case plain
    then obtain ns where t: "scan_string strict s = Some (ns, r)" "\<not> (strict \<and> (of_char c :: nat) < 32)"
      using 2(3) by (auto split: if_splits)
    from 2(2) [OF plain t(2,1)] obtain b where "s = b @ CHR 0x22 # r" "str_body b" by blast
    then show ?thesis using plain by (intro exI [of _ "c # b"]) (simp add: body_char)
  qed
qed simp

lemma digit_plain: "is_digit c \<Longrightarrow> plain_char c"
  by (auto simp: is_digit_def in_range_def plain_char_def py_space_def space_codes_def)

lemma digits_plain: "list_all plain_char (takeWhile is_digit s)"
  by (auto simp: list_all_iff dest!: set_takeWhileD digit_plain)

lemma atom_chars:
  "plain_char (CHR ''-'')" "plain_char (CHR ''+'')" "plain_char (CHR ''.'')" "plain_char (CHR ''e'')" "plain_char (CHR ''E'')" "plain_char (CHR ''0'')"
  by (simp_all add: plain_char_def py_space_def space_codes_def)

lemma int_part_split: "int_part s = Some (i, r) \<Longrightarrow> s = i @ r \<and> list_all plain_char i \<and> i \<noteq> []"
  by (auto simp: int_part_def digits_at_def digits_plain digit_plain atom_chars split: list.splits if_splits)

lemma number_fraction_split: "number_fraction s = (f, r) \<Longrightarrow> s = f @ r \<and> list_all plain_char f"
  by (auto simp: number_fraction_def digits_at_def digits_plain atom_chars split: list.splits if_splits)

lemma exponent_split: "exponent s = (f, r) \<Longrightarrow> s = f @ r \<and> list_all plain_char f"
  by (auto simp: exponent_def digits_at_def digits_plain digit_plain atom_chars Let_def split: list.splits if_splits prod.splits)

lemma number_split: "json_number s = Some (w, r) \<Longrightarrow> s = w @ r \<and> list_all plain_char w \<and> w \<noteq> []"
  by (auto simp: json_number_def atom_chars split: list.splits if_splits prod.splits option.splits
      dest!: int_part_split number_fraction_split exponent_split)

lemma word_split:
  assumes "word_at ws s = Some (v, r)" "list_all (\<lambda>(w, v). w \<noteq> [] \<and> list_all plain_char w) ws"
  shows "\<exists>w. s = w @ r \<and> list_all plain_char w \<and> w \<noteq> []"
proof -
  from assms(1) obtain w where f: "find (\<lambda>(w, v). startswith s w) ws = Some (w, v)" and r: "r = drop (length w) s"
    by (auto simp: word_at_def split: option.splits)
  from find_Some_D [OF f] have "(w, v) \<in> set ws" "startswith s w" by auto
  then show ?thesis using assms(2) r by (auto simp: startswith_iff list_all_iff)
qed

lemma words_plain: "list_all (\<lambda>(w, v). w \<noteq> [] \<and> list_all plain_char w) json_words"
  "list_all (\<lambda>(w, v). w \<noteq> [] \<and> list_all plain_char w) json_constants"
  by (simp_all add: json_words_def json_constants_def plain_char_def py_space_def space_codes_def)

lemma atom_split: "json_atom s = Some (v, r) \<Longrightarrow> \<exists>w. s = w @ r \<and> list_all plain_char w \<and> w \<noteq> []"
  using word_split [OF _ words_plain(1)] word_split [OF _ words_plain(2)] number_split
  by (auto simp: json_atom_def split: option.splits) blast+


text \<open>What the decoder read is a text of the grammar.\<close>

lemma blank_append [simp]: "blank (a @ b) \<longleftrightarrow> blank a \<and> blank b"
  by (simp add: blank_def)

lemma parsed_shape:
  "json_value n strict s = Some (v, r) \<Longrightarrow> \<exists>u. s = u @ r \<and> val u"
  "json_members n strict ps s = Some (v, r) \<Longrightarrow> \<exists>m. CHR 0x22 # s = m @ CHR 0x7D # r \<and> (\<forall>a. blank a \<longrightarrow> mems (a @ m))"
  "json_elements n strict vs s = Some (v, r) \<Longrightarrow> \<exists>m. s = m @ CHR 0x5D # r \<and> (\<forall>a. blank a \<longrightarrow> elems (a @ m))"
proof (induction n strict s and n strict ps s and n strict vs s arbitrary: v r and v r and v r
    rule: json_value_json_members_json_elements.induct)
  case (3 n strict c s)
  obtain w where w: "s = w @ skip_ws s" "blank w" by (rule skip_ws_split)
  consider (str) "c = CHR 0x22" | (obj) "c = CHR 0x7B" | (arr) "c = CHR 0x5B"
    | (atom) "c \<noteq> CHR 0x22" "c \<noteq> CHR 0x7B" "c \<noteq> CHR 0x5B" by blast
  then show ?case
  proof cases
    case str
    then obtain k where "scan_string strict s = Some (k, r)" using 3(3) by auto
    from scan_string_split [OF this] obtain b where "s = b @ CHR 0x22 # r" "str_body b" by blast
    then show ?thesis using str val_str by (intro exI [of _ "CHR 0x22 # b @ [CHR 0x22]"]) simp
  next
    case obj
    then obtain d t where d: "skip_ws s = d # t" using 3(3) by (auto split: list.splits)
    show ?thesis
    proof (cases "d = CHR 0x7D")
      case True
      then have "r = t" using 3(3) obj d by auto
      then show ?thesis using w d True obj val_obj0 by (intro exI [of _ "CHR 0x7B # w @ [CHR 0x7D]"]) simp
    next
      case False
      then have q: "d = CHR 0x22" and m: "json_members n strict [] t = Some (v, r)" using 3(3) obj d by (auto split: if_splits)
      from 3(1) [OF _ obj d False q m] obj obtain m where "CHR 0x22 # t = m @ CHR 0x7D # r" "\<forall>a. blank a \<longrightarrow> mems (a @ m)" by auto
      then show ?thesis using w d q obj val_obj [of "w @ m"] by (intro exI [of _ "CHR 0x7B # w @ m @ [CHR 0x7D]"]) simp
    qed
  next
    case arr
    then obtain d t where d: "skip_ws s = d # t" using 3(3) by (auto split: list.splits)
    show ?thesis
    proof (cases "d = CHR 0x5D")
      case True
      then have "r = t" using 3(3) arr d by auto
      then show ?thesis using w d True arr val_arr0 by (intro exI [of _ "CHR 0x5B # w @ [CHR 0x5D]"]) simp
    next
      case False
      then have m: "json_elements n strict [] (d # t) = Some (v, r)" using 3(3) arr d by (auto split: if_splits)
      from 3(2) [OF _ _ arr d False m] arr obtain m where "d # t = m @ CHR 0x5D # r" "\<forall>a. blank a \<longrightarrow> elems (a @ m)" by auto
      then show ?thesis using w d arr val_arr [of "w @ m"] by (intro exI [of _ "CHR 0x5B # w @ m @ [CHR 0x5D]"]) simp
    qed
  next
    case atom
    then have "json_atom (c # s) = Some (v, r)" using 3(3) by simp
    from atom_split [OF this] show ?thesis using val_atom by blast
  qed
next
  case (5 n strict ps s)
  from 5(3) obtain k t where k: "scan_string strict s = Some (k, t)" by (auto split: option.splits)
  with 5(3) obtain t1 where t1: "skip_ws t = CHR '':'' # t1" by (auto split: list.splits if_splits)
  from 5(3) k t1 obtain x t2 where x: "json_value n strict (skip_ws t1) = Some (x, t2)" by (auto split: option.splits)
  from 5(3) k t1 x obtain d t3 where d: "skip_ws t2 = d # t3" by (auto split: list.splits)
  from scan_string_split [OF k] obtain b where b: "s = b @ CHR 0x22 # t" "str_body b" by blast
  obtain w1 where w1: "t = w1 @ skip_ws t" "blank w1" by (rule skip_ws_split)
  obtain w2 where w2: "t1 = w2 @ skip_ws t1" "blank w2" by (rule skip_ws_split)
  obtain w3 where w3: "t2 = w3 @ skip_ws t2" "blank w3" by (rule skip_ws_split)
  from 5(1) [OF k refl t1 _ x] obtain u where u: "skip_ws t1 = u @ t2" "val u" by auto
  let ?m = "CHR 0x22 # b @ CHR 0x22 # w1 @ CHR '':'' # w2 @ u @ w3"
  have s: "CHR 0x22 # s = ?m @ d # t3"
    using b(1) w1(1) t1 w2(1) u(1) w3(1) d by simp
  show ?case
  proof (cases "d = CHR 0x7D")
    case True
    then have "r = t3" using 5(3) k t1 x d by simp
    moreover have "mems (a @ ?m)" if "blank a" for a
      using mem_one [OF that b(2) w1(2) w2(2) u(2) w3(2)] by simp
    ultimately show ?thesis using s True by blast
  next
    case False
    then have c: "d = CHR '',''" using 5(3) k t1 x d by (auto split: if_splits)
    with 5(3) k t1 x d obtain t4 where t4: "skip_ws t3 = CHR 0x22 # t4" by (auto split: list.splits if_splits)
    obtain w4 where w4: "t3 = w4 @ skip_ws t3" "blank w4" by (rule skip_ws_split)
    from 5(3) k t1 x d c t4 have rest: "json_members n strict (dict_put k x ps) t4 = Some (v, r)" by simp
    from 5(2) [OF k refl t1 _ x refl d _ _ t4 refl rest] c obtain m
      where m: "CHR 0x22 # t4 = m @ CHR 0x7D # r" "\<forall>a. blank a \<longrightarrow> mems (a @ m)" by auto
    have "mems (a @ ?m @ CHR '','' # w4 @ m)" if "blank a" for a
      using mem_more [OF that b(2) w1(2) w2(2) u(2) w3(2), of "w4 @ m"] m(2) w4(2) by simp
    moreover have "CHR 0x22 # s = (?m @ CHR '','' # w4 @ m) @ CHR 0x7D # r" using s c w4(1) t4 m(1) by simp
    ultimately show ?thesis by blast
  qed
next
  case (7 n strict vs s)
  from 7(3) obtain x t where x: "json_value n strict s = Some (x, t)" by (auto split: option.splits)
  from 7(3) x obtain d t1 where d: "skip_ws t = d # t1" by (auto split: list.splits)
  from 7(1) [OF x] obtain u where u: "s = u @ t" "val u" by blast
  obtain w1 where w1: "t = w1 @ skip_ws t" "blank w1" by (rule skip_ws_split)
  have s: "s = (u @ w1) @ d # t1" using u(1) w1(1) d by simp
  show ?case
  proof (cases "d = CHR 0x5D")
    case True
    then have "r = t1" using 7(3) x d by simp
    moreover have "elems (a @ u @ w1)" if "blank a" for a using elem_one [OF that u(2) w1(2)] .
    ultimately show ?thesis using s True by blast
  next
    case False
    then have c: "d = CHR '',''" and rest: "json_elements n strict (vs @ [x]) (skip_ws t1) = Some (v, r)"
      using 7(3) x d by (auto split: if_splits)
    obtain w2 where w2: "t1 = w2 @ skip_ws t1" "blank w2" by (rule skip_ws_split)
    from 7(2) [OF x refl d False _ rest] c obtain m where m: "skip_ws t1 = m @ CHR 0x5D # r" "\<forall>a. blank a \<longrightarrow> elems (a @ m)" by auto
    have "elems (a @ u @ w1 @ CHR '','' # w2 @ m)" if "blank a" for a
      using elem_more [OF that u(2) w1(2), of "w2 @ m"] m(2) w2(2) by simp
    moreover have "s = (u @ w1 @ CHR '','' # w2 @ m) @ CHR 0x5D # r" using s c w2(1) m(1) by simp
    ultimately show ?thesis by blast
  qed
qed simp_all

lemma loads_document: "json_loads strict s = Some v \<Longrightarrow> document s"
proof -
  assume "json_loads strict s = Some v"
  then obtain r where v: "json_value (2 * length s + 2) strict (skip_ws s) = Some (v, r)" "skip_ws r = []"
    by (auto simp: json_loads_def split: option.splits if_splits)
  obtain w where w: "s = w @ skip_ws s" "blank w" by (rule skip_ws_split)
  from parsed_shape(1) [OF v(1)] obtain u where "skip_ws s = u @ r" "val u" by blast
  moreover have "blank r" using v(2) by (simp add: blank_def list_all_iff dropWhile_eq_Nil_conv)
  ultimately show ?thesis using w unfolding document_def by metis
qed


section \<open>The fuel is enough\<close>

lemma skip_ws_length: "length (skip_ws s) \<le> length s"
  by (rule length_dropWhile_le)

lemma skip_ws_Cons: "skip_ws s = c # r \<Longrightarrow> length r < length s"
  using skip_ws_length [of s] by simp

lemma scan_string_length: "scan_string strict s = Some (k, r) \<Longrightarrow> length r < length s"
  using scan_string_split by fastforce

lemma value_length:
  assumes "json_value n strict s = Some (v, r)"
  shows "length r < length s"
proof -
  have "u \<noteq> []" if "val u" for u using that by (cases rule: val.cases) auto
  with parsed_shape(1) [OF assms] show ?thesis by auto
qed

lemma json_fuel:
  "2 * length s + 1 \<le> n \<Longrightarrow> json_value (Suc n) strict s = json_value n strict s"
  "2 * length s + 1 \<le> n \<Longrightarrow> json_members (Suc n) strict ps s = json_members n strict ps s"
  "2 * length s + 2 \<le> n \<Longrightarrow> json_elements (Suc n) strict vs s = json_elements n strict vs s"
proof (induction n strict s and n strict ps s and n strict vs s rule: json_value_json_members_json_elements.induct)
  case (3 n strict c s)
  note dropWhile_eq_Nil_conv [simp del]
  show ?case
  proof (cases "skip_ws s")
    case Nil
    then show ?thesis by simp
  next
    case (Cons d r)
    then have "length r < length s" by (rule skip_ws_Cons)
    then show ?thesis using 3 Cons by simp
  qed
next
  case (5 n strict ps s)
  note dropWhile_eq_Nil_conv [simp del]
  show ?case
  proof (cases "scan_string strict s")
    case (Some k)
    then obtain k t where k: "scan_string strict s = Some (k, t)" by (cases k) auto
    have lt: "length t < length s" by (rule scan_string_length [OF k])
    show ?thesis
    proof (cases "skip_ws t")
      case (Cons c t1)
      note c = Cons
      have l1: "length t1 < length t" by (rule skip_ws_Cons [OF Cons])
      then have v: "json_value (Suc n) strict (skip_ws t1) = json_value n strict (skip_ws t1)" if "c = CHR '':''"
        using 5(1) [OF k refl Cons] 5(3) lt skip_ws_length [of t1] that by simp
      show ?thesis
      proof (cases "json_value n strict (skip_ws t1)")
        case None
        then show ?thesis using k Cons v by simp
      next
        case (Some x)
        then obtain x t2 where x: "json_value n strict (skip_ws t1) = Some (x, t2)" by (cases x) auto
        have l2: "length t2 < length t1" using value_length [OF x] skip_ws_length [of t1] by simp
        show ?thesis
        proof (cases "skip_ws t2")
          case (Cons d t3)
          note d = Cons
          have l3: "length t3 < length t2" by (rule skip_ws_Cons [OF d])
          show ?thesis
          proof (cases "skip_ws t3")
            case (Cons e t4)
            have l4: "length t4 < length t3" by (rule skip_ws_Cons [OF Cons])
            have m: "json_members (Suc n) strict (dict_put k x ps) t4 = json_members n strict (dict_put k x ps) t4"
              if "c = CHR '':''" "d = CHR '',''" "e = CHR 0x22"
              using 5(2) [OF k refl c _ x refl d _ _ Cons] 5(3) lt l1 l2 l3 l4 that by simp
            show ?thesis using k c v x d Cons m by (auto simp del: json_value.simps)
          qed (use k c v x d in \<open>auto simp del: json_value.simps\<close>)
        qed (use k c v x in \<open>auto simp del: json_value.simps\<close>)
      qed
    qed (use k in simp)
  qed simp
next
  case (7 n strict vs s)
  note dropWhile_eq_Nil_conv [simp del]
  have v: "json_value (Suc n) strict s = json_value n strict s" using 7(1,3) by simp
  show ?case
  proof (cases "json_value n strict s")
    case None
    then show ?thesis using v by (simp del: json_value.simps)
  next
    case (Some x)
    then obtain x t where x: "json_value n strict s = Some (x, t)" by (cases x) auto
    have lt: "length t < length s" by (rule value_length [OF x])
    show ?thesis
    proof (cases "skip_ws t")
      case (Cons d t1)
      have l1: "length (skip_ws t1) < length t" using skip_ws_Cons [OF Cons] skip_ws_length [of t1] by simp
      have "json_elements (Suc n) strict (vs @ [x]) (skip_ws t1) = json_elements n strict (vs @ [x]) (skip_ws t1)"
        if "d = CHR '',''"
        using 7(2) [OF x refl Cons] 7(3) lt l1 that by simp
      then show ?thesis using v x Cons by (auto simp del: json_value.simps)
    qed (use v x in \<open>simp del: json_value.simps\<close>)
  qed
qed simp_all


lemma json_fuel_enough:
  assumes "2 * length s + 1 \<le> n"
  shows "json_value n strict s = json_value (2 * length s + 1) strict s"
  using assms
proof (induction n rule: dec_induct)
  case (step n)
  then show ?case using json_fuel(1) [of s n strict] by simp
qed simp

section \<open>A document is nested well\<close>

text \<open>The nesting of \<open>_json_scan\<close> with closers that match, no backslash outside strings and no comma before a closer.\<close>

fun nest :: "bool \<Rightarrow> bool \<Rightarrow> string \<Rightarrow> string \<Rightarrow> bool" where
  "nest i e k [] \<longleftrightarrow> \<not> i \<and> k = []"
| "nest i e k (c # s) \<longleftrightarrow>
     (if i then
        (if e then nest True False k s
         else if c = CHR 0x5C then nest True True k s
         else if c = CHR 0x22 then nest False False k s
         else nest True False k s)
      else if c = CHR 0x22 then nest True e k s
      else if c = CHR 0x7B then nest False e (CHR 0x7D # k) s
      else if c = CHR 0x5B then nest False e (CHR 0x5D # k) s
      else if List.member closers c then k \<noteq> [] \<and> hd k = c \<and> nest False e (tl k) s
      else c \<noteq> CHR 0x5C \<and> \<not> (c = CHR '','' \<and> next_is py_space s closers) \<and> nest False e k s)"

lemma json_ws_space: "json_ws c \<Longrightarrow> py_space c"
  by (auto simp: json_ws_def py_space_def space_codes_def)

lemma blank_space: "blank w \<Longrightarrow> c \<in> set w \<Longrightarrow> py_space c"
  by (auto simp: blank_def list_all_iff json_ws_space)

lemma next_is_blank: "blank w \<Longrightarrow> next_is py_space (w @ s) cs = next_is py_space s cs"
  using blank_space by (simp add: next_is_def dropWhile_append)

lemma next_is_Cons: "\<not> py_space c \<Longrightarrow> next_is py_space (c # s) cs \<longleftrightarrow> List.member cs c"
  by (simp add: next_is_def)

lemma closers_iff [simp]: "List.member closers c \<longleftrightarrow> c = CHR 0x7D \<or> c = CHR 0x5D"
  by (auto simp: closers_def)

lemma set_closers [simp]: "set closers = {CHR 0x7D, CHR 0x5D}"
  by (simp add: closers_def)

lemma quote_not_space [simp]: "\<not> py_space (CHR 0x22)" "\<not> py_space (CHR 0x7B)" "\<not> py_space (CHR 0x5B)"
  "\<not> py_space (CHR 0x7D)" "\<not> py_space (CHR 0x5D)" "\<not> py_space (CHR '','')"  "\<not> py_space (CHR '':'')"  "\<not> py_space (CHR 0x5C)"
  by (simp_all add: py_space_def space_codes_def)

lemma val_first:
  assumes "val u"
  shows "\<not> next_is py_space (u @ r) closers"
  using assms
proof (cases u rule: val.cases)
  case val_atom
  then obtain c t where u: "u = c # t" "plain_char c" by (cases u) auto
  from u(2) have "\<not> py_space c" "c \<noteq> CHR 0x7D" "c \<noteq> CHR 0x5D" unfolding plain_char_def by blast+
  then show ?thesis by (simp add: u(1) next_is_Cons)
qed (simp_all add: next_is_Cons)

lemma mems_first: "mems m \<Longrightarrow> \<not> next_is py_space (m @ r) closers"
  by (cases m rule: mems.cases) (auto simp: next_is_Cons next_is_blank)

lemma elems_first: "elems m \<Longrightarrow> \<not> next_is py_space (m @ r) closers"
  by (cases m rule: elems.cases) (auto simp: next_is_blank val_first)

lemma nest_body: "str_body b \<Longrightarrow> nest True False k (b @ r) = nest True False k r"
  by (induction rule: str_body.induct) auto

lemma nest_skip: "list_all (\<lambda>c. plain_char c \<or> json_ws c) w \<Longrightarrow> nest False False k (w @ r) = nest False False k r"
proof (induction w)
  case (Cons c w)
  have "c \<noteq> CHR 0x22" "c \<noteq> CHR 0x5C" "c \<noteq> CHR 0x7B" "c \<noteq> CHR 0x7D" "c \<noteq> CHR 0x5B" "c \<noteq> CHR 0x5D" "c \<noteq> CHR '',''"
  proof -
    from Cons.prems have "plain_char c \<or> json_ws c" by simp
    then show "c \<noteq> CHR 0x22" "c \<noteq> CHR 0x5C" "c \<noteq> CHR 0x7B" "c \<noteq> CHR 0x7D" "c \<noteq> CHR 0x5B" "c \<noteq> CHR 0x5D" "c \<noteq> CHR '',''"
      unfolding plain_char_def json_ws_def by fastforce+
  qed
  with Cons show ?case by simp
qed simp

lemma nest_blank: "blank w \<Longrightarrow> nest False False k (w @ r) = nest False False k r"
  by (rule nest_skip) (auto simp: blank_def list_all_iff)

lemma nest_val:
  "val u \<Longrightarrow> nest False False k (u @ r) = nest False False k r"
  "mems m \<Longrightarrow> nest False False k (m @ r) = nest False False k r"
  "elems m \<Longrightarrow> nest False False k (m @ r) = nest False False k r"
proof (induction arbitrary: k r and k r and k r rule: val_mems_elems.inducts)
  case (val_atom w)
  then show ?case by (intro nest_skip) (auto simp: list_all_iff)
qed (auto simp: nest_body nest_blank mems_first elems_first)

lemma document_nest: "document s \<Longrightarrow> nest False False [] s"
  by (auto simp: document_def nest_blank nest_val(1)) (use nest_blank [of _ "[]" "[]"] in auto)

lemma nest_scan: "nest i e k s \<Longrightarrow> json_scan_go i e k s = (False, [])"
  by (induction i e k s rule: nest.induct) (auto split: if_splits)

lemma parsed_scan: "json_loads strict s = Some v \<Longrightarrow> json_scan s = (False, [])"
  unfolding json_scan_def by (intro nest_scan document_nest loads_document)


section \<open>What the repairs do to a document\<close>

lemma repair_no_backslash: "CHR 0x5C \<notin> set w \<Longrightarrow> repair_invalid_escapes (w @ r) = w @ repair_invalid_escapes r"
  by (induction w) auto

lemma valid_escape_quote [simp]: "valid_escape (CHR 0x22 # s)" "valid_escape (CHR 0x5C # s)"
  by (simp_all add: valid_escape_def simple_escape_def)

lemma body_repair: "str_body b \<Longrightarrow> \<exists>b'. str_body b' \<and> repair_invalid_escapes (b @ CHR 0x22 # r) = b' @ CHR 0x22 # repair_invalid_escapes r"
proof (induction rule: str_body.induct)
  case body_Nil
  then show ?case using str_body.body_Nil by (intro exI [of _ "[]"]) simp
next
  case (body_char c b)
  then obtain b' where "str_body b'" "repair_invalid_escapes (b @ CHR 0x22 # r) = b' @ CHR 0x22 # repair_invalid_escapes r" by blast
  then show ?case using body_char by (intro exI [of _ "c # b'"]) (simp add: str_body.body_char)
next
  case (body_escape b c)
  then obtain b' where b': "str_body b'" "repair_invalid_escapes (b @ CHR 0x22 # r) = b' @ CHR 0x22 # repair_invalid_escapes r" by blast
  show ?case
  proof (cases "c = CHR 0x5C \<and> \<not> valid_escape (b @ CHR 0x22 # r)")
    case True
    then obtain x t where bx: "b = x # t" by (cases b) auto
    then have "x \<noteq> CHR 0x22" "x \<noteq> CHR 0x5C" using True by auto
    note b = bx this
    with b'(2) obtain t' where t': "b' = x # t'" by (cases b') auto
    then have "str_body t'" using b'(1) b by (auto elim: str_body.cases)
    then have "str_body (CHR 0x5C # CHR 0x5C # CHR 0x5C # b')" unfolding t' by (intro str_body.body_escape)
    then show ?thesis using True b'(2) by (intro exI [of _ "CHR 0x5C # CHR 0x5C # CHR 0x5C # b'"]) simp
  next
    case False
    show ?thesis
    proof (cases "valid_escape (c # b @ CHR 0x22 # r)")
      case True
      then show ?thesis using False b' by (intro exI [of _ "CHR 0x5C # c # b'"]) (auto intro: str_body.body_escape)
    next
      case False
      then have c: "c \<noteq> CHR 0x22" "c \<noteq> CHR 0x5C" by auto
      then have "str_body (CHR 0x5C # CHR 0x5C # c # b')" using b'(1) by (intro str_body.body_escape str_body.body_char)
      then show ?thesis using False c b'(2) by (intro exI [of _ "CHR 0x5C # CHR 0x5C # c # b'"]) simp
    qed
  qed
qed

lemma not_json_ws: "\<not> json_ws (CHR 0x5C)" "\<not> json_ws (CHR '','')" "\<not> json_ws (CHR 0x22)" "\<not> json_ws (CHR '':'')"
  "\<not> json_ws (CHR 0x7B)" "\<not> json_ws (CHR 0x7D)" "\<not> json_ws (CHR 0x5B)" "\<not> json_ws (CHR 0x5D)"
  by (simp_all add: json_ws_def)

lemma blank_no: "blank w \<Longrightarrow> CHR 0x5C \<notin> set w \<and> CHR '','' \<notin> set w \<and> CHR 0x22 \<notin> set w"
  unfolding blank_def list_all_iff using not_json_ws by blast

lemma not_plain: "\<not> plain_char (CHR 0x5C)" "\<not> plain_char (CHR '','')" "\<not> plain_char (CHR 0x22)"
  by (simp_all add: plain_char_def)

lemma plain_no: "list_all plain_char w \<Longrightarrow> CHR 0x5C \<notin> set w \<and> CHR '','' \<notin> set w \<and> CHR 0x22 \<notin> set w"
  unfolding list_all_iff using not_plain by blast

lemma strip_no_comma: "CHR '','' \<notin> set w \<Longrightarrow> strip_trailing_commas (w @ r) = w @ strip_trailing_commas r"
  by (induction w) auto

text \<open>A repair that works piece by piece takes a document to a document.\<close>

locale piecewise =
  fixes f :: "string \<Rightarrow> string"
  assumes Nil: "f [] = []"
    and quoted: "str_body b \<Longrightarrow> \<exists>b'. str_body b' \<and> f (b @ CHR 0x22 # r) = b' @ CHR 0x22 # f r"
    and kept: "CHR 0x5C \<notin> set w \<Longrightarrow> CHR '','' \<notin> set w \<Longrightarrow> f (w @ r) = w @ f r"
    and comma: "\<not> next_is py_space r closers \<Longrightarrow> f (CHR '','' # r) = CHR '','' # f r"
begin

lemma kept_blank: "blank w \<Longrightarrow> f (w @ r) = w @ f r"
  using kept blank_no by blast

lemma kept_char: "c \<noteq> CHR 0x5C \<Longrightarrow> c \<noteq> CHR '','' \<Longrightarrow> f (c # r) = c # f r"
  using kept [of "[c]" r] by simp

lemma kept_val:
  "val u \<Longrightarrow> \<exists>u'. val u' \<and> f (u @ r) = u' @ f r"
  "mems m \<Longrightarrow> \<exists>m'. mems m' \<and> f (m @ r) = m' @ f r"
  "elems m \<Longrightarrow> \<exists>m'. elems m' \<and> f (m @ r) = m' @ f r"
proof (induction arbitrary: r and r and r rule: val_mems_elems.inducts)
  case (val_str b)
  from quoted [OF val_str(1), of r] obtain b' where "str_body b'" "f (b @ CHR 0x22 # r) = b' @ CHR 0x22 # f r" by blast
  then show ?case using val_mems_elems.val_str by (intro exI [of _ "CHR 0x22 # b' @ [CHR 0x22]"]) (simp add: kept_char)
next
  case (val_atom w)
  then show ?case using kept [of w r] plain_no val_mems_elems.val_atom by blast
next
  case (val_obj0 w)
  then show ?case using val_mems_elems.val_obj0 by (intro exI [of _ "CHR 0x7B # w @ [CHR 0x7D]"]) (simp add: kept_char kept_blank)
next
  case (val_obj m)
  from val_obj.IH [of "CHR 0x7D # r"] obtain m' where "mems m'" "f (m @ CHR 0x7D # r) = m' @ f (CHR 0x7D # r)" by blast
  then show ?case using val_mems_elems.val_obj by (intro exI [of _ "CHR 0x7B # m' @ [CHR 0x7D]"]) (simp add: kept_char)
next
  case (val_arr0 w)
  then show ?case using val_mems_elems.val_arr0 by (intro exI [of _ "CHR 0x5B # w @ [CHR 0x5D]"]) (simp add: kept_char kept_blank)
next
  case (val_arr m)
  from val_arr.IH [of "CHR 0x5D # r"] obtain m' where "elems m'" "f (m @ CHR 0x5D # r) = m' @ f (CHR 0x5D # r)" by blast
  then show ?case using val_mems_elems.val_arr by (intro exI [of _ "CHR 0x5B # m' @ [CHR 0x5D]"]) (simp add: kept_char)
next
  case (mem_one a b x y v z)
  from mem_one.IH [of "z @ r"] obtain v' where v: "val v'" "f (v @ z @ r) = v' @ f (z @ r)" by blast
  from quoted [OF mem_one.hyps(2), of "x @ CHR '':'' # y @ v @ z @ r"] obtain b' where b: "str_body b'"
    "f (b @ CHR 0x22 # x @ CHR '':'' # y @ v @ z @ r) = b' @ CHR 0x22 # f (x @ CHR '':'' # y @ v @ z @ r)" by blast
  show ?case using val_mems_elems.mem_one [OF mem_one.hyps(1) b(1) mem_one.hyps(3,4) v(1) mem_one.hyps(6)]
    by (intro exI conjI) (assumption, simp add: kept_char kept_blank mem_one.hyps b(2) v(2))
next
  case (mem_more a b x y v z m)
  from mem_more.IH(2) [of r] obtain m' where m: "mems m'" "f (m @ r) = m' @ f r" by blast
  from mem_more.IH(1) [of "z @ CHR '','' # m @ r"] obtain v' where v: "val v'" "f (v @ z @ CHR '','' # m @ r) = v' @ f (z @ CHR '','' # m @ r)" by blast
  from quoted [OF mem_more.hyps(2), of "x @ CHR '':'' # y @ v @ z @ CHR '','' # m @ r"] obtain b' where b: "str_body b'"
    "f (b @ CHR 0x22 # x @ CHR '':'' # y @ v @ z @ CHR '','' # m @ r) = b' @ CHR 0x22 # f (x @ CHR '':'' # y @ v @ z @ CHR '','' # m @ r)" by blast
  show ?case using val_mems_elems.mem_more [OF mem_more.hyps(1) b(1) mem_more.hyps(3,4) v(1) mem_more.hyps(6) m(1)]
    by (intro exI conjI) (assumption, simp add: kept_char kept_blank mem_more.hyps b(2) v(2) m(2) comma mems_first [OF mem_more.hyps(7)])
next
  case (elem_one y v z)
  from elem_one.IH [of "z @ r"] obtain v' where v: "val v'" "f (v @ z @ r) = v' @ f (z @ r)" by blast
  show ?case using val_mems_elems.elem_one [OF elem_one.hyps(1) v(1) elem_one.hyps(3)]
    by (intro exI conjI) (assumption, simp add: kept_blank elem_one.hyps v(2))
next
  case (elem_more y v z m)
  from elem_more.IH(2) [of r] obtain m' where m: "elems m'" "f (m @ r) = m' @ f r" by blast
  from elem_more.IH(1) [of "z @ CHR '','' # m @ r"] obtain v' where v: "val v'" "f (v @ z @ CHR '','' # m @ r) = v' @ f (z @ CHR '','' # m @ r)" by blast
  show ?case using val_mems_elems.elem_more [OF elem_more.hyps(1) v(1) elem_more.hyps(3) m(1)]
    by (intro exI conjI) (assumption, simp add: kept_blank elem_more.hyps v(2) m(2) comma elems_first [OF elem_more.hyps(4)])
qed

lemma kept_start: "skip_ws s = CHR 0x7B # t \<Longrightarrow> skip_ws (f s) = CHR 0x7B # f t"
proof -
  assume t: "skip_ws s = CHR 0x7B # t"
  obtain w where w: "s = w @ skip_ws s" "blank w" by (rule skip_ws_split)
  have "f s = w @ f (CHR 0x7B # t)" using w(1) t kept_blank [OF w(2), of "CHR 0x7B # t"] by simp
  also have "f (CHR 0x7B # t) = CHR 0x7B # f t" by (rule kept_char) simp_all
  finally have "f s = w @ CHR 0x7B # f t" .
  then show ?thesis using w(2) by (simp add: blank_def list_all_iff dropWhile_append not_json_ws)
qed

lemma kept_document: "document s \<Longrightarrow> document (f s)"
proof -
  assume "document s"
  then obtain y v z where s: "s = y @ v @ z" "blank y" "val v" "blank z" by (auto simp: document_def)
  from kept_val(1) [OF s(3), of z] obtain v' where "val v'" "f (v @ z) = v' @ f z" by blast
  moreover have "f z = z" using kept_blank [OF s(4), of "[]"] by (simp add: Nil)
  ultimately show ?thesis using s kept_blank by (auto simp: document_def)
qed

end

interpretation escapes: piecewise repair_invalid_escapes
  by unfold_locales (simp, rule body_repair, assumption, simp_all add: repair_no_backslash)

lemma body_strip:
  "str_body b \<Longrightarrow> \<exists>b'. str_body b' \<and> strip_trailing_commas (b @ CHR 0x22 # r) = b' @ CHR 0x22 # strip_trailing_commas r"
proof (induction rule: str_body.induct)
  case body_Nil
  then show ?case using str_body.body_Nil by (intro exI [of _ "[]"]) simp
next
  case (body_char c b)
  then obtain b' where "str_body b'" "strip_trailing_commas (b @ CHR 0x22 # r) = b' @ CHR 0x22 # strip_trailing_commas r" by blast
  then have "strip_trailing_commas ((c # b) @ CHR 0x22 # r) = b' @ CHR 0x22 # strip_trailing_commas r
      \<or> strip_trailing_commas ((c # b) @ CHR 0x22 # r) = (c # b') @ CHR 0x22 # strip_trailing_commas r" by simp
  then show ?case using str_body.body_char [OF body_char(1,2)] \<open>str_body b'\<close> by blast
next
  case (body_escape b c)
  then obtain b' where b': "str_body b'" "strip_trailing_commas (b @ CHR 0x22 # r) = b' @ CHR 0x22 # strip_trailing_commas r" by blast
  show ?case
  proof (cases "c = CHR '','' \<and> next_is py_space (b @ CHR 0x22 # r) closers")
    case True
    then obtain x t where b: "b = x # t" by (cases b) (auto simp: next_is_Cons)
    then have "py_space x \<or> List.member closers x" using True by (cases "py_space x") (simp_all add: next_is_Cons)
    then have x: "x \<noteq> CHR '',''" "x \<noteq> CHR 0x22" "x \<noteq> CHR 0x5C" by auto
    with b b'(2) obtain t' where t': "b' = x # t'" by (cases b') auto
    then have "str_body t'" using b'(1) t' x by (auto elim: str_body.cases)
    then have "str_body (CHR 0x5C # b')" unfolding t' by (rule str_body.body_escape)
    then show ?thesis using True b'(2) by (intro exI [of _ "CHR 0x5C # b'"]) simp
  next
    case False
    then show ?thesis using b' by (intro exI [of _ "CHR 0x5C # c # b'"]) (auto intro: str_body.body_escape)
  qed
qed

interpretation commas: piecewise strip_trailing_commas
  by unfold_locales (simp, rule body_strip, assumption, simp_all add: strip_no_comma)


text \<open>The structural repairs leave a document as it is.\<close>

definition ends_value :: "char \<Rightarrow> bool" where
  "ends_value p \<longleftrightarrow> List.member (CHR 0x22 # CHR 0x7D # ''0123456789]el'') p"

lemma insert_body: "str_body b \<Longrightarrow> insert_commas True False prev (b @ CHR 0x22 # r) = b @ CHR 0x22 # insert_commas False False (Some (CHR 0x22)) r"
  by (induction rule: str_body.induct) auto

lemma insert_unquoted: "CHR 0x22 \<notin> set w \<Longrightarrow> \<exists>prev'. insert_commas False False prev (w @ r) = w @ insert_commas False False prev' r"
proof (induction w arbitrary: prev)
  case (Cons c w)
  from Cons.IH [of "if py_space c then prev else Some c"] Cons.prems show ?case by auto
qed auto

lemma insert_blank: "blank w \<Longrightarrow> insert_commas False False prev (w @ r) = w @ insert_commas False False prev r"
proof (induction w)
  case (Cons c w)
  then have "py_space c" "c \<noteq> CHR 0x22" by (simp_all add: blank_def json_ws_space) (auto simp: not_json_ws)
  with Cons show ?case by (simp add: blank_def)
qed simp

lemma insert_quote:
  "\<not> ends_value p \<Longrightarrow> str_body b \<Longrightarrow>
     insert_commas False False (Some p) (CHR 0x22 # b @ CHR 0x22 # r) = CHR 0x22 # b @ CHR 0x22 # insert_commas False False (Some (CHR 0x22)) r"
  by (simp add: ends_value_def insert_body)

lemma starts_value: "\<not> ends_value (CHR 0x7B)" "\<not> ends_value (CHR 0x5B)" "\<not> ends_value (CHR '','')" "\<not> ends_value (CHR '':'')"
  by (simp_all add: ends_value_def)

lemma insert_char: "c \<noteq> CHR 0x22 \<Longrightarrow> \<not> py_space c \<Longrightarrow> insert_commas False False prev (c # r) = c # insert_commas False False (Some c) r"
  by simp

lemma insert_val:
  "val u \<Longrightarrow> \<not> ends_value p \<Longrightarrow> \<exists>p'. insert_commas False False (Some p) (u @ r) = u @ insert_commas False False p' r"
  "mems m \<Longrightarrow> \<not> ends_value p \<Longrightarrow> \<exists>p'. insert_commas False False (Some p) (m @ r) = m @ insert_commas False False p' r"
  "elems m \<Longrightarrow> \<not> ends_value p \<Longrightarrow> \<exists>p'. insert_commas False False (Some p) (m @ r) = m @ insert_commas False False p' r"
proof (induction arbitrary: p r and p r and p r rule: val_mems_elems.inducts)
  case (val_str b)
  then show ?case using insert_quote [of p b r] by auto
next
  case (val_atom w)
  then show ?case using insert_unquoted [of w "Some p" r] plain_no by blast
next
  case (val_obj0 w)
  then show ?case by (auto simp: insert_char insert_blank simp del: insert_commas.simps)
next
  case (val_obj m)
  from val_obj.IH [OF starts_value(1), of "CHR 0x7D # r"] show ?case by (auto simp: insert_char simp del: insert_commas.simps)
next
  case (val_arr0 w)
  then show ?case by (auto simp: insert_char insert_blank simp del: insert_commas.simps)
next
  case (val_arr m)
  from val_arr.IH [OF starts_value(2), of "CHR 0x5D # r"] show ?case by (auto simp: insert_char simp del: insert_commas.simps)
next
  case (mem_one a b x y v z)
  from mem_one.IH [OF starts_value(4), of "z @ r"] mem_one.hyps mem_one.prems show ?case
    by (auto simp: insert_char insert_blank insert_quote simp del: insert_commas.simps)
next
  case (mem_more a b x y v z m)
  from mem_more.IH(1) [OF starts_value(4), of "z @ CHR '','' # m @ r"] mem_more.IH(2) [OF starts_value(3), of r] mem_more.hyps mem_more.prems
  show ?case by (auto simp: insert_char insert_blank insert_quote simp del: insert_commas.simps)
next
  case (elem_one y v z)
  from elem_one.IH [OF elem_one.prems, of "z @ r"] elem_one.hyps show ?case
    by (auto simp: insert_blank simp del: insert_commas.simps)
next
  case (elem_more y v z m)
  from elem_more.IH(1) [OF elem_more.prems, of "z @ CHR '','' # m @ r"] elem_more.IH(2) [OF starts_value(3), of r] elem_more.hyps
  show ?case by (auto simp: insert_char insert_blank simp del: insert_commas.simps)
qed

lemma closes_blank: "blank w \<Longrightarrow> quote_closes k (w @ s) = quote_closes k s"
  by (simp add: quote_closes_def blank_def list_all_iff dropWhile_append)

lemma closes_Cons: "\<not> json_ws c \<Longrightarrow> quote_closes k (c # s) \<longleftrightarrow> (if k = Key then c = CHR '':'' else c = CHR '','' \<or> c = CHR 0x7D \<or> c = CHR 0x5D)"
  by (auto simp: quote_closes_def)

lemma escape_body:
  "str_body b \<Longrightarrow> quote_closes kind r \<Longrightarrow>
     escape_quotes True False kind st pos (b @ CHR 0x22 # r) = b @ CHR 0x22 # escape_quotes False False kind st pos r"
  by (induction rule: str_body.induct) auto

definition string_place :: "container list \<Rightarrow> place \<Rightarrow> place" where
  "string_place st pos = (if st \<noteq> [] \<and> hd st = Obj \<and> pos = Key then Key else Val)"

lemma escape_quote:
  "str_body b \<Longrightarrow> quote_closes (string_place st pos) r \<Longrightarrow>
     \<exists>kind'. escape_quotes False False kind st pos (CHR 0x22 # b @ CHR 0x22 # r) = CHR 0x22 # b @ CHR 0x22 # escape_quotes False False kind' st pos r"
  using escape_body [of b "string_place st pos" r st pos] by (auto simp: string_place_def)

lemma escape_skip:
  "list_all (\<lambda>c. plain_char c \<or> json_ws c) w \<Longrightarrow>
     escape_quotes False False kind st pos (w @ r) = w @ escape_quotes False False kind st pos r"
proof (induction w)
  case (Cons c w)
  have "c \<noteq> CHR 0x22" "c \<noteq> CHR 0x7B" "c \<noteq> CHR 0x7D" "c \<noteq> CHR 0x5B" "c \<noteq> CHR 0x5D" "c \<noteq> CHR '',''" "c \<noteq> CHR '':''"
  proof -
    from Cons.prems have "plain_char c \<or> json_ws c" by simp
    then show "c \<noteq> CHR 0x22" "c \<noteq> CHR 0x7B" "c \<noteq> CHR 0x7D" "c \<noteq> CHR 0x5B" "c \<noteq> CHR 0x5D" "c \<noteq> CHR '',''" "c \<noteq> CHR '':''"
      unfolding plain_char_def json_ws_def by fastforce+
  qed
  with Cons show ?case by simp
qed simp

lemma escape_blank: "blank w \<Longrightarrow> escape_quotes False False kind st pos (w @ r) = w @ escape_quotes False False kind st pos r"
  by (rule escape_skip) (auto simp: blank_def list_all_iff)

lemma escape_punctuation:
  "escape_quotes False False kind st pos (CHR 0x7B # r) = CHR 0x7B # escape_quotes False False kind (Obj # st) Key r"
  "escape_quotes False False kind st pos (CHR 0x5B # r) = CHR 0x5B # escape_quotes False False kind (Arr # st) Val r"
  "escape_quotes False False kind st pos (CHR 0x7D # r) = CHR 0x7D # escape_quotes False False kind (tl st) pos r"
  "escape_quotes False False kind st pos (CHR 0x5D # r) = CHR 0x5D # escape_quotes False False kind (tl st) pos r"
  "escape_quotes False False kind st pos (CHR '':'' # r) = CHR '':'' # escape_quotes False False kind st Val r"
  "escape_quotes False False kind (Obj # st) pos (CHR '','' # r) = CHR '','' # escape_quotes False False kind (Obj # st) Key r"
  "escape_quotes False False kind (Arr # st) pos (CHR '','' # r) = CHR '','' # escape_quotes False False kind (Arr # st) Val r"
  by simp_all

lemma escape_val:
  "val u \<Longrightarrow> string_place st pos = Val \<Longrightarrow> quote_closes Val r \<Longrightarrow>
     \<exists>kind' pos'. escape_quotes False False kind st pos (u @ r) = u @ escape_quotes False False kind' st pos' r"
  "mems m \<Longrightarrow> quote_closes Val r \<Longrightarrow>
     \<exists>kind' pos'. escape_quotes False False kind (Obj # st) Key (m @ r) = m @ escape_quotes False False kind' (Obj # st) pos' r"
  "elems m \<Longrightarrow> quote_closes Val r \<Longrightarrow>
     \<exists>kind' pos'. escape_quotes False False kind (Arr # st) pos (m @ r) = m @ escape_quotes False False kind' (Arr # st) pos' r"
proof (induction arbitrary: kind st pos r and kind st r and kind st pos r rule: val_mems_elems.inducts)
  case (val_str b)
  then show ?case using escape_quote [of b st pos r kind] by (auto simp del: escape_quotes.simps)
next
  case (val_atom w)
  then have "list_all (\<lambda>c. plain_char c \<or> json_ws c) w" by (simp add: list_all_iff)
  then show ?case using escape_skip by blast
next
  case (val_obj0 w)
  then show ?case by (auto simp: escape_punctuation escape_blank simp del: escape_quotes.simps)
next
  case (val_obj m)
  have "quote_closes Val (CHR 0x7D # r)" by (simp add: closes_Cons not_json_ws)
  from val_obj.IH [OF this, of kind st] show ?case by (auto simp: escape_punctuation simp del: escape_quotes.simps)
next
  case (val_arr0 w)
  then show ?case by (auto simp: escape_punctuation escape_blank simp del: escape_quotes.simps)
next
  case (val_arr m)
  have "quote_closes Val (CHR 0x5D # r)" by (simp add: closes_Cons not_json_ws)
  from val_arr.IH [OF this, of kind st Val] show ?case by (auto simp: escape_punctuation simp del: escape_quotes.simps)
next
  case (mem_one a b x y v z)
  have "quote_closes (string_place (Obj # st) Key) (x @ CHR '':'' # y @ v @ z @ r)"
    by (simp add: string_place_def closes_blank [OF mem_one.hyps(3)] closes_Cons not_json_ws)
  from escape_quote [OF mem_one.hyps(2) this, of kind] obtain k1 where k1:
    "escape_quotes False False kind (Obj # st) Key (CHR 0x22 # b @ CHR 0x22 # x @ CHR '':'' # y @ v @ z @ r)
      = CHR 0x22 # b @ CHR 0x22 # escape_quotes False False k1 (Obj # st) Key (x @ CHR '':'' # y @ v @ z @ r)" by blast
  have "string_place (Obj # st) Val = Val" "quote_closes Val (z @ r)"
    using mem_one.prems by (simp_all add: string_place_def closes_blank [OF mem_one.hyps(6)])
  from mem_one.IH [OF this, of k1] show ?case
    by (auto simp: k1 escape_punctuation escape_blank mem_one.hyps simp del: escape_quotes.simps)
next
  case (mem_more a b x y v z m)
  have "quote_closes (string_place (Obj # st) Key) (x @ CHR '':'' # y @ v @ z @ CHR '','' # m @ r)"
    by (simp add: string_place_def closes_blank [OF mem_more.hyps(3)] closes_Cons not_json_ws)
  from escape_quote [OF mem_more.hyps(2) this, of kind] obtain k1 where k1:
    "escape_quotes False False kind (Obj # st) Key (CHR 0x22 # b @ CHR 0x22 # x @ CHR '':'' # y @ v @ z @ CHR '','' # m @ r)
      = CHR 0x22 # b @ CHR 0x22 # escape_quotes False False k1 (Obj # st) Key (x @ CHR '':'' # y @ v @ z @ CHR '','' # m @ r)" by blast
  have "string_place (Obj # st) Val = Val" "quote_closes Val (z @ CHR '','' # m @ r)"
    by (simp_all add: string_place_def closes_blank [OF mem_more.hyps(6)] closes_Cons not_json_ws)
  from mem_more.IH(1) [OF this, of k1] obtain k2 p2 where k2:
    "escape_quotes False False k1 (Obj # st) Val (v @ z @ CHR '','' # m @ r) = v @ escape_quotes False False k2 (Obj # st) p2 (z @ CHR '','' # m @ r)"
    by blast
  from mem_more.IH(2) [OF mem_more.prems, of k2 st] show ?case
    by (auto simp: k1 k2 escape_punctuation escape_blank mem_more.hyps simp del: escape_quotes.simps)
next
  case (elem_one y v z)
  have "string_place (Arr # st) pos = Val" "quote_closes Val (z @ r)"
    using elem_one.prems by (simp_all add: string_place_def closes_blank [OF elem_one.hyps(3)])
  from elem_one.IH [OF this, of kind] show ?case
    by (auto simp: escape_blank elem_one.hyps simp del: escape_quotes.simps)
next
  case (elem_more y v z m)
  have "string_place (Arr # st) pos = Val" "quote_closes Val (z @ CHR '','' # m @ r)"
    by (simp_all add: string_place_def closes_blank [OF elem_more.hyps(3)] closes_Cons not_json_ws)
  from elem_more.IH(1) [OF this, of kind] obtain k2 p2 where k2:
    "escape_quotes False False kind (Arr # st) pos (v @ z @ CHR '','' # m @ r) = v @ escape_quotes False False k2 (Arr # st) p2 (z @ CHR '','' # m @ r)"
    by blast
  from elem_more.IH(2) [OF elem_more.prems, of k2 st Val] show ?case
    by (auto simp: k2 escape_punctuation escape_blank elem_more.hyps simp del: escape_quotes.simps)
qed


lemma document_escape: "document s \<Longrightarrow> escape_spurious_inner_quotes s = s"
proof -
  assume "document s"
  then obtain y v z where s: "s = y @ v @ z" "blank y" "val v" "blank z" by (auto simp: document_def)
  have "string_place [] Val = Val" "quote_closes Val z"
    using closes_blank [OF s(4), of Val "[]"] by (simp_all add: string_place_def quote_closes_def)
  from escape_val(1) [OF s(3) this, of Val] show ?thesis
    unfolding escape_spurious_inner_quotes_def s(1)
    using escape_blank [OF s(2)] escape_blank [OF s(4), of _ _ _ "[]"] by auto
qed

definition object_text :: "string \<Rightarrow> bool" where
  "object_text s \<longleftrightarrow> document s \<and> (\<exists>t. skip_ws s = CHR 0x7B # t)"

lemma document_insert:
  assumes "object_text s"
  shows "insert_missing_commas s = s"
proof -
  from assms obtain y v z t where s: "s = y @ v @ z" "blank y" "val v" "blank z" and t: "skip_ws s = CHR 0x7B # t"
    by (auto simp: object_text_def document_def)
  have "skip_ws s = skip_ws (v @ z)" using s(1,2) by (simp add: blank_def list_all_iff dropWhile_append)
  moreover have "skip_ws (v @ z) = v @ z" using s(3) by (cases v rule: val.cases) (auto simp: not_json_ws neq_Nil_conv plain_char_def dest: json_ws_space)
  ultimately have "v @ z = CHR 0x7B # t" using t by simp
  then have "insert_commas False False None (v @ z) = insert_commas False False (Some (CHR 0x7B)) (v @ z)" by simp
  also obtain p where "\<dots> = v @ insert_commas False False p z" using insert_val(1) [OF s(3) starts_value(1), of z] by blast
  finally show ?thesis
    unfolding insert_missing_commas_def s(1) using insert_blank [OF s(2)] insert_blank [OF s(4), of _ "[]"] by simp
qed

lemma object_loads: "json_loads strict s = Some (JObj ps) \<Longrightarrow> object_text s"
proof -
  assume l: "json_loads strict s = Some (JObj ps)"
  then obtain n r where v: "json_value (Suc n) strict (skip_ws s) = Some (JObj ps, r)"
    by (auto simp: json_loads_def numeral_2_eq_2 split: option.splits if_splits)
  then obtain c t where c: "skip_ws s = c # t" by (cases "skip_ws s") auto
  have e: "json_elements n strict vs x \<noteq> Some (JObj ps, r)" for vs x
    by (induction n arbitrary: vs x) (auto split: option.splits list.splits)
  have a: "json_atom x \<noteq> Some (JObj ps, r)" for x
    by (auto simp: json_atom_def word_at_def json_words_def json_constants_def split: option.splits prod.splits if_splits)
  have "c = CHR 0x7B" using v c e a by (auto split: if_splits list.splits)
  then show ?thesis using c loads_document [OF l] by (simp add: object_text_def)
qed

section \<open>What the repairs do to the scan of any text\<close>

lemma scan_skip: "x \<noteq> CHR 0x22 \<Longrightarrow> x \<noteq> CHR 0x5C \<Longrightarrow> json_scan_go True e k (x # s) = json_scan_go True False k s"
  by simp

lemma scan_repair: "json_scan_go i e k (repair_invalid_escapes s) = json_scan_go i e k s"
proof (induction s arbitrary: i e k)
  case (Cons c s)
  show ?case
  proof (cases "c = CHR 0x5C \<and> \<not> valid_escape s \<and> i")
    case True
    show ?thesis
    proof (cases s)
      case Nil
      then show ?thesis using True by simp
    next
      case (Cons x t)
      then have x: "x \<noteq> CHR 0x22" "x \<noteq> CHR 0x5C" using True by auto
      have r: "repair_invalid_escapes s = x # repair_invalid_escapes t" using Cons x by simp
      have "json_scan_go True False k (repair_invalid_escapes t) = json_scan_go True False k t"
        using Cons.IH [of True True k] r Cons x by (simp del: repair_invalid_escapes.simps)
      moreover have "repair_invalid_escapes (c # s) = c # c # x # repair_invalid_escapes t" using True by (simp add: r)
      ultimately show ?thesis using True Cons x by (simp del: repair_invalid_escapes.simps)
    qed
  qed (auto simp: Cons)
qed simp

lemma scan_strip: "json_scan_go i e k (strip_trailing_commas s) = json_scan_go i e k s"
proof (induction s arbitrary: i e k)
  case (Cons c s)
  show ?case
  proof (cases "c = CHR '','' \<and> next_is py_space s closers \<and> i \<and> e")
    case True
    then obtain x t where s: "s = x # t" by (cases s) (auto simp: next_is_def)
    then have "py_space x \<or> List.member closers x" using True by (cases "py_space x") (simp_all add: next_is_Cons)
    then have x: "x \<noteq> CHR '',''" "x \<noteq> CHR 0x22" "x \<noteq> CHR 0x5C" by auto
    then show ?thesis using True Cons [of True True k] s by simp
  qed (auto simp: Cons)
qed simp

lemma scan_insert: "json_scan_go i e k (insert_commas i e p s) = json_scan_go i e k s"
proof (induction s arbitrary: i e p k)
  case (Cons c s)
  show ?case
  proof (cases i)
    case True
    then show ?thesis by (cases e; cases "c = CHR 0x5C"; cases "c = CHR 0x22"; simp add: Cons)
  next
    case False
    then show ?thesis
      by (cases "c = CHR 0x22"; cases "case p of None \<Rightarrow> True | Some p \<Rightarrow> List.member (CHR 0x22 # CHR 0x7D # ''0123456789]el'') p";
          simp add: Cons)
  qed
qed simp

section \<open>A text that is the beginning of a document\<close>

lemma quote_ends_string: "fst (json_scan_go True e k s) = False \<Longrightarrow> CHR 0x22 \<in> set s"
  by (induction s arbitrary: e) (auto split: if_splits)

lemma hex4_append:
  assumes "CHR 0x22 \<in> set s"
  shows "hex4 (s @ r) = None \<longleftrightarrow> hex4 s = None"
proof (cases "4 \<le> length s")
  case True
  then obtain a b c d t where "s = a # b # c # d # t" by (cases s rule: hex4.cases) auto
  then show ?thesis by (auto split: option.splits)
next
  case False
  then have "hex4 s = None" by (cases s rule: hex4.cases) auto
  moreover have "hex4 (s @ r) = None"
  proof (rule ccontr)
    assume "hex4 (s @ r) \<noteq> None"
    then obtain n t where "hex4 (s @ r) = Some (n, t)" by auto
    then obtain u where u: "s @ r = u @ t" "length u = 4" "list_all (\<lambda>c. c \<noteq> CHR 0x22 \<and> c \<noteq> CHR 0x5C) u" by (rule hex4_split)
    have "take (length s) u = s" using arg_cong [OF u(1), of "take (length s)"] u(2) False by simp
    then have "CHR 0x22 \<in> set u" using assms in_set_takeD by metis
    then show False using u(3) unfolding list_all_iff by blast
  qed
  ultimately show ?thesis by simp
qed

lemma valid_escape_append: "CHR 0x22 \<in> set s \<Longrightarrow> valid_escape (s @ r) = valid_escape s"
proof (cases s)
  case (Cons c t)
  assume "CHR 0x22 \<in> set s"
  then have "c = CHR 0x22 \<or> CHR 0x22 \<in> set t" using Cons by auto
  then show ?thesis
  proof
    assume "c = CHR 0x22"
    then show ?thesis by (simp add: Cons)
  next
    assume "CHR 0x22 \<in> set t"
    from hex4_append [OF this, of r] show ?thesis unfolding Cons append_Cons valid_escape_def list.case by simp
  qed
qed simp

lemma repair_append:
  "nest i e k (a @ d) \<Longrightarrow> fst (json_scan_go i e k a) = False \<Longrightarrow> repair_invalid_escapes (a @ b) = repair_invalid_escapes a @ repair_invalid_escapes b"
proof (induction a arbitrary: i e k)
  case (Cons c a)
  have v: "valid_escape (a @ b) = valid_escape a" if "c = CHR 0x5C"
  proof (rule valid_escape_append)
    show "CHR 0x22 \<in> set a" using Cons.prems that quote_ends_string by (auto split: if_splits)
  qed
  obtain i' e' k' where "nest i' e' k' (a @ d)" "fst (json_scan_go i' e' k' a) = False"
    using Cons.prems by (auto split: if_splits)
  from Cons.IH [OF this] v show ?case by simp
qed simp

lemma strip_append:
  "nest i e k (a @ c # d) \<Longrightarrow> fst (json_scan_go i e k a) = False \<Longrightarrow> \<not> py_space c \<Longrightarrow>
     strip_trailing_commas (a @ c # b) = strip_trailing_commas a @ strip_trailing_commas (c # b)"
proof (induction a arbitrary: i e k)
  case (Cons x a)
  obtain i' e' k' where n: "nest i' e' k' (a @ c # d)" "fst (json_scan_go i' e' k' a) = False"
    using Cons.prems by (auto split: if_splits)
  have v: "next_is py_space (a @ c # b) closers = next_is py_space a closers" if "x = CHR '',''"
  proof (cases "dropWhile py_space a = []")
    case True
    then have sp: "\<forall>y \<in> set a. py_space y" by simp
    then have "CHR 0x22 \<notin> set a" by auto
    then have "\<not> i" using Cons.prems(2) quote_ends_string that by (auto split: if_splits)
    then have "\<not> next_is py_space (a @ c # d) closers" using Cons.prems(1) that by auto
    moreover have "next_is py_space (a @ c # b) closers = next_is py_space (a @ c # d) closers"
      using sp Cons.prems(3) by (simp add: next_is_def dropWhile_append)
    ultimately have "\<not> next_is py_space (a @ c # b) closers" by blast
    then show ?thesis using True by (simp add: next_is_def del: dropWhile_eq_Nil_conv)
  next
    case False
    then show ?thesis by (auto simp: next_is_def dropWhile_append split: list.split)
  qed
  from Cons.IH [OF n Cons.prems(3)] v show ?case by simp
qed simp


lemma insert_prefix:
  "insert_commas i e p (a @ c # R) = a @ c # R \<Longrightarrow> fst (json_scan_go i e k a) = False \<Longrightarrow> i \<or> \<not> e \<Longrightarrow>
     \<exists>p'. (\<forall>b. insert_commas i e p (a @ b) = a @ insert_commas False False p' b) \<and> insert_commas False False p' (c # R) = c # R"
proof (induction a arbitrary: i e p k)
  case Nil
  then show ?case by auto
next
  case (Cons x a)
  consider (escaped) "i" "e" | (backslash) "i" "\<not> e" "x = CHR 0x5C" | (close) "i" "\<not> e" "x = CHR 0x22"
    | (inside) "i" "\<not> e" "x \<noteq> CHR 0x5C" "x \<noteq> CHR 0x22" | (start) "\<not> i" "x = CHR 0x22" | (outside) "\<not> i" "x \<noteq> CHR 0x22" by blast
  then show ?case
  proof cases
    case escaped
    then show ?thesis using Cons.IH [of True False p k] Cons.prems by auto
  next
    case backslash
    then show ?thesis using Cons.IH [of True True p k] Cons.prems by auto
  next
    case close
    then show ?thesis using Cons.IH [of False False "Some x" k] Cons.prems by auto
  next
    case inside
    then show ?thesis using Cons.IH [of True False p k] Cons.prems by auto
  next
    case start
    then have n: "\<not> (case p of None \<Rightarrow> True | Some p \<Rightarrow> List.member (CHR 0x22 # CHR 0x7D # ''0123456789]el'') p)"
      using Cons.prems(1) by (auto split: if_splits)
    then show ?thesis using start n Cons.IH [of True e p k] Cons.prems by auto
  next
    case outside
    obtain k' where "fst (json_scan_go False e k' a) = False" using outside Cons.prems(2) by (auto split: if_splits)
    then show ?thesis using outside Cons.IH [of False e "if py_space x then p else Some x" k'] Cons.prems by auto
  qed
qed

lemma escape_prefix:
  "escape_quotes i e kind st pos (a @ c # R) = a @ c # R \<Longrightarrow> fst (json_scan_go i e k a) = False \<Longrightarrow> i \<or> \<not> e \<Longrightarrow>
     \<not> json_ws c \<Longrightarrow> c \<noteq> CHR '':'' \<Longrightarrow> b = [] \<or> (\<exists>Q. b = c # Q) \<Longrightarrow>
     \<exists>kind' st' pos'. escape_quotes i e kind st pos (a @ b) = a @ escape_quotes False False kind' st' pos' b"
proof (induction a arbitrary: i e kind st pos k)
  case Nil
  then show ?case by auto
next
  case (Cons x a)
  note IH = Cons.IH [OF _ _ _ Cons.prems(4-6)]
  consider (escaped) "i" "e" | (backslash) "i" "\<not> e" "x = CHR 0x5C" | (close) "i" "\<not> e" "x = CHR 0x22"
    | (inside) "i" "\<not> e" "x \<noteq> CHR 0x5C" "x \<noteq> CHR 0x22" | (outside) "\<not> i" by blast
  then show ?case
  proof cases
    case escaped
    then show ?thesis using IH [of True False kind st pos k] Cons.prems by auto
  next
    case backslash
    then show ?thesis using IH [of True True kind st pos k] Cons.prems by auto
  next
    case close
    then have cl: "quote_closes kind (a @ c # R)" using Cons.prems(1) by (auto split: if_splits)
    have "quote_closes kind (a @ b)"
    proof (cases "skip_ws a = []")
      case True
      then have bl: "blank a" by (simp add: blank_def list_all_iff)
      then have "quote_closes kind (c # R)" using cl closes_blank by blast
      then have "quote_closes kind b" using Cons.prems(4-6) by (auto simp: closes_Cons quote_closes_def split: if_splits) (cases kind; simp)+
      then show ?thesis using closes_blank [OF bl] by blast
    next
      case False
      then have "skip_ws (a @ z) = skip_ws a @ z" for z by (auto simp: dropWhile_append)
      then show ?thesis using cl False by (cases "skip_ws a") (auto simp: quote_closes_def)
    qed
    then show ?thesis using close cl IH [of False False kind st pos k] Cons.prems(1,2) by auto
  next
    case inside
    then show ?thesis using IH [of True False kind st pos k] Cons.prems by auto
  next
    case outside
    have "\<exists>kind2 st2 pos2. \<forall>z. escape_quotes False e kind st pos (x # z) = x # escape_quotes (x = CHR 0x22) e kind2 st2 pos2 z"
      using escape_punctuation [of kind st pos]
      by (cases "x = CHR 0x22"; cases "x = CHR 0x7B"; cases "x = CHR 0x5B"; cases "x = CHR 0x7D \<or> x = CHR 0x5D"; cases "x = CHR '':''";
          cases "x = CHR '',''"; simp; blast)
    then obtain kind2 st2 pos2 where e: "\<And>z. escape_quotes False e kind st pos (x # z) = x # escape_quotes (x = CHR 0x22) e kind2 st2 pos2 z" by blast
    obtain k' where "fst (json_scan_go (x = CHR 0x22) e k' a) = False" using outside Cons.prems(2) by (auto split: if_splits)
    moreover have "escape_quotes (x = CHR 0x22) e kind2 st2 pos2 (a @ c # R) = a @ c # R" using Cons.prems(1) outside e by simp
    ultimately show ?thesis using IH [of "x = CHR 0x22" e kind2 st2 pos2 k'] outside Cons.prems(3) e by auto
  qed
qed

section \<open>A text that was cut\<close>

lemma kept_object:
  "object_text s \<Longrightarrow> object_text (repair_invalid_escapes s)"
  "object_text s \<Longrightarrow> object_text (strip_trailing_commas s)"
  unfolding object_text_def
  using escapes.kept_document escapes.kept_start commas.kept_document commas.kept_start by blast+

text \<open>The rest of a string that is not closed.\<close>

fun open_body :: "bool \<Rightarrow> string \<Rightarrow> bool" where
  "open_body e [] = True"
| "open_body e (c # s) =
     (if e then open_body False s else if c = CHR 0x5C then open_body True s else c \<noteq> CHR 0x22 \<and> open_body False s)"

lemma open_scan: "open_body e q \<Longrightarrow> json_scan_go True e k q = (True, k)"
  by (induction e q rule: open_body.induct) (auto split: if_splits)

lemma open_split:
  "fst (json_scan_go i e k t) \<Longrightarrow> i \<or> \<not> e \<Longrightarrow>
     i \<and> open_body e t \<or> (\<exists>p q. t = p @ CHR 0x22 # q \<and> fst (json_scan_go i e k p) = False \<and> open_body False q)"
proof (induction t arbitrary: i e k)
  case (Cons c t)
  obtain i' e' k' where s: "\<And>x. json_scan_go i e k (c # x) = json_scan_go i' e' k' x" "i' \<or> \<not> e'"
    and o: "i' \<and> open_body e' t \<longrightarrow> i \<and> open_body e (c # t) \<or> \<not> i \<and> c = CHR 0x22 \<and> open_body False t"
  proof (cases i)
    case True
    then show ?thesis
      using that [of True False k] that [of True True k] that [of False False k] by (cases e; cases "c = CHR 0x22"; cases "c = CHR 0x5C"; simp)
  next
    case False
    then have "\<exists>k'. \<forall>x. json_scan_go i e k (c # x) = json_scan_go (c = CHR 0x22) e k' x"
      by (cases "c = CHR 0x22"; cases "c = CHR 0x7B"; cases "c = CHR 0x5B"; cases "c = CHR 0x7D \<or> c = CHR 0x5D"; simp; blast)
    then obtain k' where "\<And>x. json_scan_go i e k (c # x) = json_scan_go (c = CHR 0x22) e k' x" by blast
    then show ?thesis using that [of "c = CHR 0x22" e k'] False Cons.prems(2) by auto
  qed
  have "fst (json_scan_go i' e' k' t)" using Cons.prems(1) s(1) by simp
  from Cons.IH [OF this s(2)] consider "i' \<and> open_body e' t"
    | p q where "t = p @ CHR 0x22 # q" "fst (json_scan_go i' e' k' p) = False" "open_body False q" by blast
  then show ?case
  proof cases
    case 1
    then show ?thesis using o by (metis append_Nil fst_conv json_scan_go.simps(1))
  next
    case (2 p q)
    then have "c # t = (c # p) @ CHR 0x22 # q" "fst (json_scan_go i e k (c # p)) = False" using s(1) by simp_all
    then show ?thesis using 2(3) by blast
  qed
qed simp

lemma open_skip: "x \<noteq> CHR 0x22 \<Longrightarrow> x \<noteq> CHR 0x5C \<Longrightarrow> open_body e (x # s) = open_body False s"
  by simp

lemma open_repair: "open_body e q \<Longrightarrow> open_body e (repair_invalid_escapes q)"
proof (induction e q rule: open_body.induct)
  case (2 e c s)
  show ?case
  proof (cases "c = CHR 0x5C \<and> \<not> valid_escape s")
    case True
    show ?thesis
    proof (cases s)
      case Nil
      then show ?thesis using True by simp
    next
      case (Cons x t)
      then have x: "x \<noteq> CHR 0x22" "x \<noteq> CHR 0x5C" using True by auto
      have r: "repair_invalid_escapes s = x # repair_invalid_escapes t" using Cons x by simp
      have "open_body e' (repair_invalid_escapes s) = open_body False (repair_invalid_escapes t)" for e'
        unfolding r using x by (rule open_skip)
      moreover have "repair_invalid_escapes (c # s) = c # c # repair_invalid_escapes s" using True by simp
      ultimately show ?thesis using 2 True by (auto split: if_splits simp del: repair_invalid_escapes.simps)
    qed
  qed (use 2 in \<open>auto split: if_splits\<close>)
qed simp

lemma open_strip: "open_body e q \<Longrightarrow> open_body e (strip_trailing_commas q)"
proof (induction e q rule: open_body.induct)
  case (2 e c s)
  show ?case
  proof (cases "c = CHR '','' \<and> next_is py_space s closers")
    case True
    then obtain x t where s: "s = x # t" by (cases s) (auto simp: next_is_def)
    then have "py_space x \<or> List.member closers x" using True by (cases "py_space x") (simp_all add: next_is_Cons)
    then have x: "x \<noteq> CHR '',''" "x \<noteq> CHR 0x22" "x \<noteq> CHR 0x5C" by auto
    have r: "strip_trailing_commas s = x # strip_trailing_commas t" using s x by simp
    have "open_body e' (strip_trailing_commas s) = open_body False (strip_trailing_commas t)" for e'
      unfolding r using x(2,3) by (rule open_skip)
    moreover have "strip_trailing_commas (c # s) = strip_trailing_commas s" using True by simp
    ultimately show ?thesis using 2 True by (auto split: if_splits simp del: strip_trailing_commas.simps)
  qed (use 2 in \<open>auto split: if_splits\<close>)
qed simp

lemma open_insert: "open_body e q \<Longrightarrow> insert_commas True e p q = q"
  by (induction e q rule: open_body.induct) (auto split: if_splits)

lemma open_escape: "open_body e q \<Longrightarrow> escape_quotes True e kind st pos q = q"
  by (induction e q rule: open_body.induct) (auto split: if_splits)

text \<open>The repairs of a cut object: nothing is there for the two structural ones.\<close>

lemma cut_repairs:
  assumes full: "json_loads strict (p @ c # R) = Some (JObj ps)" and p: "fst (json_scan p) = False"
    and c: "c = CHR 0x22 \<or> c = CHR 0x7D \<or> c = CHR 0x5D"
    and b: "b = [] \<or> c = CHR 0x22 \<and> (\<exists>q. b = c # q \<and> open_body False q)"
  shows "insert_missing_commas (strip_trailing_commas (repair_invalid_escapes (p @ b))) = strip_trailing_commas (repair_invalid_escapes (p @ b))"
    "escape_spurious_inner_quotes (strip_trailing_commas (repair_invalid_escapes (p @ b))) = strip_trailing_commas (repair_invalid_escapes (p @ b))"
proof -
  let ?P = "strip_trailing_commas (repair_invalid_escapes p)"
  let ?r = "\<lambda>s. strip_trailing_commas (repair_invalid_escapes s)"
  have c1: "\<not> py_space c" "\<not> json_ws c" "c \<noteq> CHR '':''" "c \<noteq> CHR 0x5C" "c \<noteq> CHR '',''" using c by (auto simp: not_json_ws)
  have o: "object_text (p @ c # R)" by (rule object_loads [OF full])
  then have n: "nest False False [] (p @ c # R)" by (simp add: object_text_def document_nest)
  note esc = repair_append [OF n p [unfolded json_scan_def]]
  have s: "repair_invalid_escapes (c # x) = c # repair_invalid_escapes x" for x using c1 by simp
  have o1: "object_text (repair_invalid_escapes p @ c # repair_invalid_escapes R)" using kept_object(1) [OF o] esc s by simp
  then have n1: "nest False False [] (repair_invalid_escapes p @ c # repair_invalid_escapes R)" by (simp add: object_text_def document_nest)
  have p1: "fst (json_scan_go False False [] (repair_invalid_escapes p)) = False" using p by (simp add: scan_repair json_scan_def)
  note str = strip_append [OF n1 p1 c1(1)]
  have t: "strip_trailing_commas (c # x) = c # strip_trailing_commas x" for x using c1 by simp
  have full': "?r (p @ c # x) = ?P @ c # ?r x" for x using esc [of "c # x"] s str t by simp
  have o2: "object_text (?P @ c # ?r R)" using kept_object(2) [OF o1] str t by simp
  have p2: "fst (json_scan_go False False [] ?P) = False" using p1 by (simp add: scan_strip)
  have i: "insert_commas False False None (?P @ c # ?r R) = ?P @ c # ?r R"
    using document_insert [OF o2] by (simp add: insert_missing_commas_def)
  have e: "escape_quotes False False Val [] Val (?P @ c # ?r R) = ?P @ c # ?r R"
    using document_escape o2 by (simp add: object_text_def escape_spurious_inner_quotes_def)
  obtain p' where ip: "\<And>x. insert_commas False False None (?P @ x) = ?P @ insert_commas False False p' x"
    "insert_commas False False p' (c # ?r R) = c # ?r R"
    using insert_prefix [OF i p2] by blast
  have d: "?r (p @ b) = ?P @ ?r b" "?r b = [] \<or> (\<exists>Q. ?r b = c # Q)" using b full' s t by auto
  obtain k' s' q' where ep: "escape_quotes False False Val [] Val (?P @ ?r b) = ?P @ escape_quotes False False k' s' q' (?r b)"
    using escape_prefix [OF e p2 _ c1(2,3) d(2)] by blast
  have rb: "insert_commas False False p' (?r b) = ?r b \<and> escape_quotes False False k' s' q' (?r b) = ?r b" using b
  proof
    assume "c = CHR 0x22 \<and> (\<exists>q. b = c # q \<and> open_body False q)"
    then obtain q where q: "c = CHR 0x22" "b = c # q" "open_body False q" by blast
    then have oq: "open_body False (?r q)" by (intro open_strip open_repair)
    have r: "?r b = CHR 0x22 # ?r q" using q by simp
    have "\<not> (case p' of None \<Rightarrow> True | Some p \<Rightarrow> List.member (CHR 0x22 # CHR 0x7D # ''0123456789]el'') p)"
      using ip(2) q(1) by (auto split: if_splits)
    then have "insert_commas False False p' (CHR 0x22 # ?r q) = CHR 0x22 # ?r q" by (simp add: open_insert [OF oq])
    moreover have "escape_quotes False False k' s' q' (CHR 0x22 # ?r q) = CHR 0x22 # ?r q" by (simp add: open_escape [OF oq])
    ultimately show ?thesis unfolding r by blast
  qed simp
  show "insert_missing_commas (?r (p @ b)) = ?r (p @ b)" "escape_spurious_inner_quotes (?r (p @ b)) = ?r (p @ b)"
    using ip(1) ep rb by (simp_all add: d(1) insert_missing_commas_def escape_spurious_inner_quotes_def)
qed

lemma unbalanced_fails: "json_scan s \<noteq> (False, []) \<Longrightarrow> json_loads strict s = None"
  using parsed_scan by (cases "json_loads strict s") blast+

lemma cut_attempts:
  assumes full: "json_loads strict (p @ c # R) = Some (JObj ps)" and p: "fst (json_scan p) = False"
    and c: "c = CHR 0x22 \<or> c = CHR 0x7D \<or> c = CHR 0x5D"
    and b: "b = [] \<or> c = CHR 0x22 \<and> (\<exists>q. b = c # q \<and> open_body False q)"
    and u: "json_scan (p @ b) \<noteq> (False, [])"
  shows "tolerant_loads (p @ b) = (case first_parsed (completions (p @ b)) of Some v \<Rightarrow> v | None \<Rightarrow> truncated_marker)"
proof -
  note cut = cut_repairs [OF full p c b]
  have "json_scan (repair_invalid_escapes (p @ b)) \<noteq> (False, [])"
    "json_scan (strip_trailing_commas (repair_invalid_escapes (p @ b))) \<noteq> (False, [])"
    using u by (simp_all add: json_scan_def scan_repair scan_strip)
  then show ?thesis using u by (simp add: tolerant_loads_def attempts_def Let_def cut unbalanced_fails)
qed

lemma nest_closers:
  "nest i e k (a @ cs) \<Longrightarrow> set cs \<subseteq> set closers \<Longrightarrow> json_scan_go i e k a = (False, cs)"
proof (induction a arbitrary: i e k)
  case Nil
  then have "nest i e k cs" "set cs \<subseteq> set closers" by simp_all
  then have "\<not> i \<and> k = cs"
  proof (induction cs arbitrary: i e k)
    case (Cons c cs)
    then have c: "c = CHR 0x7D \<or> c = CHR 0x5D" by auto
    then have "\<not> i" using Cons.IH [of i False k] Cons.prems by (auto split: if_splits)
    then show ?case using c Cons.IH [of False e "tl k"] Cons.prems by (cases k) auto
  qed simp
  then show ?case by simp
qed (auto split: if_splits)

text \<open>C38: A tool call that the model stopped writing before its last brackets is read as it was meant: when some closing
  brackets after the text make it an object, the tolerant reader returns that object.\<close>

theorem cut_call_is_completed:
  assumes "json_loads False (text @ cs) = Some (JObj ps)" "cs \<noteq> []" "set cs \<subseteq> set closers"
  shows "tolerant_loads text = JObj ps"
proof -
  have "nest False False [] (text @ cs)" using assms(1) by (blast intro: document_nest loads_document)
  then have s: "json_scan text = (False, cs)" unfolding json_scan_def using assms(3) by (rule nest_closers)
  obtain c R where cs: "cs = c # R" "c = CHR 0x22 \<or> c = CHR 0x7D \<or> c = CHR 0x5D" using assms(2,3) by (cases cs) auto
  have "tolerant_loads (text @ []) = (case first_parsed (completions (text @ [])) of Some v \<Rightarrow> v | None \<Rightarrow> truncated_marker)"
    by (rule cut_attempts [of False "text" c R ps]) (use assms(1,2) s cs in auto)
  then show ?thesis using assms(1,2) s by (simp add: completions_def Let_def)
qed

lemma cut_call_is_completed_witness:
  \<open>tolerant_loads ''{"a": [1, {"b": "x"'' = JObj [(map of_char ''a'', JArr [JNum ''1'', JObj [(map of_char ''b'', JStr (map of_char ''x''))]])]\<close>
proof (rule cut_call_is_completed [where cs = "[CHR 0x7D, CHR 0x5D, CHR 0x7D]"])
  show \<open>json_loads False (''{"a": [1, {"b": "x"'' @ [CHR 0x7D, CHR 0x5D, CHR 0x7D])
      = Some (JObj [(map of_char ''a'', JArr [JNum ''1'', JObj [(map of_char ''b'', JStr (map of_char ''x''))]])])\<close>
    by code_simp
qed simp_all

text \<open>C14: A tool call that the model stopped writing inside a string is never run with a part of that string: whatever
  object the text is the beginning of, the reader returns the marker, and the plugin refuses the call.\<close>

theorem no_string_is_made_up:
  assumes "json_loads strict (text @ rest) = Some (JObj ps)" "fst (json_scan text)"
  shows "tolerant_loads text = truncated_marker \<and> refuse_call nonzero (tolerant_loads text)"
proof -
  obtain p q where t: "text = p @ CHR 0x22 # q" "fst (json_scan p) = False" "open_body False q"
    using open_split [of False False "[]" "text"] assms(2) by (auto simp: json_scan_def)
  have u: "json_scan text \<noteq> (False, [])" using assms(2) by auto
  have "tolerant_loads (p @ CHR 0x22 # q) =
      (case first_parsed (completions (p @ CHR 0x22 # q)) of Some v \<Rightarrow> v | None \<Rightarrow> truncated_marker)"
    by (rule cut_attempts [of strict p "CHR 0x22" "q @ rest" ps]) (use assms(1) t u in auto)
  moreover have "completions text = []" using assms(2) by (cases "json_scan text") (simp add: completions_def)
  ultimately have "tolerant_loads text = truncated_marker" unfolding t(1) [symmetric] by simp
  then show ?thesis by (simp add: truncated_marker_def refuse_call_def py_true_def)
qed

lemma no_string_is_made_up_witness:
  \<open>tolerant_loads ''{"command": "rm -rf /tm'' = truncated_marker \<and> refuse_call (\<lambda>_. True) (tolerant_loads ''{"command": "rm -rf /tm'')\<close>
proof (rule no_string_is_made_up)
  show \<open>json_loads True (''{"command": "rm -rf /tm'' @ ''p/x"}'') = Some (JObj [(map of_char ''command'', JStr (map of_char ''rm -rf /tmp/x''))])\<close>
    by code_simp
  show \<open>fst (json_scan ''{"command": "rm -rf /tm'')\<close> by code_simp
qed

text \<open>Two repairs that change what they should keep. A backslash that is escaped as it must be is escaped again
  beside one that is not, and the text is refused; and a comma inside a string goes with the trailing one.\<close>

lemma escaped_backslash_is_broken:
  \<open>tolerant_loads (''{"re": "'' @ replicate 2 (CHR 0x5C) @ ''d'' @ [CHR 0x5C] @ ''s"}'') = truncated_marker\<close>
  by code_simp

lemma comma_in_a_string_is_lost:
  \<open>tolerant_loads ''{"cmd": "x=[1,]",}'' = JObj [(map of_char ''cmd'', JStr (map of_char ''x=[1]''))]\<close>
  by code_simp

end
