(* ===== verification/Context.thy ===== *)
theory Context
  imports ToolJson Turns
begin

text \<open>
  \<open>permissions/token_counter.py\<close>, \<open>context/result_summaries.py\<close>, \<open>context/compaction_pin.py\<close> and
  \<open>plugins/microcompact.py\<close>: what a request weighs, and the rewriting of large tool results in it.

  A text is a list of code points (all of Unicode); a payload is a JSON object, and \<open>json.dumps\<close> is written out.
  The summarizing model is a parameter: an answer and a duration for each call, chosen by the number of the call. Calls do not
  overlap, so the sharing of a call in flight and the semaphore have nothing to do; log lines and audit events are left out.
\<close>

section \<open>Texts and payloads\<close>

type_synonym utext = "nat list"

type_synonym dict = "(utext \<times> json) list"

definition cps :: "string \<Rightarrow> utext" where
  "cps s = map of_char s"

definition hex_digit :: "nat \<Rightarrow> nat" where
  "hex_digit n = (if n < 10 then 48 + n else 87 + n)"

definition u_escape :: "nat \<Rightarrow> utext" where
  "u_escape n = cps [CHR 0x5C, CHR ''u''] @ map hex_digit [n div 4096 mod 16, n div 256 mod 16, n div 16 mod 16, n mod 16]"

definition dump_char :: "bool \<Rightarrow> nat \<Rightarrow> utext" where
  "dump_char ascii n =
     (if n = 34 \<or> n = 92 then [92, n]
      else if n = 10 then [92, 110] else if n = 13 then [92, 114] else if n = 9 then [92, 116]
      else if n = 12 then [92, 102] else if n = 8 then [92, 98]
      else if n < 32 then u_escape n
      else if \<not> ascii \<or> n < 127 then [n]
      else if n < 65536 then u_escape n
      else u_escape (55296 + (n - 65536) div 1024) @ u_escape (56320 + (n - 65536) mod 1024))"

definition dump_string :: "bool \<Rightarrow> utext \<Rightarrow> utext" where
  "dump_string ascii s = [34] @ concat (map (dump_char ascii) s) @ [34]"

fun comma_join :: "utext list \<Rightarrow> utext" where
  "comma_join [] = []"
| "comma_join [t] = t"
| "comma_join (t # u # ts) = t @ cps '', '' @ comma_join (u # ts)"

text \<open>\<open>json.dumps\<close>, with or without \<open>ensure_ascii\<close>.\<close>

fun dumps :: "bool \<Rightarrow> json \<Rightarrow> utext" where
  "dumps ascii JNull = cps ''null''"
| "dumps ascii (JBool b) = cps (if b then ''true'' else ''false'')"
| "dumps ascii (JNum w) = cps w"
| "dumps ascii (JStr s) = dump_string ascii s"
| "dumps ascii (JArr vs) = cps ''['' @ comma_join (map (dumps ascii) vs) @ cps '']''"
| "dumps ascii (JObj ps) =
     cps [CHR 0x7B] @ comma_join (map (\<lambda>(k, v). dump_string ascii k @ cps '': '' @ dumps ascii v) ps) @ cps [CHR 0x7D]"

definition uni_space :: "nat \<Rightarrow> bool" where
  "uni_space n \<longleftrightarrow> List.member (space_codes @ [5760, 8232, 8233, 8239, 8287, 12288]) n \<or> 8192 \<le> n \<and> n \<le> 8202"

definition ustrip :: "utext \<Rightarrow> utext" where
  "ustrip s = rev (dropWhile uni_space (rev (dropWhile uni_space s)))"

definition ustarts :: "utext \<Rightarrow> utext \<Rightarrow> bool" where
  "ustarts s p \<longleftrightarrow> take (length p) s = p"

fun ucontains :: "utext \<Rightarrow> utext \<Rightarrow> bool" where
  "ucontains [] p \<longleftrightarrow> p = []"
| "ucontains (c # s) p \<longleftrightarrow> ustarts (c # s) p \<or> ucontains s p"

text \<open>\<open>str.find\<close>, as an index.\<close>

fun ufind :: "utext \<Rightarrow> utext \<Rightarrow> nat option" where
  "ufind [] p = (if p = [] then Some 0 else None)"
| "ufind (c # s) p = (if ustarts (c # s) p then Some 0 else map_option Suc (ufind s p))"

section \<open>Requests and session events\<close>

record fn_call =
  fc_id :: "string option"
  fc_name :: "string option"
  fc_args :: "dict option"

record fn_resp =
  fr_id :: "string option"
  fr_name :: "string option"
  fr_response :: "dict option"

record req_part =
  rp_text :: "utext option"
  rp_thought :: bool
  rp_call :: "fn_call option"
  rp_resp :: "fn_resp option"

record content =
  ct_role :: string
  ct_parts :: "req_part list"

record compaction =
  cm_start :: rat
  cm_end :: rat
  cm_parts :: "req_part list"

record hist_event =
  he_invocation :: "string option"
  he_author :: string
  he_time :: rat
  he_parts :: "req_part list"
  he_usage :: "int option"
  he_compaction :: "compaction option"

definition payload :: "dict option \<Rightarrow> json" where
  "payload d = (case d of None \<Rightarrow> JNull | Some ps \<Rightarrow> JObj ps)"

definition dict_or_empty :: "dict option \<Rightarrow> json" where
  "dict_or_empty d = (case d of None \<Rightarrow> JObj [] | Some ps \<Rightarrow> JObj ps)"

section \<open>Counting tokens\<close>

definition text_chars :: "req_part \<Rightarrow> nat" where
  "text_chars p = (case rp_text p of None \<Rightarrow> 0 | Some t \<Rightarrow> length t)"

definition part_chars :: "req_part \<Rightarrow> nat" where
  "part_chars p =
     text_chars p
     + (case rp_call p of None \<Rightarrow> 0 | Some fc \<Rightarrow> length (dumps True (dict_or_empty (fc_args fc))))
     + (case rp_resp p of None \<Rightarrow> 0 | Some fr \<Rightarrow> length (dumps True (dict_or_empty (fr_response fr))))"

definition estimate_from_request :: "content list \<Rightarrow> int" where
  "estimate_from_request cs = int ((\<Sum>c \<leftarrow> cs. \<Sum>p \<leftarrow> ct_parts c. text_chars p) div 4)"

definition latest_usage :: "hist_event list \<Rightarrow> int option" where
  "latest_usage es = (case filter (\<lambda>e. he_usage e \<noteq> None) (rev es) of [] \<Rightarrow> None | e # _ \<Rightarrow> he_usage e)"

definition estimate_prompt_tokens :: "content list \<Rightarrow> hist_event list \<Rightarrow> int" where
  "estimate_prompt_tokens cs es = (case latest_usage es of Some n \<Rightarrow> n | None \<Rightarrow> estimate_from_request cs)"

definition estimate_request_tokens :: "content list \<Rightarrow> int" where
  "estimate_request_tokens cs = int ((\<Sum>c \<leftarrow> cs. \<Sum>p \<leftarrow> ct_parts c. part_chars p) div 4)"

definition estimate_prompt_tokens_full :: "content list \<Rightarrow> hist_event list \<Rightarrow> int" where
  "estimate_prompt_tokens_full cs es = (case latest_usage es of Some n \<Rightarrow> n | None \<Rightarrow> estimate_request_tokens cs)"

text \<open>The latest compaction: the greatest end seen so far and the length of its summary.\<close>

fun compacted_until :: "rat \<times> nat \<Rightarrow> hist_event list \<Rightarrow> rat \<times> nat" where
  "compacted_until acc [] = acc"
| "compacted_until (cutoff, len) (e # es) =
     compacted_until
       (case he_compaction e of
          None \<Rightarrow> (cutoff, len)
        | Some c \<Rightarrow>
            if cm_end c \<noteq> 0 \<and> cutoff \<le> cm_end c then (cm_end c, \<Sum>p \<leftarrow> cm_parts c. text_chars p) else (cutoff, len)) es"

definition estimate_events_tokens :: "hist_event list \<Rightarrow> int" where
  "estimate_events_tokens es =
     (let (cutoff, summary) = compacted_until (0, 0) es
      in int ((summary + (\<Sum>e \<leftarrow> filter (\<lambda>e. he_compaction e = None \<and> \<not> (cutoff \<noteq> 0 \<and> he_time e \<le> cutoff)) es.
                            \<Sum>p \<leftarrow> he_parts e. part_chars p)) div 4))"

section \<open>Summaries of results\<close>

datatype answer = Answer utext | RateLimited | Broken

record sum_env =
  se_enabled :: bool
  se_disk :: bool
  se_digest :: "utext \<Rightarrow> string"
  se_model :: "nat \<Rightarrow> utext \<Rightarrow> utext \<Rightarrow> answer \<times> rat"

text \<open>\<open>ss_mem\<close> is the table in memory, the least recently used first; \<open>ss_calls\<close> counts the calls of the model.\<close>

record sum_state =
  ss_mem :: "(string \<times> utext) list"
  ss_disk :: "(string \<times> utext) list"
  ss_neg :: "(string \<times> rat) list"
  ss_calls :: nat
  ss_clock :: rat

definition mem_max :: nat where "mem_max = 256"
definition body_clip :: nat where "body_clip = 120000"
definition neg_ttl :: rat where "neg_ttl = 300"
definition retry_sleeps :: "rat list" where "retry_sleeps = [20, 40]"

definition move_to_end :: "string \<Rightarrow> utext \<Rightarrow> (string \<times> utext) list \<Rightarrow> (string \<times> utext) list" where
  "move_to_end d t mem = dict_pop d mem @ [(d, t)]"

definition mem_put :: "string \<Rightarrow> utext \<Rightarrow> (string \<times> utext) list \<Rightarrow> (string \<times> utext) list" where
  "mem_put d t mem = (let m = move_to_end d t mem in drop (length m - mem_max) m)"

definition disk_get :: "sum_env \<Rightarrow> string \<Rightarrow> sum_state \<Rightarrow> utext option" where
  "disk_get env d s = (if se_disk env then map_of (ss_disk s) d else None)"

text \<open>\<open>cached\<close>: the lookup without a call.\<close>

definition from_disk :: "sum_env \<Rightarrow> string \<Rightarrow> sum_state \<Rightarrow> utext option \<times> sum_state" where
  "from_disk env d s =
     (case disk_get env d s of
        None \<Rightarrow> (None, s)
      | Some t \<Rightarrow> (Some t, if t \<noteq> [] then s\<lparr>ss_mem := mem_put d t (ss_mem s)\<rparr> else s))"

definition cached :: "sum_env \<Rightarrow> utext \<Rightarrow> sum_state \<Rightarrow> utext option \<times> sum_state" where
  "cached env raw s =
     (if raw = [] then (None, s)
      else (let d = se_digest env raw
            in case map_of (ss_mem s) d of
                 Some t \<Rightarrow> (Some t, s\<lparr>ss_mem := move_to_end d t (ss_mem s)\<rparr>)
               | None \<Rightarrow> from_disk env d s))"

fun ask :: "sum_env \<Rightarrow> utext \<Rightarrow> utext \<Rightarrow> rat list \<Rightarrow> sum_state \<Rightarrow> utext option \<times> sum_state" where
  "ask env tool body sleeps s =
     (let (a, d) = se_model env (ss_calls s) tool body;
          s = s\<lparr>ss_calls := Suc (ss_calls s), ss_clock := ss_clock s + d\<rparr>
      in case a of
           Answer raw \<Rightarrow> (Some (ustrip raw), s)
         | Broken \<Rightarrow> (None, s)
         | RateLimited \<Rightarrow>
             (case sleeps of [] \<Rightarrow> (None, s) | w # ws \<Rightarrow> ask env tool body ws (s\<lparr>ss_clock := ss_clock s + w\<rparr>)))"

definition generate :: "sum_env \<Rightarrow> string \<Rightarrow> utext \<Rightarrow> utext \<Rightarrow> sum_state \<Rightarrow> utext option \<times> sum_state" where
  "generate env d raw tool s =
     (let (r, s) = ask env tool (take body_clip raw) retry_sleeps s
      in if r = None \<or> r = Some [] then (None, s\<lparr>ss_neg := dict_put d (ss_clock s + neg_ttl) (ss_neg s)\<rparr>)
         else (r, s\<lparr>ss_mem := mem_put d (the r) (ss_mem s),
                    ss_disk := (if se_disk env then dict_put d (the r) (ss_disk s) else ss_disk s)\<rparr>))"

definition summarize :: "sum_env \<Rightarrow> utext \<Rightarrow> utext \<Rightarrow> sum_state \<Rightarrow> utext option \<times> sum_state" where
  "summarize env raw tool s =
     (if \<not> se_enabled env \<or> raw = [] then (None, s)
      else (let d = se_digest env raw
            in case map_of (ss_mem s) d of
                 Some t \<Rightarrow> (Some t, s\<lparr>ss_mem := move_to_end d t (ss_mem s)\<rparr>)
               | None \<Rightarrow>
                   (let disk = disk_get env d s
                    in if disk \<noteq> None \<and> disk \<noteq> Some [] then (disk, s\<lparr>ss_mem := mem_put d (the disk) (ss_mem s)\<rparr>)
                       else if (case map_of (ss_neg s) d of None \<Rightarrow> 0 | Some u \<Rightarrow> u) > ss_clock s then (None, s)
                       else generate env d raw tool s)))"

section \<open>Answers and pending calls\<close>

definition parked_statuses :: "string list" where
  "parked_statuses = [''needs_confirmation'', ''awaiting_user_confirmation'']"

definition has_status :: "string list \<Rightarrow> dict option \<Rightarrow> bool" where
  "has_status names d \<longleftrightarrow>
     (case d of
        None \<Rightarrow> False
      | Some ps \<Rightarrow> list_ex (\<lambda>n. map_of ps (cps ''status'') = Some (JStr (cps n))) names)"

definition is_real_answer :: "fn_resp \<Rightarrow> bool" where
  "is_real_answer fr \<longleftrightarrow>
     \<not> list_ex (\<lambda>n. fr_name fr = Some n) undelivered_names \<and> \<not> has_status parked_statuses (fr_response fr)"

definition real_answers :: "req_part list \<Rightarrow> string list" where
  "real_answers ps =
     List.map_filter (\<lambda>p. case rp_resp p of
                            None \<Rightarrow> None
                          | Some fr \<Rightarrow> if is_real_answer fr then given (fr_id fr) else None) ps"

definition call_ids :: "req_part list \<Rightarrow> string list" where
  "call_ids ps = List.map_filter (\<lambda>p. case rp_call p of None \<Rightarrow> None | Some fc \<Rightarrow> given (fc_id fc)) ps"

definition pending_ids :: "hist_event list \<Rightarrow> string list" where
  "pending_ids es =
     (let real = concat (map (real_answers \<circ> he_parts) es)
      in filter (\<lambda>i. \<not> List.member real i) (remdups (concat (map (call_ids \<circ> he_parts) es))))"

section \<open>Rewriting a request\<close>

definition compactable :: "string list" where
  "compactable = [''run_bash'', ''read_file'', ''grep'', ''glob_files'', ''web_fetch'', ''web_search'', ''edit_file'', ''write_file'']"

definition stub_note :: utext where
  "stub_note = cps ''[old tool result cleared to save context '' @ [8212] @ cps '' full content in session history]''"

definition elided_prefix :: utext where
  "elided_prefix = cps ''[adk-cc elided call argument: ''"

definition elided_note :: utext where
  "elided_note =
     cps ''chars '' @ [8212]
     @ cps '' the call already completed; full content is in session history and its effect (e.g. the written file) persists] ''"

definition condensed_mark :: utext where
  "condensed_mark = cps ''[condensed from ''"

definition summary_note :: "nat \<Rightarrow> utext" where
  "summary_note n =
     condensed_mark @ cps (decimal n) @ cps '' chars '' @ [8212]
     @ cps '' full content in session history; re-run the tool if more is needed]''"

definition evicted_mark :: utext where
  "evicted_mark = cps ''chars evicted''"

text \<open>\<open>[^..]{1,80}\<close> followed by its closing character.\<close>

definition short_run :: "nat \<Rightarrow> utext \<Rightarrow> (utext \<times> utext) option" where
  "short_run stop s =
     (let r = takeWhile (\<lambda>n. n \<noteq> stop \<and> n \<noteq> 10) s; t = drop (length r) s
      in if 1 \<le> length r \<and> length r \<le> 80 \<and> t \<noteq> [] \<and> hd t = stop then Some (r, tl t) else None)"

definition foreign_result :: "utext \<Rightarrow> bool" where
  "foreign_result s \<longleftrightarrow>
     (if ustarts s (cps ''['') then
        (case short_run (of_char (CHR '']'')) (tl s) of
           None \<Rightarrow> False
         | Some (_, t) \<Rightarrow>
             if ustarts t (cps '' `'') then
               (case short_run (of_char (CHR ''`'')) (drop 2 t) of
                  None \<Rightarrow> False
                | Some (_, u) \<Rightarrow> ustarts u (cps '' tool returned result: ''))
             else False)
      else False)"

text \<open>The first pair of backquotes around a short name.\<close>

fun quoted_name :: "utext \<Rightarrow> utext option" where
  "quoted_name [] = None"
| "quoted_name (c # s) =
     (if c = of_char (CHR ''`'') then
        (case short_run (of_char (CHR ''`'')) s of Some (r, _) \<Rightarrow> Some r | None \<Rightarrow> quoted_name s)
      else quoted_name s)"

definition is_stub :: "dict option \<Rightarrow> bool" where
  "is_stub d \<longleftrightarrow> has_status [''cleared'', ''summarized''] d"

definition is_rewritten_text :: "utext \<Rightarrow> bool" where
  "is_rewritten_text t \<longleftrightarrow>
     ucontains (take 400 t) condensed_mark \<or> ucontains (take 400 t) evicted_mark \<or> ucontains (take 400 t) stub_note"

definition payload_text :: "dict option \<Rightarrow> utext" where
  "payload_text d = dumps False (payload d)"

definition est_tokens :: "dict option \<Rightarrow> nat" where
  "est_tokens d = length (payload_text d) div 4"

definition fat_arg :: "nat \<Rightarrow> json \<Rightarrow> bool" where
  "fat_arg min_tokens v \<longleftrightarrow>
     (case v of JStr t \<Rightarrow> min_tokens * 4 \<le> length t \<and> \<not> ustarts t elided_prefix | _ \<Rightarrow> False)"

definition str_length :: "json \<Rightarrow> nat" where
  "str_length v = (case v of JStr t \<Rightarrow> length t | _ \<Rightarrow> 0)"

definition args_of :: "fn_call \<Rightarrow> dict" where
  "args_of fc = (case fc_args fc of None \<Rightarrow> [] | Some ps \<Rightarrow> ps)"

definition fat_arg_tokens :: "fn_call \<Rightarrow> nat \<Rightarrow> nat" where
  "fat_arg_tokens fc min_tokens = (\<Sum>v \<leftarrow> filter (fat_arg min_tokens) (map snd (args_of fc)). str_length v div 4)"

datatype kind = KResponse | KCall | KText

text \<open>What a part is to the rewriter: its kind and its size in tokens, when it may be rewritten.\<close>

definition target_of :: "string list \<Rightarrow> nat \<Rightarrow> req_part \<Rightarrow> (kind \<times> nat) option" where
  "target_of answered min_tokens p =
     (case rp_resp p of
        Some fr \<Rightarrow>
          if \<not> list_ex (\<lambda>n. fr_name fr = Some n) compactable \<or> is_stub (fr_response fr) then None
          else Some (KResponse, est_tokens (fr_response fr))
      | None \<Rightarrow>
          (case rp_call p of
             Some fc \<Rightarrow>
               if list_ex (\<lambda>i. fc_id fc = Some i) answered \<and> fat_arg_tokens fc min_tokens \<noteq> 0
               then Some (KCall, fat_arg_tokens fc min_tokens) else None
           | None \<Rightarrow>
               (case rp_text p of
                  None \<Rightarrow> None
                | Some t \<Rightarrow>
                    if t \<noteq> [] \<and> min_tokens * 4 \<le> length t \<and> foreign_result t \<and> \<not> is_rewritten_text t
                    then Some (KText, length t div 4) else None)))"

definition request_parts :: "content list \<Rightarrow> req_part list" where
  "request_parts cs = concat (map ct_parts cs)"

definition answered_in :: "content list \<Rightarrow> string list" where
  "answered_in cs = real_answers (request_parts cs)"

definition elided :: "utext \<Rightarrow> utext" where
  "elided t = elided_prefix @ cps (decimal (length t)) @ elided_note @ take 160 t @ [8230]"

definition elide_arg :: "nat \<Rightarrow> json \<Rightarrow> json" where
  "elide_arg min_tokens v = (if fat_arg min_tokens v then (case v of JStr t \<Rightarrow> JStr (elided t) | _ \<Rightarrow> v) else v)"

definition freed_chars :: "nat \<Rightarrow> json \<Rightarrow> nat" where
  "freed_chars min_tokens v =
     (if fat_arg min_tokens v then str_length v - str_length (elide_arg min_tokens v) else 0)"

record rewrite_cfg =
  rw_keep :: nat
  rw_min :: nat
  rw_summaries :: bool
  rw_budget :: "nat option"

text \<open>\<open>rn_left\<close>: how many of the old targets are still to come.\<close>

record rewrite_run =
  rn_left :: nat
  rn_rewritten :: nat
  rn_freed :: nat
  rn_summarized :: nat
  rn_sums :: sum_state

definition rewrite_call :: "nat \<Rightarrow> req_part \<Rightarrow> rewrite_run \<Rightarrow> req_part \<times> rewrite_run" where
  "rewrite_call min_tokens p r =
     (case rp_call p of
        None \<Rightarrow> (p, r)
      | Some fc \<Rightarrow>
          (let freed = (\<Sum>v \<leftarrow> map snd (args_of fc). freed_chars min_tokens v);
               new_args = map (\<lambda>(k, v). (k, elide_arg min_tokens v)) (args_of fc)
           in if freed = 0 then (p, r)
              else (p\<lparr>rp_call := Some (fc\<lparr>fc_args := Some new_args\<rparr>)\<rparr>,
                    r\<lparr>rn_freed := rn_freed r + freed div 4, rn_rewritten := Suc (rn_rewritten r)\<rparr>)))"

definition try_summary :: "sum_env \<Rightarrow> bool \<Rightarrow> utext \<Rightarrow> utext \<Rightarrow> sum_state \<Rightarrow> utext option \<times> sum_state" where
  "try_summary env allow raw tool s =
     (if allow then (case summarize env raw tool s of (r, s) \<Rightarrow> (if r = Some [] then None else r, s)) else (None, s))"

definition summary_response :: "nat \<Rightarrow> utext \<Rightarrow> dict" where
  "summary_response n summary =
     [(cps ''status'', JStr (cps ''summarized'')), (cps ''summary'', JStr summary), (cps ''note'', JStr (summary_note n))]"

definition cleared_response :: dict where
  "cleared_response = [(cps ''status'', JStr (cps ''cleared'')), (cps ''note'', JStr stub_note)]"

definition rewrite_response :: "sum_env \<Rightarrow> bool \<Rightarrow> nat \<Rightarrow> req_part \<Rightarrow> rewrite_run \<Rightarrow> req_part \<times> rewrite_run" where
  "rewrite_response env allow weight p r =
     (case rp_resp p of
        None \<Rightarrow> (p, r)
      | Some fr \<Rightarrow>
          (let raw = payload_text (fr_response fr);
               tool = cps (case given (fr_name fr) of None \<Rightarrow> ''tool'' | Some n \<Rightarrow> n);
               (summary, s) = try_summary env allow raw tool (rn_sums r);
               response = (case summary of Some t \<Rightarrow> summary_response (length raw) t | None \<Rightarrow> cleared_response)
           in (p\<lparr>rp_resp := Some (fr\<lparr>fr_response := Some response\<rparr>)\<rparr>,
               r\<lparr>rn_sums := s, rn_rewritten := Suc (rn_rewritten r),
                 rn_summarized := rn_summarized r + (if summary = None then 0 else 1),
                 rn_freed := rn_freed r + (if summary = None then weight else weight - est_tokens (Some response))\<rparr>)))"

definition rewrite_text :: "sum_env \<Rightarrow> bool \<Rightarrow> req_part \<Rightarrow> rewrite_run \<Rightarrow> req_part \<times> rewrite_run" where
  "rewrite_text env allow p r =
     (case rp_text p of
        None \<Rightarrow> (p, r)
      | Some t \<Rightarrow>
          (let tool = (case quoted_name (take 160 t) of Some n \<Rightarrow> n | None \<Rightarrow> cps ''tool'');
               prefix_end = (case ufind t (cps '': '') of Some i \<Rightarrow> i + 2 | None \<Rightarrow> 1);
               prefix = (if 0 < prefix_end \<and> prefix_end < 200 then take prefix_end t else []);
               (summary, s) = try_summary env allow t tool (rn_sums r);
               new = (case summary of
                        Some y \<Rightarrow> summary_note (length t) @ [10] @ prefix @ y
                      | None \<Rightarrow> take 200 t @ [10, 8230] @ cps ''['' @ cps (decimal (length t)) @ cps '' '' @ evicted_mark
                                  @ cps '' to fit the context window '' @ [8212] @ cps '' re-run the tool if this is still needed]'')
           in (p\<lparr>rp_text := Some new\<rparr>,
               r\<lparr>rn_sums := s, rn_rewritten := Suc (rn_rewritten r),
                 rn_summarized := rn_summarized r + (if summary = None then 0 else 1),
                 rn_freed := rn_freed r + (length t - length new) div 4\<rparr>)))"

text \<open>One part in the loop over the old targets: the loop counts the targets it has passed, skips the small ones and ends
  when the budget is freed.\<close>

definition rewrite_part :: "sum_env \<Rightarrow> rewrite_cfg \<Rightarrow> string list \<Rightarrow> req_part \<Rightarrow> rewrite_run \<Rightarrow> req_part \<times> rewrite_run" where
  "rewrite_part env cfg answered p r =
     (case target_of answered (rw_min cfg) p of
        None \<Rightarrow> (p, r)
      | Some (kind, weight) \<Rightarrow>
          if rn_left r = 0 then (p, r)
          else (let r' = r\<lparr>rn_left := rn_left r - 1\<rparr>
                in if weight < rw_min cfg then (p, r')
                   else if (case rw_budget cfg of None \<Rightarrow> False | Some b \<Rightarrow> b \<le> rn_freed r) then (p, r\<lparr>rn_left := 0\<rparr>)
                   else (case kind of
                           KCall \<Rightarrow> rewrite_call (rw_min cfg) p r'
                         | KResponse \<Rightarrow> rewrite_response env (rw_summaries cfg) weight p r'
                         | KText \<Rightarrow> rewrite_text env (rw_summaries cfg) p r')))"

fun rewrite_parts :: "sum_env \<Rightarrow> rewrite_cfg \<Rightarrow> string list \<Rightarrow> req_part list \<Rightarrow> rewrite_run \<Rightarrow> req_part list \<times> rewrite_run" where
  "rewrite_parts env cfg answered [] r = ([], r)"
| "rewrite_parts env cfg answered (p # ps) r =
     (let (q, r) = rewrite_part env cfg answered p r; (qs, r) = rewrite_parts env cfg answered ps r in (q # qs, r))"

fun rewrite_contents :: "sum_env \<Rightarrow> rewrite_cfg \<Rightarrow> string list \<Rightarrow> content list \<Rightarrow> rewrite_run \<Rightarrow> content list \<times> rewrite_run" where
  "rewrite_contents env cfg answered [] r = ([], r)"
| "rewrite_contents env cfg answered (c # cs) r =
     (let (ps, r) = rewrite_parts env cfg answered (ct_parts c) r; (ds, r) = rewrite_contents env cfg answered cs r
      in (c\<lparr>ct_parts := ps\<rparr> # ds, r))"

definition targets :: "string list \<Rightarrow> nat \<Rightarrow> req_part list \<Rightarrow> (kind \<times> nat) list" where
  "targets answered min_tokens ps = List.map_filter (target_of answered min_tokens) ps"

definition rewrite_request :: "sum_env \<Rightarrow> rewrite_cfg \<Rightarrow> content list \<Rightarrow> sum_state \<Rightarrow> content list \<times> rewrite_run" where
  "rewrite_request env cfg cs s =
     (let answered = answered_in cs;
          n = length (targets answered (rw_min cfg) (request_parts cs)) - rw_keep cfg
      in rewrite_contents env cfg answered cs
           \<lparr>rn_left = n, rn_rewritten = 0, rn_freed = 0, rn_summarized = 0, rn_sums = s\<rparr>)"

text \<open>\<open>MicrocompactPlugin\<close>: the pass before every call of the model.\<close>

definition microcompact :: "bool \<Rightarrow> nat \<Rightarrow> nat \<Rightarrow> sum_env \<Rightarrow> content list \<Rightarrow> sum_state \<Rightarrow> content list \<times> sum_state" where
  "microcompact enabled keep_recent min_tokens env cs s =
     (if \<not> enabled then (cs, s)
      else (let (ds, r) = rewrite_request env \<lparr>rw_keep = keep_recent, rw_min = min_tokens, rw_summaries = se_enabled env, rw_budget = None\<rparr> cs s
            in (ds, rn_sums r)))"

section \<open>Facts about the rewriting\<close>

lemma ucontains_iff: "ucontains s p \<longleftrightarrow> (\<exists>u v. s = u @ p @ v)"
proof (induction s)
  case (Cons c s)
  have "ustarts (c # s) p \<longleftrightarrow> (\<exists>v. c # s = p @ v)"
    unfolding ustarts_def by (metis append_eq_conv_conj append_take_drop_id)
  then show ?case using Cons by (auto simp: Cons_eq_append_conv)
qed simp

lemma ustarts_append [simp]: "ustarts (p @ s) p"
  by (simp add: ustarts_def)

lemma length_decimal: "n < 10 ^ k \<Longrightarrow> 0 < k \<Longrightarrow> length (decimal n) \<le> k"
proof (induction k arbitrary: n)
  case (Suc k)
  show ?case
  proof (cases "n < 10")
    case False
    then have "k \<noteq> 0" using Suc.prems by (cases k) auto
    moreover have "n div 10 < 10 ^ k" using Suc.prems by (simp add: less_mult_imp_div_less mult.commute)
    moreover note False
    ultimately show ?thesis using Suc.IH [of "n div 10"] by (subst decimal.simps) simp
  qed (simp add: decimal.simps)
qed simp

lemma length_cps [simp]: "length (cps s) = length s"
  by (simp add: cps_def)

lemma elided_not_fat [simp]: "\<not> fat_arg m (elide_arg m v)"
  by (auto simp: elide_arg_def fat_arg_def elided_def split: json.split)

lemma fat_after: "fat_arg_tokens (fc\<lparr>fc_args := Some (map (\<lambda>(k, v). (k, elide_arg m v)) ps)\<rparr>) m = 0"
  by (simp add: fat_arg_tokens_def args_of_def filter_map comp_def split_def filter_False)

text \<open>A part the loop passes over without a change.\<close>

definition inert :: "string list \<Rightarrow> nat \<Rightarrow> req_part \<Rightarrow> bool" where
  "inert answered m p \<longleftrightarrow>
     (case target_of answered m p of
        None \<Rightarrow> True
      | Some (kind, weight) \<Rightarrow>
          weight < m \<or> kind = KCall \<and> (case rp_call p of None \<Rightarrow> True | Some fc \<Rightarrow> (\<Sum>v \<leftarrow> map snd (args_of fc). freed_chars m v) = 0))"

lemma inert_kept: "inert answered (rw_min cfg) p \<Longrightarrow> rw_budget cfg = None \<Longrightarrow>
    rewrite_part env cfg answered p r = (p, if target_of answered (rw_min cfg) p = None then r else r\<lparr>rn_left := rn_left r - 1\<rparr>)"
  by (auto simp: rewrite_part_def inert_def rewrite_call_def Let_def split: option.splits kind.splits)

lemma none_left: "rn_left r = 0 \<Longrightarrow> rewrite_parts env cfg answered ps r = (ps, r)"
  by (induction ps) (simp_all add: rewrite_part_def split: option.split prod.split)

lemma left_kept:
  "rn_left (snd (rewrite_call m p r)) = rn_left r"
  "rn_left (snd (rewrite_response env allow weight p r)) = rn_left r"
  "rn_left (snd (rewrite_text env allow p r)) = rn_left r"
proof -
  show "rn_left (snd (rewrite_call m p r)) = rn_left r" by (simp add: rewrite_call_def Let_def split: option.split)
  show "rn_left (snd (rewrite_response env allow weight p r)) = rn_left r"
    by (simp add: rewrite_response_def Let_def split: option.split prod.split)
  show "rn_left (snd (rewrite_text env allow p r)) = rn_left r" by (simp add: rewrite_text_def Let_def split: option.split prod.split)
qed

lemma evicted_is_rewritten:
  assumes "length t < 2 ^ 63"
  shows "is_rewritten_text (take 200 t @ [10, 8230] @ cps ''['' @ cps (decimal (length t)) @ cps '' '' @ evicted_mark @ z)"
proof -
  let ?A = "take 200 t @ [10, 8230] @ cps ''['' @ cps (decimal (length t)) @ cps '' ''"
  have "length t < 10 ^ 19" using assms by simp
  then have "length (decimal (length t)) \<le> 19" by (rule length_decimal) simp
  then have "length ?A \<le> 223" by simp
  moreover have "length evicted_mark = 13" by (simp add: evicted_mark_def)
  ultimately have "take 400 (?A @ evicted_mark @ z) = ?A @ evicted_mark @ take (400 - (length ?A + 13)) z"
    by (simp only: take_append) simp
  then have "ucontains (take 400 (?A @ evicted_mark @ z)) evicted_mark" unfolding ucontains_iff by metis
  then show ?thesis by (simp add: is_rewritten_text_def)
qed

lemma condensed_is_rewritten: "is_rewritten_text (summary_note n @ z)"
proof -
  have "length condensed_mark = 16" by (simp add: condensed_mark_def)
  then have "\<exists>v. take 400 (summary_note n @ z) = condensed_mark @ v" by (simp add: summary_note_def)
  then have "ucontains (take 400 (summary_note n @ z)) condensed_mark" unfolding ucontains_iff by (metis append_Nil)
  then show ?thesis by (simp add: is_rewritten_text_def)
qed

lemma stub_responses: "is_stub (Some cleared_response)" "is_stub (Some (summary_response n t))"
  by (simp_all add: is_stub_def has_status_def cleared_response_def summary_response_def)

text \<open>A text that was rewritten before, or is shorter than the longest text Python can hold.\<close>

definition short_text :: "req_part \<Rightarrow> bool" where
  "short_text p \<longleftrightarrow> (case rp_text p of None \<Rightarrow> True | Some t \<Rightarrow> is_rewritten_text t \<or> length t < 2 ^ 63)"

lemma rewritten_is_inert:
  assumes "rw_budget cfg = None" "rn_left r \<noteq> 0" "short_text p"
  shows "inert answered (rw_min cfg) (fst (rewrite_part env cfg answered p r))"
    "target_of answered (rw_min cfg) p \<noteq> None \<Longrightarrow> rn_left (snd (rewrite_part env cfg answered p r)) = rn_left r - 1"
proof -
  show "inert answered (rw_min cfg) (fst (rewrite_part env cfg answered p r))"
  proof (cases "target_of answered (rw_min cfg) p")
    case None
    then show ?thesis by (simp add: rewrite_part_def inert_def)
  next
    case (Some kw)
    then obtain kind weight where t: "target_of answered (rw_min cfg) p = Some (kind, weight)" by (cases kw) auto
    show ?thesis
    proof (cases "weight < rw_min cfg")
      case True
      then show ?thesis using t assms by (simp add: rewrite_part_def inert_def Let_def)
    next
      case False
      show ?thesis
      proof (cases kind)
        case KResponse
        then obtain fr where fr: "rp_resp p = Some fr" using t by (auto simp: target_of_def split: option.splits if_splits)
        have "is_stub (Some (case y of Some t \<Rightarrow> summary_response n t | None \<Rightarrow> cleared_response))" for y n
          using stub_responses by (cases y) simp_all
        then show ?thesis using t False assms(1,2) KResponse fr
          by (simp add: rewrite_part_def rewrite_response_def Let_def inert_def target_of_def split: prod.split)
      next
        case KCall
        then obtain fc where fc: "rp_resp p = None" "rp_call p = Some fc" using t by (auto simp: target_of_def split: option.splits if_splits)
        show ?thesis
        proof (cases "(\<Sum>v \<leftarrow> map snd (args_of fc). freed_chars (rw_min cfg) v) = 0")
          case True
          then show ?thesis using t False assms(1,2) KCall fc by (simp add: rewrite_part_def rewrite_call_def inert_def Let_def)
        next
          case freed: False
          then show ?thesis using t False assms(1,2) KCall fc fat_after
            by (simp add: rewrite_part_def rewrite_call_def inert_def Let_def target_of_def)
        qed
      next
        case KText
        then obtain x where x: "rp_resp p = None" "rp_call p = None" "rp_text p = Some x" using t
          by (auto simp: target_of_def split: option.splits if_splits)
        have "length x < 2 ^ 63" using assms(3) x t by (auto simp: short_text_def target_of_def split: if_splits)
        then show ?thesis using t False assms(1,2) KText x evicted_is_rewritten condensed_is_rewritten
          by (auto simp: rewrite_part_def rewrite_text_def Let_def inert_def target_of_def split: prod.split option.split)
      qed
    qed
  qed
  show "target_of answered (rw_min cfg) p \<noteq> None \<Longrightarrow> rn_left (snd (rewrite_part env cfg answered p r)) = rn_left r - 1"
    using assms(1,2) by (auto simp: rewrite_part_def left_kept Let_def split: kind.split)
qed

text \<open>A second pass with the same limits finds its old targets inert.\<close>

lemma second_pass:
  assumes "rw_budget cfg = None"
  shows "list_all short_text ps \<Longrightarrow> rewrite_parts env cfg answered ps r = (qs, r') \<Longrightarrow>
     rn_left r \<le> length (targets answered (rw_min cfg) ps) \<Longrightarrow>
     length (targets answered (rw_min cfg) ps) - rn_left r \<le> length (targets answered (rw_min cfg) qs)
     \<and> (rn_left t = length (targets answered (rw_min cfg) qs) - (length (targets answered (rw_min cfg) ps) - rn_left r) \<longrightarrow>
          fst (rewrite_parts env2 cfg answered qs t) = qs
          \<and> rn_rewritten (snd (rewrite_parts env2 cfg answered qs t)) = rn_rewritten t)"
proof (induction ps arbitrary: r r' qs t)
  case Nil
  then show ?case by simp
next
  case (Cons p ps)
  let ?m = "rw_min cfg" and ?T = "\<lambda>ps. targets answered (rw_min cfg) ps"
  obtain q r1 where q: "rewrite_part env cfg answered p r = (q, r1)" by fastforce
  obtain qs1 r2 where qs: "rewrite_parts env cfg answered ps r1 = (qs1, r2)" by fastforce
  have out: "qs = q # qs1" using Cons.prems(2) q qs by simp
  show ?case
  proof (cases "rn_left r = 0")
    case True
    then have "qs = p # ps" using none_left [of r env cfg answered "p # ps"] Cons.prems(2) by simp
    then show ?thesis using True none_left [of t env2 cfg answered "p # ps"] by simp
  next
    case False
    have in1: "inert answered ?m q" using rewritten_is_inert(1) [OF assms False, of p answered env] Cons.prems(1) q by simp
    have l1: "rn_left r1 = (if target_of answered ?m p = None then rn_left r else rn_left r - 1)"
      using rewritten_is_inert(2) [OF assms False, of p answered env] Cons.prems(1) q by (auto simp: rewrite_part_def)
    have tp: "length (?T (p # ps)) = (if target_of answered ?m p = None then 0 else 1) + length (?T ps)"
      "length (?T (q # qs1)) = (if target_of answered ?m q = None then 0 else 1) + length (?T qs1)"
      by (auto simp: targets_def map_filter_simps split: option.split)
    have le: "rn_left r1 \<le> length (?T ps)" using Cons.prems(3) l1 tp(1) by (auto split: if_splits)
    note IH = Cons.IH [OF _ qs le]
    have K: "length (?T (p # ps)) - rn_left r = length (?T ps) - rn_left r1" using l1 tp(1) False by auto
    have lq: "length (?T ps) - rn_left r1 \<le> length (?T qs1)" using IH Cons.prems(1) by simp
    show ?thesis unfolding out K
    proof (intro conjI impI)
      show "length (?T ps) - rn_left r1 \<le> length (?T (q # qs1))" using lq tp(2) by simp
      assume t: "rn_left t = length (?T (q # qs1)) - (length (?T ps) - rn_left r1)"
      define t1 where "t1 = (if target_of answered ?m q = None then t else t\<lparr>rn_left := rn_left t - 1\<rparr>)"
      have s: "rewrite_part env2 cfg answered q t = (q, t1)" unfolding t1_def by (rule inert_kept [OF in1 assms])
      have "rn_left t1 = length (?T qs1) - (length (?T ps) - rn_left r1)" using t tp(2) lq by (simp add: t1_def split: if_splits)
      then have "fst (rewrite_parts env2 cfg answered qs1 t1) = qs1 \<and>
          rn_rewritten (snd (rewrite_parts env2 cfg answered qs1 t1)) = rn_rewritten t1" using IH [of t1] Cons.prems(1) by simp
      moreover have "rn_rewritten t1 = rn_rewritten t" by (simp add: t1_def)
      ultimately show "fst (rewrite_parts env2 cfg answered (q # qs1) t) = q # qs1"
        "rn_rewritten (snd (rewrite_parts env2 cfg answered (q # qs1) t)) = rn_rewritten t"
        using s by (auto split: prod.split)
    qed
  qed
qed

text \<open>The contents are rewritten as their parts in a row.\<close>

lemma rewrite_parts_append:
  "rewrite_parts env cfg answered (ps @ qs) r =
     (let (ps', r1) = rewrite_parts env cfg answered ps r; (qs', r2) = rewrite_parts env cfg answered qs r1 in (ps' @ qs', r2))"
  by (induction ps arbitrary: r) (auto split: prod.split)

lemma short_kept: "short_text p \<Longrightarrow> short_text (fst (rewrite_part env cfg answered p r))"
proof (cases "target_of answered (rw_min cfg) p")
  case None
  assume "short_text p"
  then show ?thesis using None by (simp add: rewrite_part_def)
next
  case (Some kw)
  assume p: "short_text p"
  obtain kind weight where t: "target_of answered (rw_min cfg) p = Some (kind, weight)" using Some by (cases kw) auto
  have "rp_text (fst (rewrite_call m p r')) = rp_text p" for m r'
    by (simp add: rewrite_call_def Let_def split: option.split)
  moreover have "rp_text (fst (rewrite_response env b weight p r')) = rp_text p" for b r'
    by (simp add: rewrite_response_def Let_def split: option.split prod.split)
  ultimately have c: "short_text (fst (rewrite_call m p r'))" "short_text (fst (rewrite_response env b weight p r'))" for m b r'
    using p by (simp_all add: short_text_def)
  have x: "short_text (fst (rewrite_text env b p r'))" if k: "kind = KText" for b r'
  proof -
    obtain x where x: "rp_text p = Some x" "\<not> is_rewritten_text x" using t k by (auto simp: target_of_def split: option.splits if_splits)
    then have "length x < 2 ^ 63" using p by (simp add: short_text_def)
    then show ?thesis using x evicted_is_rewritten condensed_is_rewritten
      by (simp add: rewrite_text_def short_text_def Let_def split: prod.split option.split)
  qed
  show ?thesis using p c x by (auto simp: rewrite_part_def t Let_def split: kind.split)
qed

lemma short_kept_parts: "list_all short_text ps \<Longrightarrow> list_all short_text (fst (rewrite_parts env cfg answered ps r))"
proof (induction ps arbitrary: r)
  case (Cons p ps)
  obtain q r1 where q: "rewrite_part env cfg answered p r = (q, r1)" by fastforce
  then have "short_text q" using short_kept [of p env cfg answered r] Cons.prems by simp
  moreover have "fst (rewrite_parts env cfg answered (p # ps) r) = q # fst (rewrite_parts env cfg answered ps r1)"
    by (simp add: q split: prod.split)
  ultimately show ?case using Cons.IH [of r1] Cons.prems by simp
qed simp

lemma rewrite_parts_length: "length (fst (rewrite_parts env cfg answered ps r)) = length ps"
  by (induction ps arbitrary: r) (auto split: prod.split, metis fst_conv)

lemma contents_as_parts:
  "rewrite_contents env cfg answered cs r = (ds, r') \<Longrightarrow>
     rewrite_parts env cfg answered (request_parts cs) r = (request_parts ds, r') \<and> map content.ct_role ds = map content.ct_role cs
     \<and> map (length \<circ> ct_parts) ds = map (length \<circ> ct_parts) cs"
proof (induction cs arbitrary: r ds r')
  case (Cons c cs)
  obtain ps r1 where ps: "rewrite_parts env cfg answered (ct_parts c) r = (ps, r1)" by fastforce
  obtain ds1 r2 where ds: "rewrite_contents env cfg answered cs r1 = (ds1, r2)" by fastforce
  have l: "length ps = length (ct_parts c)" using rewrite_parts_length [of env cfg answered "ct_parts c" r] ps by simp
  show ?case using Cons.prems Cons.IH [OF ds] ps ds l
    by (auto simp: request_parts_def rewrite_parts_append)
qed (simp add: request_parts_def)

definition frame :: "req_part \<Rightarrow> _" where
  "frame p =
     (rp_thought p, rp_text p = None, map_option (\<lambda>fc. (fc_id fc, fc_name fc, map fst (args_of fc))) (rp_call p),
      map_option (\<lambda>fr. (fr_id fr, fr_name fr)) (rp_resp p))"

lemma frame_kept:
  "frame (fst (rewrite_call m p r)) = frame p"
  "frame (fst (rewrite_response env allow weight p r)) = frame p"
  "frame (fst (rewrite_text env allow p r)) = frame p"
proof -
  show "frame (fst (rewrite_call m p r)) = frame p"
    by (simp add: frame_def rewrite_call_def Let_def args_of_def comp_def split_def split: option.split)
  show "frame (fst (rewrite_response env allow weight p r)) = frame p"
    by (simp add: frame_def rewrite_response_def Let_def split: option.split prod.split)
  show "frame (fst (rewrite_text env allow p r)) = frame p"
    by (simp add: frame_def rewrite_text_def Let_def split: option.split prod.split)
qed

lemma rewrite_part_frame: "frame (fst (rewrite_part env cfg answered p r)) = frame p"
  by (simp add: rewrite_part_def frame_kept Let_def split: option.split prod.split kind.split)

lemma rewrite_part_none: "target_of answered (rw_min cfg) p = None \<or> rn_left r = 0 \<Longrightarrow> rewrite_part env cfg answered p r = (p, r)"
  by (auto simp: rewrite_part_def split: option.split)

lemma rewrite_part_left:
  "target_of answered (rw_min cfg) p \<noteq> None \<Longrightarrow> rn_left (snd (rewrite_part env cfg answered p r)) \<le> rn_left r - 1"
  by (auto simp: rewrite_part_def left_kept Let_def split: kind.split)

text \<open>What changes keeps its frame and has enough targets after it.\<close>

lemma rewrite_parts_confined:
  "i < length ps \<Longrightarrow>
     frame (fst (rewrite_parts env cfg answered ps r) ! i) = frame (ps ! i)
     \<and> (fst (rewrite_parts env cfg answered ps r) ! i \<noteq> ps ! i \<longrightarrow>
          target_of answered (rw_min cfg) (ps ! i) \<noteq> None
          \<and> length (targets answered (rw_min cfg) ps) \<le> length (targets answered (rw_min cfg) (drop (Suc i) ps)) + rn_left r)"
proof (induction ps arbitrary: r i)
  case (Cons p ps)
  obtain q r1 where q: "rewrite_part env cfg answered p r = (q, r1)" by fastforce
  have out: "fst (rewrite_parts env cfg answered (p # ps) r) = q # fst (rewrite_parts env cfg answered ps r1)"
    by (simp add: q split: prod.split)
  have t: "length (targets answered (rw_min cfg) (p # ps))
      = (if target_of answered (rw_min cfg) p = None then 0 else 1) + length (targets answered (rw_min cfg) ps)"
    by (auto simp: targets_def map_filter_simps split: option.split)
  show ?case
  proof (cases i)
    case 0
    show ?thesis
    proof (cases "target_of answered (rw_min cfg) p = None \<or> rn_left r = 0")
      case True
      then have "q = p" using rewrite_part_none q by fastforce
      then show ?thesis unfolding out 0 by simp
    next
      case False
      then show ?thesis using rewrite_part_frame [of env cfg answered p r] t unfolding out 0 by (simp add: q)
    qed
  next
    case (Suc k)
    show ?thesis
    proof (cases "target_of answered (rw_min cfg) p = None \<or> rn_left r = 0")
      case True
      then have "r1 = r" using rewrite_part_none q by fastforce
      then show ?thesis using Cons.IH [of k r1] Cons.prems True t none_left [of r env cfg answered ps] unfolding out Suc by auto
    next
      case False
      then have "rn_left r1 < rn_left r" using rewrite_part_left [of answered cfg p env r] q by (cases "rn_left r") auto
      then show ?thesis using Cons.IH [of k r1] Cons.prems False t unfolding out Suc by auto
    qed
  qed
qed simp

text \<open>A result a gate left for the user, of a tool whose results are rewritten.\<close>

definition parked_result :: "req_part \<Rightarrow> bool" where
  "parked_result p \<longleftrightarrow>
     (case rp_resp p of
        None \<Rightarrow> False
      | Some fr \<Rightarrow> has_status parked_statuses (fr_response fr) \<and> list_ex (\<lambda>n. fr_name fr = Some n) compactable)"

lemma not_parked_after:
  "\<not> has_status parked_statuses (Some cleared_response)" "\<not> has_status parked_statuses (Some (summary_response n t))"
  by (simp_all add: has_status_def parked_statuses_def cleared_response_def summary_response_def cps_def)

lemma new_response:
  assumes "rp_resp p = Some fr"
  shows "\<exists>y. fst (rewrite_response env allow weight p r) = p\<lparr>rp_resp := Some (fr\<lparr>fr_response := Some y\<rparr>)\<rparr>
    \<and> (y = cleared_response \<or> (\<exists>n t. y = summary_response n t))"
proof -
  obtain summary s where t: "try_summary env allow (payload_text (fr_response fr))
      (cps (case given (fr_name fr) of None \<Rightarrow> ''tool'' | Some n \<Rightarrow> n)) (rn_sums r) = (summary, s)" by fastforce
  show ?thesis by (cases summary) (auto simp: rewrite_response_def assms t Let_def)
qed

lemma answers_kept:
  assumes "\<not> parked_result p"
  shows "real_answers [fst (rewrite_part env cfg answered p r)] = real_answers [p]"
proof (cases "target_of answered (rw_min cfg) p")
  case None
  then show ?thesis by (simp add: rewrite_part_none)
next
  case (Some kw)
  then obtain kind weight where t: "target_of answered (rw_min cfg) p = Some (kind, weight)" by (cases kw) auto
  have other: "rp_resp (fst (rewrite_call m p r')) = rp_resp p" "rp_resp (fst (rewrite_text env allow p r')) = rp_resp p" for m r' allow
    by (simp add: rewrite_call_def Let_def split: option.split)
      (simp add: rewrite_text_def Let_def split: option.split prod.split)
  have resp: "real_answers [fst (rewrite_response env allow weight p r')] = real_answers [p]" if k: "kind = KResponse" for allow r'
  proof -
    from t k obtain fr where fr: "rp_resp p = Some fr" "list_ex (\<lambda>n. fr_name fr = Some n) compactable"
      by (auto simp: target_of_def split: option.splits if_splits)
    then have "\<not> has_status parked_statuses (fr_response fr)" using assms by (simp add: parked_result_def)
    moreover obtain y where "fst (rewrite_response env allow weight p r') = p\<lparr>rp_resp := Some (fr\<lparr>fr_response := Some y\<rparr>)\<rparr>"
      "\<not> has_status parked_statuses (Some y)" using new_response [OF fr(1)] not_parked_after by metis
    ultimately show ?thesis by (simp add: real_answers_def map_filter_simps fr(1) is_real_answer_def)
  qed
  show ?thesis using t resp other
    by (auto simp: rewrite_part_def real_answers_def map_filter_simps Let_def split: kind.split)
qed

lemma answers_of_parts:
  "list_all (\<lambda>p. \<not> parked_result p) ps \<Longrightarrow> real_answers (fst (rewrite_parts env cfg answered ps r)) = real_answers ps"
proof (induction ps arbitrary: r)
  case (Cons p ps)
  have split: "real_answers (x # xs) = real_answers [x] @ real_answers xs" for x xs
    by (simp add: real_answers_def map_filter_simps split: option.split)
  obtain q r1 where q: "rewrite_part env cfg answered p r = (q, r1)" by fastforce
  then have "real_answers [q] = real_answers [p]" using answers_kept [of p env cfg answered r] Cons.prems by simp
  moreover have "fst (rewrite_parts env cfg answered (p # ps) r) = q # fst (rewrite_parts env cfg answered ps r1)"
    by (simp add: q split: prod.split)
  ultimately show ?case using Cons.IH [of r1] Cons.prems split [of q "fst (rewrite_parts env cfg answered ps r1)"] split [of p ps] by simp
qed simp

section \<open>Facts about the summaries\<close>

definition sums_ok :: "sum_env \<Rightarrow> sum_state \<Rightarrow> bool" where
  "sums_ok env s \<longleftrightarrow>
     distinct (map fst (ss_mem s)) \<and> length (ss_mem s) \<le> mem_max
     \<and> (\<forall>d t. map_of (ss_mem s) d = Some t \<longrightarrow> t \<noteq> [] \<and> (se_disk env \<longrightarrow> map_of (ss_disk s) d = Some t))"

definition sums_start :: "(string \<times> utext) list \<Rightarrow> rat \<Rightarrow> sum_state" where
  "sums_start disk now = \<lparr>ss_mem = [], ss_disk = disk, ss_neg = [], ss_calls = 0, ss_clock = now\<rparr>"

text \<open>The state after some requests for summaries, each a text and the name of its tool.\<close>

fun run_summaries :: "sum_env \<Rightarrow> (utext \<times> utext) list \<Rightarrow> sum_state \<Rightarrow> sum_state" where
  "run_summaries env [] s = s"
| "run_summaries env ((raw, tool) # reqs) s = run_summaries env reqs (snd (summarize env raw tool s))"

lemma sums_start_ok: "sums_ok env (sums_start disk now)"
  by (simp add: sums_ok_def sums_start_def)

lemma map_of_drop:
  assumes "distinct (map fst m)" "map_of (drop n m) d = Some t"
  shows "map_of m d = Some t"
  using assms by (meson in_set_dropD map_of_SomeD map_of_is_SomeI)

lemma keys_moved: "distinct (map fst m) \<Longrightarrow> distinct (map fst (move_to_end d t m))"
  by (simp add: move_to_end_def distinct_dict_pop)

lemma map_of_moved [simp]: "map_of (move_to_end d t m) = (map_of m)(d \<mapsto> t)"
  by (auto simp: move_to_end_def map_add_def split: option.split)

lemma mem_put_facts:
  assumes "distinct (map fst m)"
  shows "distinct (map fst (mem_put d t m))" "length (mem_put d t m) \<le> mem_max"
    "map_of (mem_put d t m) e = Some y \<Longrightarrow> e = d \<and> y = t \<or> e \<noteq> d \<and> map_of m e = Some y"
proof -
  let ?m = "move_to_end d t m"
  show "distinct (map fst (mem_put d t m))"
    using keys_moved [OF assms, of d t] by (simp add: mem_put_def Let_def drop_map [symmetric])
  show "length (mem_put d t m) \<le> mem_max" by (simp add: mem_put_def Let_def)
  assume "map_of (mem_put d t m) e = Some y"
  then have "map_of (drop (length ?m - mem_max) ?m) e = Some y" by (simp only: mem_put_def Let_def)
  then have "map_of ?m e = Some y" by (rule map_of_drop [OF keys_moved [OF assms]])
  then show "e = d \<and> y = t \<or> e \<noteq> d \<and> map_of m e = Some y" by (auto split: if_splits)
qed

lemma moved_length: "map_of m d = Some t \<Longrightarrow> length (move_to_end d u m) \<le> length m"
proof -
  assume "map_of m d = Some t"
  then have "(d, t) \<in> set m" by (rule map_of_SomeD)
  then have "length (dict_pop d m) < length m" unfolding dict_pop_def by (intro length_filter_less) auto
  then show ?thesis by (simp add: move_to_end_def)
qed

declare ask.simps [simp del]

lemma ask_keeps: "ask env tool body sleeps s = (r, s') \<Longrightarrow> ss_mem s' = ss_mem s \<and> ss_disk s' = ss_disk s \<and> ss_neg s' = ss_neg s"
proof (induction sleeps arbitrary: s r s')
  case Nil
  obtain a d where a: "se_model env (ss_calls s) tool body = (a, d)" by fastforce
  note Nil.prems [unfolded ask.simps [of _ _ _ "[]"] a Let_def prod.case list.case]
  then show ?case by (cases a) auto
next
  case (Cons w ws)
  obtain a d where a: "se_model env (ss_calls s) tool body = (a, d)" by fastforce
  note Cons.prems [unfolded ask.simps [of _ _ _ "w # ws"] a Let_def prod.case list.case]
  then show ?case by (cases a) (auto dest!: Cons.IH)
qed

lemma memory_hit_ok:
  "sums_ok env s \<Longrightarrow> map_of (ss_mem s) d = Some t \<Longrightarrow> sums_ok env (s\<lparr>ss_mem := move_to_end d t (ss_mem s)\<rparr>)"
  using moved_length [of "ss_mem s" d t t] by (auto simp: sums_ok_def keys_moved)

lemma stored_ok:
  assumes "sums_ok env s" "t \<noteq> []" "se_disk env \<longrightarrow> map_of disk d = Some t \<and> (\<forall>e. e \<noteq> d \<longrightarrow> map_of disk e = map_of (ss_disk s) e)"
  shows "sums_ok env (s\<lparr>ss_mem := mem_put d t (ss_mem s), ss_disk := disk\<rparr>)"
proof -
  have d: "distinct (map fst (ss_mem s))" using assms(1) by (simp add: sums_ok_def)
  have "y \<noteq> [] \<and> (se_disk env \<longrightarrow> map_of disk e = Some y)" if "map_of (mem_put d t (ss_mem s)) e = Some y" for e y
    using mem_put_facts(3) [OF d that] assms unfolding sums_ok_def by metis
  then show ?thesis using mem_put_facts(1,2) [OF d] unfolding sums_ok_def by simp
qed

lemma summarize_cases:
  assumes "sums_ok env s"
  obtains (off) "summarize env raw tool s = (None, s)"
  | (memory) t where "map_of (ss_mem s) (se_digest env raw) = Some t"
      "summarize env raw tool s = (Some t, s\<lparr>ss_mem := move_to_end (se_digest env raw) t (ss_mem s)\<rparr>)"
  | (disk) t where "disk_get env (se_digest env raw) s = Some t" "t \<noteq> []"
      "summarize env raw tool s = (Some t, s\<lparr>ss_mem := mem_put (se_digest env raw) t (ss_mem s)\<rparr>)"
  | (fresh) "disk_get env (se_digest env raw) s = None \<or> disk_get env (se_digest env raw) s = Some []"
      "summarize env raw tool s = generate env (se_digest env raw) raw tool s"
proof (cases "\<not> se_enabled env \<or> raw = []")
  case True
  then show ?thesis using off by (simp add: summarize_def)
next
  case on: False
  show ?thesis
  proof (cases "map_of (ss_mem s) (se_digest env raw)")
    case (Some t)
    then show ?thesis using memory on by (simp add: summarize_def Let_def)
  next
    case none: None
    show ?thesis
    proof (cases "disk_get env (se_digest env raw) s = None \<or> disk_get env (se_digest env raw) s = Some []")
      case gone: True
      show ?thesis
      proof (cases "(case map_of (ss_neg s) (se_digest env raw) of None \<Rightarrow> 0 | Some u \<Rightarrow> u) > ss_clock s")
        case True
        then have "summarize env raw tool s = (None, s)" using on none gone by (auto simp: summarize_def Let_def)
        then show ?thesis by (rule off)
      next
        case False
        then have "summarize env raw tool s = generate env (se_digest env raw) raw tool s"
          using on none gone by (auto simp: summarize_def Let_def)
        then show ?thesis by (rule fresh [OF gone])
      qed
    next
      case False
      then obtain t where t: "disk_get env (se_digest env raw) s = Some t" "t \<noteq> []" by auto
      then have "summarize env raw tool s = (Some t, s\<lparr>ss_mem := mem_put (se_digest env raw) t (ss_mem s)\<rparr>)"
        using on none by (simp add: summarize_def Let_def)
      then show ?thesis by (rule disk [OF t])
    qed
  qed
qed

lemma generate_facts:
  assumes "generate env d raw tool s = (r, s')"
  shows "r = None \<and> ss_mem s' = ss_mem s \<and> ss_disk s' = ss_disk s
    \<or> (\<exists>t. t \<noteq> [] \<and> r = Some t \<and> ss_mem s' = mem_put d t (ss_mem s)
         \<and> ss_disk s' = (if se_disk env then dict_put d t (ss_disk s) else ss_disk s))"
proof -
  obtain a s1 where a: "ask env tool (take body_clip raw) retry_sleeps s = (a, s1)" by fastforce
  from ask_keeps [OF a] show ?thesis using assms by (auto simp: generate_def a split: if_splits)
qed

text \<open>What is on disk under a digest, when there is a disk; it stays once it is there.\<close>

lemma summarize_facts:
  assumes "sums_ok env s" "summarize env raw tool s = (r, s')"
  shows "sums_ok env s'"
    "se_disk env \<Longrightarrow> map_of (ss_disk s) e = Some y \<Longrightarrow> y \<noteq> [] \<Longrightarrow> map_of (ss_disk s') e = Some y"
    "se_disk env \<Longrightarrow> r = Some y \<Longrightarrow> y \<noteq> [] \<and> map_of (ss_disk s') (se_digest env raw) = Some y"
proof -
  let ?d = "se_digest env raw"
  have "sums_ok env s' \<and> (se_disk env \<longrightarrow> y \<noteq> [] \<longrightarrow> map_of (ss_disk s) e = Some y \<longrightarrow> map_of (ss_disk s') e = Some y)
      \<and> (se_disk env \<longrightarrow> r = Some y \<longrightarrow> y \<noteq> [] \<and> map_of (ss_disk s') ?d = Some y)" for e y
    using assms(1)
  proof (cases rule: summarize_cases [where raw = raw and tool = tool])
    case off
    then show ?thesis using assms by simp
  next
    case (memory t)
    have "t \<noteq> [] \<and> (se_disk env \<longrightarrow> map_of (ss_disk s) ?d = Some t)" using assms(1) memory(1) unfolding sums_ok_def by metis
    then show ?thesis using assms(2) memory(2) memory_hit_ok [OF assms(1) memory(1)] by auto
  next
    case (disk t)
    have "sums_ok env (s\<lparr>ss_mem := mem_put ?d t (ss_mem s), ss_disk := ss_disk s\<rparr>)"
      by (rule stored_ok [OF assms(1) disk(2)]) (use disk(1) in \<open>simp add: disk_get_def split: if_splits\<close>)
    then have "sums_ok env (s\<lparr>ss_mem := mem_put ?d t (ss_mem s)\<rparr>)" by simp
    then show ?thesis using assms(2) disk by (auto simp: disk_get_def)
  next
    case fresh
    from generate_facts [OF fresh(2) [symmetric, unfolded assms(2)]] show ?thesis
    proof
      assume "r = None \<and> ss_mem s' = ss_mem s \<and> ss_disk s' = ss_disk s"
      then show ?thesis using assms(1) by (simp add: sums_ok_def)
    next
      assume "\<exists>t. t \<noteq> [] \<and> r = Some t \<and> ss_mem s' = mem_put ?d t (ss_mem s)
         \<and> ss_disk s' = (if se_disk env then dict_put ?d t (ss_disk s) else ss_disk s)"
      then obtain t where t: "t \<noteq> []" "r = Some t" "ss_mem s' = mem_put ?d t (ss_mem s)"
        "ss_disk s' = (if se_disk env then dict_put ?d t (ss_disk s) else ss_disk s)" by blast
      have "sums_ok env (s\<lparr>ss_mem := mem_put ?d t (ss_mem s), ss_disk := ss_disk s'\<rparr>)"
        by (rule stored_ok [OF assms(1) t(1)]) (simp add: t(4))
      then have "sums_ok env s'" using t(3) by (simp add: sums_ok_def)
      moreover have "map_of (ss_disk s') e = Some y" if "se_disk env" "y \<noteq> []" "map_of (ss_disk s) e = Some y"
        using that fresh(1) t(4) by (auto simp: disk_get_def)
      ultimately show ?thesis using t(1,2,4) by auto
    qed
  qed
  then show "sums_ok env s'"
    "se_disk env \<Longrightarrow> map_of (ss_disk s) e = Some y \<Longrightarrow> y \<noteq> [] \<Longrightarrow> map_of (ss_disk s') e = Some y"
    "se_disk env \<Longrightarrow> r = Some y \<Longrightarrow> y \<noteq> [] \<and> map_of (ss_disk s') ?d = Some y" by blast+
qed

lemma run_facts:
  "sums_ok env s \<Longrightarrow> sums_ok env (run_summaries env reqs s)
     \<and> (se_disk env \<longrightarrow> map_of (ss_disk s) e = Some y \<longrightarrow> y \<noteq> [] \<longrightarrow> map_of (ss_disk (run_summaries env reqs s)) e = Some y)"
proof (induction reqs arbitrary: s)
  case (Cons q reqs)
  obtain raw tool where q: "q = (raw, tool)" by fastforce
  obtain r s1 where s: "summarize env raw tool s = (r, s1)" by fastforce
  note f = summarize_facts [OF Cons.prems s]
  show ?case using Cons.IH [OF f(1)] f(2) [of e y] by (auto simp: q s)
qed simp

lemma summary_is_found:
  assumes "sums_ok env s" "se_enabled env" "se_disk env" "map_of (ss_disk s) (se_digest env raw) = Some y" "y \<noteq> []" "raw \<noteq> []"
  shows "fst (summarize env raw tool s) = Some y \<and> ss_calls (snd (summarize env raw tool s)) = ss_calls s"
  using assms(1)
proof (cases rule: summarize_cases [where raw = raw and tool = tool])
  case off
  then show ?thesis using assms
    by (cases "map_of (ss_mem s) (se_digest env raw)") (auto simp: summarize_def Let_def disk_get_def)
next
  case (memory t)
  then have "map_of (ss_disk s) (se_digest env raw) = Some t" using assms(1,3) by (auto simp: sums_ok_def)
  then show ?thesis using memory(2) assms(4) by simp
next
  case (disk t)
  then show ?thesis using assms(3,4) by (simp add: disk_get_def)
next
  case fresh
  then show ?thesis using assms(3-5) by (simp add: disk_get_def)
qed


definition example_env :: sum_env where
  "example_env = \<lparr>se_enabled = True, se_disk = True, se_digest = map char_of, se_model = (\<lambda>n tool body. (Answer (take 2 body), 1))\<rparr>"


section \<open>Properties of the rewriting\<close>

lemma answered_mem: "list_ex (\<lambda>i. fc_id fc = Some i) xs \<longleftrightarrow> (\<exists>i. fc_id fc = Some i \<and> List.member xs i)"
  by (auto simp: list_ex_iff)


definition bash_call :: "string \<Rightarrow> string \<Rightarrow> req_part" where
  "bash_call i command =
     \<lparr>rp_text = None, rp_thought = False,
      rp_call = Some \<lparr>fc_id = Some i, fc_name = Some ''run_bash'', fc_args = Some [(cps ''command'', JStr (cps command))]\<rparr>, rp_resp = None\<rparr>"

definition bash_result :: "string \<Rightarrow> string \<Rightarrow> string \<Rightarrow> req_part" where
  "bash_result i status out =
     \<lparr>rp_text = None, rp_thought = False, rp_call = None,
      rp_resp = Some \<lparr>fr_id = Some i, fr_name = Some ''run_bash'',
        fr_response = Some [(cps ''status'', JStr (cps status)), (cps ''stdout'', JStr (cps out))]\<rparr>\<rparr>"

definition example_request :: "content list" where
  "example_request =
     [\<lparr>ct_role = ''model'', ct_parts = [bash_call ''1'' ''make all'']\<rparr>, \<lparr>ct_role = ''user'', ct_parts = [bash_result ''1'' ''ok'' ''a.o b.o'']\<rparr>,
      \<lparr>ct_role = ''model'', ct_parts = [bash_call ''2'' ''ls'']\<rparr>, \<lparr>ct_role = ''user'', ct_parts = [bash_result ''2'' ''ok'' ''a b'']\<rparr>]"

lemmas rewrite_defs =
  rewrite_request_def rewrite_part_def rewrite_call_def rewrite_response_def rewrite_text_def target_of_def targets_def request_parts_def
  answered_in_def real_answers_def is_real_answer_def parked_statuses_def undelivered_names_def has_status_def is_stub_def compactable_def
  fat_arg_tokens_def fat_arg_def args_of_def est_tokens_def payload_text_def payload_def dump_string_def dump_char_def cps_def
  try_summary_def map_filter_simps given_def Let_def

definition example_cfg :: rewrite_cfg where
  "example_cfg = \<lparr>rw_keep = 1, rw_min = 4, rw_summaries = False, rw_budget = None\<rparr>"


text \<open>The rewriting is idempotent: when no result of the tools listed is parked on the user, a second pass with the same
  limits, whatever the summaries are by then, changes nothing.\<close>

theorem rewriting_twice_is_rewriting_once:
  assumes "rewrite_request env cfg cs s = (ds, r)" "rw_budget cfg = None"
    and "list_all short_text (request_parts cs)" "list_all (\<lambda>p. \<not> parked_result p) (request_parts cs)"
  shows "request_parts (fst (rewrite_request env' cfg ds s')) = request_parts ds \<and> rn_rewritten (snd (rewrite_request env' cfg ds s')) = 0"
proof -
  let ?ps = "request_parts cs" and ?a = "answered_in cs"
  define r0 where "r0 = \<lparr>rn_left = length (targets ?a (rw_min cfg) ?ps) - rw_keep cfg, rn_rewritten = 0, rn_freed = 0,
    rn_summarized = 0, rn_sums = s\<rparr>"
  have "rewrite_contents env cfg ?a cs r0 = (ds, r)" using assms(1) by (simp add: rewrite_request_def Let_def r0_def)
  note ps = contents_as_parts [OF this, THEN conjunct1]
  have a: "answered_in ds = ?a" using answers_of_parts [OF assms(4), of env cfg ?a r0] ps by (simp add: answered_in_def)
  define t where "t = \<lparr>rn_left = length (targets ?a (rw_min cfg) (request_parts ds)) - rw_keep cfg, rn_rewritten = 0, rn_freed = 0,
    rn_summarized = 0, rn_sums = s'\<rparr>"
  have le: "rn_left r0 \<le> length (targets ?a (rw_min cfg) ?ps)" by (simp add: r0_def)
  note second = second_pass [OF assms(2,3) ps le]
  have "fst (rewrite_parts env' cfg ?a (request_parts ds) t) = request_parts ds
      \<and> rn_rewritten (snd (rewrite_parts env' cfg ?a (request_parts ds) t)) = 0"
  proof (cases "rw_keep cfg \<le> length (targets ?a (rw_min cfg) ?ps)")
    case True
    then have "rn_left t = length (targets ?a (rw_min cfg) (request_parts ds)) - (length (targets ?a (rw_min cfg) ?ps) - rn_left r0)"
      by (simp add: t_def r0_def)
    then show ?thesis using second [of t env'] by (simp add: t_def)
  next
    case False
    then have "rn_left r0 = 0" by (simp add: r0_def)
    then have "request_parts ds = ?ps" using none_left ps by (metis fst_conv)
    then have "rn_left t = 0" using False by (simp add: t_def)
    then show ?thesis by (simp add: none_left) (simp add: t_def)
  qed
  moreover obtain es u where e: "rewrite_contents env' cfg ?a ds t = (es, u)" by fastforce
  moreover have "rewrite_request env' cfg ds s' = (es, u)" using e a by (simp add: rewrite_request_def Let_def t_def)
  ultimately show ?thesis using contents_as_parts [OF e] by simp
qed

lemma rewriting_twice_is_rewriting_once_witness:
  "request_parts (fst (rewrite_request example_env example_cfg
      (fst (rewrite_request example_env example_cfg example_request (sums_start [] 0))) (sums_start [] 5)))
   = request_parts (fst (rewrite_request example_env example_cfg example_request (sums_start [] 0)))
   \<and> request_parts (fst (rewrite_request example_env example_cfg example_request (sums_start [] 0))) \<noteq> request_parts example_request"
proof -
  obtain ds r where d: "rewrite_request example_env example_cfg example_request (sums_start [] 0) = (ds, r)" by fastforce
  have b: "rw_budget example_cfg = None" "list_all (\<lambda>p. \<not> parked_result p) (request_parts example_request)"
    by (simp_all add: example_cfg_def example_request_def request_parts_def parked_result_def bash_call_def bash_result_def rewrite_defs)
  have l: "list_all short_text (request_parts example_request)"
    by (simp add: example_request_def request_parts_def bash_call_def bash_result_def short_text_def)
  have "request_parts (fst (rewrite_request example_env example_cfg example_request (sums_start [] 0))) \<noteq> request_parts example_request"
    by (simp add: rewrite_defs example_request_def example_cfg_def bash_call_def bash_result_def cleared_response_def)
  then show ?thesis using rewriting_twice_is_rewriting_once [OF d b(1) l b(2), of example_env "sums_start [] 5"] d by simp
qed

text \<open>What the rewriter does to a result a gate left for the user: the stub has lost the status, and the parked call looks
  answered to the next pass, which may clear its arguments.\<close>

lemma parked_call_looks_answered:
  fixes cs :: "content list"
  defines "cs \<equiv> [\<lparr>ct_role = ''model'', ct_parts = [bash_call ''1'' ''make all'', bash_result ''1'' ''needs_confirmation'' ''asks'']\<rparr>]"
  shows "answered_in cs = []"
    "answered_in (fst (rewrite_request example_env (example_cfg\<lparr>rw_keep := 0\<rparr>) cs (sums_start [] 0))) = [''1'']"
  unfolding cs_def by (simp_all add: rewrite_defs example_cfg_def bash_call_def bash_result_def cleared_response_def)

lemma request_stays_short:
  assumes "rewrite_request env cfg cs s = (ds, r)" "list_all short_text (request_parts cs)"
  shows "list_all short_text (request_parts ds)"
proof -
  define r0 where "r0 = \<lparr>rn_left = length (targets (answered_in cs) (rw_min cfg) (request_parts cs)) - rw_keep cfg, rn_rewritten = 0,
    rn_freed = 0, rn_summarized = 0, rn_sums = s\<rparr>"
  have "rewrite_contents env cfg (answered_in cs) cs r0 = (ds, r)" using assms(1) by (simp add: rewrite_request_def Let_def r0_def)
  from contents_as_parts [OF this] show ?thesis using short_kept_parts [OF assms(2), of env cfg "answered_in cs" r0] by simp
qed

end
