(* ===== verification/Guard.thy ===== *)
theory Guard
  imports Context
begin

text \<open>
  \<open>plugins/context_guard.py\<close>, \<open>plugins/precompact.py\<close> and, of \<open>agent.py\<close>, the summarizer of session events with its
  circuit breaker: the limits on the context, the correction learned from the model's own counts, the pressure ladder, the
  reject line, and the compaction of the history before, in the middle of and outside a turn.

  A float is a rational number. The summarizing agent of the framework (\<open>LlmEventSummarizer\<close>) is a parameter that answers with
  an event, fails, or gives nothing; the seeding of memory into a summary, which is off by default, the log and the audit
  events are left out.
\<close>

definition trunc :: "rat \<Rightarrow> int" where
  "trunc q = (if q < 0 then - \<lfloor>- q\<rfloor> else \<lfloor>q\<rfloor>)"

section \<open>The ladder of limits\<close>

record ladder =
  ld_reserve :: int
  ld_effective :: int
  ld_warn :: int
  ld_reject :: int

definition normalize_ladder :: "int \<Rightarrow> int \<Rightarrow> int option \<Rightarrow> int option \<Rightarrow> ladder" where
  "normalize_ladder max_tokens reserve warn_opt reject_opt =
     (let reserve = (if reserve < 0 then 0 else reserve);
          reserve = (if reserve \<ge> max_tokens then max 0 (max_tokens - 1) else reserve);
          effective = max 1 (max_tokens - reserve);
          warn = (case warn_opt of Some w \<Rightarrow> w | None \<Rightarrow> trunc (of_int effective * 3 / 4));
          reject = (case reject_opt of Some r \<Rightarrow> r | None \<Rightarrow> trunc (of_int effective * 95 / 100));
          reject = min (max reject 1) effective;
          c_warn = min (max warn 1) reject;
          c_warn = (if c_warn = reject \<and> reject > 1 then reject - 1 else c_warn)
      in \<lparr>ld_reserve = reserve, ld_effective = effective, ld_warn = c_warn, ld_reject = reject\<rparr>)"

text \<open>\<open>resolved_limits\<close>: the values are \<open>None\<close> when the variable is unset or is not a number.\<close>

definition resolved_limits :: "int option \<Rightarrow> int option \<Rightarrow> int option \<Rightarrow> int option \<Rightarrow> ladder option" where
  "resolved_limits max_tokens reserve warn reject =
     map_option (\<lambda>m. normalize_ladder m (case reserve of None \<Rightarrow> 0 | Some r \<Rightarrow> r) warn reject) max_tokens"

definition pressure_line :: "int \<Rightarrow> int \<Rightarrow> int option" where
  "pressure_line effective pct =
     (if 0 < pct \<and> pct < 100 \<and> trunc (of_int (effective * pct) / 100) \<noteq> 0 then Some (trunc (of_int (effective * pct) / 100)) else None)"

section \<open>The correction of the estimate\<close>

record guard_state =
  gu_cal :: "(string \<times> rat) list"
  gu_last :: "(string \<times> int) list"
  gu_tried :: "string list"

definition cal_cap :: nat where "cal_cap = 256"

definition correction :: "string \<Rightarrow> guard_state \<Rightarrow> rat" where
  "correction sid g = (if sid = [] then 1 else (case map_of (gu_cal g) sid of None \<Rightarrow> 1 | Some c \<Rightarrow> c))"

definition note_usage :: "string \<Rightarrow> int \<Rightarrow> int \<Rightarrow> guard_state \<Rightarrow> guard_state" where
  "note_usage sid estimated actual g =
     (if sid = [] \<or> estimated \<le> 0 \<or> actual \<le> 0 then g
      else (let ratio = max (1 / 2) (min 3 (of_int actual / of_int estimated));
                old = (case map_of (gu_cal g) sid of None \<Rightarrow> 1 | Some c \<Rightarrow> c);
                cal = dict_put sid (old / 2 + ratio / 2) (gu_cal g)
            in g\<lparr>gu_cal := (if length cal > cal_cap then tl cal else cal)\<rparr>))"

definition after_model :: "string \<Rightarrow> int option \<Rightarrow> guard_state \<Rightarrow> guard_state" where
  "after_model sid actual g =
     (let est = map_of (gu_last g) sid; g = g\<lparr>gu_last := dict_pop sid (gu_last g)\<rparr>
      in case (actual, est) of
           (Some a, Some e) \<Rightarrow> if a \<noteq> 0 \<and> e \<noteq> 0 then note_usage sid e a g else g
         | _ \<Rightarrow> g)"

section \<open>The summarizer of session events\<close>

record breaker =
  br_fails :: nat
  br_open_until :: rat
  br_calls :: nat

datatype inner = InnerFailed | InnerEmpty | InnerSummary hist_event

record compact_env =
  co_enabled :: bool
  co_midturn :: bool
  co_service :: bool
  co_inner :: "nat \<Rightarrow> hist_event list \<Rightarrow> inner \<times> rat"
  co_min_new :: int
  co_threshold :: nat
  co_cooldown :: rat
  co_frame :: "utext option"
  co_new_id :: string
  co_now :: rat

definition should_skip :: "compact_env \<Rightarrow> rat \<Rightarrow> breaker \<Rightarrow> bool" where
  "should_skip env now b \<longleftrightarrow> co_threshold env \<noteq> 0 \<and> now < br_open_until b"

definition record_breaker_failure :: "compact_env \<Rightarrow> rat \<Rightarrow> breaker \<Rightarrow> breaker" where
  "record_breaker_failure env now b =
     (let fails = Suc (br_fails b)
      in b\<lparr>br_fails := fails,
           br_open_until := (if 0 < co_threshold env \<and> co_threshold env \<le> fails then now + co_cooldown env else br_open_until b)\<rparr>)"

definition record_success :: "breaker \<Rightarrow> breaker" where
  "record_success b = b\<lparr>br_fails := 0, br_open_until := 0\<rparr>"

text \<open>Tags in any case; the letters i and s have further forms in Unicode.\<close>

definition ci_eq :: "nat \<Rightarrow> nat \<Rightarrow> bool" where
  "ci_eq p c \<longleftrightarrow>
     c = p \<or> 97 \<le> p \<and> p \<le> 122 \<and> c + 32 = p \<or> p = 105 \<and> (c = 304 \<or> c = 305) \<or> p = 115 \<and> c = 383"

definition ci_starts :: "utext \<Rightarrow> utext \<Rightarrow> bool" where
  "ci_starts tag s \<longleftrightarrow> length tag \<le> length s \<and> list_all2 ci_eq tag (take (length tag) s)"

fun ci_find :: "utext \<Rightarrow> utext \<Rightarrow> nat option" where
  "ci_find tag [] = (if tag = [] then Some 0 else None)"
| "ci_find tag (c # s) = (if ci_starts tag (c # s) then Some 0 else map_option Suc (ci_find tag s))"

definition analysis_open :: utext where "analysis_open = cps ''<analysis>''"
definition analysis_close :: utext where "analysis_close = cps ''</analysis>''"
definition summary_open :: utext where "summary_open = cps ''<summary>''"
definition summary_close :: utext where "summary_close = cps ''</summary>''"

function drop_analysis :: "utext \<Rightarrow> utext" where
  "drop_analysis [] = []"
| "drop_analysis (c # s) =
     (if ci_starts analysis_open (c # s) then
        (let rest = drop (length analysis_open) (c # s)
         in case ci_find analysis_close rest of
              Some i \<Rightarrow> drop_analysis (drop (i + length analysis_close) rest)
            | None \<Rightarrow> c # drop_analysis s)
      else c # drop_analysis s)"
  by pat_completeness auto
termination by (relation "measure length") (auto simp: analysis_open_def cps_def)

function drop_summary_tags :: "utext \<Rightarrow> utext" where
  "drop_summary_tags [] = []"
| "drop_summary_tags (c # s) =
     (if ci_starts summary_open (c # s) then drop_summary_tags (drop (length summary_open) (c # s))
      else if ci_starts summary_close (c # s) then drop_summary_tags (drop (length summary_close) (c # s))
      else c # drop_summary_tags s)"
  by pat_completeness auto
termination by (relation "measure length") (auto simp: summary_open_def summary_close_def cps_def)

definition clean_summary :: "utext \<Rightarrow> utext" where
  "clean_summary s =
     (if s = [] then s
      else (let cleaned = ustrip (drop_analysis s);
                cleaned =
                  (case ci_find summary_open cleaned of
                     None \<Rightarrow> ustrip (drop_summary_tags cleaned)
                   | Some i \<Rightarrow>
                       (let rest = drop (i + length summary_open) cleaned
                        in case ci_find summary_close rest of
                             Some j \<Rightarrow> ustrip (take j rest)
                           | None \<Rightarrow> ustrip (drop_summary_tags cleaned)))
            in if cleaned \<noteq> [] then cleaned else ustrip s))"

definition map_summary :: "(req_part list \<Rightarrow> req_part list) \<Rightarrow> hist_event \<Rightarrow> hist_event" where
  "map_summary f e = e\<lparr>he_compaction := map_option (\<lambda>c. c\<lparr>cm_parts := f (cm_parts c)\<rparr>) (he_compaction e)\<rparr>"

definition strip_analysis :: "hist_event \<Rightarrow> hist_event" where
  "strip_analysis = map_summary (map (\<lambda>p. p\<lparr>rp_text := map_option clean_summary (rp_text p)\<rparr>))"

definition text_part_of :: "utext \<Rightarrow> req_part" where
  "text_part_of t = \<lparr>rp_text = Some t, rp_thought = False, rp_call = None, rp_resp = None\<rparr>"

definition frame_summary :: "utext option \<Rightarrow> hist_event \<Rightarrow> hist_event" where
  "frame_summary line e =
     (case line of
        None \<Rightarrow> e
      | Some preamble \<Rightarrow>
          map_summary (\<lambda>ps.
            case ps of
              p # qs \<Rightarrow>
                (case rp_text p of
                   Some t \<Rightarrow> p\<lparr>rp_text := Some (preamble @ [10, 10] @ t)\<rparr> # qs
                 | None \<Rightarrow> text_part_of preamble # ps)
            | [] \<Rightarrow> [text_part_of preamble]) e)"

definition rolling_seed :: utext where
  "rolling_seed = cps ''[The following condenses earlier messages''"

definition marginal_chars :: "hist_event list \<Rightarrow> nat" where
  "marginal_chars es =
     (\<Sum>e \<leftarrow> filter (\<lambda>e. \<not> ustarts (concat (List.map_filter rp_text (he_parts e))) rolling_seed) es. \<Sum>p \<leftarrow> he_parts e. part_chars p)"

text \<open>The state shared by the parts below: the summaries (with the clock), the breaker and the events of the session.\<close>

record compact_state =
  cs_sums :: sum_state
  cs_breaker :: breaker
  cs_events :: "hist_event list"

definition maybe_summarize :: "compact_env \<Rightarrow> bool \<Rightarrow> hist_event list \<Rightarrow> compact_state \<Rightarrow> hist_event option \<times> compact_state" where
  "maybe_summarize env force es s =
     (let now = ss_clock (cs_sums s); b = cs_breaker s
      in if \<not> force \<and> int (marginal_chars es) < co_min_new env then (None, s)
         else if should_skip env now b then (None, s)
         else (let (r, d) = co_inner env (br_calls b) es;
                   b = b\<lparr>br_calls := Suc (br_calls b)\<rparr>;
                   table = (cs_sums s)\<lparr>ss_clock := now + d\<rparr>
               in case r of
                    InnerSummary e \<Rightarrow>
                      (Some (frame_summary (co_frame env) (strip_analysis e)), s\<lparr>cs_sums := table, cs_breaker := record_success b\<rparr>)
                  | _ \<Rightarrow> (None, s\<lparr>cs_sums := table, cs_breaker := record_breaker_failure env (now + d) b\<rparr>)))"

section \<open>Compaction\<close>

definition keep_tail :: nat where "keep_tail = 6"
definition max_computed :: nat where "max_computed = 12"
definition digest_floor :: nat where "digest_floor = 2048"
definition mechanical_budget :: nat where "mechanical_budget = 12000"

definition raw_response :: "fn_resp \<Rightarrow> utext" where
  "raw_response fr = dumps True (dict_or_empty (fr_response fr))"

text \<open>The summary of a payload: the cached one, or a new one while fewer than twelve were made.\<close>

definition cached_or_new :: "sum_env \<Rightarrow> utext \<Rightarrow> utext \<Rightarrow> nat \<times> sum_state \<Rightarrow> utext option \<times> nat \<times> sum_state" where
  "cached_or_new env raw tool = (\<lambda>(computed, s).
     case cached env raw s of
       (Some t, s) \<Rightarrow> (Some t, computed, s)
     | (None, s) \<Rightarrow>
         if computed < max_computed then
           (case summarize env raw tool s of
              (Some t, s) \<Rightarrow> (Some t, Suc computed, s)
            | (None, s) \<Rightarrow> (None, computed, s))
         else (None, computed, s))"

definition digest_part :: "sum_env \<Rightarrow> req_part \<Rightarrow> nat \<times> sum_state \<Rightarrow> req_part \<times> nat \<times> sum_state" where
  "digest_part env p acc =
     (case rp_resp p of
        Some fr \<Rightarrow>
          (let raw = raw_response fr
           in if length raw < digest_floor then (p, acc)
              else (case cached_or_new env raw (cps (case given (fr_name fr) of None \<Rightarrow> ''tool'' | Some n \<Rightarrow> n)) acc of
                      (summary, acc) \<Rightarrow>
                        (p\<lparr>rp_resp := Some (fr\<lparr>fr_response := Some
                            (if summary \<noteq> None \<and> summary \<noteq> Some [] then [(cps ''summary'', JStr (the summary))]
                             else [(cps ''head'', JStr (take 300 raw))])\<rparr>)\<rparr>, acc)))
      | None \<Rightarrow>
          (case rp_text p of
             None \<Rightarrow> (p, acc)
           | Some t \<Rightarrow>
               if t \<noteq> [] \<and> digest_floor \<le> length t \<and> foreign_result t then
                 (case cached_or_new env t (cps ''tool'') acc of
                    (summary, acc) \<Rightarrow>
                      (p\<lparr>rp_text := Some (if summary \<noteq> None \<and> summary \<noteq> Some [] then the summary else take 300 t)\<rparr>, acc))
               else (p, acc)))"

fun digest_parts :: "sum_env \<Rightarrow> req_part list \<Rightarrow> nat \<times> sum_state \<Rightarrow> req_part list \<times> nat \<times> sum_state" where
  "digest_parts env [] acc = ([], acc)"
| "digest_parts env (p # ps) acc =
     (case digest_part env p acc of (q, acc) \<Rightarrow> (case digest_parts env ps acc of (qs, acc) \<Rightarrow> (q # qs, acc)))"

fun digest_head :: "sum_env \<Rightarrow> hist_event list \<Rightarrow> nat \<times> sum_state \<Rightarrow> hist_event list \<times> nat \<times> sum_state" where
  "digest_head env [] acc = ([], acc)"
| "digest_head env (e # es) acc =
     (case digest_parts env (he_parts e) acc of (ps, acc) \<Rightarrow>
        (case digest_head env es acc of (ds, acc) \<Rightarrow> (e\<lparr>he_parts := ps\<rparr> # ds, acc)))"

text \<open>The digest built without a model: a line for each part, until twelve thousand characters are passed.\<close>

definition py_name :: "string option \<Rightarrow> utext" where
  "py_name n = cps (case n of None \<Rightarrow> ''None'' | Some n \<Rightarrow> n)"

definition mechanical_line :: "sum_env \<Rightarrow> string \<Rightarrow> req_part \<Rightarrow> sum_state \<Rightarrow> utext list \<times> sum_state" where
  "mechanical_line env author p s =
     (let who = cps ''['' @ cps author @ cps ''] ''
      in if rp_text p \<noteq> None \<and> rp_text p \<noteq> Some [] \<and> \<not> rp_thought p then ([who @ take 300 (the (rp_text p))], s)
         else (case rp_call p of
           Some fc \<Rightarrow> ([who @ cps ''called '' @ py_name (fc_name fc)], s)
         | None \<Rightarrow>
             (case rp_resp p of
                None \<Rightarrow> ([], s)
              | Some fr \<Rightarrow>
                  (case cached env (raw_response fr) s of
                     (summary, s) \<Rightarrow>
                       ([who @ py_name (fr_name fr) @ cps '' -> ''
                         @ (if summary \<noteq> None \<and> summary \<noteq> Some [] then the summary else take 200 (raw_response fr))], s)))))"

fun mechanical_parts :: "sum_env \<Rightarrow> string \<Rightarrow> req_part list \<Rightarrow> sum_state \<Rightarrow> utext list \<times> sum_state" where
  "mechanical_parts env author [] s = ([], s)"
| "mechanical_parts env author (p # ps) s =
     (case mechanical_line env author p s of (l, s) \<Rightarrow> (case mechanical_parts env author ps s of (ls, s) \<Rightarrow> (l @ ls, s)))"

fun mechanical_lines :: "sum_env \<Rightarrow> utext list \<Rightarrow> hist_event list \<Rightarrow> sum_state \<Rightarrow> utext list \<times> sum_state" where
  "mechanical_lines env ls [] s = (ls, s)"
| "mechanical_lines env ls (e # es) s =
     (if mechanical_budget < (\<Sum>l \<leftarrow> ls. length l) then (ls @ [cps ''['' @ [8230] @ cps ''further events truncated]''], s)
      else (case mechanical_parts env (he_author e) (he_parts e) s of (new, s) \<Rightarrow> mechanical_lines env (ls @ new) es s))"

definition mechanical_title :: utext where
  "mechanical_title =
     cps ''[Mechanically condensed history '' @ [8212]
     @ cps '' the summarizer was unavailable; details are lossy. Re-run tools if specifics are needed.]''"

fun line_join :: "utext list \<Rightarrow> utext" where
  "line_join [] = []"
| "line_join [l] = l"
| "line_join (l # m # ls) = l @ [10] @ line_join (m # ls)"

text \<open>An empty head has no first event; Python raises.\<close>

definition mechanical_event :: "compact_env \<Rightarrow> sum_env \<Rightarrow> hist_event list \<Rightarrow> sum_state \<Rightarrow> hist_event option \<times> sum_state" where
  "mechanical_event env senv es s =
     (case mechanical_lines senv [mechanical_title] es s of
        (ls, s) \<Rightarrow>
          (if es = [] then None
           else Some \<lparr>he_invocation = Some (co_new_id env), he_author = ''user'', he_time = co_now env, he_parts = [], he_usage = None,
                  he_compaction = Some \<lparr>cm_start = he_time (hd es), cm_end = he_time (last es), cm_parts = [text_part_of (line_join ls)]\<rparr>\<rparr>, s))"

datatype compact_mode = Summarized | Mechanical

text \<open>\<open>_summarize_and_append\<close>; a head that is empty in force mode is the exception every caller but \<open>/compact\<close> catches.\<close>

definition summarize_and_append ::
    "compact_env \<Rightarrow> sum_env \<Rightarrow> hist_event list \<Rightarrow> bool \<Rightarrow> compact_state \<Rightarrow> compact_mode option \<times> compact_state" where
  "summarize_and_append env senv head force s =
     (case digest_head senv head (0, cs_sums s) of
        (digested, _, table) \<Rightarrow>
          (case maybe_summarize env force digested (s\<lparr>cs_sums := table\<rparr>) of
             (Some e, s) \<Rightarrow> if co_service env then (Some Summarized, s\<lparr>cs_events := cs_events s @ [e]\<rparr>) else (None, s)
           | (None, s) \<Rightarrow>
               if \<not> force then (None, s)
               else (case mechanical_event env senv head (cs_sums s) of
                       (None, table) \<Rightarrow> (None, s\<lparr>cs_sums := table\<rparr>)
                     | (Some e, table) \<Rightarrow>
                         if co_service env then (Some Mechanical, s\<lparr>cs_sums := table, cs_events := cs_events s @ [e]\<rparr>)
                         else (None, s\<lparr>cs_sums := table\<rparr>))))"

text \<open>\<open>xs[:n]\<close>, also for a negative end.\<close>

definition py_prefix :: "int \<Rightarrow> 'a list \<Rightarrow> 'a list" where
  "py_prefix n xs = take (nat (if n < 0 then int (length xs) + n else n)) xs"

fun first_pending :: "string list \<Rightarrow> nat \<Rightarrow> hist_event list \<Rightarrow> nat option" where
  "first_pending pending i [] = None"
| "first_pending pending i (e # es) =
     (if list_ex (\<lambda>c. List.member pending c) (call_ids (he_parts e)) then Some i else first_pending pending (Suc i) es)"

definition clamp_head_pending :: "hist_event list \<Rightarrow> int \<Rightarrow> int" where
  "clamp_head_pending es head_len =
     (if pending_ids es = [] then head_len
      else (case first_pending (pending_ids es) 0 (py_prefix head_len es) of Some i \<Rightarrow> int i | None \<Rightarrow> head_len))"

definition midturn_keep_tail :: nat where "midturn_keep_tail = 2"
definition midturn_min_head :: int where "midturn_min_head = 4"
definition manual_min_head :: int where "manual_min_head = 2"

definition midturn_compact_prior :: "compact_env \<Rightarrow> sum_env \<Rightarrow> string \<Rightarrow> compact_state \<Rightarrow> bool \<times> compact_state" where
  "midturn_compact_prior env senv current s =
     (if \<not> (co_enabled env \<and> co_midturn env) \<or> \<not> co_service env \<or> current = [] then (False, s)
      else (let es = cs_events s;
                prior = takeWhile (\<lambda>e. he_invocation e \<noteq> Some current) es;
                head_len = clamp_head_pending es (int (length prior) - int midturn_keep_tail)
            in if head_len < midturn_min_head then (False, s)
               else (case summarize_and_append env senv (py_prefix head_len prior) True s of (m, s) \<Rightarrow> (m \<noteq> None, s))))"

datatype manual_status = NothingToCompact | CompactFailed | Compacted compact_mode

definition manual_compact :: "compact_env \<Rightarrow> sum_env \<Rightarrow> compact_state \<Rightarrow> manual_status \<times> compact_state" where
  "manual_compact env senv s =
     (let es = cs_events s; head_len = clamp_head_pending es (int (length es) - int keep_tail)
      in if head_len < manual_min_head then (NothingToCompact, s)
         else (case summarize_and_append env senv (py_prefix head_len es) True s of
                 (None, s) \<Rightarrow> (CompactFailed, s)
               | (Some m, s) \<Rightarrow> (Compacted m, s)))"

text \<open>\<open>PrecompactPlugin.before_run_callback\<close>, with the compaction threshold and the guard's reject line.\<close>

definition before_run :: "compact_env \<Rightarrow> sum_env \<Rightarrow> int option \<Rightarrow> int option \<Rightarrow> compact_state \<Rightarrow> compact_state" where
  "before_run env senv threshold force_line s =
     (if \<not> co_enabled env then s
      else if (threshold = None \<or> threshold = Some 0) \<and> (force_line = None \<or> force_line = Some 0) then s
      else if length (cs_events s) \<le> 3 then s
      else (let measured = estimate_events_tokens (cs_events s);
                force = (case force_line of None \<Rightarrow> False | Some r \<Rightarrow> r \<noteq> 0 \<and> r \<le> measured)
            in if \<not> force \<and> (case threshold of None \<Rightarrow> True | Some t \<Rightarrow> t = 0 \<or> measured < t) then s
               else (let tail = (if force then 2 else keep_tail);
                         head_len = clamp_head_pending (cs_events s) (int (length (cs_events s)) - int tail)
                     in if head_len < 1 then s
                        else snd (summarize_and_append env senv (py_prefix head_len (cs_events s)) force s))))"

section \<open>The guard\<close>

record guard_cfg =
  gc_effective :: int
  gc_warn :: int
  gc_reject :: int
  gc_pressure :: "int option"

record guard_env =
  ge_sums :: sum_env
  ge_compact :: compact_env
  ge_session :: string
  ge_invocation :: string
  ge_forget :: "string list \<Rightarrow> string list"

record guard_world =
  gw_guard :: guard_state
  gw_compact :: compact_state

definition corrected :: "guard_env \<Rightarrow> guard_world \<Rightarrow> int \<Rightarrow> int" where
  "corrected env w n = trunc (of_int n * correction (ge_session env) (gw_guard w))"

definition raw_tokens :: "content list \<Rightarrow> hist_event list \<Rightarrow> int" where
  "raw_tokens cs es = max (estimate_prompt_tokens cs es) (estimate_request_tokens cs)"

definition set_sums :: "sum_state \<Rightarrow> guard_world \<Rightarrow> guard_world" where
  "set_sums table w = w\<lparr>gw_compact := (gw_compact w)\<lparr>cs_sums := table\<rparr>\<rparr>"

text \<open>The pressure loop over what to keep: the request, its tokens and the world after it. \<open>es\<close> are the events at entry.\<close>

fun relieve :: "guard_cfg \<Rightarrow> guard_env \<Rightarrow> hist_event list \<Rightarrow> int \<Rightarrow> nat list \<Rightarrow> content list \<times> int \<times> int \<times> guard_world \<Rightarrow>
    content list \<times> int \<times> int \<times> guard_world" where
  "relieve cfg env es line [] x = x"
| "relieve cfg env es line (keep # keeps) (cs, request_est, tokens, w) =
     (let goal = trunc (of_int (gc_effective cfg) * 7 / 10);
          (cs, r) = rewrite_request (ge_sums env)
                      \<lparr>rw_keep = keep, rw_min = 400, rw_summaries = True, rw_budget = Some (nat (tokens - goal))\<rparr> cs (cs_sums (gw_compact w));
          w = set_sums (rn_sums r) w;
          (request_est, tokens) =
            (if rn_rewritten r = 0 then (request_est, tokens)
             else (max 0 (estimate_request_tokens cs), corrected env w (raw_tokens cs es)))
      in if tokens < line then (cs, request_est, tokens, w) else relieve cfg env es line keeps (cs, request_est, tokens, w))"

definition try_midturn :: "guard_env \<Rightarrow> guard_world \<Rightarrow> guard_world" where
  "try_midturn env w =
     (let i = ge_invocation env; g = gw_guard w
      in if i = [] \<or> List.member (gu_tried g) i then w
         else (let tried = gu_tried g @ [i]; tried = (if length tried > 512 then ge_forget env tried else tried);
                   (_, s) = midturn_compact_prior (ge_compact env) (ge_sums env) i (gw_compact w)
               in w\<lparr>gw_guard := g\<lparr>gu_tried := tried\<rparr>, gw_compact := s\<rparr>))"

datatype guard_reply = Proceed | RejectFull | RejectOversized

definition oversized_part :: "guard_cfg \<Rightarrow> content list \<Rightarrow> bool" where
  "oversized_part cfg cs \<longleftrightarrow>
     list_ex (\<lambda>p. (case rp_text p of None \<Rightarrow> False | Some t \<Rightarrow> t \<noteq> [] \<and> gc_reject cfg * 4 \<le> int (length t))
                \<or> (case rp_resp p of None \<Rightarrow> False | Some fr \<Rightarrow> gc_reject cfg * 4 \<le> int (length (dumps True (dict_or_empty (fr_response fr))))))
       (request_parts cs)"

text \<open>One eviction at the reject line.\<close>

definition evict :: "guard_env \<Rightarrow> nat \<Rightarrow> nat \<Rightarrow> nat option \<Rightarrow> content list \<times> int \<times> int \<times> guard_world \<Rightarrow> content list \<times> int \<times> int \<times> guard_world" where
  "evict env keep min_tokens allowance = (\<lambda>(cs, request_est, tokens, w).
     (let (cs, r) = rewrite_request (ge_sums env)
                      \<lparr>rw_keep = keep, rw_min = min_tokens, rw_summaries = True, rw_budget = allowance\<rparr> cs (cs_sums (gw_compact w));
          w = set_sums (rn_sums r) w
      in if rn_rewritten r = 0 then (cs, request_est, tokens, w)
         else (let request_est = max 0 (request_est - int (rn_freed r)) in (cs, request_est, corrected env w request_est, w))))"

definition at_reject_line :: "guard_cfg \<Rightarrow> guard_env \<Rightarrow> content list \<times> int \<times> int \<times> guard_world \<Rightarrow> guard_reply \<times> content list \<times> int \<times> guard_world" where
  "at_reject_line cfg env x =
     (let (cs, request_est, tokens, w) = evict env 2 256 (Some (nat (fst (snd x) - gc_warn cfg))) x;
          (cs, request_est, tokens, w) =
            (if tokens \<ge> gc_reject cfg then evict env 0 64 None (cs, request_est, tokens, w) else (cs, request_est, tokens, w))
      in (if tokens < gc_reject cfg then Proceed else if oversized_part cfg cs then RejectOversized else RejectFull, cs, tokens, w))"

text \<open>The call of the model, in three steps: the count, the pressure ladder (with the events at entry) and the reject line.\<close>

definition guard_count :: "guard_env \<Rightarrow> content list \<Rightarrow> guard_world \<Rightarrow> content list \<times> int \<times> int \<times> guard_world" where
  "guard_count env cs w =
     (let raw = raw_tokens cs (cs_events (gw_compact w)); g = gw_guard w;
          w = w\<lparr>gw_guard := g\<lparr>gu_last := dict_put (ge_session env) raw (gu_last g)\<rparr>\<rparr>
      in (cs, estimate_request_tokens cs, corrected env w raw, w))"

definition guard_pressure :: "guard_cfg \<Rightarrow> guard_env \<Rightarrow> hist_event list \<Rightarrow> content list \<times> int \<times> int \<times> guard_world \<Rightarrow>
    content list \<times> int \<times> int \<times> guard_world" where
  "guard_pressure cfg env es x =
     (case gc_pressure cfg of
        None \<Rightarrow> x
      | Some line \<Rightarrow>
          if line \<le> fst (snd (snd x)) \<and> fst (snd (snd x)) < gc_reject cfg then
            (let (cs, request_est, tokens, w) = relieve cfg env es line [2, 1, 0] x
             in (cs, request_est, tokens, if line \<le> tokens then try_midturn env w else w))
          else x)"

definition guard_decide :: "guard_cfg \<Rightarrow> guard_env \<Rightarrow> content list \<times> int \<times> int \<times> guard_world \<Rightarrow> guard_reply \<times> content list \<times> int \<times> guard_world" where
  "guard_decide cfg env x =
     (case x of
        (cs, _, tokens, w) \<Rightarrow> if gc_reject cfg \<le> tokens then at_reject_line cfg env x else (Proceed, cs, tokens, w))"

definition guard_before :: "guard_cfg option \<Rightarrow> guard_env \<Rightarrow> content list \<Rightarrow> guard_world \<Rightarrow> guard_reply \<times> content list \<times> int \<times> guard_world" where
  "guard_before cfg env cs w =
     (case cfg of
        None \<Rightarrow> (Proceed, cs, 0, w)
      | Some c \<Rightarrow> guard_decide c env (guard_pressure c env (cs_events (gw_compact w)) (guard_count env cs w)))"

section \<open>The ladder and the correction\<close>

text \<open>The limits of the guard are in order whatever is configured: the reserve is less than the window, the reject line
  lies in what is left of it, and the warning comes before the reject line unless that is one token.\<close>

theorem ladder_is_ordered:
  fixes reserve :: int
  assumes "1 \<le> max_tokens" "l = normalize_ladder max_tokens reserve warn_opt reject_opt"
  shows "0 \<le> ld_reserve l \<and> ld_reserve l < max_tokens \<and> ld_effective l = max_tokens - ld_reserve l
    \<and> 1 \<le> ld_warn l \<and> ld_reject l \<le> ld_effective l \<and> (ld_warn l < ld_reject l \<or> ld_warn l = 1 \<and> ld_reject l = 1)"
proof -
  define a where "a = (if reserve < 0 then 0 else reserve)"
  define m where "m = (if a \<ge> max_tokens then max 0 (max_tokens - 1) else a)"
  define e where "e = max 1 (max_tokens - m)"
  define w where "w = (case warn_opt of Some w \<Rightarrow> w | None \<Rightarrow> trunc (of_int e * 3 / 4))"
  define r where "r = (case reject_opt of Some r \<Rightarrow> r | None \<Rightarrow> trunc (of_int e * 95 / 100))"
  define rj where "rj = min (max r 1) e"
  define c where "c = min (max w 1) rj"
  have l: "l = \<lparr>ld_reserve = m, ld_effective = e, ld_warn = (if c = rj \<and> rj > 1 then rj - 1 else c), ld_reject = rj\<rparr>"
    unfolding assms(2) normalize_ladder_def Let_def c_def rj_def w_def r_def e_def m_def a_def by (rule refl)
  have "0 \<le> m" "m < max_tokens" using assms(1) by (auto simp: m_def a_def)
  moreover from this have "e = max_tokens - m" by (simp add: e_def)
  moreover have "1 \<le> rj" "rj \<le> e" using assms(1) calculation by (simp_all add: rj_def e_def)
  moreover have "1 \<le> c" "c \<le> rj" using calculation by (simp_all add: c_def)
  ultimately show ?thesis by (auto simp: l)
qed

lemma ladder_is_ordered_witness:
  "ld_reject (normalize_ladder 1000 2000 (Some 50) (Some 900)) = 1 \<and> ld_warn (normalize_ladder 1000 2000 (Some 50) (Some 900)) = 1"
  using ladder_is_ordered [of 1000 "normalize_ladder 1000 2000 (Some 50) (Some 900)" 2000 "Some 50" "Some 900"]
  by (simp add: normalize_ladder_def)

definition cal_ok :: "guard_state \<Rightarrow> bool" where
  "cal_ok g \<longleftrightarrow> length (gu_cal g) \<le> cal_cap \<and> (\<forall>x \<in> set (gu_cal g). 1 / 2 \<le> snd x \<and> snd x \<le> 3)"

lemma dict_put_length: "length (dict_put k v ps) \<le> Suc (length ps)"
  by (induction ps) auto

lemma cal_value: "cal_ok g \<Longrightarrow> map_of (gu_cal g) sid = Some c \<Longrightarrow> 1 / 2 \<le> c \<and> c \<le> 3"
  unfolding cal_ok_def by (metis map_of_SomeD snd_conv)

lemma note_usage_ok: "cal_ok g \<Longrightarrow> cal_ok (note_usage sid estimated actual g)"
proof -
  assume g: "cal_ok g"
  define ratio :: rat where "ratio = max (1 / 2) (min 3 (of_int actual / of_int estimated))"
  define old where "old = (case map_of (gu_cal g) sid of None \<Rightarrow> 1 | Some c \<Rightarrow> c)"
  have "1 / 2 \<le> ratio \<and> ratio \<le> 3" by (simp add: ratio_def)
  moreover have "1 / 2 \<le> old \<and> old \<le> 3" using cal_value [OF g, of sid] by (auto simp: old_def split: option.split)
  ultimately have v: "1 / 2 \<le> old / 2 + ratio / 2 \<and> old / 2 + ratio / 2 \<le> 3" by (simp add: field_simps)
  let ?cal = "dict_put sid (old / 2 + ratio / 2) (gu_cal g)"
  have s: "\<forall>x \<in> set ?cal. 1 / 2 \<le> snd x \<and> snd x \<le> 3"
  proof
    fix x
    assume "x \<in> set ?cal"
    then have "x = (sid, old / 2 + ratio / 2) \<or> x \<in> set (gu_cal g)" using set_dict_put by fastforce
    then show "1 / 2 \<le> snd x \<and> snd x \<le> 3" using v g by (auto simp: cal_ok_def)
  qed
  have l: "length ?cal \<le> Suc cal_cap" using dict_put_length [of sid "old / 2 + ratio / 2" "gu_cal g"] g by (simp add: cal_ok_def)
  have "set (tl xs) \<subseteq> set xs" for xs :: "(string \<times> rat) list" by (cases xs) auto
  then have "\<forall>x \<in> set (tl ?cal). 1 / 2 \<le> snd x \<and> snd x \<le> 3" using s by blast
  moreover have "length (tl ?cal) \<le> cal_cap" using l by simp
  ultimately show ?thesis using g s
    by (simp add: note_usage_def Let_def ratio_def [symmetric] old_def [symmetric]) (simp add: cal_ok_def)
qed

lemma after_model_ok: "cal_ok g \<Longrightarrow> cal_ok (after_model sid actual g)"
proof -
  assume g: "cal_ok g"
  then have "cal_ok (g\<lparr>gu_last := l\<rparr>)" for l by (simp add: cal_ok_def)
  then show ?thesis using note_usage_ok by (auto simp: after_model_def Let_def split: option.split)
qed

text \<open>The passes before a call leave the corrections alone.\<close>

lemma set_sums_guard [simp]: "gw_guard (set_sums t w) = gw_guard w"
  by (simp add: set_sums_def)

lemma evict_guard: "gw_guard (snd (snd (snd (evict env keep m b x)))) = gw_guard (snd (snd (snd x)))"
  by (auto simp: evict_def Let_def split: prod.split)

lemma relieve_guard: "gw_guard (snd (snd (snd (relieve cfg env es line keeps x)))) = gw_guard (snd (snd (snd x)))"
proof (induction keeps arbitrary: x)
  case (Cons k keeps)
  obtain cs e t w where x: "x = (cs, e, t, w)" by (cases x) auto
  show ?case unfolding x by (auto simp: Let_def Cons split: prod.split)
qed simp

lemma try_midturn_cal: "gu_cal (gw_guard (try_midturn env w)) = gu_cal (gw_guard w)"
  by (auto simp: try_midturn_def Let_def split: prod.split)

lemma at_reject_line_guard: "gw_guard (snd (snd (snd (at_reject_line cfg env x)))) = gw_guard (snd (snd (snd x)))"
proof -
  obtain cs1 e1 t1 w1 where y: "evict env 2 256 (Some (nat (fst (snd x) - gc_warn cfg))) x = (cs1, e1, t1, w1)"
    by (cases "evict env 2 256 (Some (nat (fst (snd x) - gc_warn cfg))) x") auto
  obtain cs2 e2 t2 w2 where z: "evict env 0 64 None (cs1, e1, t1, w1) = (cs2, e2, t2, w2)"
    by (cases "evict env 0 64 None (cs1, e1, t1, w1)") auto
  have "gw_guard w1 = gw_guard (snd (snd (snd x)))" using evict_guard [of env 2 256 "Some (nat (fst (snd x) - gc_warn cfg))" x] y by simp
  moreover have "gw_guard w2 = gw_guard w1" using evict_guard [of env 0 64 None "(cs1, e1, t1, w1)"] z by simp
  ultimately show ?thesis by (simp add: at_reject_line_def y z)
qed

lemma guard_pressure_cal: "gu_cal (gw_guard (snd (snd (snd (guard_pressure cfg env es x))))) = gu_cal (gw_guard (snd (snd (snd x))))"
proof (cases "gc_pressure cfg")
  case (Some line)
  obtain cs1 e1 t1 w1 where y: "relieve cfg env es line [2, 1, 0] x = (cs1, e1, t1, w1)"
    by (cases "relieve cfg env es line [2, 1, 0] x") auto
  have "gw_guard w1 = gw_guard (snd (snd (snd x)))" using relieve_guard [of cfg env es line "[2, 1, 0]" x] y by simp
  then show ?thesis unfolding guard_pressure_def Some option.case y Let_def prod.case using try_midturn_cal by simp
qed (simp add: guard_pressure_def)

lemma guard_before_cal: "gu_cal (gw_guard (snd (snd (snd (guard_before cfg env cs w))))) = gu_cal (gw_guard w)"
proof (cases cfg)
  case (Some c)
  define x where "x = guard_pressure c env (cs_events (gw_compact w)) (guard_count env cs w)"
  have x: "gu_cal (gw_guard (snd (snd (snd x)))) = gu_cal (gw_guard w)"
    by (simp add: x_def guard_pressure_cal) (simp add: guard_count_def Let_def)
  have "gw_guard (snd (snd (snd (guard_decide c env x)))) = gw_guard (snd (snd (snd x)))"
    using at_reject_line_guard [of c env x] by (cases x) (simp add: guard_decide_def)
  then show ?thesis using x by (simp add: guard_before_def Some x_def)
qed (simp add: guard_before_def)

text \<open>A life of the plugin: calls of the model, each before and after.\<close>

datatype guard_op = CallBefore "guard_cfg option" guard_env "content list" "hist_event list" | CallAfter string "int option"

fun guard_step :: "guard_op \<Rightarrow> guard_world \<Rightarrow> guard_world" where
  "guard_step (CallBefore cfg env cs es) w =
     snd (snd (snd (guard_before cfg env cs (w\<lparr>gw_compact := (gw_compact w)\<lparr>cs_events := es\<rparr>\<rparr>))))"
| "guard_step (CallAfter sid actual) w = w\<lparr>gw_guard := after_model sid actual (gw_guard w)\<rparr>"

definition guard_start :: "compact_state \<Rightarrow> guard_world" where
  "guard_start s = \<lparr>gw_guard = \<lparr>gu_cal = [], gu_last = [], gu_tried = []\<rparr>, gw_compact = s\<rparr>"

lemma cal_ok_life: "cal_ok (gw_guard (fold guard_step ops (guard_start s)))"
proof (induction ops rule: rev_induct)
  case Nil
  then show ?case by (simp add: guard_start_def cal_ok_def)
next
  case (snoc op ops)
  show ?case
  proof (cases op)
    case (CallBefore cfg env cs es)
    then show ?thesis using snoc by (simp add: cal_ok_def guard_before_cal)
  next
    case (CallAfter sid actual)
    then show ?thesis using snoc by (simp add: after_model_ok)
  qed
qed

text \<open>Whatever counts the model reports, the correction of the estimate stays between one half and three, so the guard
  never counts a request at less than half of its estimate, and it remembers 256 sessions at most.\<close>

theorem correction_stays_in_bounds:
  "1 / 2 \<le> correction sid (gw_guard (fold guard_step ops (guard_start s)))
   \<and> correction sid (gw_guard (fold guard_step ops (guard_start s))) \<le> 3
   \<and> length (gu_cal (gw_guard (fold guard_step ops (guard_start s)))) \<le> 256"
proof -
  let ?g = "gw_guard (fold guard_step ops (guard_start s))"
  have ok: "cal_ok ?g" by (rule cal_ok_life)
  have "1 / 2 \<le> correction sid ?g \<and> correction sid ?g \<le> 3"
    using cal_value [OF ok, of sid] by (cases "map_of (gu_cal ?g) sid") (simp_all add: correction_def)
  moreover have "length (gu_cal ?g) \<le> 256" using ok by (simp add: cal_ok_def cal_cap_def)
  ultimately show ?thesis by blast
qed

section \<open>Rejecting\<close>

text \<open>What a pass that keeps nothing leaves behind.\<close>

definition shrunk :: "nat \<Rightarrow> req_part \<Rightarrow> bool" where
  "shrunk m p \<longleftrightarrow>
     (case rp_resp p of
        Some fr \<Rightarrow> \<not> list_ex (\<lambda>n. fr_name fr = Some n) compactable \<or> is_stub (fr_response fr) \<or> est_tokens (fr_response fr) < m
      | None \<Rightarrow>
          (case rp_call p of
             Some _ \<Rightarrow> True
           | None \<Rightarrow> (case rp_text p of None \<Rightarrow> True | Some t \<Rightarrow> length t < m * 4 \<or> \<not> foreign_result t \<or> is_rewritten_text t)))"

lemma foreign_Nil [simp]: "\<not> foreign_result []"
  by (simp add: foreign_result_def ustarts_def cps_def)

lemma inert_shrunk: "inert answered m p \<Longrightarrow> shrunk m p"
  by (auto simp: inert_def shrunk_def target_of_def split: option.splits if_splits)

lemma all_rewritten:
  assumes "rw_budget cfg = None"
  shows "list_all short_text ps \<Longrightarrow> length (targets answered (rw_min cfg) ps) \<le> rn_left r \<Longrightarrow>
     list_all (inert answered (rw_min cfg)) (fst (rewrite_parts env cfg answered ps r))"
proof (induction ps arbitrary: r)
  case (Cons p ps)
  obtain q r1 where q: "rewrite_part env cfg answered p r = (q, r1)" by fastforce
  have t: "length (targets answered (rw_min cfg) (p # ps))
      = (if target_of answered (rw_min cfg) p = None then 0 else 1) + length (targets answered (rw_min cfg) ps)"
    by (auto simp: targets_def map_filter_simps split: option.split)
  have out: "fst (rewrite_parts env cfg answered (p # ps) r) = q # fst (rewrite_parts env cfg answered ps r1)"
    by (simp add: q split: prod.split)
  show ?case
  proof (cases "target_of answered (rw_min cfg) p = None")
    case True
    then have "q = p" "r1 = r" using rewrite_part_none [of answered cfg p r env] q by auto
    moreover have "inert answered (rw_min cfg) p" using True by (simp add: inert_def)
    ultimately show ?thesis using Cons t True unfolding out by simp
  next
    case False
    then have l: "rn_left r \<noteq> 0" using Cons.prems(2) t by (auto split: if_splits)
    have "inert answered (rw_min cfg) q" using rewritten_is_inert(1) [OF assms l, of p answered env] Cons.prems(1) q by simp
    moreover have "rn_left r1 = rn_left r - 1"
      using rewritten_is_inert(2) [OF assms l, of p answered env] Cons.prems(1) False q by simp
    ultimately show ?thesis using Cons t False unfolding out by simp
  qed
qed simp

lemma rewrite_all_shrinks:
  assumes "rewrite_request env \<lparr>rw_keep = 0, rw_min = m, rw_summaries = b, rw_budget = None\<rparr> cs s = (ds, r)"
    and "list_all short_text (request_parts cs)"
  shows "list_all (shrunk m) (request_parts ds)"
proof -
  let ?cfg = "\<lparr>rw_keep = 0, rw_min = m, rw_summaries = b, rw_budget = None\<rparr>" and ?a = "answered_in cs"
  define r0 where "r0 = \<lparr>rn_left = length (targets ?a m (request_parts cs)), rn_rewritten = 0, rn_freed = 0, rn_summarized = 0, rn_sums = s\<rparr>"
  have "rewrite_contents env ?cfg ?a cs r0 = (ds, r)" using assms(1) by (simp add: rewrite_request_def Let_def r0_def)
  note ps = contents_as_parts [OF this, THEN conjunct1]
  have "list_all (inert ?a m) (request_parts ds)"
    using all_rewritten [of ?cfg "request_parts cs" ?a r0 env] assms(2) ps by (simp add: r0_def)
  then show ?thesis using inert_shrunk by (auto simp: list_all_iff)
qed

lemma relieve_short:
  "list_all short_text (request_parts (fst x)) \<Longrightarrow> list_all short_text (request_parts (fst (relieve cfg env es line keeps x)))"
proof (induction keeps arbitrary: x)
  case (Cons k keeps)
  obtain cs e t w where x: "x = (cs, e, t, w)" by (cases x) auto
  obtain ds r where r: "rewrite_request (ge_sums env)
      \<lparr>rw_keep = k, rw_min = 400, rw_summaries = True, rw_budget = Some (nat (t - trunc (of_int (gc_effective cfg) * 7 / 10)))\<rparr>
      cs (cs_sums (gw_compact w)) = (ds, r)" by fastforce
  have "list_all short_text (request_parts ds)" using request_stays_short [OF r] Cons.prems x by simp
  then show ?case unfolding x by (auto simp: r Let_def Cons.IH split: prod.split)
qed simp

lemma pressure_short:
  "list_all short_text (request_parts (fst x)) \<Longrightarrow> list_all short_text (request_parts (fst (guard_pressure cfg env es x)))"
proof (cases "gc_pressure cfg")
  case (Some line)
  assume x: "list_all short_text (request_parts (fst x))"
  obtain cs1 e1 t1 w1 where y: "relieve cfg env es line [2, 1, 0] x = (cs1, e1, t1, w1)"
    by (cases "relieve cfg env es line [2, 1, 0] x") auto
  have "list_all short_text (request_parts cs1)" using relieve_short [OF x, of cfg env es line "[2, 1, 0]"] y by simp
  then show ?thesis unfolding guard_pressure_def Some option.case y Let_def prod.case using x by simp
qed (simp add: guard_pressure_def)

lemma evict_request:
  "\<exists>r. rewrite_request (ge_sums env) \<lparr>rw_keep = keep, rw_min = m, rw_summaries = True, rw_budget = b\<rparr> (fst x) (cs_sums (gw_compact (snd (snd (snd x)))))
     = (fst (evict env keep m b x), r)"
  by (cases x) (auto simp: evict_def Let_def split: prod.split)

lemma reject_line_spec:
  assumes "at_reject_line cfg env x = (reply, ds, tokens, w)" "list_all short_text (request_parts (fst x))"
  shows "(reply = Proceed \<longleftrightarrow> tokens < gc_reject cfg) \<and> (reply \<noteq> Proceed \<longrightarrow> list_all (shrunk 64) (request_parts ds))"
proof -
  define b where "b = Some (nat (fst (snd x) - gc_warn cfg))"
  obtain cs1 e1 t1 w1 where y: "evict env 2 256 b x = (cs1, e1, t1, w1)" by (cases "evict env 2 256 b x") auto
  obtain cs2 e2 t2 w2 where z: "evict env 0 64 None (cs1, e1, t1, w1) = (cs2, e2, t2, w2)"
    by (cases "evict env 0 64 None (cs1, e1, t1, w1)") auto
  have "list_all short_text (request_parts cs1)"
    using evict_request [of env 2 256 b x] request_stays_short assms(2) y by fastforce
  then have s: "list_all (shrunk 64) (request_parts cs2)"
    using evict_request [of env 0 64 None "(cs1, e1, t1, w1)"] rewrite_all_shrinks z by fastforce
  note r = assms(1) [unfolded at_reject_line_def Let_def b_def [symmetric] y prod.case z]
  show ?thesis
  proof (cases "gc_reject cfg \<le> t1")
    case True
    then show ?thesis using r s by (auto split: if_splits)
  next
    case False
    then show ?thesis using r by (auto split: if_splits)
  qed
qed

text \<open>C6: The guard lets a call pass exactly when it counts it below the reject line, and it rejects one only when nothing is
  left to give up: every result of the listed tools is a stub or a summary or weighs less than 64 tokens, and so does every
  result of another agent shown as text.\<close>

theorem rejected_request_is_exhausted:
  assumes "guard_before (Some cfg) env cs w = (reply, ds, tokens, w')" "list_all short_text (request_parts cs)"
  shows "(reply = Proceed \<longleftrightarrow> tokens < gc_reject cfg) \<and> (reply \<noteq> Proceed \<longrightarrow> list_all (shrunk 64) (request_parts ds))"
proof -
  let ?x = "guard_pressure cfg env (cs_events (gw_compact w)) (guard_count env cs w)"
  have "fst (guard_count env cs w) = cs" by (simp add: guard_count_def Let_def)
  then have s: "list_all short_text (request_parts (fst ?x))" using pressure_short [of "guard_count env cs w"] assms(2) by simp
  obtain cs1 e1 t1 w1 where x: "?x = (cs1, e1, t1, w1)" by (cases ?x) auto
  show ?thesis
  proof (cases "gc_reject cfg \<le> t1")
    case True
    then show ?thesis using reject_line_spec [of cfg env ?x] assms(1) s x by (simp add: guard_before_def guard_decide_def)
  next
    case False
    then show ?thesis using assms(1) x by (auto simp: guard_before_def guard_decide_def)
  qed
qed

definition example_summaries :: sum_env where
  "example_summaries = \<lparr>se_enabled = False, se_disk = False, se_digest = map char_of, se_model = (\<lambda>n tool body. (Broken, 0))\<rparr>"

definition example_compact :: compact_env where
  "example_compact =
     \<lparr>co_enabled = True, co_midturn = True, co_service = True, co_inner = (\<lambda>n es. (InnerFailed, 1)), co_min_new = 4000, co_threshold = 3,
      co_cooldown = 60, co_frame = None, co_new_id = ''e'', co_now = 9\<rparr>"

definition example_guard :: guard_env where
  "example_guard = \<lparr>ge_sums = example_summaries, ge_compact = example_compact, ge_session = ''s'', ge_invocation = ''i'', ge_forget = tl\<rparr>"

definition history_event :: "rat \<Rightarrow> req_part list \<Rightarrow> int option \<Rightarrow> compaction option \<Rightarrow> hist_event" where
  "history_event t ps usage c =
     \<lparr>he_invocation = Some ''h'', he_author = ''user'', he_time = t, he_parts = ps, he_usage = usage, he_compaction = c\<rparr>"

definition example_world :: "hist_event list \<Rightarrow> guard_world" where
  "example_world es =
     guard_start \<lparr>cs_sums = sums_start [] 0, cs_breaker = \<lparr>br_fails = 0, br_open_until = 0, br_calls = 0\<rparr>, cs_events = es\<rparr>"

lemmas guard_defs =
  guard_before_def guard_decide_def guard_pressure_def guard_count_def at_reject_line_def evict_def raw_tokens_def corrected_def
  correction_def set_sums_def estimate_prompt_tokens_def estimate_request_tokens_def estimate_from_request_def latest_usage_def
  part_chars_def text_chars_def trunc_def example_guard_def example_summaries_def example_world_def guard_start_def history_event_def
  sums_start_def oversized_part_def dict_or_empty_def

text \<open>The count of the last answer outweighs the request however small that is: after a call the model counted at the reject
  line, a request of one word is rejected, and a compaction of the history changes nothing.\<close>

lemma stale_count_rejects_a_small_request:
  fixes cfg :: guard_cfg
  defines "cfg \<equiv> \<lparr>gc_effective = 200000, gc_warn = 150000, gc_reject = 190000, gc_pressure = Some 170000\<rparr>"
    and "es \<equiv> [history_event 1 [] (Some 195000) None, history_event 2 [] None (Some \<lparr>cm_start = 1, cm_end = 1, cm_parts = []\<rparr>)]"
  shows "fst (guard_before (Some cfg) example_guard [\<lparr>ct_role = ''user'', ct_parts = [text_part_of (cps ''hi'')]\<rparr>] (example_world es)) = RejectFull"
    "estimate_events_tokens es = 0"
proof -
  show "fst (guard_before (Some cfg) example_guard [\<lparr>ct_role = ''user'', ct_parts = [text_part_of (cps ''hi'')]\<rparr>] (example_world es)) = RejectFull"
    by (simp add: guard_defs cfg_def es_def text_part_of_def rewrite_defs foreign_result_def ustarts_def)
  show "estimate_events_tokens es = 0" by (simp add: estimate_events_tokens_def es_def history_event_def)
qed

lemma rejected_request_is_exhausted_witness:
  "fst (guard_before (Some \<lparr>gc_effective = 9, gc_warn = 5, gc_reject = 8, gc_pressure = None\<rparr>) example_guard
      [\<lparr>ct_role = ''user'', ct_parts = [text_part_of (cps ''please go on, and on, and on, and on'')]\<rparr>] (example_world [])) \<noteq> Proceed
   \<and> list_all (shrunk 64) (request_parts (fst (snd (guard_before (Some \<lparr>gc_effective = 9, gc_warn = 5, gc_reject = 8, gc_pressure = None\<rparr>) example_guard
      [\<lparr>ct_role = ''user'', ct_parts = [text_part_of (cps ''please go on, and on, and on, and on'')]\<rparr>] (example_world [])))))"
  (is "fst ?g \<noteq> Proceed \<and> ?P")
proof -
  obtain reply ds tokens w' where g: "?g = (reply, ds, tokens, w')" by (cases ?g) auto
  have s: "list_all short_text (request_parts [\<lparr>ct_role = ''user'', ct_parts = [text_part_of (cps ''please go on, and on, and on, and on'')]\<rparr>])"
    by (simp add: request_parts_def short_text_def text_part_of_def)
  have "fst ?g \<noteq> Proceed"
    by (simp add: guard_defs text_part_of_def rewrite_defs foreign_result_def ustarts_def)
  then show ?thesis using rejected_request_is_exhausted [OF g s] g by simp
qed

text \<open>What an eviction frees is counted without the stub that replaces the result: a request passes that weighs more than the
  reject line.\<close>

lemma eviction_is_overcounted:
  fixes cfg :: guard_cfg
  defines "cfg \<equiv> \<lparr>gc_effective = 30, gc_warn = 15, gc_reject = 20, gc_pressure = None\<rparr>"
    and "cs \<equiv> [\<lparr>ct_role = ''user'', ct_parts = [bash_result ''1'' ''ok'' (replicate 300 (CHR ''a''))]\<rparr>]"
  shows "fst (guard_before (Some cfg) example_guard cs (example_world [])) = Proceed"
    "gc_reject cfg \<le> estimate_request_tokens (fst (snd (guard_before (Some cfg) example_guard cs (example_world []))))"
proof -
  let ?t = "sums_start [] 0"
  define stub where "stub = [\<lparr>ct_role = ''user'', ct_parts =
      [(bash_result ''1'' ''ok'' [])\<lparr>rp_resp := Some \<lparr>fr_id = Some ''1'', fr_name = Some ''run_bash'', fr_response = Some cleared_response\<rparr>\<rparr>]\<rparr>]"
  have one: "rewrite_request (ge_sums example_guard) \<lparr>rw_keep = 2, rw_min = 256, rw_summaries = True, rw_budget = b\<rparr> cs ?t
      = (cs, \<lparr>rn_left = 0, rn_rewritten = 0, rn_freed = 0, rn_summarized = 0, rn_sums = ?t\<rparr>)" for b
    by (simp add: rewrite_defs cs_def bash_result_def)
  have est: "est_tokens (Some [(cps ''status'', JStr (cps ''ok'')), (cps ''stdout'', JStr (cps (replicate 300 (CHR ''a''))))]) = 82"
    by (simp add: est_tokens_def payload_text_def payload_def dump_string_def dump_char_def cps_def length_concat sum_list_replicate)
  have two: "rewrite_request (ge_sums example_guard) \<lparr>rw_keep = 0, rw_min = 64, rw_summaries = True, rw_budget = None\<rparr> cs ?t
      = (stub, \<lparr>rn_left = 0, rn_rewritten = 1, rn_freed = 82, rn_summarized = 0, rn_sums = ?t\<rparr>)"
  proof -
    have t: "target_of (answered_in cs) 64 (bash_result ''1'' ''ok'' (replicate 300 (CHR ''a''))) = Some (KResponse, 82)"
      using est by (simp add: target_of_def bash_result_def compactable_def is_stub_def has_status_def cps_def)
    show ?thesis using t
      by (simp add: rewrite_request_def request_parts_def cs_def targets_def map_filter_simps Let_def rewrite_part_def)
        (simp add: rewrite_response_def bash_result_def try_summary_def summarize_def example_guard_def example_summaries_def stub_def Let_def)
  qed
  have count: "estimate_request_tokens cs = 82" "estimate_prompt_tokens cs [] = 0"
    by (simp_all add: estimate_request_tokens_def estimate_prompt_tokens_def latest_usage_def estimate_from_request_def part_chars_def
        text_chars_def cs_def bash_result_def dict_or_empty_def dump_string_def dump_char_def cps_def length_concat sum_list_replicate)
  have k: "corrected example_guard v n = n" if "gu_cal (gw_guard v) = []" for v n
    using that by (simp add: corrected_def correction_def trunc_def)
  obtain v where c: "guard_count example_guard cs (example_world []) = (cs, 82, 82, v)" "gu_cal (gw_guard v) = []" "cs_sums (gw_compact v) = ?t"
    using count k by (simp add: guard_count_def example_world_def guard_start_def raw_tokens_def Let_def)
  have e1: "evict example_guard 2 256 b (cs, 82, 82, v) = (cs, 82, 82, set_sums ?t v)" for b
    using one c(3) by (simp add: evict_def)
  have e2: "evict example_guard 0 64 None (cs, 82, 82, set_sums ?t v) = (stub, 0, 0, set_sums ?t (set_sums ?t v))"
    using two c(2) k by (simp add: evict_def set_sums_def)
  have g: "guard_before (Some cfg) example_guard cs (example_world []) = (Proceed, stub, 0, set_sums ?t (set_sums ?t v))"
    by (simp add: guard_before_def guard_pressure_def guard_decide_def at_reject_line_def cfg_def c(1) e1 e2)
  show "fst (guard_before (Some cfg) example_guard cs (example_world [])) = Proceed" using g by simp
  have "20 \<le> estimate_request_tokens stub"
    by (simp add: estimate_request_tokens_def part_chars_def text_chars_def stub_def bash_result_def dict_or_empty_def cleared_response_def
        stub_note_def dump_string_def dump_char_def u_escape_def cps_def)
  then show "gc_reject cfg \<le> estimate_request_tokens (fst (snd (guard_before (Some cfg) example_guard cs (example_world []))))"
    using g by (simp add: cfg_def)
qed

section \<open>What is compacted\<close>

lemma first_pending_spec:
  "first_pending pending i es = None \<Longrightarrow> e \<in> set es \<Longrightarrow> c \<in> set (call_ids (he_parts e)) \<Longrightarrow> c \<notin> set pending"
  "first_pending pending i es = Some k \<Longrightarrow> i \<le> k \<and> k < i + length es
     \<and> (\<forall>e \<in> set (take (k - i) es). \<forall>c \<in> set (call_ids (he_parts e)). c \<notin> set pending)"
proof (induction es arbitrary: i)
  case (Cons d es)
  {
    case 1
    then show ?case using Cons.IH(1) [of "Suc i"] by (auto simp: list_ex_iff split: if_splits)
  next
    case 2
    show ?case
    proof (cases "list_ex (\<lambda>c. List.member pending c) (call_ids (he_parts d))")
      case True
      from 2 have "k = i" unfolding first_pending.simps if_P [OF True] by simp
      then show ?thesis by simp
    next
      case False
      from 2 have k: "first_pending pending (Suc i) es = Some k" unfolding first_pending.simps if_not_P [OF False] by simp
      note IH = Cons.IH(2) [OF k]
      then have "k - i = Suc (k - Suc i)" by (simp add: Suc_diff_Suc Suc_le_eq)
      then show ?thesis using IH False by (auto simp: list_ex_iff)
    qed
  }
qed simp_all

lemma pending_iff:
  "c \<in> set (pending_ids es) \<longleftrightarrow> (\<exists>e \<in> set es. c \<in> set (call_ids (he_parts e))) \<and> (\<forall>e \<in> set es. c \<notin> set (real_answers (he_parts e)))"
  by (auto simp: pending_ids_def Let_def)


definition parked_session :: "hist_event list" where
  "parked_session =
     [history_event 1 [bash_call ''1'' ''ls''] None None, history_event 2 [bash_result ''1'' ''ok'' ''a''] None None,
      history_event 3 [bash_call ''2'' ''rm x''] None None, history_event 4 [bash_result ''2'' ''needs_confirmation'' ''asks''] None None,
      history_event 5 [] None None]"

lemmas pending_defs =
  pending_ids_def call_ids_def real_answers_def is_real_answer_def has_status_def parked_statuses_def undelivered_names_def given_def
  bash_call_def bash_result_def history_event_def parked_session_def map_filter_simps cps_def Let_def


text \<open>A negative end is a count from the back for the slice: in a session shorter than the tail to keep, a parked call moves the
  end into that tail, and \<open>/compact\<close> summarizes events it means to leave alone.\<close>

lemma short_session_is_compacted:
  "clamp_head_pending parked_session (int (length parked_session) - int keep_tail) = 2"
  by (simp add: clamp_head_pending_def py_prefix_def keep_tail_def pending_defs)

section \<open>Forced compaction\<close>

lemma forced_compaction_appends:
  assumes "co_service env" "head \<noteq> []"
  shows "\<exists>m e. fst (summarize_and_append env senv head True s) = Some m
    \<and> cs_events (snd (summarize_and_append env senv head True s)) = cs_events s @ [e]"
proof -
  obtain ds n t where d: "digest_head senv head (0, cs_sums s) = (ds, n, t)" by (cases "digest_head senv head (0, cs_sums s)") auto
  obtain r s1 where r: "maybe_summarize env True ds (s\<lparr>cs_sums := t\<rparr>) = (r, s1)" by fastforce
  have e: "cs_events s1 = cs_events s" using r by (auto simp: maybe_summarize_def Let_def split: if_splits prod.splits inner.splits)
  obtain f t1 where f: "mechanical_event env senv head (cs_sums s1) = (f, t1)" by fastforce
  then have "f \<noteq> None" using assms(2) by (auto simp: mechanical_event_def split: prod.splits)
  then show ?thesis using e assms(1) by (cases r; cases f) (auto simp: summarize_and_append_def d r f)
qed



text \<open>The digest looks summaries up under another text than the rewriter stored them under, as soon as a payload has a character
  outside ASCII.\<close>

lemma digest_misses_the_summary:
  "raw_response \<lparr>fr_id = None, fr_name = None, fr_response = Some [(cps ''out'', JStr [233])]\<rparr>
     \<noteq> payload_text (Some [(cps ''out'', JStr [233])])"
  by (simp add: raw_response_def payload_text_def payload_def dict_or_empty_def dump_string_def dump_char_def u_escape_def cps_def)

section \<open>The breaker\<close>

text \<open>After enough failures in a row the summarizing model is left alone for the cooldown.\<close>

lemma breaker_pauses_the_model:
  assumes "0 < co_threshold env" "co_threshold env \<le> Suc (br_fails b)" "now < failed + co_cooldown env"
    and "cs_breaker s = record_breaker_failure env failed b" "ss_clock (cs_sums s) = now"
  shows "maybe_summarize env force es s = (None, s)"
  using assms by (simp add: maybe_summarize_def should_skip_def record_breaker_failure_def Let_def)

end
