(* ===== verification/FileSessions.thy ===== *)
theory FileSessions
  imports Turns ToolJson
begin

text \<open>
  \<open>service/file_session_service.py\<close>: the sessions of the desktop, one file of lines for each, with the values shared by a
  project and by all projects in files beside them.

  A file is a list of lines. The JSON of a header or an event stands for the header or event itself (the framework's encoding
  keeps the fields that are read); the lines another hand can leave are there too: blank, of another kind, an event that
  does not validate, and text that is not a JSON object. Paths are relative to the base directory. An operation holds no lock
  across an \<open>await\<close> that can suspend, so it is one step. What the framework does (the split of a state by its prefixes,
  and the base class's part of an append) is the record \<open>framework\<close>; \<open>documented\<close> states what its documentation says.
\<close>

section \<open>Names and paths\<close>

definition id_char :: "char \<Rightarrow> bool" where
  "id_char c \<longleftrightarrow> py_alnum c \<or> c = CHR ''-'' \<or> c = CHR ''_''"

definition safe_id :: "string \<Rightarrow> bool" where
  "safe_id s \<longleftrightarrow> (let v = filter id_char s in v \<noteq> [] \<and> v = s)"

definition project_dir :: "string \<Rightarrow> string option" where
  "project_dir u = (if safe_id u then Some (''projects/'' @ u) else None)"

definition sessions_dir :: "string \<Rightarrow> string option" where
  "sessions_dir u = map_option (\<lambda>d. d @ ''/sessions'') (project_dir u)"

definition session_file :: "string \<Rightarrow> string \<Rightarrow> string option" where
  "session_file u s =
     (case sessions_dir u of
        None \<Rightarrow> None
      | Some d \<Rightarrow> if safe_id s then Some (d @ ''/'' @ s @ ''.jsonl'') else None)"

section \<open>Events, lines and files\<close>

type_synonym sdict = "(string \<times> json) list"

record sevent = event +
  se_role :: string
  se_delta :: sdict
  se_time :: rat

definition is_user_text :: "sevent \<Rightarrow> bool" where
  "is_user_text e \<longleftrightarrow> (ev_author e = ''user'' \<or> se_role e = ''user'') \<and> list_ex visible_text (ev_parts e)"

record session_header =
  hd_app :: string
  hd_user :: string
  hd_id :: string
  hd_state :: sdict
  hd_time :: rat

datatype line = BlankLine | HeaderLine session_header | EventLine sevent | BadEvent | OtherLine | NotJson

text \<open>\<open>_deleted\<close> is the set of the sessions deleted by this process.\<close>

record disk =
  dk_app :: sdict
  dk_user :: "(string \<times> sdict) list"
  dk_files :: "(string \<times> line list) list"
  dk_deleted :: "(string \<times> string) list"

record stored_session =
  st_app :: string
  st_user :: string
  st_id :: string
  st_state :: sdict
  st_events :: "sevent list"
  st_time :: rat

datatype store_error = UnsafeId | AlreadyExists | NotReadable

record framework =
  fw_app :: string
  fw_user :: string
  fw_temp :: string
  fw_split :: "sdict \<Rightarrow> sdict \<times> sdict \<times> sdict"
  fw_append :: "stored_session \<Rightarrow> sevent \<Rightarrow> stored_session \<times> sevent"

definition scope_of :: "framework \<Rightarrow> string \<Rightarrow> bool" where
  "scope_of fw k \<longleftrightarrow> \<not> startswith k (fw_app fw) \<and> \<not> startswith k (fw_user fw) \<and> \<not> startswith k (fw_temp fw)"

definition of_prefix :: "string \<Rightarrow> sdict \<Rightarrow> sdict" where
  "of_prefix p d = map (\<lambda>(k, v). (drop (length p) k, v)) (filter (\<lambda>(k, v). startswith k p) d)"

definition documented :: "framework \<Rightarrow> bool" where
  "documented fw \<longleftrightarrow>
     fw_app fw = ''app:'' \<and> fw_user fw = ''user:'' \<and> fw_temp fw = ''temp:''
     \<and> (\<forall>d. fw_split fw d = (of_prefix ''app:'' d, of_prefix ''user:'' d, filter (\<lambda>(k, v). scope_of fw k) d))
     \<and> (\<forall>s e. snd (fw_append fw s e) = e\<lparr>se_delta := filter (\<lambda>(k, v). \<not> startswith k ''temp:'') (se_delta e)\<rparr>)"

definition dict_update :: "sdict \<Rightarrow> sdict \<Rightarrow> sdict" where
  "dict_update cur delta = fold (\<lambda>(k, v) d. dict_put k v d) delta cur"

definition read_user_state :: "string \<Rightarrow> disk \<Rightarrow> sdict" where
  "read_user_state u d = (case map_of (dk_user d) u of None \<Rightarrow> [] | Some s \<Rightarrow> s)"

definition merge_app_state :: "sdict \<Rightarrow> disk \<Rightarrow> disk" where
  "merge_app_state delta d = d\<lparr>dk_app := dict_update (dk_app d) delta\<rparr>"

definition merge_user_state :: "string \<Rightarrow> sdict \<Rightarrow> disk \<Rightarrow> store_error + disk" where
  "merge_user_state u delta d =
     (if safe_id u then Inr (d\<lparr>dk_user := dict_put u (dict_update (read_user_state u d) delta) (dk_user d)\<rparr>) else Inl UnsafeId)"

definition get_user_value :: "string \<Rightarrow> string \<Rightarrow> json \<Rightarrow> disk \<Rightarrow> store_error + json" where
  "get_user_value u k fallback d =
     (if safe_id u then Inr (case map_of (read_user_state u d) k of None \<Rightarrow> fallback | Some v \<Rightarrow> v) else Inl UnsafeId)"

definition set_user_value :: "string \<Rightarrow> string \<Rightarrow> json \<Rightarrow> disk \<Rightarrow> store_error + disk" where
  "set_user_value u k v d = merge_user_state u [(k, v)] d"

definition merge_state_view :: "framework \<Rightarrow> string \<Rightarrow> disk \<Rightarrow> stored_session \<Rightarrow> stored_session" where
  "merge_state_view fw u d s =
     s\<lparr>st_state :=
         dict_update (dict_update (st_state s) (map (\<lambda>(k, v). (fw_app fw @ k, v)) (dk_app d)))
           (map (\<lambda>(k, v). (fw_user fw @ k, v)) (read_user_state u d))\<rparr>"

text \<open>\<open>_read_file\<close>: a later header replaces an earlier one; a line that is not JSON raises.\<close>

fun read_lines :: "session_header option \<Rightarrow> sevent list \<Rightarrow> line list \<Rightarrow> store_error + session_header option \<times> sevent list" where
  "read_lines h es [] = Inr (h, es)"
| "read_lines h es (l # ls) =
     (case l of
        HeaderLine h' \<Rightarrow> read_lines (Some h') es ls
      | EventLine e \<Rightarrow> read_lines h (es @ [e]) ls
      | NotJson \<Rightarrow> Inl NotReadable
      | _ \<Rightarrow> read_lines h es ls)"

definition read_file :: "string \<Rightarrow> disk \<Rightarrow> store_error + session_header option \<times> sevent list" where
  "read_file p d = (case map_of (dk_files d) p of None \<Rightarrow> Inr (None, []) | Some ls \<Rightarrow> read_lines None [] ls)"

definition session_scoped_state :: "framework \<Rightarrow> session_header option \<Rightarrow> sevent list \<Rightarrow> sdict" where
  "session_scoped_state fw h es =
     fold (\<lambda>e st. dict_update st (filter (\<lambda>(k, v). scope_of fw k) (se_delta e))) es
       (case h of None \<Rightarrow> [] | Some h \<Rightarrow> hd_state h)"

section \<open>The operations\<close>

definition zero_number :: "string \<Rightarrow> bool" where
  "zero_number w \<longleftrightarrow>
     (let ds = filter ascii_digit (takeWhile (\<lambda>c. c \<noteq> CHR ''e'' \<and> c \<noteq> CHR ''E'') w)
      in ds \<noteq> [] \<and> list_all (\<lambda>c. c = CHR ''0'') ds)"

fun json_falsy :: "json \<Rightarrow> bool" where
  "json_falsy JNull = True"
| "json_falsy (JBool b) = (\<not> b)"
| "json_falsy (JNum w) = zero_number w"
| "json_falsy (JStr s) = (s = [])"
| "json_falsy (JArr vs) = (vs = [])"
| "json_falsy (JObj ps) = (ps = [])"

text \<open>The mode of a new session; \<open>None\<close> when the agent cannot be imported.\<close>

definition stamp_permission_mode :: "string option \<Rightarrow> sdict \<Rightarrow> sdict" where
  "stamp_permission_mode mode st =
     (if (case map_of st ''permission_mode'' of None \<Rightarrow> False | Some v \<Rightarrow> \<not> json_falsy v) then st
      else case mode of None \<Rightarrow> st | Some m \<Rightarrow> dict_put ''permission_mode'' (JStr (map of_char m)) st)"

record create_env =
  ce_mode :: "string option"
  ce_now :: rat
  ce_fresh :: string

definition merge_shared :: "string \<Rightarrow> sdict \<Rightarrow> sdict \<Rightarrow> disk \<Rightarrow> disk \<times> store_error option" where
  "merge_shared u app user d =
     (let d = (if app = [] then d else merge_app_state app d)
      in if user = [] then (d, None)
         else case merge_user_state u user d of Inl e \<Rightarrow> (d, Some e) | Inr d' \<Rightarrow> (d', None))"

definition write_new :: "create_env \<Rightarrow> string \<Rightarrow> string \<Rightarrow> string \<Rightarrow> string \<Rightarrow> sdict \<Rightarrow> disk \<Rightarrow> disk" where
  "write_new ce app u sid p st d =
     d\<lparr>dk_files := dict_put p [HeaderLine \<lparr>hd_app = app, hd_user = u, hd_id = sid, hd_state = st, hd_time = ce_now ce\<rparr>] (dk_files d)\<rparr>"

definition create_session ::
  "framework \<Rightarrow> create_env \<Rightarrow> string \<Rightarrow> string \<Rightarrow> sdict \<Rightarrow> string option \<Rightarrow> disk \<Rightarrow> disk \<times> (store_error + stored_session)" where
  "create_session fw ce app u state session_id d =
     (let (a, us, st) = fw_split fw state;
          st = stamp_permission_mode (ce_mode ce) st;
          asked = given session_id;
          d = (case asked of None \<Rightarrow> d | Some s \<Rightarrow> d\<lparr>dk_deleted := removeAll (u, strip s) (dk_deleted d)\<rparr>)
      in case merge_shared u a us d of
           (d, Some e) \<Rightarrow> (d, Inl e)
         | (d, None) \<Rightarrow>
             (let sid = (case asked of None \<Rightarrow> ce_fresh ce | Some s \<Rightarrow> if strip s = [] then ce_fresh ce else strip s)
              in case session_file u sid of
                   None \<Rightarrow> (d, Inl UnsafeId)
                 | Some p \<Rightarrow>
                     if asked \<noteq> None \<and> map_of (dk_files d) p \<noteq> None then (d, Inl AlreadyExists)
                     else let d = write_new ce app u sid p st d
                          in (d, Inr (merge_state_view fw u d
                                 \<lparr>st_app = app, st_user = u, st_id = sid, st_state = st, st_events = [], st_time = ce_now ce\<rparr>))))"

definition recent_events :: "int option \<Rightarrow> 'e list \<Rightarrow> 'e list" where
  "recent_events n es =
     (case n of
        None \<Rightarrow> es
      | Some k \<Rightarrow> if k = 0 then [] else if k < 0 then drop (nat (- k)) es else drop (length es - nat k) es)"

definition events_after :: "rat option \<Rightarrow> sevent list \<Rightarrow> sevent list" where
  "events_after t es =
     (case t of None \<Rightarrow> es | Some t \<Rightarrow> if t = 0 then es else rev (takeWhile (\<lambda>e. t \<le> se_time e) (rev es)))"

record get_config =
  gc_recent :: "int option"
  gc_after :: "rat option"

definition other_app :: "string \<Rightarrow> session_header option \<Rightarrow> bool" where
  "other_app app h \<longleftrightarrow> (case h of None \<Rightarrow> False | Some h \<Rightarrow> hd_app h \<noteq> [] \<and> hd_app h \<noteq> app)"

definition last_update :: "rat \<Rightarrow> session_header option \<Rightarrow> sevent list \<Rightarrow> rat" where
  "last_update now h es =
     (if es \<noteq> [] then se_time (last es)
      else case h of None \<Rightarrow> now | Some h \<Rightarrow> if hd_time h = 0 then now else hd_time h)"

definition get_session ::
  "framework \<Rightarrow> rat \<Rightarrow> string \<Rightarrow> string \<Rightarrow> string \<Rightarrow> get_config option \<Rightarrow> disk \<Rightarrow> store_error + stored_session option" where
  "get_session fw now app u sid config d =
     (case session_file u sid of
        None \<Rightarrow> Inl UnsafeId
      | Some p \<Rightarrow>
          if map_of (dk_files d) p = None then Inr None
          else case read_file p d of
                 Inl e \<Rightarrow> Inl e
               | Inr (h, es) \<Rightarrow>
                   if other_app app h then Inr None
                   else let out = (case config of None \<Rightarrow> es | Some c \<Rightarrow> events_after (gc_after c) (recent_events (gc_recent c) es))
                        in Inr (Some (merge_state_view fw u d
                             \<lparr>st_app = app, st_user = u, st_id = sid, st_state = session_scoped_state fw h es,
                              st_events = out, st_time = last_update now h es\<rparr>)))"

text \<open>The names in a directory: the project of a session file, and the session of a file of that project.\<close>

definition path_project :: "string \<Rightarrow> string" where
  "path_project p = takeWhile (\<lambda>c. c \<noteq> CHR ''/'') (drop (length ''projects/'') p)"

definition stem_in :: "string \<Rightarrow> string \<Rightarrow> string option" where
  "stem_in dir p =
     (let pre = dir @ ''/''; rest = drop (length pre) p; n = length rest - length ''.jsonl''
      in if startswith p pre \<and> length ''.jsonl'' \<le> length rest \<and> drop n rest = ''.jsonl'' \<and> CHR ''/'' \<notin> set rest
         then Some (if n = 0 then rest else take n rest) else None)"

definition list_one :: "framework \<Rightarrow> string \<Rightarrow> string \<Rightarrow> string \<Rightarrow> string \<Rightarrow> disk \<Rightarrow> store_error + stored_session list" where
  "list_one fw app u stem p d =
     (case read_file p d of
        Inl e \<Rightarrow> Inl e
      | Inr (h, es) \<Rightarrow>
          if other_app app h then Inr []
          else Inr [merge_state_view fw u d
                 \<lparr>st_app = app, st_user = u,
                  st_id = (case h of None \<Rightarrow> stem | Some h \<Rightarrow> if hd_id h = [] then stem else hd_id h),
                  st_state = session_scoped_state fw h es, st_events = [], st_time = last_update 0 h es\<rparr>])"

fun collect_lists :: "('a \<Rightarrow> 'e + 'b list) \<Rightarrow> 'a list \<Rightarrow> 'e + 'b list" where
  "collect_lists f [] = Inr []"
| "collect_lists f (x # xs) =
     (case f x of
        Inl e \<Rightarrow> Inl e
      | Inr ys \<Rightarrow> (case collect_lists f xs of Inl e \<Rightarrow> Inl e | Inr zs \<Rightarrow> Inr (ys @ zs)))"

definition list_project :: "framework \<Rightarrow> string \<Rightarrow> disk \<Rightarrow> string \<Rightarrow> store_error + stored_session list" where
  "list_project fw app d u =
     (case sessions_dir u of
        None \<Rightarrow> Inl UnsafeId
      | Some dir \<Rightarrow>
          collect_lists (\<lambda>(p, ls). case stem_in dir p of None \<Rightarrow> Inr [] | Some stem \<Rightarrow> list_one fw app u stem p d) (dk_files d))"

text \<open>\<open>stray\<close>: the other entries of the directory of the projects.\<close>

definition list_sessions ::
  "framework \<Rightarrow> string list \<Rightarrow> string \<Rightarrow> string option \<Rightarrow> disk \<Rightarrow> store_error + stored_session list" where
  "list_sessions fw stray app user_id d =
     collect_lists (list_project fw app d)
       (case user_id of Some u \<Rightarrow> [u] | None \<Rightarrow> remdups (map (path_project \<circ> fst) (dk_files d)) @ stray)"

definition delete_session :: "string \<Rightarrow> string \<Rightarrow> disk \<Rightarrow> disk" where
  "delete_session u sid d =
     (let d = d\<lparr>dk_deleted := List.insert (u, sid) (dk_deleted d)\<rparr>
      in case session_file u sid of None \<Rightarrow> d | Some p \<Rightarrow> d\<lparr>dk_files := dict_pop p (dk_files d)\<rparr>)"

definition rewrite_file :: "string \<Rightarrow> session_header option \<Rightarrow> sevent list \<Rightarrow> disk \<Rightarrow> disk" where
  "rewrite_file p h es d =
     d\<lparr>dk_files := dict_put p ((case h of None \<Rightarrow> [] | Some h \<Rightarrow> [HeaderLine h]) @ map EventLine es) (dk_files d)\<rparr>"

fun first_index :: "('e \<Rightarrow> bool) \<Rightarrow> 'e list \<Rightarrow> nat option" where
  "first_index P [] = None"
| "first_index P (x # xs) = (if P x then Some 0 else map_option Suc (first_index P xs))"

text \<open>The walk back from the first event of the invocation to the message of the user that started the turn.\<close>

fun turn_start :: "sevent list \<Rightarrow> nat \<Rightarrow> nat \<Rightarrow> nat" where
  "turn_start es found i =
     (if is_user_text (es ! i) then i else case i of 0 \<Rightarrow> found | Suc j \<Rightarrow> turn_start es found j)"

definition rewind_point :: "string \<Rightarrow> sevent list \<Rightarrow> nat option" where
  "rewind_point iid es = map_option (\<lambda>n. turn_start es n n) (first_index (\<lambda>e. ev_invocation e = iid) es)"

definition truncate_before_invocation :: "string \<Rightarrow> string \<Rightarrow> string \<Rightarrow> disk \<Rightarrow> disk \<times> (store_error + int)" where
  "truncate_before_invocation u sid iid d =
     (if iid = [] then (d, Inr (- 1))
      else case session_file u sid of
             None \<Rightarrow> (d, Inr (- 1))
           | Some p \<Rightarrow>
               if map_of (dk_files d) p = None then (d, Inr (- 1))
               else case read_file p d of
                      Inl e \<Rightarrow> (d, Inl e)
                    | Inr (h, es) \<Rightarrow>
                        (case rewind_point iid es of
                           None \<Rightarrow> (d, Inr (int (length es)))
                         | Some n \<Rightarrow> (rewrite_file p h (take n es) d, Inr (int (length (take n es))))))"

definition delete_last_event :: "string \<Rightarrow> string \<Rightarrow> string \<Rightarrow> disk \<Rightarrow> disk \<times> (store_error + bool)" where
  "delete_last_event u sid eid d =
     (case session_file u sid of
        None \<Rightarrow> (d, Inr False)
      | Some p \<Rightarrow>
          if map_of (dk_files d) p = None \<or> eid = [] then (d, Inr False)
          else case read_file p d of
                 Inl e \<Rightarrow> (d, Inl e)
               | Inr (h, es) \<Rightarrow>
                   if es = [] \<or> ev_id (last es) \<noteq> eid then (d, Inr False)
                   else (rewrite_file p h (butlast es) d, Inr True))"

definition append_line :: "string \<Rightarrow> line \<Rightarrow> disk \<Rightarrow> disk" where
  "append_line p l d =
     d\<lparr>dk_files := dict_put p ((case map_of (dk_files d) p of None \<Rightarrow> [] | Some ls \<Rightarrow> ls) @ [l]) (dk_files d)\<rparr>"

definition append_event ::
  "framework \<Rightarrow> stored_session \<Rightarrow> sevent \<Rightarrow> disk \<Rightarrow> disk \<times> stored_session \<times> (store_error + sevent)" where
  "append_event fw s e d =
     (if ev_partial e then (d, s, Inr e)
      else if List.member (dk_deleted d) (st_user s, st_id s) then (d, s, Inr e)
      else let (s', e') = fw_append fw s e;
               s' = s'\<lparr>st_time := se_time e'\<rparr>
           in case session_file (st_user s) (st_id s) of
                None \<Rightarrow> (d, s', Inl UnsafeId)
              | Some p \<Rightarrow>
                  (let d = append_line p (EventLine e') d;
                       (a, us, st) = fw_split fw (se_delta e')
                   in case (if se_delta e' = [] then (d, None) else merge_shared (st_user s) a us d) of
                        (d, None) \<Rightarrow> (d, s', Inr e')
                      | (d, Some err) \<Rightarrow> (d, s', Inl err)))"

section \<open>The store as a map from sessions to conversations\<close>

datatype store_op =
    Create create_env string string sdict "string option"
  | Append stored_session sevent
  | Delete string string
  | Rewind string string string
  | DropLast string string string
  | SetUser string string json

datatype store_answer =
    AnSession "store_error + stored_session"
  | AnEvent stored_session "store_error + sevent"
  | AnCount "store_error + int"
  | AnBool "store_error + bool"
  | AnDone "store_error option"

fun run_store :: "framework \<Rightarrow> store_op \<Rightarrow> disk \<Rightarrow> disk \<times> store_answer" where
  "run_store fw (Create ce app u state sid) d = apsnd AnSession (create_session fw ce app u state sid d)"
| "run_store fw (Append s e) d = (let (d', s', r) = append_event fw s e d in (d', AnEvent s' r))"
| "run_store fw (Delete u s) d = (delete_session u s d, AnDone None)"
| "run_store fw (Rewind u s iid) d = apsnd AnCount (truncate_before_invocation u s iid d)"
| "run_store fw (DropLast u s eid) d = apsnd AnBool (delete_last_event u s eid d)"
| "run_store fw (SetUser u k v) d =
     (case set_user_value u k v d of Inl e \<Rightarrow> (d, AnDone (Some e)) | Inr d' \<Rightarrow> (d', AnDone None))"

definition run_store_ops :: "framework \<Rightarrow> store_op list \<Rightarrow> disk \<Rightarrow> disk" where
  "run_store_ops fw ops d = fold (\<lambda>op d. fst (run_store fw op d)) ops d"

text \<open>The abstract store: what a project and all projects share, and the conversation of each session.\<close>

type_synonym chat = "session_header option \<times> sevent list"

record chats =
  sp_app :: sdict
  sp_user :: "string \<Rightarrow> sdict"
  sp_chat :: "string \<Rightarrow> string \<Rightarrow> chat option"
  sp_gone :: "(string \<times> string) set"

definition put_chat :: "string \<Rightarrow> string \<Rightarrow> chat \<Rightarrow> chats \<Rightarrow> chats" where
  "put_chat u s c S = S\<lparr>sp_chat := (sp_chat S)(u := (sp_chat S u)(s := Some c))\<rparr>"

definition share :: "string \<Rightarrow> sdict \<Rightarrow> sdict \<Rightarrow> chats \<Rightarrow> chats" where
  "share u app user S =
     S\<lparr>sp_app := dict_update (sp_app S) app, sp_user := (sp_user S)(u := dict_update (sp_user S u) user)\<rparr>"

definition view :: "framework \<Rightarrow> string \<Rightarrow> chats \<Rightarrow> stored_session \<Rightarrow> stored_session" where
  "view fw u S s =
     s\<lparr>st_state := dict_update (dict_update (st_state s) (map (\<lambda>(k, v). (fw_app fw @ k, v)) (sp_app S)))
                    (map (\<lambda>(k, v). (fw_user fw @ k, v)) (sp_user S u))\<rparr>"

definition chosen_id :: "create_env \<Rightarrow> string option \<Rightarrow> string" where
  "chosen_id ce sid = (case given sid of None \<Rightarrow> ce_fresh ce | Some s \<Rightarrow> if strip s = [] then ce_fresh ce else strip s)"

definition spec_create ::
  "framework \<Rightarrow> create_env \<Rightarrow> string \<Rightarrow> string \<Rightarrow> sdict \<Rightarrow> string option \<Rightarrow> chats \<Rightarrow> chats \<times> (store_error + stored_session)" where
  "spec_create fw ce app u state sid S =
     (let (a, us, st) = fw_split fw state;
          st = stamp_permission_mode (ce_mode ce) st;
          s = chosen_id ce sid;
          S = (case given sid of None \<Rightarrow> S | Some k \<Rightarrow> S\<lparr>sp_gone := sp_gone S - {(u, strip k)}\<rparr>);
          T = share u a us S;
          W = put_chat u s (Some \<lparr>hd_app = app, hd_user = u, hd_id = s, hd_state = st, hd_time = ce_now ce\<rparr>, []) T
      in if \<not> safe_id u then (share u a [] S, Inl UnsafeId)
         else if \<not> safe_id s then (T, Inl UnsafeId)
         else if given sid \<noteq> None \<and> sp_chat S u s \<noteq> None then (T, Inl AlreadyExists)
         else (W, Inr (view fw u W
                 \<lparr>st_app = app, st_user = u, st_id = s, st_state = st, st_events = [], st_time = ce_now ce\<rparr>)))"

definition spec_append ::
  "framework \<Rightarrow> stored_session \<Rightarrow> sevent \<Rightarrow> chats \<Rightarrow> chats \<times> stored_session \<times> (store_error + sevent)" where
  "spec_append fw s e S =
     (let (s', e') = fw_append fw s e;
          u = st_user s; k = st_id s;
          (h, es) = (case sp_chat S u k of None \<Rightarrow> (None, []) | Some c \<Rightarrow> c);
          (a, us, st) = fw_split fw (se_delta e')
      in if ev_partial e \<or> (u, k) \<in> sp_gone S then (S, s, Inr e)
         else if \<not> safe_id u \<or> \<not> safe_id k then (S, s'\<lparr>st_time := se_time e'\<rparr>, Inl UnsafeId)
         else (share u a us (put_chat u k (h, es @ [e']) S), s'\<lparr>st_time := se_time e'\<rparr>, Inr e'))"

definition spec_delete :: "string \<Rightarrow> string \<Rightarrow> chats \<Rightarrow> chats" where
  "spec_delete u s S =
     S\<lparr>sp_gone := insert (u, s) (sp_gone S), sp_chat := (sp_chat S)(u := (sp_chat S u)(s := None))\<rparr>"

definition spec_rewind :: "string \<Rightarrow> string \<Rightarrow> string \<Rightarrow> chats \<Rightarrow> chats \<times> (store_error + int)" where
  "spec_rewind u s iid S =
     (case (if iid = [] then None else sp_chat S u s) of
        None \<Rightarrow> (S, Inr (- 1))
      | Some (h, es) \<Rightarrow>
          (case rewind_point iid es of
             None \<Rightarrow> (S, Inr (int (length es)))
           | Some n \<Rightarrow> (put_chat u s (h, take n es) S, Inr (int (length (take n es))))))"

definition spec_drop_last :: "string \<Rightarrow> string \<Rightarrow> string \<Rightarrow> chats \<Rightarrow> chats \<times> (store_error + bool)" where
  "spec_drop_last u s eid S =
     (case (if eid = [] then None else sp_chat S u s) of
        None \<Rightarrow> (S, Inr False)
      | Some (h, es) \<Rightarrow>
          if es \<noteq> [] \<and> ev_id (last es) = eid then (put_chat u s (h, butlast es) S, Inr True) else (S, Inr False))"

fun spec_step :: "framework \<Rightarrow> store_op \<Rightarrow> chats \<Rightarrow> chats \<times> store_answer" where
  "spec_step fw (Create ce app u state sid) S = apsnd AnSession (spec_create fw ce app u state sid S)"
| "spec_step fw (Append s e) S = (let (S', s', r) = spec_append fw s e S in (S', AnEvent s' r))"
| "spec_step fw (Delete u s) S = (spec_delete u s S, AnDone None)"
| "spec_step fw (Rewind u s iid) S = apsnd AnCount (spec_rewind u s iid S)"
| "spec_step fw (DropLast u s eid) S = apsnd AnBool (spec_drop_last u s eid S)"
| "spec_step fw (SetUser u k v) S = (if safe_id u then (share u [] [(k, v)] S, AnDone None) else (S, AnDone (Some UnsafeId)))"

definition spec_get :: "framework \<Rightarrow> rat \<Rightarrow> string \<Rightarrow> string \<Rightarrow> string \<Rightarrow> get_config option \<Rightarrow> chats \<Rightarrow> stored_session option" where
  "spec_get fw now app u s config S =
     (case sp_chat S u s of
        None \<Rightarrow> None
      | Some (h, es) \<Rightarrow>
          if other_app app h then None
          else Some (view fw u S
                 \<lparr>st_app = app, st_user = u, st_id = s, st_state = session_scoped_state fw h es,
                  st_events = (case config of None \<Rightarrow> es | Some c \<Rightarrow> events_after (gc_after c) (recent_events (gc_recent c) es)),
                  st_time = last_update now h es\<rparr>))"

section \<open>What the files hold\<close>

definition chat_of :: "line list \<Rightarrow> chat option" where
  "chat_of ls = (case read_lines None [] ls of Inl _ \<Rightarrow> None | Inr c \<Rightarrow> Some c)"

definition history :: "string \<Rightarrow> string \<Rightarrow> disk \<Rightarrow> chat option" where
  "history u s d = (case session_file u s of None \<Rightarrow> None | Some p \<Rightarrow> Option.bind (map_of (dk_files d) p) chat_of)"

definition lines_of :: "chat \<Rightarrow> line list" where
  "lines_of c = (case fst c of None \<Rightarrow> [] | Some h \<Rightarrow> [HeaderLine h]) @ map EventLine (snd c)"

definition well_lines :: "line list \<Rightarrow> bool" where
  "well_lines ls \<longleftrightarrow> (case chat_of ls of None \<Rightarrow> False | Some c \<Rightarrow> ls = lines_of c)"

definition sessions_path :: "string \<Rightarrow> string" where
  "sessions_path u = ''projects/'' @ u @ ''/sessions''"

definition filed :: "string \<times> line list \<Rightarrow> bool" where
  "filed f \<longleftrightarrow>
     (case stem_in (sessions_path (path_project (fst f))) (fst f) of
        None \<Rightarrow> False
      | Some s \<Rightarrow>
          session_file (path_project (fst f)) s = Some (fst f)
          \<and> (case chat_of (snd f) of
               Some (Some h, es) \<Rightarrow> hd_user h = path_project (fst f) \<and> hd_id h = s
             | _ \<Rightarrow> True))"

definition disk_ok :: "disk \<Rightarrow> bool" where
  "disk_ok d \<longleftrightarrow> distinct (map fst (dk_files d)) \<and> list_all (\<lambda>f. well_lines (snd f) \<and> filed f) (dk_files d)"

definition chats_of :: "disk \<Rightarrow> chats" where
  "chats_of d = \<lparr>sp_app = dk_app d, sp_user = (\<lambda>u. read_user_state u d), sp_chat = (\<lambda>u s. history u s d), sp_gone = set (dk_deleted d)\<rparr>"

lemma read_event_lines: "read_lines h es (map EventLine fs) = Inr (h, es @ fs)"
  by (induction fs arbitrary: es) auto

lemma chat_of_lines [simp]: "chat_of (lines_of c) = Some c"
  by (cases c) (auto simp: chat_of_def lines_of_def read_event_lines split: option.split)

lemma well_lines_of [simp]: "well_lines (lines_of c)"
  by (simp add: well_lines_def)

lemma well_linesD: "well_lines ls \<Longrightarrow> \<exists>c. ls = lines_of c"
  by (auto simp: well_lines_def split: option.splits)

lemma lines_of_append: "lines_of (h, es) @ [EventLine e] = lines_of (h, es @ [e])"
  by (simp add: lines_of_def)

lemma lines_of_Nil: "lines_of (None, []) = []"
  by (simp add: lines_of_def)

lemma safe_id_chars: "safe_id s \<longleftrightarrow> s \<noteq> [] \<and> list_all id_char s"
proof -
  have "filter id_char s = s \<longleftrightarrow> list_all id_char s"
    by (auto simp: list_all_iff filter_id_conv)
  then show ?thesis by (auto simp: safe_id_def Let_def)
qed

lemma no_slash: "safe_id s \<Longrightarrow> CHR ''/'' \<notin> set s"
proof
  have "\<not> id_char (CHR ''/'')" by code_simp
  moreover assume "safe_id s" "CHR ''/'' \<in> set s"
  ultimately show False by (simp add: safe_id_chars list_all_iff)
qed

lemma session_file_iff:
  "session_file u s = Some p \<longleftrightarrow>
     safe_id u \<and> safe_id s \<and> p = ''projects/'' @ u @ ''/sessions/'' @ s @ ''.jsonl''"
  by (auto simp: session_file_def sessions_dir_def project_dir_def)

lemma session_file_None: "session_file u s = None \<longleftrightarrow> \<not> safe_id u \<or> \<not> safe_id s"
  by (auto simp: session_file_def sessions_dir_def project_dir_def)

lemma takeWhile_stop: "c \<notin> set xs \<Longrightarrow> takeWhile (\<lambda>x. x \<noteq> c) (xs @ c # ys) = xs"
  by (induction xs) auto

lemma path_project_file: "session_file u s = Some p \<Longrightarrow> path_project p = u"
  using takeWhile_stop [OF no_slash] by (simp add: session_file_iff path_project_def)

lemma stem_in_iff:
  "CHR ''/'' \<notin> set s \<Longrightarrow> s \<noteq> [] \<Longrightarrow> stem_in dir (dir @ ''/'' @ s @ ''.jsonl'') = Some s"
  by (simp add: stem_in_def startswith_def Let_def)

lemma stem_in_D:
  "stem_in dir p = Some s \<Longrightarrow> safe_id s \<Longrightarrow> p = dir @ ''/'' @ s @ ''.jsonl''"
proof -
  assume s: "stem_in dir p = Some s" "safe_id s"
  define rest where "rest = drop (length (dir @ ''/'')) p"
  define n where "n = length rest - length ''.jsonl''"
  have r: "take (length (dir @ ''/'')) p = dir @ ''/''" "drop n rest = ''.jsonl''" "s = (if n = 0 then rest else take n rest)"
    using s(1) by (simp_all add: stem_in_def startswith_def Let_def rest_def n_def split: if_splits)
  have "n \<noteq> 0"
  proof
    assume "n = 0"
    then have "s = ''.jsonl''" using r by simp
    moreover have "\<not> safe_id ''.jsonl''" by code_simp
    ultimately show False using s(2) by simp
  qed
  then have "rest = s @ ''.jsonl''" using r(2,3) append_take_drop_id [of n rest] by simp
  then show ?thesis using r(1) append_take_drop_id [of "length (dir @ ''/'')" p] by (simp add: rest_def)
qed

lemma session_dir_file: "session_file u s = Some p \<Longrightarrow> p = sessions_path u @ ''/'' @ s @ ''.jsonl''"
  by (simp add: session_file_iff sessions_path_def)

lemma sessions_dir_path: "sessions_dir u = (if safe_id u then Some (sessions_path u) else None)"
  by (simp add: sessions_dir_def project_dir_def sessions_path_def)

lemma stem_of_file:
  assumes "session_file u s = Some p"
  shows "stem_in (sessions_path u) p = Some s"
proof -
  have "safe_id s" using assms by (simp add: session_file_iff)
  then show ?thesis using stem_in_iff [OF no_slash, of s] session_dir_file [OF assms] safe_id_chars [of s] by simp
qed

lemma session_file_inj:
  "session_file u s = Some p \<Longrightarrow> session_file u' s' = Some p \<Longrightarrow> u' = u \<and> s' = s"
  using path_project_file [of u s p] path_project_file [of u' s' p] stem_of_file [of u s p] stem_of_file [of u' s' p] by simp

lemma same_file: "session_file u s = Some p \<Longrightarrow> session_file u' s' = Some p \<longleftrightarrow> u' = u \<and> s' = s"
  using session_file_inj by blast

section \<open>What a change of the files changes\<close>

definition put_file :: "string \<Rightarrow> chat \<Rightarrow> disk \<Rightarrow> disk" where
  "put_file p c d = d\<lparr>dk_files := dict_put p (lines_of c) (dk_files d)\<rparr>"

lemma rewrite_is_put: "rewrite_file p h es d = put_file p (h, es) d"
  by (simp add: rewrite_file_def put_file_def lines_of_def)

lemma write_new_is_put:
  "write_new ce app u sid p st d =
     put_file p (Some \<lparr>hd_app = app, hd_user = u, hd_id = sid, hd_state = st, hd_time = ce_now ce\<rparr>, []) d"
  by (simp add: write_new_def put_file_def lines_of_def)

lemma history_put:
  "session_file u s = Some p \<Longrightarrow> history u' s' (put_file p c d) = (if u' = u \<and> s' = s then Some c else history u' s' d)"
  using same_file [of u s p u' s'] by (auto simp: history_def put_file_def split: option.splits)

lemma disk_okD:
  assumes "disk_ok d" "map_of (dk_files d) p = Some ls"
  obtains c where "ls = lines_of c"
proof -
  have "(p, ls) \<in> set (dk_files d)" using assms(2) by (rule map_of_SomeD)
  then have "well_lines ls" using assms(1) by (auto simp: disk_ok_def list_all_iff)
  then show thesis using that well_linesD by blast
qed

lemma history_None:
  assumes "disk_ok d" "session_file u s = Some p"
  shows "history u s d = None \<longleftrightarrow> map_of (dk_files d) p = None"
proof (cases "map_of (dk_files d) p")
  case (Some ls)
  then obtain c where "ls = lines_of c" using disk_okD [OF assms(1)] by blast
  then show ?thesis using Some assms(2) by (simp add: history_def)
qed (simp add: history_def assms(2))

lemma read_file_history:
  assumes "disk_ok d" "session_file u s = Some p" "history u s d = Some c"
  shows "read_file p d = Inr c"
proof -
  obtain ls where ls: "map_of (dk_files d) p = Some ls" "chat_of ls = Some c"
    using assms(2,3) by (auto simp: history_def bind_eq_Some_conv)
  then show ?thesis by (simp add: read_file_def chat_of_def split: sum.splits)
qed

lemma append_is_put:
  assumes "disk_ok d" "session_file u s = Some p"
  shows "append_line p (EventLine e) d
     = put_file p (case history u s d of None \<Rightarrow> (None, [e]) | Some (h, es) \<Rightarrow> (h, es @ [e])) d"
proof (cases "map_of (dk_files d) p")
  case None
  then show ?thesis using history_None [OF assms]
    by (simp add: append_line_def put_file_def lines_of_def)
next
  case (Some ls)
  then obtain c where "ls = lines_of c" using disk_okD [OF assms(1)] by blast
  then show ?thesis using Some assms(2) lines_of_append by (cases c) (simp add: append_line_def put_file_def history_def)
qed

lemma filed_put:
  assumes "session_file u s = Some p"
  shows "filed (p, lines_of (h, es)) \<longleftrightarrow> (case h of None \<Rightarrow> True | Some h \<Rightarrow> hd_user h = u \<and> hd_id h = s)"
  using assms by (simp add: filed_def path_project_file stem_of_file split: option.split)

lemma disk_ok_put:
  assumes "disk_ok d" "session_file u s = Some p" "case fst c of None \<Rightarrow> True | Some h \<Rightarrow> hd_user h = u \<and> hd_id h = s"
  shows "disk_ok (put_file p c d)"
proof -
  have "filed (p, lines_of c)" using filed_put [OF assms(2), of "fst c" "snd c"] assms(3) by simp
  then show ?thesis
    using assms(1) set_dict_put [of p "lines_of c" "dk_files d"]
    by (auto simp: disk_ok_def put_file_def list_all_iff distinct_dict_put)
qed

lemma header_of_history:
  assumes "disk_ok d" "history u s d = Some (Some h, es)"
  shows "hd_user h = u \<and> hd_id h = s"
proof -
  obtain p ls where p: "session_file u s = Some p" "map_of (dk_files d) p = Some ls" "chat_of ls = Some (Some h, es)"
    using assms(2) by (auto simp: history_def bind_eq_Some_conv split: option.splits)
  have "(p, ls) \<in> set (dk_files d)" using p(2) by (rule map_of_SomeD)
  then have "filed (p, ls)" using assms(1) by (auto simp: disk_ok_def list_all_iff)
  then show ?thesis using p by (simp add: filed_def path_project_file stem_of_file)
qed

section \<open>Each operation implements its abstract counterpart\<close>

lemma dict_update_Nil [simp]: "dict_update d [] = d"
  by (simp add: dict_update_def)

lemma read_user_put: "read_user_state v (d\<lparr>dk_user := dict_put u x (dk_user d)\<rparr>) = (if v = u then x else read_user_state v d)"
  by (simp add: read_user_state_def)

lemma chats_of_put_file:
  "session_file u s = Some p \<Longrightarrow> chats_of (put_file p c d) = put_chat u s c (chats_of d)"
  by (auto simp: chats_of_def put_chat_def history_put fun_eq_iff) (simp_all add: put_file_def read_user_state_def)

lemma history_files: "dk_files d' = dk_files d \<Longrightarrow> history u s d' = history u s d"
  by (simp add: history_def split: option.split)

lemma disk_ok_files: "dk_files d' = dk_files d \<Longrightarrow> disk_ok d' \<longleftrightarrow> disk_ok d"
  by (simp add: disk_ok_def)

lemma merge_shared_safe:
  assumes "safe_id u"
  shows "merge_shared u a us d
    = (d\<lparr>dk_app := dict_update (dk_app d) a,
         dk_user := if us = [] then dk_user d else dict_put u (dict_update (read_user_state u d) us) (dk_user d)\<rparr>, None)"
  using assms by (simp add: merge_shared_def merge_user_state_def merge_app_state_def read_user_state_def Let_def)

lemma merge_shared_unsafe:
  assumes "\<not> safe_id u"
  shows "merge_shared u a us d = (d\<lparr>dk_app := dict_update (dk_app d) a\<rparr>, if us = [] then None else Some UnsafeId)"
  using assms by (simp add: merge_shared_def merge_user_state_def merge_app_state_def Let_def)

lemma merge_shared_files [simp]: "dk_files (fst (merge_shared u a us d)) = dk_files d"
  by (cases "safe_id u") (simp_all add: merge_shared_safe merge_shared_unsafe)

lemma merge_shared_snd [simp]: "snd (merge_shared u a us d) = (if safe_id u \<or> us = [] then None else Some UnsafeId)"
  by (cases "safe_id u") (simp_all add: merge_shared_safe merge_shared_unsafe)

lemma chats_of_merge:
  "chats_of (fst (merge_shared u a us d)) = share u a (if safe_id u then us else []) (chats_of d)"
proof -
  have "history v s (fst (merge_shared u a us d)) = history v s d" for v s
    by (rule history_files) simp
  then show ?thesis
    by (cases "safe_id u")
      (simp_all add: chats_of_def share_def merge_shared_safe merge_shared_unsafe read_user_state_def fun_eq_iff)
qed

lemma view_eq: "merge_state_view fw u d s = view fw u (chats_of d) s"
  by (simp add: merge_state_view_def view_def chats_of_def)

lemma forget_refines: "chats_of (d\<lparr>dk_deleted := removeAll x (dk_deleted d)\<rparr>) = chats_of d\<lparr>sp_gone := sp_gone (chats_of d) - {x}\<rparr>"
proof -
  have "history u s (d\<lparr>dk_deleted := removeAll x (dk_deleted d)\<rparr>) = history u s d" for u s
    by (rule history_files) simp
  then show ?thesis by (simp add: chats_of_def read_user_state_def)
qed

lemma create_refines:
  assumes "disk_ok d"
  shows "apfst chats_of (create_session fw ce app u state sid d) = spec_create fw ce app u state sid (chats_of d)"
    and "disk_ok (fst (create_session fw ce app u state sid d))"
proof -
  obtain a us st0 where sp: "fw_split fw state = (a, us, st0)" by (metis prod.exhaust)
  define st where "st = stamp_permission_mode (ce_mode ce) st0"
  define s where "s = chosen_id ce sid"
  define D where "D = (case given sid of None \<Rightarrow> d | Some k \<Rightarrow> d\<lparr>dk_deleted := removeAll (u, strip k) (dk_deleted d)\<rparr>)"
  define M where "M = fst (merge_shared u a us D)"
  have mr: "merge_shared u a us D = (M, snd (merge_shared u a us D))" by (metis M_def prod.collapse)
  define hd where "hd = \<lparr>hd_app = app, hd_user = u, hd_id = s, hd_state = st, hd_time = ce_now ce\<rparr>"
  have fd: "dk_files M = dk_files d" by (simp add: M_def D_def split: option.split)
  have okM: "disk_ok M" using assms fd disk_ok_files by blast
  have D: "chats_of D = (case given sid of None \<Rightarrow> chats_of d
      | Some k \<Rightarrow> chats_of d\<lparr>sp_gone := sp_gone (chats_of d) - {(u, strip k)}\<rparr>)"
    by (simp add: D_def forget_refines split: option.split)
  have run: "create_session fw ce app u state sid d
     = (case snd (merge_shared u a us D) of
          Some e \<Rightarrow> (M, Inl e)
        | None \<Rightarrow> (case session_file u s of
             None \<Rightarrow> (M, Inl UnsafeId)
           | Some p \<Rightarrow> if given sid \<noteq> None \<and> map_of (dk_files M) p \<noteq> None then (M, Inl AlreadyExists)
               else (put_file p (Some hd, []) M,
                     Inr (merge_state_view fw u (put_file p (Some hd, []) M)
                       \<lparr>st_app = app, st_user = u, st_id = s, st_state = st, st_events = [], st_time = ce_now ce\<rparr>))))"
    by (subst create_session_def, simp only: sp Let_def prod.case D_def [symmetric], subst mr)
      (simp add: s_def chosen_id_def hd_def st_def write_new_is_put split: option.split)
  note specs = spec_create_def sp Let_def D [symmetric] s_def [symmetric] st_def [symmetric] hd_def [symmetric]
  have "apfst chats_of (create_session fw ce app u state sid d) = spec_create fw ce app u state sid (chats_of d)
      \<and> disk_ok (fst (create_session fw ce app u state sid d))"
  proof (cases "safe_id u")
    case False
    then have "session_file u s = None" by (simp add: session_file_None)
    then show ?thesis using False okM chats_of_merge [of u a us D]
      by (auto simp: run specs M_def)
  next
    case u: True
    have M: "chats_of M = share u a us (chats_of D)" "snd (merge_shared u a us D) = None"
      using u chats_of_merge [of u a us D] by (simp_all add: M_def)
    show ?thesis
    proof (cases "session_file u s")
      case None
      then have "\<not> safe_id s" using u by (simp add: session_file_None)
      then show ?thesis using None u okM M by (simp add: run specs)
    next
      case (Some p)
      then have s: "safe_id s" by (simp add: session_file_iff)
      have e: "map_of (dk_files M) p = None \<longleftrightarrow> sp_chat (chats_of D) u s = None"
        using history_None [OF okM Some] history_files [of M D u s] by (simp add: chats_of_def M_def)
      have ok: "disk_ok (put_file p (Some hd, []) M)"
        using disk_ok_put [OF okM Some, of "(Some hd, [])"] by (simp add: hd_def)
      show ?thesis
      proof (cases "given sid \<noteq> None \<and> map_of (dk_files M) p \<noteq> None")
        case True
        then show ?thesis using u s M okM e by (simp add: run specs Some)
      next
        case False
        then have "create_session fw ce app u state sid d
            = (put_file p (Some hd, []) M, Inr (view fw u (put_chat u s (Some hd, []) (share u a us (chats_of D)))
                 \<lparr>st_app = app, st_user = u, st_id = s, st_state = st, st_events = [], st_time = ce_now ce\<rparr>))"
          using M Some by (simp add: run view_eq chats_of_put_file [OF Some])
        moreover have "spec_create fw ce app u state sid (chats_of d)
            = (put_chat u s (Some hd, []) (share u a us (chats_of D)),
               Inr (view fw u (put_chat u s (Some hd, []) (share u a us (chats_of D)))
                 \<lparr>st_app = app, st_user = u, st_id = s, st_state = st, st_events = [], st_time = ce_now ce\<rparr>))"
          using False u s e by (simp add: specs) 
        ultimately show ?thesis using M ok by (simp add: chats_of_put_file [OF Some])
      qed
    qed
  qed
  then show "apfst chats_of (create_session fw ce app u state sid d) = spec_create fw ce app u state sid (chats_of d)"
    and "disk_ok (fst (create_session fw ce app u state sid d))" by blast+
qed

lemma documented_empty: "documented fw \<Longrightarrow> fw_split fw [] = ([], [], [])"
  by (simp add: documented_def of_prefix_def)

lemma append_refines:
  assumes ok: "disk_ok d" and fw: "documented fw"
  shows "apfst chats_of (append_event fw s e d) = spec_append fw s e (chats_of d)"
    and "disk_ok (fst (append_event fw s e d))"
proof -
  obtain s' e' where ap: "fw_append fw s e = (s', e')" by (metis prod.exhaust)
  obtain a us st where sp: "fw_split fw (se_delta e') = (a, us, st)" by (metis prod.exhaust)
  have empty: "se_delta e' = [] \<Longrightarrow> a = [] \<and> us = []" using sp documented_empty [OF fw] by simp
  define c where "c = (case history (st_user s) (st_id s) d of None \<Rightarrow> (None, [e']) | Some (h, es) \<Rightarrow> (h, es @ [e']))"
  have gone: "List.member (dk_deleted d) (st_user s, st_id s) \<longleftrightarrow> (st_user s, st_id s) \<in> sp_gone (chats_of d)"
    by (simp add: chats_of_def)
  have "apfst chats_of (append_event fw s e d) = spec_append fw s e (chats_of d) \<and> disk_ok (fst (append_event fw s e d))"
  proof (cases "ev_partial e \<or> List.member (dk_deleted d) (st_user s, st_id s)")
    case True
    then show ?thesis using ok gone by (auto simp: append_event_def spec_append_def ap sp split: prod.split)
  next
    case live: False
    show ?thesis
    proof (cases "session_file (st_user s) (st_id s)")
      case None
      then have "\<not> safe_id (st_user s) \<or> \<not> safe_id (st_id s)" by (simp add: session_file_None)
      then show ?thesis using None live ok gone
        by (auto simp: append_event_def spec_append_def ap sp Let_def split: prod.split)
    next
      case (Some p)
      then have safe: "safe_id (st_user s)" "safe_id (st_id s)" by (simp_all add: session_file_iff)
      define P where "P = put_file p c d"
      have P: "append_line p (EventLine e') d = P"
        using append_is_put [OF ok Some, of e'] by (simp add: P_def c_def)
      have h: "case fst c of None \<Rightarrow> True | Some h \<Rightarrow> hd_user h = st_user s \<and> hd_id h = st_id s"
        using header_of_history [OF ok, of "st_user s" "st_id s"] by (auto simp: c_def split: option.splits)
      have okP: "disk_ok P" using disk_ok_put [OF ok Some h] by (simp add: P_def)
      have cP: "chats_of P = put_chat (st_user s) (st_id s) c (chats_of d)" by (simp add: P_def chats_of_put_file [OF Some])
      define M where "M = (if se_delta e' = [] then P else fst (merge_shared (st_user s) a us P))"
      have M: "disk_ok M" "chats_of M = share (st_user s) a us (chats_of P)"
        using okP chats_of_merge [of "st_user s" a us P] safe disk_ok_files [of "fst (merge_shared (st_user s) a us P)" P] empty
        by (auto simp: M_def share_def)
      have m: "(if se_delta e' = [] then (P, None) else merge_shared (st_user s) a us P) = (M, None)"
        using safe by (simp add: M_def prod_eq_iff)
      have "append_event fw s e d = (M, s'\<lparr>st_time := se_time e'\<rparr>, Inr e')"
        using live Some m by (simp add: append_event_def ap sp P)
      moreover have "spec_append fw s e (chats_of d)
          = (share (st_user s) a us (put_chat (st_user s) (st_id s) c (chats_of d)), s'\<lparr>st_time := se_time e'\<rparr>, Inr e')"
        using live gone safe by (simp add: spec_append_def ap sp c_def chats_of_def Let_def split: option.split prod.split)
      ultimately show ?thesis using M cP by simp
    qed
  qed
  then show "apfst chats_of (append_event fw s e d) = spec_append fw s e (chats_of d)"
    and "disk_ok (fst (append_event fw s e d))" by blast+
qed

lemma disk_ok_pop: "disk_ok d \<Longrightarrow> disk_ok (d\<lparr>dk_files := dict_pop p (dk_files d)\<rparr>)"
  using set_dict_pop [of p "dk_files d"] by (auto simp: disk_ok_def list_all_iff distinct_dict_pop)

lemma history_pop:
  "session_file u s = Some p \<Longrightarrow>
     history u' s' (d\<lparr>dk_files := dict_pop p (dk_files d)\<rparr>) = (if u' = u \<and> s' = s then None else history u' s' d)"
  using same_file [of u s p u' s'] by (auto simp: history_def split: option.splits)

lemma delete_refines: "chats_of (delete_session u s d) = spec_delete u s (chats_of d)"
proof (cases "session_file u s")
  case None
  then have "history u s d' = None" for d' by (simp add: history_def)
  moreover have "history u' s' (d\<lparr>dk_deleted := x\<rparr>) = history u' s' d" for u' s' x by (rule history_files) simp
  ultimately show ?thesis using None
    by (auto simp: delete_session_def spec_delete_def chats_of_def fun_eq_iff read_user_state_def)
next
  case (Some p)
  have "history u' s' (delete_session u s d) = (if u' = u \<and> s' = s then None else history u' s' d)" for u' s'
    using history_pop [OF Some, of u' s' "d\<lparr>dk_deleted := List.insert (u, s) (dk_deleted d)\<rparr>"]
      history_files [of "d\<lparr>dk_deleted := List.insert (u, s) (dk_deleted d)\<rparr>" d]
    by (simp add: delete_session_def Some)
  moreover have "dk_app (delete_session u s d) = dk_app d" "dk_user (delete_session u s d) = dk_user d"
    "dk_deleted (delete_session u s d) = List.insert (u, s) (dk_deleted d)"
    by (simp_all add: delete_session_def Some)
  ultimately show ?thesis
    by (auto simp: spec_delete_def chats_of_def fun_eq_iff read_user_state_def)
qed

lemma delete_ok: "disk_ok d \<Longrightarrow> disk_ok (delete_session u s d)"
  using disk_ok_pop [of "d\<lparr>dk_deleted := List.insert (u, s) (dk_deleted d)\<rparr>"]
    disk_ok_files [of "d\<lparr>dk_deleted := List.insert (u, s) (dk_deleted d)\<rparr>" d]
  by (simp add: delete_session_def Let_def split: option.split)

text \<open>The operations that read a conversation and write a part of it back.\<close>

lemma stored_cases:
  assumes "disk_ok d"
  obtains (missing) "history u s d = None" "session_file u s = None \<or> (\<exists>p. session_file u s = Some p \<and> map_of (dk_files d) p = None)"
  | (found) p h es where "session_file u s = Some p" "map_of (dk_files d) p \<noteq> None" "history u s d = Some (h, es)"
      "read_file p d = Inr (h, es)" "\<And>es'. disk_ok (rewrite_file p h es' d)"
      "\<And>es'. chats_of (rewrite_file p h es' d) = put_chat u s (h, es') (chats_of d)"
proof (cases "session_file u s")
  case None
  then show thesis using missing by (simp add: history_def)
next
  case (Some p)
  show thesis
  proof (cases "history u s d")
    case None
    then show thesis using missing history_None [OF assms Some] Some by blast
  next
    case h: (Some c)
    obtain hd es where c: "c = (hd, es)" by (metis prod.exhaust)
    have "case hd of None \<Rightarrow> True | Some h \<Rightarrow> hd_user h = u \<and> hd_id h = s"
      using header_of_history [OF assms] h c by (auto split: option.split)
    then have "disk_ok (rewrite_file p hd es' d)" for es'
      using disk_ok_put [OF assms Some, of "(hd, es')"] by (simp add: rewrite_is_put)
    then show thesis
      using found [OF Some, of hd es] history_None [OF assms Some] h c read_file_history [OF assms Some h]
      by (simp add: rewrite_is_put chats_of_put_file [OF Some])
  qed
qed

lemma rewind_refines:
  assumes "disk_ok d"
  shows "apfst chats_of (truncate_before_invocation u s iid d) = spec_rewind u s iid (chats_of d)"
    and "disk_ok (fst (truncate_before_invocation u s iid d))"
proof -
  have "apfst chats_of (truncate_before_invocation u s iid d) = spec_rewind u s iid (chats_of d)
      \<and> disk_ok (fst (truncate_before_invocation u s iid d))"
    using assms
  proof (cases rule: stored_cases [of d u s])
    case missing
    then show ?thesis using assms
      by (auto simp: truncate_before_invocation_def spec_rewind_def chats_of_def)
  next
    case (found p h es)
    then show ?thesis using assms
      by (auto simp: truncate_before_invocation_def spec_rewind_def split: option.split) (simp_all add: chats_of_def)
  qed
  then show "apfst chats_of (truncate_before_invocation u s iid d) = spec_rewind u s iid (chats_of d)"
    and "disk_ok (fst (truncate_before_invocation u s iid d))" by blast+
qed

lemma drop_last_refines:
  assumes "disk_ok d"
  shows "apfst chats_of (delete_last_event u s eid d) = spec_drop_last u s eid (chats_of d)"
    and "disk_ok (fst (delete_last_event u s eid d))"
proof -
  have "apfst chats_of (delete_last_event u s eid d) = spec_drop_last u s eid (chats_of d)
      \<and> disk_ok (fst (delete_last_event u s eid d))"
    using assms
  proof (cases rule: stored_cases [of d u s])
    case missing
    then show ?thesis using assms
      by (auto simp: delete_last_event_def spec_drop_last_def chats_of_def)
  next
    case (found p h es)
    then show ?thesis using assms
      by (auto simp: delete_last_event_def spec_drop_last_def split: option.split) (simp_all add: chats_of_def)
  qed
  then show "apfst chats_of (delete_last_event u s eid d) = spec_drop_last u s eid (chats_of d)"
    and "disk_ok (fst (delete_last_event u s eid d))" by blast+
qed

section \<open>Properties\<close>

lemma set_user_refines:
  "set_user_value u k v d = Inr d' \<Longrightarrow> chats_of d' = share u [] [(k, v)] (chats_of d) \<and> dk_files d' = dk_files d \<and> safe_id u"
  by (auto simp: set_user_value_def merge_user_state_def chats_of_def share_def read_user_state_def history_def fun_eq_iff
      split: if_splits option.split)

lemma apfst_apsnd_eq: "apfst f x = y \<Longrightarrow> apfst f (apsnd g x) = apsnd g y"
  by auto

lemma store_step:
  assumes ok: "disk_ok d" and fw: "documented fw"
  shows "apfst chats_of (run_store fw op d) = spec_step fw op (chats_of d) \<and> disk_ok (fst (run_store fw op d))"
proof (cases op)
  case (Create ce app u state sid)
  then show ?thesis using create_refines(2) [OF ok] apfst_apsnd_eq [OF create_refines(1) [OF ok]] by simp
next
  case (Append s e)
  show ?thesis unfolding Append using append_refines [OF ok fw, of s e]
    by (cases "append_event fw s e d") (auto split: prod.splits)
next
  case (Delete u s)
  then show ?thesis using delete_refines delete_ok [OF ok] by simp
next
  case (Rewind u s iid)
  then show ?thesis using rewind_refines(2) [OF ok] apfst_apsnd_eq [OF rewind_refines(1) [OF ok]] by simp
next
  case (DropLast u s eid)
  then show ?thesis using drop_last_refines(2) [OF ok] apfst_apsnd_eq [OF drop_last_refines(1) [OF ok]] by simp
next
  case (SetUser u k v)
  show ?thesis
  proof (cases "set_user_value u k v d")
    case (Inl e)
    then show ?thesis using SetUser ok by (simp add: set_user_value_def merge_user_state_def split: if_splits)
  next
    case (Inr d')
    then show ?thesis using SetUser ok set_user_refines [OF Inr] disk_ok_files [of d' d] by simp
  qed
qed

lemma get_refines:
  assumes ok: "disk_ok d" and safe: "safe_id u" "safe_id s"
  shows "get_session fw now app u s config d = Inr (spec_get fw now app u s config (chats_of d))"
  using ok
proof (cases rule: stored_cases [of d u s])
  case missing
  then show ?thesis using safe session_file_None by (auto simp: get_session_def spec_get_def chats_of_def)
next
  case (found p h es)
  then have "sp_chat (chats_of d) u s = Some (h, es)" by (simp add: chats_of_def)
  then show ?thesis using found by (simp add: get_session_def spec_get_def view_eq)
qed

definition empty_disk :: disk where
  "empty_disk = \<lparr>dk_app = [], dk_user = [], dk_files = [], dk_deleted = []\<rparr>"

lemma run_store_ops_simps [simp]:
  "run_store_ops fw [] d = d"
  "run_store_ops fw (op # ops) d = run_store_ops fw ops (fst (run_store fw op d))"
  by (simp_all add: run_store_ops_def)

lemma store_steps:
  assumes "documented fw"
  shows "disk_ok d \<Longrightarrow> disk_ok (run_store_ops fw ops d)
      \<and> chats_of (run_store_ops fw ops d) = fold (\<lambda>op S. fst (spec_step fw op S)) ops (chats_of d)"
proof (induction ops arbitrary: d)
  case (Cons op ops)
  have "fst (spec_step fw op (chats_of d)) = chats_of (fst (run_store fw op d))"
    using store_step [OF Cons.prems assms, of op] by (metis fst_apfst)
  then show ?case using Cons.IH store_step [OF Cons.prems assms, of op] by simp
qed simp

lemma empty_disk_ok: "disk_ok empty_disk"
  by (simp add: disk_ok_def empty_disk_def)

text \<open>C23: The files of the sessions are a map from sessions to conversations: whatever operations ran since the
  directory was empty, the next one answers what the abstract store answers and leaves what it leaves, and a session that is
  read is the one the abstract store holds: every event that was appended and not rewound, in order.\<close>

theorem files_are_conversations:
  assumes "documented fw" "safe_id u" "safe_id s"
  shows "let d = run_store_ops fw ops empty_disk;
             S = fold (\<lambda>op S. fst (spec_step fw op S)) ops (chats_of empty_disk)
         in apfst chats_of (run_store fw op d) = spec_step fw op S
            \<and> get_session fw now app u s config d = Inr (spec_get fw now app u s config S)"
proof -
  note d = store_steps [OF assms(1) empty_disk_ok, of ops]
  show ?thesis
    unfolding Let_def d [THEN conjunct2, symmetric]
    using store_step [OF d [THEN conjunct1] assms(1)] get_refines [OF d [THEN conjunct1] assms(2,3)] by blast
qed

section \<open>A deleted session\<close>

definition creates :: "string \<Rightarrow> string \<Rightarrow> store_op \<Rightarrow> bool" where
  "creates u s op \<longleftrightarrow>
     (case op of Create ce app v state sid \<Rightarrow> v = u \<and> (chosen_id ce sid = s \<or> map_option strip (given sid) = Some s) | _ \<Rightarrow> False)"

definition gone :: "string \<Rightarrow> string \<Rightarrow> chats \<Rightarrow> bool" where
  "gone u s S \<longleftrightarrow> (u, s) \<in> sp_gone S \<and> sp_chat S u s = None"

lemma gone_put [simp]: "gone u s (put_chat v k c S) \<longleftrightarrow> gone u s S \<and> \<not> (v = u \<and> k = s)"
  by (auto simp: gone_def put_chat_def)

lemma gone_share [simp]: "gone u s (share v a us S) \<longleftrightarrow> gone u s S"
  by (simp add: gone_def share_def)

lemma gone_step: "gone u s S \<Longrightarrow> \<not> creates u s op \<Longrightarrow> gone u s (fst (spec_step fw op S))"
proof (cases op)
  case (Create ce app v state sid)
  assume g: "gone u s S" and c: "\<not> creates u s op"
  define T where "T = (case given sid of None \<Rightarrow> S | Some k \<Rightarrow> S\<lparr>sp_gone := sp_gone S - {(v, strip k)}\<rparr>)"
  have "gone u s T" using g c Create by (auto simp: T_def gone_def creates_def split: option.splits)
  then show ?thesis using c Create
    by (auto simp: spec_create_def T_def [symmetric] creates_def Let_def split: prod.split option.splits)
qed (auto simp: spec_append_def spec_delete_def spec_rewind_def spec_drop_last_def gone_def put_chat_def share_def Let_def
      split: prod.split option.split if_splits)

lemma gone_steps:
  "gone u s S \<Longrightarrow> list_all (\<lambda>op. \<not> creates u s op) ops \<Longrightarrow> gone u s (fold (\<lambda>op S. fst (spec_step fw op S)) ops S)"
  by (induction ops arbitrary: S) (auto intro: gone_step)

text \<open>C25: A session that was deleted stays deleted: whatever runs afterwards - events still appended by a turn in flight,
  rewinds, retries, other sessions - nothing of it is read again until a session is created under its name.\<close>

theorem deleted_session_stays_deleted:
  assumes "documented fw" "disk_ok d" "safe_id u" "safe_id s" "list_all (\<lambda>op. \<not> creates u s op) ops"
  shows "get_session fw now app u s config (run_store_ops fw ops (delete_session u s d)) = Inr None"
proof -
  define D where "D = run_store_ops fw ops (delete_session u s d)"
  have D: "disk_ok D" "chats_of D = fold (\<lambda>op S. fst (spec_step fw op S)) ops (chats_of (delete_session u s d))"
    using store_steps [OF assms(1) delete_ok [OF assms(2)]] by (simp_all add: D_def)
  have "gone u s (chats_of (delete_session u s d))"
    by (simp add: delete_refines spec_delete_def gone_def)
  then have "gone u s (chats_of D)" using D(2) gone_steps [OF _ assms(5)] by simp
  then show ?thesis
    using get_refines [OF D(1) assms(3,4)] by (simp add: D_def [symmetric] gone_def spec_get_def)
qed

section \<open>Rewinding\<close>

lemma first_index_Some:
  "first_index P xs = Some n \<Longrightarrow> n < length xs \<and> P (xs ! n) \<and> (\<forall>x \<in> set (take n xs). \<not> P x)"
  by (induction P xs arbitrary: n rule: first_index.induct) (auto split: if_splits)

lemma first_index_None: "first_index P xs = None \<longleftrightarrow> list_all (\<lambda>x. \<not> P x) xs"
  by (induction P xs rule: first_index.induct) auto

lemma turn_start_spec:
  "turn_start es f i = n \<Longrightarrow>
     n \<le> i \<and> is_user_text (es ! n) \<and> (\<forall>j. n < j \<and> j \<le> i \<longrightarrow> \<not> is_user_text (es ! j))
     \<or> n = f \<and> (\<forall>j \<le> i. \<not> is_user_text (es ! j))"
proof (induction i)
  case (Suc i)
  then show ?case by (subst (asm) turn_start.simps) (auto split: if_splits simp: le_Suc_eq simp del: turn_start.simps)
qed (auto split: if_splits)

declare turn_start.simps [simp del]

text \<open>C37: A rewind undoes a whole turn: the events that stay are those before the message of the user that started the turn of
  the invocation (before the invocation itself when there is none), in order; nothing of the invocation stays, and no
  other conversation changes.\<close>

theorem rewind_undoes_the_turn:
  assumes "disk_ok d" "iid \<noteq> []" "history u s d = Some (h, es)" "list_ex (\<lambda>e. ev_invocation e = iid) es"
  shows "\<exists>n m. n \<le> m \<and> m < length es \<and> ev_invocation (es ! m) = iid
    \<and> list_all (\<lambda>e. ev_invocation e \<noteq> iid) (take n es)
    \<and> (is_user_text (es ! n) \<and> list_all (\<lambda>e. \<not> is_user_text e) (drop (Suc n) (take (Suc m) es))
       \<or> n = m \<and> list_all (\<lambda>e. \<not> is_user_text e) (take (Suc m) es))
    \<and> truncate_before_invocation u s iid d
        = (fst (truncate_before_invocation u s iid d), Inr (int n))
    \<and> chats_of (fst (truncate_before_invocation u s iid d)) = put_chat u s (h, take n es) (chats_of d)"
proof -
  obtain m where m: "first_index (\<lambda>e. ev_invocation e = iid) es = Some m"
    using assms(4) first_index_None [of "\<lambda>e. ev_invocation e = iid" es] by (force simp: list_ex_iff list_all_iff)
  note mf = first_index_Some [OF m]
  define n where "n = turn_start es m m"
  have n: "n \<le> m" "is_user_text (es ! n) \<and> (\<forall>j. n < j \<and> j \<le> m \<longrightarrow> \<not> is_user_text (es ! j))
      \<or> n = m \<and> (\<forall>j \<le> m. \<not> is_user_text (es ! j))"
    using turn_start_spec [of es m m n] by (auto simp: n_def)
  have "rewind_point iid es = Some n" by (simp add: rewind_point_def m n_def)
  then have r: "spec_rewind u s iid (chats_of d) = (put_chat u s (h, take n es) (chats_of d), Inr (int n))"
    using assms(2,3) n(1) mf by (simp add: spec_rewind_def chats_of_def min_absorb2)
  have "set (take n es) \<subseteq> set (take m es)" using n(1) by (rule set_take_subset_set_take)
  then have "list_all (\<lambda>e. ev_invocation e \<noteq> iid) (take n es)" using mf by (auto simp: list_all_iff)
  moreover have "is_user_text (es ! n) \<and> list_all (\<lambda>e. \<not> is_user_text e) (drop (Suc n) (take (Suc m) es))
       \<or> n = m \<and> list_all (\<lambda>e. \<not> is_user_text e) (take (Suc m) es)"
    using n mf by (auto simp: list_all_length)
  moreover have "truncate_before_invocation u s iid d = (fst (truncate_before_invocation u s iid d), Inr (int n))
      \<and> chats_of (fst (truncate_before_invocation u s iid d)) = put_chat u s (h, take n es) (chats_of d)"
    using rewind_refines(1) [OF assms(1), of u s iid] r
    by (cases "truncate_before_invocation u s iid d") auto
  ultimately show ?thesis using n(1) mf by blast
qed

section \<open>Listing\<close>

lemma collect_Inr: "list_all (\<lambda>x. f x = Inr (g x)) xs \<Longrightarrow> collect_lists f xs = Inr (concat (map g xs))"
  by (induction xs) auto

definition listed :: "framework \<Rightarrow> string \<Rightarrow> disk \<Rightarrow> string \<Rightarrow> string \<Rightarrow> stored_session list" where
  "listed fw app d u s =
     (case spec_get fw 0 app u s None (chats_of d) of None \<Rightarrow> [] | Some y \<Rightarrow> [y\<lparr>st_events := []\<rparr>])"

lemma list_one_listed:
  assumes "disk_ok d" "session_file u s = Some p" "map_of (dk_files d) p \<noteq> None"
  shows "list_one fw app u s p d = Inr (listed fw app d u s)"
proof -
  obtain h es where c: "history u s d = Some (h, es)" using history_None [OF assms(1,2)] assms(3) by fastforce
  then have r: "read_file p d = Inr (h, es)" by (rule read_file_history [OF assms(1,2)])
  have id: "(case h of None \<Rightarrow> s | Some h \<Rightarrow> if hd_id h = [] then s else hd_id h) = s"
    using header_of_history [OF assms(1)] c by (auto split: option.split)
  have "sp_chat (chats_of d) u s = Some (h, es)" using c by (simp add: chats_of_def)
  then show ?thesis unfolding list_one_def r id by (simp add: listed_def spec_get_def view_eq id) (simp add: view_def)
qed

lemma stem_file:
  assumes "disk_ok d" "(p, ls) \<in> set (dk_files d)" "safe_id u" "stem_in (sessions_path u) p = Some s"
  shows "session_file u s = Some p"
proof -
  have "filed (p, ls)" using assms(1,2) by (auto simp: disk_ok_def list_all_iff)
  then obtain s' where s': "session_file (path_project p) s' = Some p"
    by (auto simp: filed_def split: option.splits)
  have "startswith p (sessions_path u @ ''/'')" using assms(4) by (auto simp: stem_in_def Let_def split: if_splits)
  then obtain r where "p = sessions_path u @ ''/'' @ r"
    by (metis append.assoc append_take_drop_id startswith_def)
  then have "path_project p = u"
    using takeWhile_stop [OF no_slash [OF assms(3)]] by (simp add: path_project_def sessions_path_def)
  then show ?thesis using s' stem_of_file [of u s' p] assms(4) by simp
qed

text \<open>Listing a project and reading its sessions one by one agree: the list holds exactly the sessions that can be read, with
  the same state and without their events.\<close>

theorem listing_agrees_with_reading:
  assumes "disk_ok d" "safe_id u"
  shows "\<exists>ss. list_sessions fw stray app (Some u) d = Inr ss
    \<and> (\<forall>x. x \<in> set ss \<longleftrightarrow> (\<exists>s y. get_session fw 0 app u s None d = Inr (Some y) \<and> x = y\<lparr>st_events := []\<rparr>))"
proof -
  define out :: "string \<times> line list \<Rightarrow> stored_session list" where "out = (\<lambda>f. case stem_in (sessions_path u) (fst f) of None \<Rightarrow> [] | Some s \<Rightarrow> listed fw app d u s)"
  have one: "(case f of (p, ls) \<Rightarrow> case stem_in (sessions_path u) p of None \<Rightarrow> Inr [] | Some s \<Rightarrow> list_one fw app u s p d)
      = Inr (out f)" if f: "f \<in> set (dk_files d)" for f
  proof (cases "stem_in (sessions_path u) (fst f)")
    case (Some s)
    have "session_file u s = Some (fst f)" using stem_file [OF assms(1) _ assms(2) Some, of "snd f"] f by simp
    moreover have "map_of (dk_files d) (fst f) \<noteq> None" using f by (auto simp: map_of_eq_None_iff)
    ultimately show ?thesis using list_one_listed [OF assms(1)] Some by (simp add: out_def case_prod_beta)
  qed (simp add: out_def case_prod_beta)
  have c: "collect_lists (\<lambda>(p, ls). case stem_in (sessions_path u) p of None \<Rightarrow> Inr [] | Some s \<Rightarrow> list_one fw app u s p d)
      (dk_files d) = Inr (concat (map out (dk_files d)))"
    by (rule collect_Inr, unfold list_all_iff) (use one in blast)
  have l: "list_sessions fw stray app (Some u) d = Inr (concat (map out (dk_files d)))"
    using assms(2) by (simp add: list_sessions_def list_project_def sessions_dir_path c)
  have "x \<in> set (concat (map out (dk_files d)))
      \<longleftrightarrow> (\<exists>s y. get_session fw 0 app u s None d = Inr (Some y) \<and> x = y\<lparr>st_events := []\<rparr>)" for x
  proof
    assume "x \<in> set (concat (map out (dk_files d)))"
    then obtain f0 where f0: "f0 \<in> set (dk_files d)" "x \<in> set (out f0)" by auto
    then obtain f s where f: "f \<in> set (dk_files d)" "stem_in (sessions_path u) (fst f) = Some s" "x \<in> set (listed fw app d u s)"
      by (cases "stem_in (sessions_path u) (fst f0)") (auto simp: out_def)
    have "session_file u s = Some (fst f)" using stem_file [OF assms(1) _ assms(2) f(2), of "snd f"] f(1) by simp
    then have "safe_id s" by (simp add: session_file_iff)
    then have "get_session fw 0 app u s None d = Inr (spec_get fw 0 app u s None (chats_of d))"
      by (rule get_refines [OF assms])
    then show "\<exists>s y. get_session fw 0 app u s None d = Inr (Some y) \<and> x = y\<lparr>st_events := []\<rparr>"
      using f(3) by (cases "spec_get fw 0 app u s None (chats_of d)") (auto simp: listed_def)
  next
    assume "\<exists>s y. get_session fw 0 app u s None d = Inr (Some y) \<and> x = y\<lparr>st_events := []\<rparr>"
    then obtain s y where y: "get_session fw 0 app u s None d = Inr (Some y)" "x = y\<lparr>st_events := []\<rparr>" by blast
    then obtain p where p: "session_file u s = Some p" "map_of (dk_files d) p \<noteq> None"
      by (auto simp: get_session_def split: option.splits if_splits)
    then obtain ls where "(p, ls) \<in> set (dk_files d)" by (auto dest: map_of_SomeD)
    moreover have "x \<in> set (out (p, ls))"
      using y p(1) stem_of_file [OF p(1)] get_refines [OF assms(1,2), of s] by (simp add: out_def listed_def session_file_iff)
    ultimately show "x \<in> set (concat (map out (dk_files d)))" by auto
  qed
  then show ?thesis using l by blast
qed

section \<open>Projects apart\<close>

fun op_project :: "store_op \<Rightarrow> string" where
  "op_project (Create ce app u state sid) = u"
| "op_project (Append s e) = st_user s"
| "op_project (Delete u s) = u"
| "op_project (Rewind u s iid) = u"
| "op_project (DropLast u s eid) = u"
| "op_project (SetUser u k v) = u"

lemma others_put [simp]: "u \<noteq> v \<Longrightarrow> sp_chat (put_chat v k c S) u = sp_chat S u" "sp_user (put_chat v k c S) = sp_user S"
  by (simp_all add: put_chat_def)

lemma others_share [simp]: "u \<noteq> v \<Longrightarrow> sp_user (share v a us S) u = sp_user S u" "sp_chat (share v a us S) = sp_chat S"
  by (simp_all add: share_def)

lemma others_step:
  "op_project op \<noteq> u \<Longrightarrow>
     sp_chat (fst (spec_step fw op S)) u = sp_chat S u \<and> sp_user (fst (spec_step fw op S)) u = sp_user S u"
  by (cases op) (auto simp: spec_create_def spec_append_def spec_delete_def spec_rewind_def spec_drop_last_def Let_def
      split: prod.split option.split)

text \<open>The projects do not meet: operations on other projects leave every conversation of a project and the values its sessions
  share as they were.\<close>

theorem projects_do_not_meet:
  assumes "documented fw" "disk_ok d" "list_all (\<lambda>op. op_project op \<noteq> u) ops"
  shows "history u s (run_store_ops fw ops d) = history u s d \<and> read_user_state u (run_store_ops fw ops d) = read_user_state u d"
proof -
  have "sp_chat (fold (\<lambda>op S. fst (spec_step fw op S)) ops S) u = sp_chat S u
      \<and> sp_user (fold (\<lambda>op S. fst (spec_step fw op S)) ops S) u = sp_user S u" for S
    using assms(3) by (induction ops arbitrary: S) (simp_all add: others_step)
  then show ?thesis
    using store_steps [OF assms(1,2), of ops] by (metis chats.select_convs(2,3) chats_of_def)
qed

section \<open>Where the code falls short\<close>

definition plain_split :: "sdict \<Rightarrow> sdict \<times> sdict \<times> sdict" where
  "plain_split d =
     (of_prefix ''app:'' d, of_prefix ''user:'' d,
      filter (\<lambda>(k, v). \<not> startswith k ''app:'' \<and> \<not> startswith k ''user:'' \<and> \<not> startswith k ''temp:'') d)"

definition plain_append :: "stored_session \<Rightarrow> sevent \<Rightarrow> stored_session \<times> sevent" where
  "plain_append s e =
     (let e' = e\<lparr>se_delta := filter (\<lambda>(k, v). \<not> startswith k ''temp:'') (se_delta e)\<rparr>
      in (s\<lparr>st_state := dict_update (st_state s) (se_delta e), st_events := st_events s @ [e']\<rparr>, e'))"

definition plain_framework :: framework where
  "plain_framework =
     \<lparr>fw_app = ''app:'', fw_user = ''user:'', fw_temp = ''temp:'', fw_split = plain_split, fw_append = plain_append\<rparr>"

lemma plain_documented: "documented plain_framework"
  by (simp add: documented_def plain_framework_def plain_split_def plain_append_def scope_of_def Let_def)

definition a_env :: create_env where
  "a_env = \<lparr>ce_mode = Some ''ask'', ce_now = 1, ce_fresh = ''f0''\<rparr>"

definition an_event :: "string \<Rightarrow> string \<Rightarrow> string \<Rightarrow> sdict \<Rightarrow> sevent" where
  "an_event eid iid author delta =
     \<lparr>ev_id = eid, ev_invocation = iid, ev_author = author, ev_partial = False, ev_parts = [text_part ''hi''], ev_long_running = [],
      ev_error_code = None, ev_error_message = None, se_role = author, se_delta = delta, se_time = 2\<rparr>"

definition a_session :: "string \<Rightarrow> string \<Rightarrow> stored_session" where
  "a_session u s = \<lparr>st_app = ''a'', st_user = u, st_id = s, st_state = [], st_events = [], st_time = 0\<rparr>"

text \<open>A creation that fails because the session exists has already written the shared values of its request.\<close>

lemma failed_creation_writes_shared_state:
  "let d = run_store_ops plain_framework
             [Create a_env ''a'' ''p'' [(''user:allow'', JStr [])] (Some ''s'')] empty_disk;
       (d', r) = create_session plain_framework a_env ''a'' ''p'' [(''user:allow'', JBool True)] (Some ''s'') d
   in r = Inl AlreadyExists \<and> read_user_state ''p'' d = [(''allow'', JStr [])] \<and> read_user_state ''p'' d' = [(''allow'', JBool True)]"
  by code_simp

text \<open>A line that is not JSON (an append that was cut short) makes its session unreadable, and the list of the whole
  project with it; only an event that does not validate is skipped.\<close>

lemma torn_line_hides_the_project:
  "let d = run_store_ops plain_framework
             [Create a_env ''a'' ''p'' [] (Some ''s''), Create a_env ''a'' ''p'' [] (Some ''t'')] empty_disk;
       torn = append_line ''projects/p/sessions/s.jsonl'' NotJson d;
       bad = append_line ''projects/p/sessions/s.jsonl'' BadEvent d
   in list_sessions plain_framework [] ''a'' (Some ''p'') torn = Inl NotReadable
      \<and> get_session plain_framework 0 ''a'' ''p'' ''s'' None torn = Inl NotReadable
      \<and> get_session plain_framework 0 ''a'' ''p'' ''s'' None bad = get_session plain_framework 0 ''a'' ''p'' ''s'' None d"
  by code_simp

text \<open>A file of another name among the projects makes the list over all projects fail.\<close>

lemma stray_entry_breaks_the_list:
  "list_sessions fw (''.DS_Store'' # stray) app None empty_disk = Inl UnsafeId"
  by (simp add: list_sessions_def empty_disk_def list_project_def sessions_dir_path) code_simp

text \<open>A session created again under the name of a deleted one takes the events of the old session's turn, if it still runs.\<close>

lemma old_turn_writes_into_the_new_session:
  "let old = a_session ''p'' ''s''; e = an_event ''e'' ''i'' ''agent'' [];
       d = run_store_ops plain_framework
             [Create a_env ''a'' ''p'' [] (Some ''s''), Delete ''p'' ''s'', Append old e,
              Create a_env ''a'' ''p'' [] (Some ''s''), Append old e] empty_disk
   in map_option (\<lambda>c. length (snd c)) (history ''p'' ''s'' d) = Some 1"
  by code_simp

section \<open>The properties at work\<close>

lemma files_are_conversations_witness:
  "let ops = [Create a_env ''a'' ''p'' [] (Some ''s''), Append (a_session ''p'' ''s'') (an_event ''e'' ''i'' ''user'' [(''user:k'', JNull)])];
       d = run_store_ops plain_framework ops empty_disk;
       S = fold (\<lambda>op S. fst (spec_step plain_framework op S)) ops (chats_of empty_disk)
   in apfst chats_of (run_store plain_framework (Delete ''p'' ''s'') d) = spec_step plain_framework (Delete ''p'' ''s'') S
      \<and> get_session plain_framework 0 ''a'' ''p'' ''s'' None d = Inr (spec_get plain_framework 0 ''a'' ''p'' ''s'' None S)"
proof -
  have "safe_id ''p''" "safe_id ''s''" by code_simp+
  then show ?thesis
    unfolding Let_def by (rule files_are_conversations [OF plain_documented, unfolded Let_def])
qed

definition demo_disk :: disk where
  "demo_disk = run_store_ops plain_framework
     [Create a_env ''a'' ''p'' [] (Some ''s''), Append (a_session ''p'' ''s'') (an_event ''e'' ''i'' ''user'' []),
      Append (a_session ''p'' ''s'') (an_event ''f'' ''j'' ''agent'' [])] empty_disk"

lemma demo_disk_ok: "disk_ok demo_disk"
  unfolding demo_disk_def using store_steps [OF plain_documented empty_disk_ok] by blast

lemma deleted_session_stays_deleted_witness:
  "get_session plain_framework 0 ''a'' ''p'' ''s'' None
     (run_store_ops plain_framework
       [Append (a_session ''p'' ''s'') (an_event ''g'' ''j'' ''agent'' []), Create a_env ''a'' ''p'' [] (Some ''t'')]
       (delete_session ''p'' ''s'' demo_disk)) = Inr None"
  by (rule deleted_session_stays_deleted [OF plain_documented demo_disk_ok]) code_simp+

lemma demo_history:
  "history ''p'' ''s'' demo_disk
     = Some (Some \<lparr>hd_app = ''a'', hd_user = ''p'', hd_id = ''s'', hd_state = [(''permission_mode'', JStr [97, 115, 107])], hd_time = 1\<rparr>,
             [an_event ''e'' ''i'' ''user'' [], an_event ''f'' ''j'' ''agent'' []])"
  by code_simp

lemma rewind_undoes_the_turn_witness:
  "\<exists>n m. n \<le> m \<and> m < 2 \<and> chats_of (fst (truncate_before_invocation ''p'' ''s'' ''j'' demo_disk))
     = put_chat ''p'' ''s'' (fst (the (history ''p'' ''s'' demo_disk)),
         take n [an_event ''e'' ''i'' ''user'' [], an_event ''f'' ''j'' ''agent'' []]) (chats_of demo_disk)"
proof -
  have e: "list_ex (\<lambda>e. ev_invocation e = ''j'') [an_event ''e'' ''i'' ''user'' [], an_event ''f'' ''j'' ''agent'' []]" "''j'' \<noteq> []"
    by code_simp+
  show ?thesis using rewind_undoes_the_turn [OF demo_disk_ok e(2) demo_history e(1)] unfolding demo_history by force
qed

lemma listing_agrees_with_reading_witness:
  "\<exists>ss. list_sessions plain_framework [] ''a'' (Some ''p'') demo_disk = Inr ss
    \<and> (\<forall>x. x \<in> set ss \<longleftrightarrow> (\<exists>s y. get_session plain_framework 0 ''a'' ''p'' s None demo_disk = Inr (Some y) \<and> x = y\<lparr>st_events := []\<rparr>))"
proof -
  have "safe_id ''p''" by code_simp
  then show ?thesis by (rule listing_agrees_with_reading [OF demo_disk_ok])
qed

lemma projects_do_not_meet_witness:
  "history ''p'' ''s'' (run_store_ops plain_framework [Delete ''q'' ''s'', SetUser ''q'' ''k'' JNull] demo_disk) = history ''p'' ''s'' demo_disk
   \<and> read_user_state ''p'' (run_store_ops plain_framework [Delete ''q'' ''s'', SetUser ''q'' ''k'' JNull] demo_disk)
       = read_user_state ''p'' demo_disk"
  by (rule projects_do_not_meet [OF plain_documented demo_disk_ok]) simp

end
