(* ===== verification/Processes.thy ===== *)
theory Processes
  imports PlanMode FileSessions
begin

text \<open>
  \<open>sandbox/process_registry.py\<close>, what \<open>sandbox/backends/noop_backend.py\<close> does with it for a process it starts, and the three tools of
  \<open>tools/processes.py\<close>: the record of the processes that outlive a turn, saved in an index and swept when the application starts.

  A log is ASCII: one byte is one character. Writing the index or a log succeeds. The clock, the fresh identifier and what the
  operating system answers (which groups are alive, what a pidfile holds, the checks during the grace of a
  termination) are the record \<open>proc_env\<close>; the signals that were sent are kept in the state.
\<close>

section \<open>Looking for a port\<close>

definition word_next :: "string \<Rightarrow> bool" where
  "word_next s \<longleftrightarrow> s \<noteq> [] \<and> py_word (hd s)"

text \<open>\<open>\b\<close> between the character before and the text that follows.\<close>

definition boundary :: "char option \<Rightarrow> string \<Rightarrow> bool" where
  "boundary prev s \<longleftrightarrow> (case prev of None \<Rightarrow> False | Some c \<Rightarrow> py_word c) \<noteq> word_next s"

fun search_from :: "(char option \<Rightarrow> string \<Rightarrow> 'a option) \<Rightarrow> char option \<Rightarrow> string \<Rightarrow> 'a option" where
  "search_from m prev [] = m prev []"
| "search_from m prev (c # s) = (case m prev (c # s) of Some x \<Rightarrow> Some x | None \<Rightarrow> search_from m (Some c) s)"

text \<open>\<open>\d{2,5}\b\<close> and \<open>\d{2,5}\<close>.\<close>

definition port_word :: "string \<Rightarrow> string option" where
  "port_word s =
     (let ds = takeWhile ascii_digit s
      in if 2 \<le> length ds \<and> length ds \<le> 5 \<and> \<not> word_next (drop (length ds) s) then Some ds else None)"

definition port_digits :: "string \<Rightarrow> string option" where
  "port_digits s = (let ds = takeWhile ascii_digit s in if 2 \<le> length ds then Some (take 5 ds) else None)"

definition after_text :: "string \<Rightarrow> string \<Rightarrow> string option" where
  "after_text p s = (if startswith s p then Some (drop (length p) s) else None)"

definition orelse :: "'a option \<Rightarrow> 'a option \<Rightarrow> 'a option" where
  "orelse x y = (case x of Some _ \<Rightarrow> x | None \<Rightarrow> y)"

definition host_char :: "char \<Rightarrow> bool" where
  "host_char c \<longleftrightarrow> py_word c \<or> c = CHR ''.'' \<or> c = CHR ''-''"

definition url_port :: "string \<Rightarrow> string option" where
  "url_port s =
     Option.bind (after_text ''http'' s) (\<lambda>r.
     Option.bind (after_text ''://'' (if startswith r ''s'' then drop 1 r else r)) (\<lambda>r.
     Option.bind (after_text '':'' (dropWhile host_char r)) port_word))"

definition named_port :: "string \<Rightarrow> string option" where
  "named_port s =
     Option.bind (orelse (after_text ''port'' s) (after_text ''PORT'' s)) (\<lambda>r.
       let r = dropWhile py_space r;
           r = (if startswith r '':'' \<or> startswith r ''='' then drop 1 r else r)
       in port_word (dropWhile py_space r))"

text \<open>\<open>_PORT_RE\<close> at one place.\<close>

definition log_port_at :: "char option \<Rightarrow> string \<Rightarrow> string option" where
  "log_port_at prev s =
     orelse (url_port s)
       (if boundary prev s then orelse (Option.bind (after_text ''localhost:'' s) port_word) (named_port s) else None)"

definition number_of :: "string \<Rightarrow> nat" where
  "number_of ds = (case digits 0 0 False ds of None \<Rightarrow> 0 | Some (v, n) \<Rightarrow> v)"

definition plausible :: "string \<Rightarrow> nat option" where
  "plausible ds = (let n = number_of ds in if 1 \<le> n \<and> n \<le> 65535 then Some n else None)"

definition sniffed_port :: "string \<Rightarrow> nat option" where
  "sniffed_port text = Option.bind (search_from log_port_at None text) plausible"

definition port_sep :: "char \<Rightarrow> bool" where
  "port_sep c \<longleftrightarrow> c = CHR ''='' \<or> py_space c"

definition after_seps :: "(char \<Rightarrow> bool) \<Rightarrow> string \<Rightarrow> string option" where
  "after_seps P s = (if s \<noteq> [] \<and> P (hd s) then Some (dropWhile P s) else None)"

text \<open>\<open>_CMD_PORT_RE\<close> at one place.\<close>

definition cmd_port_at :: "char option \<Rightarrow> string \<Rightarrow> string option" where
  "cmd_port_at prev s =
     orelse (Option.bind (Option.bind (after_text ''--port'' s) (after_seps port_sep)) port_digits)
    (orelse (if s \<noteq> [] \<and> py_space (hd s)
             then Option.bind (Option.bind (after_text ''-p'' (tl s)) (after_seps port_sep)) port_word else None)
    (orelse (Option.bind (Option.bind (after_text ''http.server'' s) (after_seps py_space)) port_digits)
            (Option.bind (after_text '':'' s) port_word)))"

definition port_from_command :: "string \<Rightarrow> nat option" where
  "port_from_command cmd = Option.bind (search_from cmd_port_at None cmd) plausible"

section \<open>What is shown of a command\<close>

definition key_char :: "char \<Rightarrow> bool" where
  "key_char c \<longleftrightarrow> in_range 65 90 c \<or> in_range 48 57 c \<or> c = CHR ''_''"

definition secret_words :: "string list" where
  "secret_words = [''TOKEN'', ''SECRET'', ''PASSWORD'', ''PASSWD'', ''APIKEY'', ''API_KEY'', ''_PAT'', ''CREDENTIAL'']"

text \<open>\<open>_SECRET_RE\<close> at one place: the name, the value, and what follows. The name must be a whole run of key characters, since
  a space or \<open>=\<close> follows it.\<close>

definition secret_at :: "char option \<Rightarrow> string \<Rightarrow> (string \<times> string \<times> string) option" where
  "secret_at prev s =
     (let k = takeWhile key_char s;
          r = dropWhile py_space (drop (length k) s)
      in if boundary prev s \<and> list_ex (endswith k) secret_words \<and> startswith r ''=''
         then (let r = dropWhile py_space (drop 1 r);
                   v = takeWhile (\<lambda>c. \<not> py_space c) r
               in if v = [] then None else Some (k, v, drop (length v) r))
         else None)"

lemma dropWhile_length: "length (dropWhile P xs) \<le> length xs"
  by (rule length_dropWhile_le)

lemma secret_at_shorter: "secret_at prev s = Some (k, v, r) \<Longrightarrow> length r < length s"
proof -
  assume "secret_at prev s = Some (k, v, r)"
  then have v: "r = drop (length v) (dropWhile py_space (drop 1 (dropWhile py_space (drop (length k) s))))" "v \<noteq> []"
    and e: "startswith (dropWhile py_space (drop (length k) s)) ''=''"
    by (auto simp: secret_at_def Let_def split: if_splits)
  have "dropWhile py_space (drop (length k) s) \<noteq> []"
  proof
    assume n: "dropWhile py_space (drop (length k) s) = []"
    show False using e unfolding n by (simp add: startswith_def)
  qed
  then have "length (drop 1 (dropWhile py_space (drop (length k) s))) < length s"
    using dropWhile_length [of py_space "drop (length k) s"] by (cases "dropWhile py_space (drop (length k) s)") auto
  then show ?thesis using v(1) dropWhile_length [of py_space "drop 1 (dropWhile py_space (drop (length k) s))"] by simp
qed

lemma secret_at_tail [termination_simp]: "secret_at prev (c # s) = Some (k, v, r) \<Longrightarrow> length r \<le> length s"
  using secret_at_shorter [of prev "c # s"] by fastforce

text \<open>\<open>_SECRET_RE.sub\<close>.\<close>

fun redact_go :: "char option \<Rightarrow> string \<Rightarrow> string" where
  "redact_go prev [] = []"
| "redact_go prev (c # s) =
     (case secret_at prev (c # s) of
        None \<Rightarrow> c # redact_go (Some c) s
      | Some (k, v, r) \<Rightarrow> k @ ''=***'' @ redact_go (Some (last v)) r)"

definition redact_command :: "string \<Rightarrow> string" where
  "redact_command cmd = redact_go None cmd"

function py_words :: "string \<Rightarrow> string list" where
  "py_words s =
     (let r = dropWhile py_space s
      in if r = [] then []
         else takeWhile (\<lambda>c. \<not> py_space c) r # py_words (dropWhile (\<lambda>c. \<not> py_space c) r))"
  by auto
termination
proof (relation "measure length")
  fix s r assume r: "r = dropWhile py_space s" "r \<noteq> []"
  then have "\<not> py_space (hd r)" using hd_dropWhile by metis
  then have "length (dropWhile (\<lambda>c. \<not> py_space c) r) < length r"
    using r(2) length_dropWhile_le [of "\<lambda>c. \<not> py_space c" "tl r"] by (cases r) auto
  moreover have "length r \<le> length s" using r(1) length_dropWhile_le by blast
  ultimately show "(dropWhile (\<lambda>c. \<not> py_space c) r, s) \<in> measure length" by simp
qed simp

declare py_words.simps [simp del]

definition label_from_command :: "string \<Rightarrow> string" where
  "label_from_command cmd =
     (let parts = filter (\<lambda>p. \<not> startswith p ''ADK_'' \<and> \<not> startswith p ''-'') (py_words cmd);
          l = take 60 (join '' '' (take 3 parts))
      in if l = [] then ''process'' else l)"

section \<open>The registry\<close>

record proc =
  pr_id :: string
  pr_session :: string
  pr_project :: string
  pr_label :: string
  pr_command :: string
  pr_cwd :: string
  pr_backend :: string
  pr_log :: string
  pr_pid :: "int option"
  pr_pgid :: "int option"
  pr_started :: rat
  pr_finished :: "rat option"
  pr_status :: string
  pr_exit :: "int option"
  pr_port :: "nat option"
  pr_can_terminate :: bool
  pr_adopted :: bool
  pr_remote_log :: string
  pr_container :: string
  pr_kind :: string
  pr_pidfile :: string
  pr_timeout :: "int option"

datatype psignal = Term | Kill

record procs =
  pc_records :: "(string \<times> proc) list"
  pc_index :: "proc list"
  pc_logs :: "(string \<times> string) list"
  pc_signals :: "(int \<times> psignal) list"

record proc_env =
  pv_now :: rat
  pv_alive :: "int \<Rightarrow> bool"
  pv_polls :: "int \<Rightarrow> bool list"
  pv_pidfile :: "string \<Rightarrow> string option"

definition active :: "proc \<Rightarrow> bool" where
  "active r \<longleftrightarrow> pr_status r = ''running'' \<or> pr_status r = ''starting''"

definition proc_statuses :: "string list" where
  "proc_statuses = [''starting'', ''running'', ''exited'', ''killed'', ''failed'', ''unknown'']"

definition time_or :: "rat option \<Rightarrow> rat \<Rightarrow> rat" where
  "time_or t d = (case t of None \<Rightarrow> d | Some x \<Rightarrow> if x = 0 then d else x)"

definition elapsed :: "rat \<Rightarrow> proc \<Rightarrow> rat" where
  "elapsed now r = time_or (pr_finished r) now - pr_started r"

definition load_index :: "proc list \<Rightarrow> (string \<times> proc) list" where
  "load_index rs = fold (\<lambda>r d. dict_put (pr_id r) r d) rs []"

definition save_index :: "procs \<Rightarrow> procs" where
  "save_index p = p\<lparr>pc_index := map snd (pc_records p)\<rparr>"

definition get_proc :: "string \<Rightarrow> procs \<Rightarrow> proc option" where
  "get_proc i p = map_of (pc_records p) i"

text \<open>A record is one object: the field is set in place.\<close>

definition put_proc :: "string \<Rightarrow> proc \<Rightarrow> procs \<Rightarrow> procs" where
  "put_proc i r p = p\<lparr>pc_records := dict_put i r (pc_records p)\<rparr>"

definition history_cap :: nat where
  "history_cap = 20"

definition cap_foreground_history :: "procs \<Rightarrow> procs" where
  "cap_foreground_history p =
     (let over = sort_key (\<lambda>r. time_or (pr_finished r) (pr_started r))
                   (filter (\<lambda>r. pr_kind r = ''foreground'' \<and> \<not> active r) (map snd (pc_records p)));
          old = take (length over + 1 - history_cap) over
      in fold (\<lambda>r p. p\<lparr>pc_records := dict_pop (pr_id r) (pc_records p)\<rparr>) old p)"

record new_proc =
  np_id :: string
  np_session :: string
  np_project :: string
  np_label :: string
  np_command :: string
  np_cwd :: string
  np_backend :: string
  np_can_terminate :: bool
  np_kind :: string
  np_log :: string
  np_pidfile :: string
  np_timeout :: "int option"

definition new_record :: "string \<Rightarrow> rat \<Rightarrow> new_proc \<Rightarrow> proc" where
  "new_record dir now n =
     \<lparr>pr_id = np_id n, pr_session = np_session n, pr_project = np_project n,
      pr_label = (if np_label n = [] then label_from_command (np_command n) else np_label n),
      pr_command = redact_command (np_command n), pr_cwd = np_cwd n, pr_backend = np_backend n,
      pr_log = (if np_log n = [] then path_div dir (np_id n @ ''.log'') else np_log n),
      pr_pid = None, pr_pgid = None, pr_started = now, pr_finished = None, pr_status = ''starting'', pr_exit = None,
      pr_port = port_from_command (np_command n), pr_can_terminate = np_can_terminate n, pr_adopted = False,
      pr_remote_log = [], pr_container = [], pr_kind = np_kind n, pr_pidfile = np_pidfile n, pr_timeout = np_timeout n\<rparr>"

definition touch_log :: "string \<Rightarrow> procs \<Rightarrow> procs" where
  "touch_log path p = (if map_of (pc_logs p) path = None then p\<lparr>pc_logs := dict_put path [] (pc_logs p)\<rparr> else p)"

definition create_proc :: "string \<Rightarrow> rat \<Rightarrow> new_proc \<Rightarrow> procs \<Rightarrow> procs" where
  "create_proc dir now n p =
     (let r = new_record dir now n;
          p = (if np_kind n = ''foreground'' then cap_foreground_history p else p)
      in save_index (touch_log (pr_log r) (put_proc (np_id n) r p)))"

definition mark_running :: "string \<Rightarrow> procs \<Rightarrow> procs" where
  "mark_running i p =
     (case get_proc i p of None \<Rightarrow> p | Some r \<Rightarrow> save_index (put_proc i (r\<lparr>pr_status := ''running''\<rparr>) p))"

definition mark_started :: "string \<Rightarrow> int \<Rightarrow> int \<Rightarrow> procs \<Rightarrow> procs" where
  "mark_started i pid pgid p =
     (case get_proc i p of
        None \<Rightarrow> p
      | Some r \<Rightarrow> save_index (put_proc i (r\<lparr>pr_pid := Some pid, pr_pgid := Some pgid, pr_status := ''running''\<rparr>) p))"

definition mark_exited :: "rat \<Rightarrow> string \<Rightarrow> int option \<Rightarrow> string \<Rightarrow> procs \<Rightarrow> procs" where
  "mark_exited now i code status p =
     (case get_proc i p of
        None \<Rightarrow> p
      | Some r \<Rightarrow>
          save_index (put_proc i
            (r\<lparr>pr_exit := code, pr_status := (if List.member proc_statuses status then status else ''exited''),
               pr_finished := Some now\<rparr>) p))"

definition finalize_foreground :: "rat \<Rightarrow> string \<Rightarrow> int option \<Rightarrow> bool \<Rightarrow> procs \<Rightarrow> procs" where
  "finalize_foreground now i code timed_out p =
     (case get_proc i p of
        None \<Rightarrow> p
      | Some r \<Rightarrow>
          if pr_status r = ''killed''
          then save_index (put_proc i (r\<lparr>pr_finished := Some (time_or (pr_finished r) now)\<rparr>) p)
          else mark_exited now i code (if timed_out then ''failed'' else ''exited'') p)"

text \<open>The end of the process the local backend pumps.\<close>

definition pump_end :: "rat \<Rightarrow> string \<Rightarrow> int \<Rightarrow> procs \<Rightarrow> procs" where
  "pump_end now i code p =
     (case get_proc i p of
        None \<Rightarrow> p
      | Some r \<Rightarrow> if active r then mark_exited now i (Some code) (if code = 0 then ''exited'' else ''failed'') p else p)"

definition max_log :: nat where
  "max_log = 8 * 1024 * 1024"

definition trim_to :: nat where
  "trim_to = 4 * 1024 * 1024"

definition trimmed_note :: string where
  "trimmed_note = ''[... earlier output trimmed ...]'' @ [CHR 0x0A]"

definition trim_log :: "string \<Rightarrow> string" where
  "trim_log s = trimmed_note @ drop (length s - trim_to) s"

definition write_log :: "string \<Rightarrow> string \<Rightarrow> procs \<Rightarrow> procs" where
  "write_log path data p =
     (let s = (case map_of (pc_logs p) path of None \<Rightarrow> [] | Some s \<Rightarrow> s) @ data
      in p\<lparr>pc_logs := dict_put path (if max_log < length s then trim_log s else s) (pc_logs p)\<rparr>)"

definition sniff_port :: "string \<Rightarrow> string \<Rightarrow> procs \<Rightarrow> procs" where
  "sniff_port i data p =
     (case get_proc i p of
        None \<Rightarrow> p
      | Some r \<Rightarrow>
          if pr_port r \<noteq> None then p
          else case sniffed_port data of
                 None \<Rightarrow> p
               | Some n \<Rightarrow> save_index (put_proc i (r\<lparr>pr_port := Some n\<rparr>) p))"

definition append_log :: "string \<Rightarrow> string \<Rightarrow> procs \<Rightarrow> procs" where
  "append_log i data p =
     (case get_proc i p of
        None \<Rightarrow> p
      | Some r \<Rightarrow> if data = [] then p else sniff_port i data (write_log (pr_log r) data p))"

definition replace_log :: "string \<Rightarrow> string \<Rightarrow> procs \<Rightarrow> procs" where
  "replace_log i data p =
     (case get_proc i p of
        None \<Rightarrow> p
      | Some r \<Rightarrow> sniff_port i data (p\<lparr>pc_logs := dict_put (pr_log r) data (pc_logs p)\<rparr>))"

definition read_log :: "string \<Rightarrow> nat \<Rightarrow> procs \<Rightarrow> string" where
  "read_log i n p =
     (case get_proc i p of
        None \<Rightarrow> []
      | Some r \<Rightarrow> (case map_of (pc_logs p) (pr_log r) of None \<Rightarrow> [] | Some s \<Rightarrow> drop (length s - n) s))"

definition gone_note :: string where
  "gone_note = ''[adk-cc] the session container was removed; the process is gone'' @ [CHR 0x0A]"

definition mark_container_gone :: "rat \<Rightarrow> string \<Rightarrow> procs \<Rightarrow> procs \<times> nat" where
  "mark_container_gone now name p =
     fold (\<lambda>i (p, n).
         (case get_proc i p of
            None \<Rightarrow> (p, n)
          | Some r \<Rightarrow>
              if pr_container r = name \<and> active r
              then (mark_exited now i None ''exited'' (append_log i gone_note p), n + 1) else (p, n)))
       (map fst (pc_records p)) (p, 0)"

definition list_procs :: "string option \<Rightarrow> string option \<Rightarrow> procs \<Rightarrow> proc list" where
  "list_procs proj sess p =
     (let rows = map snd (pc_records p);
          rows = (case given proj of None \<Rightarrow> rows | Some x \<Rightarrow> filter (\<lambda>r. pr_project r = x) rows);
          rows = (case given sess of None \<Rightarrow> rows | Some x \<Rightarrow> filter (\<lambda>r. pr_session r = x) rows)
      in sort_key (\<lambda>r. \<not> active r) (sort_key (\<lambda>r. - time_or (pr_finished r) (pr_started r)) rows))"

definition forget :: "string \<Rightarrow> procs \<Rightarrow> procs \<times> bool" where
  "forget i p =
     (case get_proc i p of
        None \<Rightarrow> (p, False)
      | Some r \<Rightarrow> if active r then (p, False) else (save_index (p\<lparr>pc_records := dict_pop i (pc_records p)\<rparr>), True))"

definition has_group :: "proc \<Rightarrow> bool" where
  "has_group r \<longleftrightarrow> (case pr_pgid r of None \<Rightarrow> False | Some g \<Rightarrow> g \<noteq> 0)"

definition sweep_one :: "proc_env \<Rightarrow> proc \<Rightarrow> proc" where
  "sweep_one ev r =
     (if \<not> active r then r
      else if has_group r \<and> pv_alive ev (the (pr_pgid r)) then r\<lparr>pr_adopted := True\<rparr>
      else r\<lparr>pr_status := ''unknown'', pr_finished := Some (time_or (pr_finished r) (pv_now ev))\<rparr>)"

definition sweep_procs :: "proc_env \<Rightarrow> procs \<Rightarrow> procs" where
  "sweep_procs ev p =
     (let q = p\<lparr>pc_records := map (\<lambda>(i, r). (i, sweep_one ev r)) (pc_records p)\<rparr>
      in if list_ex active (map snd (pc_records p)) then save_index q else q)"

text \<open>The group of a foreground record is read from its pidfile the first time it is needed.\<close>

definition learn_group :: "proc_env \<Rightarrow> proc \<Rightarrow> proc option" where
  "learn_group ev r =
     (if \<not> has_group r \<and> pr_pidfile r \<noteq> []
      then map_option (\<lambda>g. r\<lparr>pr_pgid := Some g\<rparr>) (Option.bind (pv_pidfile ev (pr_pidfile r)) py_int)
      else Some r)"

definition send_signal :: "int \<Rightarrow> psignal \<Rightarrow> procs \<Rightarrow> procs" where
  "send_signal g sig p = p\<lparr>pc_signals := pc_signals p @ [(g, sig)]\<rparr>"

definition terminate :: "proc_env \<Rightarrow> string \<Rightarrow> procs \<Rightarrow> procs \<times> bool" where
  "terminate ev i p =
     (case get_proc i p of
        None \<Rightarrow> (p, False)
      | Some r0 \<Rightarrow>
          (case learn_group ev r0 of
             None \<Rightarrow> (p, False)
           | Some r \<Rightarrow>
               (let p = put_proc i r p
                in if \<not> has_group r then (p, False)
                   else if \<not> active r then (p, True)
                   else if pr_backend r \<noteq> ''noop'' then (p, False)
                   else (let g = the (pr_pgid r);
                             p = send_signal g Term p;
                             p = (if list_ex Not (pv_polls ev g) then p else send_signal g Kill p)
                         in (mark_exited (pv_now ev) i None ''killed'' p, True)))))"

definition terminate_all :: "proc_env \<Rightarrow> string option \<Rightarrow> string option \<Rightarrow> procs \<Rightarrow> procs \<times> nat" where
  "terminate_all ev proj sess p =
     fold (\<lambda>i (p, n).
         (case get_proc i p of
            None \<Rightarrow> (p, n)
          | Some r \<Rightarrow> if active r then (let (p, ok) = terminate ev i p in (p, if ok then n + 1 else n)) else (p, n)))
       (map pr_id (list_procs proj sess p)) (p, 0)"

text \<open>Opening the registry: the index is read, then swept.\<close>

definition open_registry :: "proc_env \<Rightarrow> procs \<Rightarrow> procs" where
  "open_registry ev p = sweep_procs ev (p\<lparr>pc_records := load_index (pc_index p)\<rparr>)"

section \<open>The tools\<close>

datatype stop_answer = NoSuchProcess | CannotStop string | AlreadyFinished string | StopDone string

definition stop_process :: "proc_env \<Rightarrow> string \<Rightarrow> procs \<Rightarrow> procs \<times> stop_answer" where
  "stop_process ev i p =
     (case get_proc i p of
        None \<Rightarrow> (p, NoSuchProcess)
      | Some r \<Rightarrow>
          if \<not> pr_can_terminate r then (p, CannotStop (pr_backend r))
          else if \<not> active r then (p, AlreadyFinished (pr_status r))
          else (let p = fst (terminate ev i p)
                in (p, StopDone (case get_proc i p of None \<Rightarrow> ''killed'' | Some r \<Rightarrow> pr_status r))))"

definition list_processes :: "bool \<Rightarrow> string \<Rightarrow> procs \<Rightarrow> proc list \<times> nat" where
  "list_processes all_projects proj p =
     (let rows = list_procs (if all_projects then None else Some proj) None p
      in (take 40 rows, length (filter active rows)))"

definition read_process_log :: "string \<Rightarrow> int \<Rightarrow> procs \<Rightarrow> (string \<times> bool) option" where
  "read_process_log i tail_lines p =
     (case get_proc i p of
        None \<Rightarrow> None
      | Some r \<Rightarrow>
          (let ls = splitlines [] (read_log i 64000 p);
               tl_ls = drop (length ls - nat (max 1 tail_lines)) ls
           in Some (join [CHR 0x0A] tl_ls, length tl_ls < length ls)))"

section \<open>No secret in what is shown\<close>

definition unword :: "char option \<Rightarrow> bool" where
  "unword prev \<longleftrightarrow> (case prev of None \<Rightarrow> True | Some c \<Rightarrow> \<not> py_word c)"

lemma key_char_word: "key_char c \<Longrightarrow> py_word c"
  by (auto simp: key_char_def py_word_def py_alnum_def)

lemma key_char_facts [simp]: "\<not> key_char (CHR ''='')" "\<not> py_space (CHR ''='')"
  by code_simp+

lemma key_not_space: "key_char c \<Longrightarrow> \<not> py_space c"
  by (auto simp: key_char_def py_space_def space_codes_def in_range_def)

lemma no_key_no_secret: "s = [] \<or> \<not> key_char (hd s) \<Longrightarrow> secret_at prev s = None"
proof -
  assume "s = [] \<or> \<not> key_char (hd s)"
  then have k: "takeWhile key_char s = []" by (cases s) auto
  have "\<not> list_ex (endswith []) secret_words" by code_simp
  then show ?thesis by (simp add: secret_at_def k)
qed

lemma redact_step: "secret_at prev (c # s) = None \<Longrightarrow> redact_go prev (c # s) = c # redact_go (Some c) s"
  by simp

lemma redact_found: "secret_at prev s = Some (k, v, r) \<Longrightarrow> redact_go prev s = k @ ''=***'' @ redact_go (Some (last v)) r"
  using no_key_no_secret [of "[]" prev] by (cases s) auto

lemma redact_after_space: "q = [] \<or> py_space (hd q) \<Longrightarrow> redact_go prev q = redact_go prev' q"
proof -
  assume q: "q = [] \<or> py_space (hd q)"
  then have "q = [] \<or> \<not> key_char (hd q)" using key_not_space [of "hd q"] by auto
  then have "secret_at x q = None" for x by (rule no_key_no_secret)
  then show ?thesis by (cases q) auto
qed

declare redact_go.simps(2) [simp del]

definition secret_word :: "string \<Rightarrow> bool" where
  "secret_word v \<longleftrightarrow> v \<noteq> [] \<and> list_all (\<lambda>c. \<not> py_space c) v"

definition secret_key :: "string \<Rightarrow> bool" where
  "secret_key k \<longleftrightarrow> list_all key_char k \<and> list_ex (endswith k) secret_words"

lemma secret_key_Nil: "secret_key k \<Longrightarrow> k \<noteq> []"
proof -
  have "\<not> list_ex (endswith []) secret_words" by code_simp
  then show "secret_key k \<Longrightarrow> k \<noteq> []" by (auto simp: secret_key_def)
qed

lemma takeWhile_word:
  "secret_word v \<Longrightarrow> q = [] \<or> py_space (hd q) \<Longrightarrow> takeWhile (\<lambda>c. \<not> py_space c) (v @ q) = v"
proof -
  assume "secret_word v" "q = [] \<or> py_space (hd q)"
  then have "\<forall>c \<in> set v. \<not> py_space c" "takeWhile (\<lambda>c. \<not> py_space c) q = []"
    by (auto simp: secret_word_def list_all_iff) (cases q, auto)
  then show ?thesis by (simp add: takeWhile_append2)
qed

lemma secret_word_start: "secret_word v \<Longrightarrow> dropWhile py_space (v @ q) = v @ q"
  by (cases v) (auto simp: secret_word_def)

lemma secret_here:
  assumes k: "secret_key k" and v: "secret_word v" and q: "q = [] \<or> py_space (hd q)" and prev: "unword prev"
  shows "secret_at prev (k @ CHR ''='' # v @ q) = Some (k, v, q)"
proof -
  have t: "takeWhile key_char (k @ CHR ''='' # v @ q) = k"
    using k by (auto simp: secret_key_def list_all_iff takeWhile_append2)
  obtain c ks where c: "k = c # ks" "key_char c" using k secret_key_Nil [OF k] by (cases k) (auto simp: secret_key_def)
  then have "boundary prev (k @ CHR ''='' # v @ q)"
    using prev key_char_word by (auto simp: boundary_def unword_def word_next_def split: option.splits)
  then show ?thesis
    using k v by (simp add: secret_at_def t startswith_def secret_key_def secret_word_start [OF v] takeWhile_word [OF v q] secret_word_def)
qed

text \<open>Scanning what stands before the secret either finds nothing, or a match that ends before it, or one that swallows it whole.\<close>

lemma dropWhile_before:
  "dropWhile P (p @ x) = (if \<forall>c \<in> set p. P c then dropWhile P x else dropWhile P p @ x)"
  by (simp add: dropWhile_append2 dropWhile_append1 split: if_splits) (use dropWhile_append1 in fastforce)

lemma last_dropWhile: "dropWhile P xs \<noteq> [] \<Longrightarrow> last (dropWhile P xs) = last xs"
  by (induction xs) auto

lemma takeWhile_before:
  "takeWhile P (p @ x) = (if \<forall>c \<in> set p. P c then p @ takeWhile P x else takeWhile P p)"
  by (auto simp: takeWhile_append2 intro: takeWhile_append1)

lemma run_before:
  assumes "p \<noteq> []" "\<not> py_word (last p)"
  shows "takeWhile key_char (p @ x) = takeWhile key_char p" "length (takeWhile key_char p) < length p"
proof -
  have l: "last p \<in> set p" "\<not> key_char (last p)" using assms key_char_word by auto
  then show "takeWhile key_char (p @ x) = takeWhile key_char p" by (auto simp: takeWhile_before)
  have "takeWhile key_char p \<noteq> p" using l by (metis takeWhile_eq_all_conv)
  then show "length (takeWhile key_char p) < length p"
    by (metis le_neq_implies_less length_takeWhile_le takeWhile_eq_take take_all)
qed

lemma redact_before:
  assumes k: "secret_key k" and v: "secret_word v" "secret_word v'" and q: "q = [] \<or> py_space (hd q)"
  shows "if p = [] then unword prev else \<not> py_word (last p) \<Longrightarrow>
    redact_go prev (p @ k @ CHR ''='' # v @ q) = redact_go prev (p @ k @ CHR ''='' # v' @ q)"
proof (induction "length p" arbitrary: p prev rule: less_induct)
  case less
  define X where "X = (\<lambda>v. k @ CHR ''='' # v @ q)"
  have Xw: "secret_word (k @ CHR ''='' # v)" if "secret_word v" for v
    using k that key_not_space by (auto simp: secret_word_def secret_key_def list_all_iff)
  have XX: "X v = (k @ CHR ''='' # v) @ q" for v by (simp add: X_def)
  have Xd: "dropWhile py_space (X v) = X v" if "secret_word v" for v
    unfolding XX by (rule secret_word_start [OF Xw [OF that]])
  obtain k0 ks where k0: "k = k0 # ks" "key_char k0" using k secret_key_Nil [OF k] by (cases k) (auto simp: secret_key_def)
  show ?case
  proof (cases p)
    case Nil
    then have "unword prev" using less.prems by simp
    then show ?thesis
      using Nil secret_here [OF k v(1) q] secret_here [OF k v(2) q]
        redact_after_space [OF q, of "Some (last v)" "Some (last v')"] by (simp add: redact_found)
  next
    case (Cons c p')
    then have lw: "\<not> py_word (last p)" using less.prems by simp
    have pn: "p \<noteq> []" using Cons by simp
    note run = run_before [OF pn lw]
    define kk where "kk = takeWhile key_char p"
    define r where "r = drop (length kk) p"
    have rX: "drop (length kk) (p @ X v) = r @ X v" "takeWhile key_char (p @ X v) = kk" for v
      using run(2) by (simp_all add: run(1) r_def kk_def)
    have rn: "r \<noteq> []" using run(2) by (simp add: r_def kk_def)
    have lr: "last r = last p" using rn by (simp add: r_def last_drop)
    have bd: "boundary prev (p @ X v) = boundary prev p" for v using Cons by (simp add: boundary_def word_next_def)
    have next_: "redact_go prev (p @ X v) = redact_go prev (p @ X v')"
      if "secret_at prev (p @ X v) = None" "secret_at prev (p @ X v') = None"
    proof -
      have "if p' = [] then unword (Some c) else \<not> py_word (last p')" using lw Cons by (auto simp: unword_def)
      then have "redact_go (Some c) (p' @ X v) = redact_go (Some c) (p' @ X v')"
        using less.hyps [of p' "Some c"] Cons by (simp add: X_def)
      then show ?thesis using that Cons by (simp add: redact_step)
    qed
    define hit where "hit \<longleftrightarrow> boundary prev p \<and> list_ex (endswith kk) secret_words"
    have at: "secret_at prev (p @ X v) =
        (let d = dropWhile py_space (r @ X v)
         in if hit \<and> startswith d ''='' then
              (let e = dropWhile py_space (drop 1 d); w = takeWhile (\<lambda>c. \<not> py_space c) e
               in if w = [] then None else Some (kk, w, drop (length w) e))
            else None)" for v
      by (simp only: secret_at_def Let_def rX bd hit_def conj_assoc)
    have Xe: "\<not> startswith (X v) ''=''" for v using k0 by (auto simp: X_def startswith_def)
    show ?thesis
    proof (cases "\<forall>c \<in> set r. py_space c")
      case True
      then have "secret_at prev (p @ X v) = None" "secret_at prev (p @ X v') = None"
        using Xd v Xe by (simp_all add: at dropWhile_before)
      then show ?thesis using next_ by (simp add: X_def)
    next
      case False
      define d where "d = dropWhile py_space r"
      have d: "dropWhile py_space (r @ X v) = d @ X v" for v using False by (auto simp: d_def dropWhile_before)
      have dn: "d \<noteq> []" using False by (simp add: d_def)
      then obtain d0 d' where d0: "d = d0 # d'" by (cases d) auto
      show ?thesis
      proof (cases "hit \<and> d0 = CHR ''=''")
        case False
        then have "secret_at prev (p @ X v) = None" for v by (auto simp: at d d0 startswith_def)
        then show ?thesis using next_ by (simp add: X_def)
      next
        case hit: True
        have at': "secret_at prev (p @ X v) =
          (let e = dropWhile py_space (d' @ X v); w = takeWhile (\<lambda>c. \<not> py_space c) e
           in if w = [] then None else Some (kk, w, drop (length w) e))" for v
          using hit by (simp add: at d d0 startswith_def)
        have dl: "length d' < length p" "d' = [] \<or> last d' = last p"
        proof -
          have "length d \<le> length r" unfolding d_def by (rule length_dropWhile_le)
          then show "length d' < length p" using d0 rn by (simp add: r_def)
          have "last d = last r" using dn unfolding d_def by (rule last_dropWhile)
          then show "d' = [] \<or> last d' = last p" using d0 lr by (cases d') auto
        qed
        define e where "e = dropWhile py_space d'"
        have found: "redact_go prev (p @ X v) = redact_go prev (p @ X v')"
          if sw: "\<And>u. secret_word u \<Longrightarrow> \<exists>w. secret_at prev (p @ X u) = Some (kk, w, q)"
        proof -
          obtain w w' where "secret_at prev (p @ X v) = Some (kk, w, q)" "secret_at prev (p @ X v') = Some (kk, w', q)"
            using sw [OF v(1)] sw [OF v(2)] by blast
          then show ?thesis using redact_after_space [OF q] by (simp add: redact_found)
        qed
        have word: "takeWhile (\<lambda>c. \<not> py_space c) (X u) = k @ CHR ''='' # u" if "secret_word u" for u
          unfolding XX by (rule takeWhile_word [OF Xw [OF that] q])
        show ?thesis
        proof (cases "\<forall>c \<in> set d'. py_space c")
          case True
          then have "\<exists>w. secret_at prev (p @ X u) = Some (kk, w, q)" if "secret_word u" for u
            using that Xd word by (simp add: at' dropWhile_before) (simp add: X_def)
          then show ?thesis using found by (simp add: X_def)
        next
          case False
          have e: "dropWhile py_space (d' @ X u) = e @ X u" for u using False by (auto simp: e_def dropWhile_before)
          have en: "e \<noteq> []" "\<not> py_space (hd e)" using False hd_dropWhile [of py_space d'] by (auto simp: e_def)
          show ?thesis
          proof (cases "\<forall>c \<in> set e. \<not> py_space c")
            case True
            then have "takeWhile (\<lambda>c. \<not> py_space c) (e @ X u) = e @ k @ CHR ''='' # u" if "secret_word u" for u
              using word [OF that] by (simp add: takeWhile_before)
            then have "\<exists>w. secret_at prev (p @ X u) = Some (kk, w, q)" if "secret_word u" for u
              using that en by (simp add: at' e Let_def) (simp add: X_def)
            then show ?thesis using found by (simp add: X_def)
          next
            case False
            define w where "w = takeWhile (\<lambda>c. \<not> py_space c) e"
            define f where "f = drop (length w) e"
            have w: "takeWhile (\<lambda>c. \<not> py_space c) (e @ X u) = w" for u using False by (auto simp: w_def takeWhile_before)
            have wn: "w \<noteq> []" using en by (cases e) (auto simp: w_def)
            have wl: "length w < length e"
            proof -
              have "w \<noteq> e" using False unfolding w_def by (metis takeWhile_eq_all_conv)
              then show ?thesis unfolding w_def by (metis le_neq_implies_less length_takeWhile_le takeWhile_eq_take take_all)
            qed
            then have "f \<noteq> []" "last f = last e" by (simp_all add: f_def last_drop)
            moreover have "last e = last d'" using en unfolding e_def by (intro last_dropWhile) simp
            moreover have "d' \<noteq> []" using en by (auto simp: e_def)
            ultimately have fl: "f \<noteq> []" "\<not> py_word (last f)" using dl lw by auto
            have "length e \<le> length d'" unfolding e_def by (rule length_dropWhile_le)
            then have "length f < length p" using dl wn by (simp add: f_def)
            then have "redact_go (Some (last w)) (f @ X v) = redact_go (Some (last w)) (f @ X v')"
              using less.hyps [of f "Some (last w)"] fl by (simp add: X_def)
            moreover have "secret_at prev (p @ X u) = Some (kk, w, f @ X u)" for u
              using wn wl by (simp add: at' e w Let_def f_def)
            ultimately have "redact_go prev (p @ X v) = redact_go prev (p @ X v')" by (simp only: redact_found)
            then show ?thesis by (simp add: X_def)
          qed
        qed
      qed
    qed
  qed
qed


text \<open>The label made from the same command shows the value, and a quoted value with a space is cut at the space.\<close>

definition a_command :: "string \<Rightarrow> new_proc" where
  "a_command cmd =
     \<lparr>np_id = ''p1'', np_session = ''s'', np_project = ''p'', np_label = [], np_command = cmd, np_cwd = ''/w'', np_backend = ''noop'',
      np_can_terminate = True, np_kind = ''background'', np_log = [], np_pidfile = [], np_timeout = None\<rparr>"

lemma label_words:
  "py_words ''FOO_TOKEN=hunter2 npm run dev'' = [''FOO_TOKEN=hunter2'', ''npm'', ''run'', ''dev'']"
proof -
  have sp: "py_space (CHR '' '')" by code_simp
  have w: "list_all (\<lambda>c. \<not> py_space c) ''FOO_TOKEN=hunter2npmrundev''" by code_simp
  show ?thesis using sp w by (simp add: py_words.simps)
qed

lemma label_shows_the_secret:
  "pr_label (new_record ''/d'' 0 (a_command ''FOO_TOKEN=hunter2 npm run dev'')) = ''FOO_TOKEN=hunter2 npm run''
   \<and> pr_command (new_record ''/d'' 0 (a_command ''FOO_TOKEN=hunter2 npm run dev'')) = ''FOO_TOKEN=*** npm run dev''"
proof
  show "pr_label (new_record ''/d'' 0 (a_command ''FOO_TOKEN=hunter2 npm run dev'')) = ''FOO_TOKEN=hunter2 npm run''"
    by (simp add: new_record_def a_command_def label_from_command_def label_words startswith_def)
  show "pr_command (new_record ''/d'' 0 (a_command ''FOO_TOKEN=hunter2 npm run dev'')) = ''FOO_TOKEN=*** npm run dev''"
    by code_simp
qed

lemma quoted_secret_is_cut:
  "redact_command ''DB_PASSWORD='' = ''DB_PASSWORD='' \<and>
   redact_command (''DB_PASSWORD='' @ CHR 0x22 # ''correct horse'' @ [CHR 0x22]) = ''DB_PASSWORD=*** horse'' @ [CHR 0x22]"
  by code_simp

text \<open>Only the first text that looks like a port is considered, plausible or not.\<close>

lemma implausible_port_hides_the_next:
  "sniffed_port ''port 99999, Local: http://localhost:5173/'' = None \<and> sniffed_port ''Local: http://localhost:5173/'' = Some 5173"
proof -
  have m: "search_from log_port_at None ''port 99999, Local: http://localhost:5173/'' = Some ''99999''"
    "search_from log_port_at None ''Local: http://localhost:5173/'' = Some ''5173''" by code_simp+
  have d: "digit_value (CHR ''9'') = Some 9" "digit_value (CHR ''5'') = Some 5" "digit_value (CHR ''1'') = Some 1"
    "digit_value (CHR ''7'') = Some 7" "digit_value (CHR ''3'') = Some 3" by code_simp+
  show ?thesis unfolding sniffed_port_def m by (simp add: plausible_def number_of_def d)
qed

section \<open>The index\<close>

text \<open>What an index that was read back can miss: the group learned from a pidfile.\<close>

definition ungrouped :: "proc \<Rightarrow> proc" where
  "ungrouped r = r\<lparr>pr_pgid := None\<rparr>"

definition procs_ok :: "procs \<Rightarrow> bool" where
  "procs_ok p \<longleftrightarrow>
     distinct (map fst (pc_records p)) \<and> list_all (\<lambda>(i, r). pr_id r = i) (pc_records p)
     \<and> map ungrouped (pc_index p) = map (ungrouped \<circ> snd) (pc_records p)"

definition ids_ok :: "(string \<times> proc) list \<Rightarrow> bool" where
  "ids_ok rs \<longleftrightarrow> distinct (map fst rs) \<and> list_all (\<lambda>(i, r). pr_id r = i) rs"

lemma procs_ok_save [simp]: "procs_ok (save_index p) \<longleftrightarrow> ids_ok (pc_records p)"
  by (simp add: procs_ok_def save_index_def ids_ok_def)

lemma ids_ok_put: "ids_ok rs \<Longrightarrow> pr_id r = i \<Longrightarrow> ids_ok (dict_put i r rs)"
  using set_dict_put [of i r rs] by (auto simp: ids_ok_def list_all_iff distinct_dict_put)

lemma ids_ok_pop: "ids_ok rs \<Longrightarrow> ids_ok (dict_pop i rs)"
  using set_dict_pop [of i rs] by (auto simp: ids_ok_def list_all_iff distinct_dict_pop)

lemma procs_ok_ids: "procs_ok p \<Longrightarrow> ids_ok (pc_records p)"
  by (simp add: procs_ok_def ids_ok_def)

lemma ids_ok_get: "ids_ok (pc_records p) \<Longrightarrow> get_proc i p = Some r \<Longrightarrow> pr_id r = i"
  unfolding get_proc_def ids_ok_def list_all_iff by (auto dest!: map_of_SomeD)

lemma load_index_append: "load_index (rs @ [r]) = dict_put (pr_id r) r (load_index rs)"
  by (simp add: load_index_def)

lemma dict_put_new: "k \<notin> fst ` set d \<Longrightarrow> dict_put k v d = d @ [(k, v)]"
  by (induction d) auto

lemma load_index_saved: "distinct (map pr_id rs) \<Longrightarrow> load_index rs = map (\<lambda>r. (pr_id r, r)) rs"
proof (induction rs rule: rev_induct)
  case (snoc r rs)
  then have "pr_id r \<notin> fst ` set (map (\<lambda>r. (pr_id r, r)) rs)" by force
  then have "dict_put (pr_id r) r (map (\<lambda>r. (pr_id r, r)) rs) = map (\<lambda>r. (pr_id r, r)) rs @ [(pr_id r, r)]"
    by (rule dict_put_new)
  then show ?case using snoc by (simp add: load_index_append)
qed (simp add: load_index_def)

lemma load_index_ids:
  assumes "ids_ok rs"
  shows "load_index (map snd rs) = rs"
proof -
  have m: "map pr_id (map snd rs) = map fst rs" using assms by (auto simp: ids_ok_def list_all_iff)
  have "distinct (map pr_id (map snd rs))" unfolding m using assms by (simp add: ids_ok_def)
  then have "load_index (map snd rs) = map (\<lambda>r. (pr_id r, r)) (map snd rs)" by (rule load_index_saved)
  also have "\<dots> = rs" using assms by (auto simp: ids_ok_def list_all_iff intro!: map_idI)
  finally show ?thesis .
qed

section \<open>The operations in any order\<close>

datatype proc_op =
    PCreate rat new_proc
  | PRunning string
  | PStarted string int int
  | PExited rat string "int option" string
  | PFinalize rat string "int option" bool
  | PPump rat string int
  | PAppend string string
  | PReplace string string
  | PGone rat string
  | PForget string
  | PTerminate proc_env string
  | PTerminateAll proc_env "string option" "string option"
  | PStop proc_env string
  | POpen proc_env

fun run_proc :: "string \<Rightarrow> proc_op \<Rightarrow> procs \<Rightarrow> procs" where
  "run_proc dir (PCreate now n) p = create_proc dir now n p"
| "run_proc dir (PRunning i) p = mark_running i p"
| "run_proc dir (PStarted i pid pgid) p = mark_started i pid pgid p"
| "run_proc dir (PExited now i code status) p = mark_exited now i code status p"
| "run_proc dir (PFinalize now i code late) p = finalize_foreground now i code late p"
| "run_proc dir (PPump now i code) p = pump_end now i code p"
| "run_proc dir (PAppend i data) p = append_log i data p"
| "run_proc dir (PReplace i data) p = replace_log i data p"
| "run_proc dir (PGone now name) p = fst (mark_container_gone now name p)"
| "run_proc dir (PForget i) p = fst (forget i p)"
| "run_proc dir (PTerminate ev i) p = fst (terminate ev i p)"
| "run_proc dir (PTerminateAll ev proj sess) p = fst (terminate_all ev proj sess p)"
| "run_proc dir (PStop ev i) p = fst (stop_process ev i p)"
| "run_proc dir (POpen ev) p = open_registry ev p"

definition run_procs :: "string \<Rightarrow> proc_op list \<Rightarrow> procs \<Rightarrow> procs" where
  "run_procs dir ops p = fold (run_proc dir) ops p"

definition no_procs :: procs where
  "no_procs = \<lparr>pc_records = [], pc_index = [], pc_logs = [], pc_signals = []\<rparr>"

text \<open>What never changes in a record.\<close>

definition core :: "proc \<Rightarrow> proc" where
  "core r = r\<lparr>pr_pid := None, pr_pgid := None, pr_finished := None, pr_status := [], pr_exit := None, pr_port := None, pr_adopted := False\<rparr>"

definition cores :: "procs \<Rightarrow> (string \<times> proc) list" where
  "cores p = map (\<lambda>(i, r). (i, core r)) (pc_records p)"

definition index_ok :: "procs \<Rightarrow> bool" where
  "index_ok p \<longleftrightarrow> map ungrouped (pc_index p) = map (ungrouped \<circ> snd) (pc_records p)"

text \<open>A step that keeps every record, as an index that was current stays so.\<close>

definition keeps :: "procs \<Rightarrow> procs \<Rightarrow> bool" where
  "keeps p q \<longleftrightarrow> cores q = cores p \<and> (index_ok p \<longrightarrow> index_ok q)"

lemma keeps_refl [simp]: "keeps p p"
  by (simp add: keeps_def)

lemma keeps_trans: "keeps p q \<Longrightarrow> keeps q r \<Longrightarrow> keeps p r"
  by (simp add: keeps_def)

lemma index_ok_save [simp]: "index_ok (save_index p)"
  by (simp add: index_ok_def save_index_def)

lemma cores_save [simp]: "cores (save_index p) = cores p"
  by (simp add: cores_def save_index_def)

lemma dict_put_same_map:
  "map_of d i = Some r \<Longrightarrow> f r' = f r \<Longrightarrow> map (\<lambda>(i, r). (i, f r)) (dict_put i r' d) = map (\<lambda>(i, r). (i, f r)) d"
  by (induction d) auto

lemma cores_put: "get_proc i p = Some r \<Longrightarrow> core r' = core r \<Longrightarrow> cores (put_proc i r' p) = cores p"
  by (simp add: cores_def put_proc_def get_proc_def dict_put_same_map)

lemma keeps_save: "get_proc i p = Some r \<Longrightarrow> core r' = core r \<Longrightarrow> keeps p (save_index (put_proc i r' p))"
  by (simp add: keeps_def cores_put)

lemma keeps_group:
  assumes "get_proc i p = Some r"
  shows "keeps p (put_proc i (r\<lparr>pr_pgid := g\<rparr>) p)"
proof -
  have "map (\<lambda>(i, r). (i, ungrouped r)) (dict_put i (r\<lparr>pr_pgid := g\<rparr>) (pc_records p))
      = map (\<lambda>(i, r). (i, ungrouped r)) (pc_records p)"
    using assms by (intro dict_put_same_map) (simp_all add: get_proc_def ungrouped_def)
  then have "map snd (map (\<lambda>(i, r). (i, ungrouped r)) (dict_put i (r\<lparr>pr_pgid := g\<rparr>) (pc_records p)))
      = map snd (map (\<lambda>(i, r). (i, ungrouped r)) (pc_records p))" by (rule arg_cong)
  then have "map (ungrouped \<circ> snd) (pc_records (put_proc i (r\<lparr>pr_pgid := g\<rparr>) p)) = map (ungrouped \<circ> snd) (pc_records p)"
    by (simp add: put_proc_def comp_def case_prod_beta)
  then show ?thesis using cores_put [OF assms] by (simp add: keeps_def index_ok_def core_def) (simp add: put_proc_def)
qed

lemma keeps_same: "pc_records q = pc_records p \<Longrightarrow> pc_index q = pc_index p \<Longrightarrow> keeps p q"
  by (simp add: keeps_def cores_def index_ok_def)

lemma keeps_mark_exited: "keeps p (mark_exited now i code status p)"
  by (auto simp: mark_exited_def core_def intro!: keeps_save split: option.split)

lemma keeps_sniff: "keeps p (sniff_port i data p)"
  by (auto simp: sniff_port_def core_def intro!: keeps_save split: option.split)

lemma keeps_append: "keeps p (append_log i data p)"
  by (auto simp: append_log_def write_log_def Let_def intro!: keeps_trans [OF keeps_same keeps_sniff] split: option.split)

lemma learn_group_only: "learn_group ev r0 = Some r \<Longrightarrow> \<exists>g. r = r0\<lparr>pr_pgid := g\<rparr>"
  by (auto simp: learn_group_def split: if_splits intro: exI [of _ "pr_pgid r0"])

lemma keeps_terminate: "keeps p (fst (terminate ev i p))"
proof (cases "get_proc i p")
  case (Some r0)
  show ?thesis
  proof (cases "learn_group ev r0")
    case (Some r)
    then obtain g where r: "r = r0\<lparr>pr_pgid := g\<rparr>" using learn_group_only by blast
    have q: "keeps p (put_proc i r p)" unfolding r by (rule keeps_group [OF \<open>get_proc i p = Some r0\<close>])
    have s: "keeps x (send_signal h sig x)" for x h sig by (rule keeps_same) (simp_all add: send_signal_def)
    show ?thesis
      using q s keeps_trans keeps_mark_exited by (simp add: terminate_def Some \<open>get_proc i p = Some r0\<close> Let_def) blast
  qed (simp add: terminate_def Some)
qed (simp add: terminate_def)

lemma fold_keeps_records:
  assumes "\<And>x y. keeps (fst y) (fst (f x y))"
  shows "keeps (fst y) (fst (fold f xs y))"
proof (induction xs arbitrary: y)
  case (Cons x xs)
  then show ?case using keeps_trans assms by simp blast
qed simp

lemma keeps_gone: "keeps p (fst (mark_container_gone now name p))"
proof -
  have "keeps (fst y) (fst ((\<lambda>i (p, n).
         (case get_proc i p of
            None \<Rightarrow> (p, n)
          | Some r \<Rightarrow>
              if pr_container r = name \<and> active r
              then (mark_exited now i None ''exited'' (append_log i gone_note p), n + (1 :: nat)) else (p, n))) x y))" for x y
    by (cases y) (auto split: option.split intro: keeps_trans [OF keeps_append keeps_mark_exited])
  from fold_keeps_records [OF this, of "(p, 0)"] show ?thesis by (simp add: mark_container_gone_def)
qed

lemma keeps_terminate_all: "keeps p (fst (terminate_all ev proj sess p))"
proof -
  have "keeps (fst y) (fst ((\<lambda>i (p, n).
         (case get_proc i p of
            None \<Rightarrow> (p, n)
          | Some r \<Rightarrow> if active r then (let (p, ok) = terminate ev i p in (p, if ok then n + (1 :: nat) else n)) else (p, n))) x y))"
    for x y
  proof (cases y)
    case (Pair q n)
    then show ?thesis using keeps_terminate [of q ev x]
      by (cases "terminate ev x q") (simp split: option.split)
  qed
  from fold_keeps_records [OF this, of "(p, 0)"] show ?thesis by (simp add: terminate_all_def)
qed

lemma core_sweep [simp]: "core (sweep_one ev r) = core r"
  by (simp add: sweep_one_def core_def)

lemma keeps_sweep: "keeps p (sweep_procs ev p)"
proof -
  have "cores (sweep_procs ev p) = cores p"
    by (simp add: sweep_procs_def Let_def) (simp add: cores_def comp_def case_prod_beta)
  moreover have "index_ok p \<Longrightarrow> index_ok (sweep_procs ev p)"
  proof (cases "list_ex active (map snd (pc_records p))")
    case False
    then have "map (\<lambda>(i, r). (i, sweep_one ev r)) (pc_records p) = pc_records p"
      by (auto simp: list_ex_iff sweep_one_def intro!: map_idI)
    then show "index_ok p \<Longrightarrow> index_ok (sweep_procs ev p)" using False by (simp add: sweep_procs_def Let_def index_ok_def)
  qed (simp add: sweep_procs_def Let_def)
  ultimately show ?thesis by (simp add: keeps_def)
qed

lemma ids_ok_cores: "ids_ok (cores p) \<longleftrightarrow> ids_ok (pc_records p)"
  by (auto simp: ids_ok_def cores_def list_all_iff comp_def case_prod_beta core_def)

lemma procs_ok_iff: "procs_ok p \<longleftrightarrow> ids_ok (cores p) \<and> index_ok p"
  by (simp add: ids_ok_cores) (auto simp: procs_ok_def ids_ok_def index_ok_def)

lemma keeps_ok: "keeps p q \<Longrightarrow> procs_ok p \<Longrightarrow> procs_ok q"
  by (simp add: keeps_def procs_ok_iff)

lemma map_of_cores: "map_of (cores p) i = map_option core (get_proc i p)"
  by (simp add: cores_def get_proc_def map_of_map)

lemma keeps_get: "keeps p q \<Longrightarrow> map_option core (get_proc i q) = map_option core (get_proc i p)"
  by (simp add: keeps_def map_of_cores [symmetric])

lemma core_ungrouped: "ungrouped r = ungrouped r' \<Longrightarrow> core r = core r'"
  by (cases r, cases r') (simp add: ungrouped_def core_def)

text \<open>Opening the registry again gives back every record.\<close>

lemma keeps_open:
  assumes "procs_ok p"
  shows "keeps p (open_registry ev p)"
proof -
  have ix: "map ungrouped (pc_index p) = map ungrouped (map snd (pc_records p))" and ok: "ids_ok (pc_records p)"
    using assms by (simp_all add: procs_ok_def ids_ok_def)
  have un: "pr_id r = pr_id (ungrouped r)" "core r = core (ungrouped r)" for r by (simp_all add: ungrouped_def core_def)
  have "map pr_id (pc_index p) = map pr_id (map ungrouped (pc_index p))" using un(1) by simp
  also have "\<dots> = map fst (pc_records p)"
    unfolding ix using un(1) ok by (auto simp: ids_ok_def list_all_iff)
  finally have ids: "map pr_id (pc_index p) = map fst (pc_records p)" .
  then have "distinct (map pr_id (pc_index p))" using ok by (simp add: ids_ok_def)
  then have l: "load_index (pc_index p) = map (\<lambda>r. (pr_id r, r)) (pc_index p)" by (rule load_index_saved)
  define q where "q = p\<lparr>pc_records := load_index (pc_index p)\<rparr>"
  have "map (\<lambda>r. (pr_id r, core r)) (pc_index p) = map (\<lambda>r. (pr_id r, core r)) (map ungrouped (pc_index p))"
    using un by simp
  also have "\<dots> = cores p"
    unfolding ix using un ok by (auto simp: cores_def ids_ok_def list_all_iff)
  finally have "cores q = cores p" by (simp add: q_def cores_def l comp_def)
  moreover have "index_ok q" by (simp add: q_def index_ok_def l comp_def)
  ultimately have "keeps p q" by (simp add: keeps_def)
  then show ?thesis using keeps_trans keeps_sweep unfolding open_registry_def q_def by blast
qed

lemma fold_pop_records:
  "pc_records (fold (\<lambda>r p. p\<lparr>pc_records := dict_pop (pr_id r) (pc_records p)\<rparr>) rs p)
     = filter (\<lambda>x. fst x \<notin> pr_id ` set rs) (pc_records p)"
  by (induction rs arbitrary: p) (auto simp: dict_pop_def intro: filter_cong)

lemma cap_records:
  "pc_records (cap_foreground_history p)
     = filter (\<lambda>x. fst x \<notin> pr_id ` set (take (length (filter (\<lambda>r. pr_kind r = ''foreground'' \<and> \<not> active r) (map snd (pc_records p))) + 1 - history_cap)
          (sort_key (\<lambda>r. time_or (pr_finished r) (pr_started r)) (filter (\<lambda>r. pr_kind r = ''foreground'' \<and> \<not> active r) (map snd (pc_records p))))))
        (pc_records p)"
  by (simp add: cap_foreground_history_def Let_def fold_pop_records)

lemma ids_ok_filter: "ids_ok rs \<Longrightarrow> ids_ok (filter P rs)"
  by (auto simp: ids_ok_def list_all_iff distinct_map_filter)

lemma ids_ok_in: "ids_ok rs \<Longrightarrow> (i, r) \<in> set rs \<Longrightarrow> (j, s) \<in> set rs \<Longrightarrow> i = j \<Longrightarrow> r = s"
  unfolding ids_ok_def by (metis eq_key_imp_eq_value)

lemma cap_keeps_active:
  assumes "ids_ok (pc_records p)" "get_proc i p = Some r" "active r \<or> pr_kind r \<noteq> ''foreground''"
  shows "get_proc i (cap_foreground_history p) = Some r"
proof -
  have m: "(i, r) \<in> set (pc_records p)" using assms(2) by (auto simp: get_proc_def dest: map_of_SomeD)
  have "i \<notin> pr_id ` set (take n (sort_key f (filter (\<lambda>r. pr_kind r = ''foreground'' \<and> \<not> active r) (map snd (pc_records p)))))"
    for n and f :: "proc \<Rightarrow> rat"
  proof
    assume "i \<in> pr_id ` set (take n (sort_key f (filter (\<lambda>r. pr_kind r = ''foreground'' \<and> \<not> active r) (map snd (pc_records p)))))"
    then obtain s where s: "s \<in> set (filter (\<lambda>r. pr_kind r = ''foreground'' \<and> \<not> active r) (map snd (pc_records p)))" "i = pr_id s"
      by (auto dest!: in_set_takeD)
    then obtain j where "(j, s) \<in> set (pc_records p)" by auto
    moreover have "j = pr_id s" using assms(1) calculation by (auto simp: ids_ok_def list_all_iff)
    ultimately have "s = r" using ids_ok_in [OF assms(1) _ m] s(2) by blast
    then show False using s(1) assms(3) by simp
  qed
  then have "(i, r) \<in> set (pc_records (cap_foreground_history p))" using m by (simp add: cap_records)
  moreover have "distinct (map fst (pc_records (cap_foreground_history p)))"
    using ids_ok_filter [OF assms(1)] by (simp add: cap_records ids_ok_def)
  ultimately show ?thesis by (simp add: get_proc_def)
qed

lemma cap_ids: "ids_ok (pc_records p) \<Longrightarrow> ids_ok (pc_records (cap_foreground_history p))"
  by (simp add: cap_records ids_ok_filter)

lemma touch_log_records [simp]: "pc_records (touch_log path p) = pc_records p"
  by (simp add: touch_log_def)

lemma new_record_id [simp]: "pr_id (new_record dir now n) = np_id n"
  by (simp add: new_record_def)

lemma keeps_running: "keeps p (mark_running i p)"
  by (auto simp: mark_running_def core_def intro!: keeps_save split: option.split)

lemma keeps_started: "keeps p (mark_started i pid pgid p)"
  by (auto simp: mark_started_def core_def intro!: keeps_save split: option.split)

lemma keeps_finalize: "keeps p (finalize_foreground now i code late p)"
  by (auto simp: finalize_foreground_def core_def keeps_mark_exited intro!: keeps_save split: option.split)

lemma keeps_pump: "keeps p (pump_end now i code p)"
  by (auto simp: pump_end_def keeps_mark_exited split: option.split)

lemma keeps_replace: "keeps p (replace_log i data p)"
  by (auto simp: replace_log_def intro!: keeps_trans [OF keeps_same keeps_sniff] split: option.split)

lemma keeps_stop: "keeps p (fst (stop_process ev i p))"
  using keeps_terminate by (auto simp: stop_process_def Let_def split: option.split)

lemmas keeps_all =
  keeps_running keeps_started keeps_mark_exited keeps_finalize keeps_pump keeps_append keeps_replace keeps_gone
  keeps_terminate keeps_terminate_all keeps_stop keeps_open

lemma run_keeps:
  "procs_ok p \<Longrightarrow> (\<exists>now n. op = PCreate now n) \<or> (\<exists>i. op = PForget i) \<or> keeps p (run_proc dir op p)"
  by (cases op) (simp_all add: keeps_all)

lemma run_proc_ok:
  assumes ok: "procs_ok p"
  shows "procs_ok (run_proc dir op p)"
  using run_keeps [OF ok, of op dir]
proof (elim disjE exE)
  fix now n assume "op = PCreate now n"
  then show ?thesis using procs_ok_ids [OF ok]
    by (simp add: create_proc_def Let_def put_proc_def ids_ok_put cap_ids)
next
  fix i assume "op = PForget i"
  then show ?thesis using procs_ok_ids [OF ok] ok by (auto simp: forget_def ids_ok_pop split: option.split)
qed (use ok keeps_ok in blast)

lemma run_procs_simps [simp]: "run_procs dir [] p = p" "run_procs dir (op # ops) p = run_procs dir ops (run_proc dir op p)"
  by (simp_all add: run_procs_def)

lemma run_procs_ok: "procs_ok p \<Longrightarrow> procs_ok (run_procs dir ops p)"
  by (induction ops arbitrary: p) (simp_all add: run_proc_ok)

lemma no_procs_ok: "procs_ok no_procs"
  by (simp add: procs_ok_def no_procs_def)


text \<open>Opening the registry again - a restart of the application - finds every record, in order, as it was
  recorded; only what the sweep finds out about the processes is new.\<close>

theorem registry_survives_a_restart:
  "cores (open_registry ev (run_procs dir ops no_procs)) = cores (run_procs dir ops no_procs)"
  using keeps_open [OF run_procs_ok [OF no_procs_ok]] by (simp add: keeps_def)

text \<open>The history of foreground runs.\<close>

definition finished_runs :: "procs \<Rightarrow> proc list" where
  "finished_runs p = filter (\<lambda>r. pr_kind r = ''foreground'' \<and> \<not> active r) (map snd (pc_records p))"

definition ended :: "proc \<Rightarrow> rat" where
  "ended r = time_or (pr_finished r) (pr_started r)"

lemma cap_runs:
  "pc_records (cap_foreground_history p)
     = filter (\<lambda>x. fst x \<notin> pr_id ` set (take (length (finished_runs p) + 1 - history_cap) (sort_key ended (finished_runs p))))
        (pc_records p)"
  unfolding cap_records finished_runs_def [symmetric] ended_def ..

lemma finished_runs_ids: "ids_ok (pc_records p) \<Longrightarrow> distinct (map pr_id (finished_runs p))"
proof -
  assume ok: "ids_ok (pc_records p)"
  then have m: "map pr_id (map snd (pc_records p)) = map fst (pc_records p)" by (auto simp: ids_ok_def list_all_iff)
  have "distinct (map pr_id (map snd (pc_records p)))" unfolding m using ok by (simp add: ids_ok_def)
  then show ?thesis unfolding finished_runs_def by (rule distinct_map_filter)
qed

lemma finished_after_cap:
  assumes ok: "ids_ok (pc_records p)"
  shows "set (finished_runs (cap_foreground_history p))
     = set (drop (length (finished_runs p) + 1 - history_cap) (sort_key ended (finished_runs p)))"
proof -
  define n where "n = length (finished_runs p) + 1 - history_cap"
  define xs where "xs = sort_key ended (finished_runs p)"
  have d: "distinct (map pr_id xs)" using finished_runs_ids [OF ok] unfolding xs_def
    by (metis distinct_map distinct_sort set_sort)
  have "set (finished_runs (cap_foreground_history p)) = {r \<in> set xs. pr_id r \<notin> pr_id ` set (take n xs)}"
    using ok by (auto simp: finished_runs_def cap_runs n_def xs_def ids_ok_def list_all_iff)
  also have "\<dots> = set (drop n xs)"
  proof -
    have "set xs = set (take n xs) \<union> set (drop n xs)" by (metis append_take_drop_id set_append)
    moreover have "pr_id ` set (take n xs) \<inter> pr_id ` set (drop n xs) = {}"
      using d by (metis append_take_drop_id distinct_append map_append set_map)
    ultimately show ?thesis by auto
  qed
  finally show ?thesis by (simp add: n_def xs_def)
qed

text \<open>Starting a run drops only the oldest finished runs, and leaves at most nineteen of them: every run that was dropped ended no
  later than every one that stays, and no other record is touched.\<close>

theorem history_keeps_the_newest:
  assumes "ids_ok (pc_records p)"
  shows "card (set (finished_runs (cap_foreground_history p))) < history_cap
    \<and> (\<forall>r \<in> set (finished_runs p) - set (finished_runs (cap_foreground_history p)).
         \<forall>s \<in> set (finished_runs (cap_foreground_history p)). ended r \<le> ended s)
    \<and> (\<forall>i r. get_proc i p = Some r \<and> (active r \<or> pr_kind r \<noteq> ''foreground'')
         \<longrightarrow> get_proc i (cap_foreground_history p) = Some r)"
proof -
  define n where "n = length (finished_runs p) + 1 - history_cap"
  define xs where "xs = sort_key ended (finished_runs p)"
  note f = finished_after_cap [OF assms, folded n_def xs_def]
  have "card (set (drop n xs)) \<le> length (drop n xs)" by (rule card_length)
  then have c: "card (set (finished_runs (cap_foreground_history p))) < history_cap"
    unfolding f by (simp add: n_def xs_def history_cap_def)
  have "sorted (map ended (take n xs @ drop n xs))" by (simp add: xs_def)
  then have "\<forall>r \<in> set (take n xs). \<forall>s \<in> set (drop n xs). ended r \<le> ended s"
    unfolding map_append sorted_append by auto
  moreover have "set (finished_runs p) = set (take n xs) \<union> set (drop n xs)"
    by (metis append_take_drop_id set_append set_sort xs_def)
  ultimately show ?thesis using c f cap_keeps_active [OF assms] by auto
qed

section \<open>Signals, logs and the sweep\<close>

text \<open>A termination signals one group only, that of a record of this host that is running - first TERM, then KILL if no check of the
  grace found it gone - and records the process as killed; every other record stays as it was.\<close>

theorem only_the_recorded_group_is_signalled:
  assumes "terminate ev i p = (q, ok)" "pc_signals q \<noteq> pc_signals p"
  shows "\<exists>r g. get_proc i p = Some r \<and> active r \<and> pr_backend r = ''noop'' \<and> g \<noteq> 0
    \<and> (pr_pgid r = Some g \<or> \<not> has_group r \<and> Option.bind (pv_pidfile ev (pr_pidfile r)) py_int = Some g)
    \<and> pc_signals q = pc_signals p @ (g, Term) # (if list_ex Not (pv_polls ev g) then [] else [(g, Kill)])
    \<and> ok \<and> map_option pr_status (get_proc i q) = Some ''killed'' \<and> (\<forall>j. j \<noteq> i \<longrightarrow> get_proc j q = get_proc j p)"
proof -
  obtain r0 where r0: "get_proc i p = Some r0" using assms by (cases "get_proc i p") (auto simp: terminate_def)
  obtain r where r: "learn_group ev r0 = Some r" using assms r0 by (cases "learn_group ev r0") (auto simp: terminate_def)
  obtain h where h: "r = r0\<lparr>pr_pgid := h\<rparr>" using learn_group_only [OF r] by blast
  have put: "pc_signals (put_proc i r p) = pc_signals p" by (simp add: put_proc_def)
  have run: "has_group r" "active r" "pr_backend r = ''noop''"
    using assms r0 r put by (auto simp: terminate_def Let_def split: if_splits)
  define g where "g = the (pr_pgid r)"
  have g: "pr_pgid r = Some g" "g \<noteq> 0" using run(1) by (auto simp: has_group_def g_def split: option.splits)
  have src: "pr_pgid r0 = Some g \<or> \<not> has_group r0 \<and> Option.bind (pv_pidfile ev (pr_pidfile r0)) py_int = Some g"
    using r g by (auto simp: learn_group_def split: if_splits)
  define p1 where "p1 = send_signal g Term (put_proc i r p)"
  define p2 where "p2 = (if list_ex Not (pv_polls ev g) then p1 else send_signal g Kill p1)"
  have q: "q = mark_exited (pv_now ev) i None ''killed'' p2" "ok"
    using assms(1) r0 r run by (auto simp: terminate_def Let_def g_def p1_def p2_def)
  have p2: "pc_records p2 = dict_put i r (pc_records p)"
    "pc_signals p2 = pc_signals p @ (g, Term) # (if list_ex Not (pv_polls ev g) then [] else [(g, Kill)])"
    by (simp_all add: p2_def p1_def send_signal_def put_proc_def)
  have gi: "get_proc i p2 = Some r" by (simp add: get_proc_def p2)
  have st: "List.member proc_statuses ''killed''" by code_simp
  have "pc_signals q = pc_signals p2" "map_option pr_status (get_proc i q) = Some ''killed''"
    "\<forall>j. j \<noteq> i \<longrightarrow> get_proc j q = get_proc j p"
    using q gi st by (simp_all add: mark_exited_def save_index_def put_proc_def get_proc_def p2)
  then show ?thesis using r0 run h src g q(2) p2 by (auto simp: active_def)
qed

text \<open>After the sweep, what is listed as running is alive, and a record that had finished is untouched.\<close>

lemma sweep_finds_the_dead:
  "get_proc i (sweep_procs ev p) = map_option (sweep_one ev) (get_proc i p)"
  by (simp add: sweep_procs_def get_proc_def Let_def save_index_def map_of_map comp_def)

lemma swept_is_alive:
  assumes "get_proc i (open_registry ev p) = Some r" "active r"
  shows "has_group r \<and> pv_alive ev (the (pr_pgid r)) \<and> pr_adopted r"
proof -
  obtain r0 where "r = sweep_one ev r0"
    using assms(1) by (auto simp: open_registry_def sweep_finds_the_dead)
  moreover have "\<not> active (r0\<lparr>pr_status := ''unknown'', pr_finished := t\<rparr>)" for t by (simp add: active_def)
  moreover have "has_group (r0\<lparr>pr_adopted := True\<rparr>) = has_group r0" by (simp add: has_group_def)
  ultimately show ?thesis using assms(2) by (simp add: sweep_one_def split: if_splits)
qed

text \<open>A log never outgrows its bound by what is appended to it, and keeps its tail.\<close>

lemma trim_log_length: "max_log < length s \<Longrightarrow> length (trim_log s) \<le> max_log"
  by (simp add: trim_log_def max_log_def trim_to_def trimmed_note_def)

lemma sniff_logs [simp]: "pc_logs (sniff_port i data p) = pc_logs p"
  by (simp add: sniff_port_def save_index_def put_proc_def split: option.split)

lemma logs_are_bounded:
  assumes "\<forall>path s. map_of (pc_logs p) path = Some s \<longrightarrow> length s \<le> max_log"
    "map_of (pc_logs (append_log i data p)) path = Some s"
  shows "length s \<le> max_log"
  using assms trim_log_length
  by (auto simp: append_log_def write_log_def Let_def split: option.splits if_splits)

section \<open>Where the registry falls short\<close>

definition an_env :: "int list \<Rightarrow> proc_env" where
  "an_env gs = \<lparr>pv_now = 1, pv_alive = (\<lambda>g. List.member gs g), pv_polls = (\<lambda>g. [False]), pv_pidfile = (\<lambda>f. None)\<rparr>"

text \<open>The sweep asks this host about the group of a remote process: one that still runs there is recorded as gone.\<close>

lemma sweep_asks_the_wrong_host:
  "let p = run_procs ''/d'' [PCreate 0 ((a_command ''npm run dev'')\<lparr>np_backend := ''ssh''\<rparr>), PStarted ''p1'' 7 7, POpen (an_env [])] no_procs
   in map_option pr_status (get_proc ''p1'' p) = Some ''unknown''"
  by code_simp

text \<open>A group that some other process has since got is taken for the recorded one, and terminating the record signals it.\<close>

lemma recycled_group_is_adopted:
  "let p = run_procs ''/d'' [PCreate 0 (a_command ''npm run dev''), PStarted ''p1'' 7 7, POpen (an_env [7]), PTerminate (an_env [7]) ''p1''] no_procs
   in pc_signals p = [(7, Term)]"
  by code_simp

text \<open>The tool that stops a process says it has stopped one that only its own backend could stop.\<close>

lemma stop_claims_a_remote_process:
  "let p = run_procs ''/d'' [PCreate 0 ((a_command ''npm run dev'')\<lparr>np_backend := ''ssh''\<rparr>), PStarted ''p1'' 7 7] no_procs
   in snd (stop_process (an_env [7]) ''p1'' p) = StopDone ''running'' \<and> pc_signals (fst (stop_process (an_env [7]) ''p1'' p)) = []"
  by code_simp

section \<open>The properties at work\<close>


definition demo_procs :: "proc_op list" where
  "demo_procs = [PCreate 0 (a_command ''npm run dev''), PStarted ''p1'' 7 7]"

lemma demo_running:
  "\<exists>r. get_proc ''p1'' (run_procs ''/d'' demo_procs no_procs) = Some r \<and> active r \<and> pr_backend r = ''noop'' \<and> pr_pgid r = Some 7"
proof -
  have "(case get_proc ''p1'' (run_procs ''/d'' demo_procs no_procs) of
      None \<Rightarrow> False | Some r \<Rightarrow> active r \<and> pr_backend r = ''noop'' \<and> pr_pgid r = Some 7)" by code_simp
  then show ?thesis by (auto split: option.splits)
qed


lemma history_keeps_the_newest_witness:
  "card (set (finished_runs (cap_foreground_history (run_procs ''/d'' demo_procs no_procs)))) < history_cap"
  using history_keeps_the_newest [OF procs_ok_ids [OF run_procs_ok [OF no_procs_ok]], of "''/d''" demo_procs] by blast

lemma only_the_recorded_group_is_signalled_witness:
  "\<exists>r g. get_proc ''p1'' (run_procs ''/d'' demo_procs no_procs) = Some r \<and> active r \<and> g \<noteq> 0
    \<and> pc_signals (fst (terminate (an_env []) ''p1'' (run_procs ''/d'' demo_procs no_procs))) = [(g, Term)]"
proof -
  define p where "p = run_procs ''/d'' demo_procs no_procs"
  have "pc_signals (fst (terminate (an_env []) ''p1'' p)) = [(7, Term)]" "pc_signals p = []" unfolding p_def by code_simp+
  then show ?thesis
    using only_the_recorded_group_is_signalled [of "an_env []" "''p1''" p "fst (terminate (an_env []) ''p1'' p)" "snd (terminate (an_env []) ''p1'' p)"]
    unfolding p_def by force
qed

end
