(* ===== verification/Spec2Isabelle.thy ===== *)
theory Spec2Isabelle
  imports PermissionPlugin Authz Tasks Models Turns Sessions PlanMode ToolJson Guard FileSessions Processes
begin

text \<open>
  A verification development of adk-cc (\<open>src/agents/adk_cc\<close>), a multi-tenant service that runs a coding agent on an agent
  framework (Google ADK). The development models the parts of the service that decide something: what a tool call may do, who
  may call what, what becomes of a turn, of a login and of the context of the model. Paths below are relative to
  \<open>src/agents/adk_cc\<close>.

  \<^bold>\<open>The program and how its parts interact.\<close> A client sends a message over HTTP. The identity service says who sends it
  (\<open>identity\<close>, \<open>service/auth.py\<close>), the policy decision point whether the route and the resource are open to that caller
  (\<open>authz\<close>), and the turn broker (\<open>service/turns.py\<close>) makes it a turn: a task that drives the framework to the end of the
  message. Before each call of the model the plugins shrink the request (\<open>plugins/microcompact.py\<close>,
  \<open>plugins/context_guard.py\<close>) and the endpoint registry chooses and paces the model (\<open>models\<close>). The arguments of a tool call are
  read tolerantly (\<open>plugins/tolerant_tool_json.py\<close>); before the tool runs, the permission plugin (\<open>plugins/permissions.py\<close>) asks
  the permission engine (\<open>permissions/engine.py\<close>), which rests on a shell parser, a classification of commands, rules, and the
  protected paths; the answer of the user comes back to the same plugin and may be stored as a rule
  (\<open>permissions/broadening.py\<close>). Plan mode is a mode of the engine that tools enter and leave, and tasks are a list the model
  keeps for itself.

  \<^bold>\<open>Theories, in the order of the code.\<close>
  \<^item> \<open>Prelude\<close>, \<open>PyText\<close>: Python strings, \<open>fnmatch\<close>, \<open>shlex\<close>, \<open>posixpath\<close>, dictionaries as association lists; the lemma
    collections. \<open>Host\<close>, \<open>Settings\<close>: what is read from the machine (record \<open>host\<close>) and the parsers of \<open>config/schema.py\<close>.
  \<^item> \<open>Splitter\<close> (a locale, interpreted by both splitters of commands), \<open>ShellParse\<close> (\<open>tools/bash/parse.py\<close>), \<open>ReadOnly\<close>
    (\<open>tools/bash/readonly.py\<close>), \<open>CommandSafety\<close> (\<open>permissions/command_safety.py\<close>), \<open>Rules\<close> (\<open>permissions/modes.py\<close>,
    \<open>rules.py\<close>, \<open>settings.py\<close>), \<open>Protected\<close> (\<open>permissions/protected.py\<close>), \<open>Broadening\<close>, \<open>Workspace\<close>
    (\<open>sandbox/workspace.py\<close>, \<open>sandbox/config.py\<close>), \<open>Engine\<close> (\<open>permissions/engine.py\<close>: \<open>decide_impl\<close> is the code's ladder of
    steps, \<open>outcome\<close> over \<open>facts_of\<close> the table it is proved to implement), \<open>PermissionPlugin\<close> (the callback before a tool, its prompts, the
    answers and the gates of scope, skill and sub-agent).
  \<^item> \<open>Authz\<close> (\<open>authz\<close> and its two enforcement points), \<open>Passwords\<close>, \<open>AuthLimits\<close>, \<open>IdStore\<close>, \<open>Identity\<close>
    (\<open>identity\<close>, with \<open>service/auth.py\<close>), \<open>Accounts\<close> and \<open>Sessions\<close> (what these guarantee of accounts and of credentials).
  \<^item> \<open>Tasks\<close> (\<open>tasks\<close>, \<open>tools/task\<close>), \<open>PlanMode\<close> (the tools of plan mode, \<open>AdkCcTool.run_async\<close>, \<open>plugins/plan_mode.py\<close>,
    in one session with the permission plugin).
  \<^item> \<open>Models\<close> (\<open>models\<close>: endpoints, pacing, retries), \<open>Turns\<close> (\<open>service/turns.py\<close>, \<open>turn_routes.py\<close>: the task as a step
    relation on the phases between two awaits, the broker as a step relation over all turns).
  \<^item> \<open>ToolJson\<close> (the decoder of the standard library and the repairs), \<open>Context\<close> (token counting, summaries of results,
    rewriting of requests, parked calls), \<open>Guard\<close> (the ladder of limits, the correction, the reject line, compaction).
  \<^item> \<open>FileSessions\<close> (\<open>service/file_session_service.py\<close>: the sessions of the desktop as files of lines, refining a map from sessions to
    conversations), \<open>Processes\<close> (\<open>sandbox/process_registry.py\<close> and \<open>tools/processes.py\<close>: the processes that outlive a turn).

  \<^bold>\<open>How state and operations correspond.\<close> A class with fields is a record with the fields' names behind a short prefix (\<open>u_\<close>
  for \<open>Turn\<close>, \<open>s_\<close> for \<open>IdentityService\<close>, \<open>ss_\<close> for \<open>result_summaries\<close>); a method is a function from its arguments and
  the state to its result and the new state; an exception is a constructor of an error datatype or \<open>None\<close>; a dictionary is an
  association list in the order of Python, or a map where order does not matter. Strings are lists of \<open>char\<close> (Latin-1), and
  lists of code points in \<open>Context\<close> and \<open>Guard\<close>. Bytes are \<open>8 word\<close>. A float is a rational number.

  \<^bold>\<open>What the lemmas show.\<close> Of permissions: the engine implements its table; a deny rule, a secret path, plan mode and the danger
  floor cannot be got round by modes and grants; what runs was allowed by a rule, a mode or the user. Of access: a caller reaches
  only what is granted; addresses stay unique; an organisation keeps an administrator; refresh tokens, reset links, keys and
  lockouts do what they are for. Of turns: one turn per session, every message is answered or follows up, the task ends, an
  abort leaves no call open, every subscriber sees every event once. Of the model's output and context: nothing cut inside a
  string is ever run, a cut call is completed exactly, a request loses only what is no longer in use, a rejected request has
  nothing left to lose, parked calls are never compacted away, a session that is too big is always compacted. Of what is kept: the files of sessions are
  conversations, a deleted session stays deleted, a rewind undoes a whole turn, a running process is never lost sight of, and the record
  of a command does not depend on the secrets it sets.
  \<open>Splitter\<close>, \<open>Tasks\<close>, \<open>ToolJson\<close> and others state such contracts as locales and interpret them on the code's own definitions.

  \<^bold>\<open>Bounds and fuel.\<close> The JSON decoder has fuel \<open>2 * length + 2\<close>, enough by \<open>json_fuel_enough\<close>. The bound of 100 attempts to
  enqueue and of three rounds of a turn is the code's. Everything else terminates by structure or by a measure, and the task of a turn
  is proved to end under any choice of the framework.

  \<^bold>\<open>Parameters.\<close> The file system (\<open>realpath\<close>, \<open>expanduser\<close>, existence), the environment, clocks, random tokens, scrypt, SHA-256,
  signatures, the model and the framework are arguments; a theorem holds for all of them unless it names what it needs.

  \<^bold>\<open>Not modelled.\<close> Texts shown to the user or the model, logging and audit events; the assembly of agents from the settings;
  the drivers of sandboxes, of remote services and of the artifact store; the routes that only decode a request; skills, memory
  and wiki, whose work is done by calls of a model; the desktop service's file and git operations; threads (the code between
  two awaits is one step). The web client and the desktop shell are in other languages.
\<close>

end
